(* ===== verification/Egress_Prelude.thy ===== *)
theory Egress_Prelude
  imports Complex_Main "HOL-Library.Word" "HOL-Library.Multiset" "HOL-Library.Sublist"
begin

text \<open>
  The shared vocabulary of the development: machine integers with Rust's saturating
  operations, instants and durations, ASCII text, and the generic list lemmas the
  component theories use.

  \<^item> \<open>u8\<close>, \<open>u16\<close>, \<open>u32\<close>, \<open>u64\<close> are words of that width. \<open>sat_sub\<close>, \<open>sat_add\<close> and
    \<open>sat_mul\<close> are Rust's \<^verbatim>\<open>saturating_*\<close>.
  \<^item> An instant is the number of nanoseconds since an arbitrary origin and a duration is a
    number of nanoseconds, both \<open>nat\<close>: \<^verbatim>\<open>saturating_duration_since\<close> is then the truncating
    subtraction of \<open>nat\<close>.
  \<^item> \<open>f64\<close> and \<open>f32\<close> values are real numbers: rounding and the special values of IEEE 754 are
    not modelled, and \<^verbatim>\<open>total_cmp\<close> is the order of the reals.
  \<^item> Text is a list of characters (bytes); \<open>to_ascii_lowercase\<close> works on every byte.
\<close>

named_theorems sat_simps \<open>reading the saturating operations through \<open>unat\<close>\<close>

section \<open>Machine integers\<close>

type_synonym u8 = "8 word"
type_synonym u16 = "16 word"
type_synonym u32 = "32 word"
type_synonym u64 = "64 word"

definition sat_sub :: "'a::len word \<Rightarrow> 'a word \<Rightarrow> 'a word" where
  "sat_sub a b = (if a < b then 0 else a - b)"

definition sat_add :: "'a::len word \<Rightarrow> 'a word \<Rightarrow> 'a word" where
  "sat_add a b = (if unat a + unat b < 2 ^ LENGTH('a) then a + b else - 1)"

definition sat_mul :: "'a::len word \<Rightarrow> 'a word \<Rightarrow> 'a word" where
  "sat_mul a b = (if unat a * unat b < 2 ^ LENGTH('a) then a * b else - 1)"

section \<open>Instants and durations\<close>

type_synonym instant = nat
type_synonym duration = nat

definition from_millis :: "nat \<Rightarrow> duration" where
  "from_millis n = n * 1000000"

definition from_secs :: "nat \<Rightarrow> duration" where
  "from_secs n = n * 1000000000"

definition as_secs :: "duration \<Rightarrow> nat" where
  "as_secs d = d div 1000000000"

definition as_millis :: "duration \<Rightarrow> nat" where
  "as_millis d = d div 1000000"

definition as_secs_f64 :: "duration \<Rightarrow> real" where
  "as_secs_f64 d = real d / 1000000000"

section \<open>Text\<close>

definition to_ascii_lower_char :: "char \<Rightarrow> char" where
  "to_ascii_lower_char c =
     (let n = of_char c :: nat in if 65 \<le> n \<and> n \<le> 90 then char_of (n + 32) else c)"

definition to_ascii_lowercase :: "string \<Rightarrow> string" where
  "to_ascii_lowercase s = map to_ascii_lower_char s"

definition eq_ignore_ascii_case :: "string \<Rightarrow> string \<Rightarrow> bool" where
  "eq_ignore_ascii_case a b \<longleftrightarrow> to_ascii_lowercase a = to_ascii_lowercase b"

definition ends_with :: "'a list \<Rightarrow> 'a list \<Rightarrow> bool" where
  "ends_with s t \<longleftrightarrow> length t \<le> length s \<and> drop (length s - length t) s = t"

definition trim_end_matches :: "char \<Rightarrow> string \<Rightarrow> string" where
  "trim_end_matches c s = rev (dropWhile (\<lambda>x. x = c) (rev s))"

fun split_on :: "char \<Rightarrow> string \<Rightarrow> string list" where
  "split_on c [] = [[]]"
| "split_on c (x # xs) =
     (if x = c then [] # split_on c xs
      else (case split_on c xs of [] \<Rightarrow> [[x]] | p # ps \<Rightarrow> (x # p) # ps))"

section \<open>Saturating operations through \<open>unat\<close>\<close>

lemma unat_sat_sub [sat_simps]: "unat (sat_sub a b) = unat a - unat b"
  by (auto simp: sat_sub_def word_less_nat_alt unat_sub_if')

lemma unat_minus_one_max: "unat (- 1 :: 'a::len word) = 2 ^ LENGTH('a) - 1"
  by (simp add: unsigned_minus_1_eq_mask mask_eq_exp_minus_1)

lemma unat_sat_add [sat_simps]:
  "unat (sat_add a (b::'a::len word)) = min (unat a + unat b) (2 ^ LENGTH('a) - 1)"
proof -
  have "unat (- 1 :: 'a word) = 2 ^ LENGTH('a) - 1"
    by (rule unat_minus_one_max)
  then show ?thesis
    by (auto simp: sat_add_def unat_word_ariths min_def)
qed

lemma unat_sat_mul [sat_simps]:
  "unat (sat_mul a (b::'a::len word)) = min (unat a * unat b) (2 ^ LENGTH('a) - 1)"
proof (cases "unat a * unat b < 2 ^ LENGTH('a)")
  case True
  then show ?thesis by (auto simp: sat_mul_def unat_word_ariths min_def)
next
  case False
  then have "min (unat a * unat b) (2 ^ LENGTH('a) - 1) = 2 ^ LENGTH('a) - 1" by linarith
  with False show ?thesis by (simp add: sat_mul_def unat_minus_one_max del: One_nat_def)
qed

lemma sat_sub_le [simp]: "sat_sub a b \<le> a"
  by (simp add: word_le_nat_alt sat_simps)

lemma sat_sub_zero_iff: "sat_sub a b = 0 \<longleftrightarrow> a \<le> b"
  by (auto simp: unat_eq_zero [symmetric] sat_simps word_le_nat_alt)

lemma sat_sub_0 [simp]: "sat_sub a 0 = a"
  by (simp add: sat_sub_def)

lemma unat_min: "unat (min a b) = min (unat a) (unat b)"
  by (simp add: min_def word_le_nat_alt)

lemma unat_less_pow: "unat (w :: 'a::len word) < 2 ^ LENGTH('a)"
  by (rule unsigned_less)

lemma unat_ucast_mod:
  "unat (ucast (x :: 'a::len word) :: 'b::len word) = unat x mod 2 ^ LENGTH('b)"
  by (simp only: unsigned_ucast_eq unsigned_take_bit_eq take_bit_eq_mod)

lemma unat_drop_bit_div: "unat (drop_bit n (w :: 'a::len word)) = unat w div 2 ^ n"
  by (simp only: unat_drop_bit_eq) (simp add: drop_bit_eq_div)

section \<open>Text\<close>

lemma to_ascii_lower_char_idem [simp]:
  "to_ascii_lower_char (to_ascii_lower_char c) = to_ascii_lower_char c"
proof (cases "65 \<le> (of_char c :: nat) \<and> (of_char c :: nat) \<le> 90")
  case True
  then have "of_char (char_of (of_char c + 32 :: nat)) = (of_char c + 32 :: nat)"
    by simp
  with True show ?thesis
    by (simp add: to_ascii_lower_char_def Let_def)
next
  case False
  then show ?thesis by (auto simp: to_ascii_lower_char_def Let_def)
qed

lemma to_ascii_lower_char_dot [simp]: "to_ascii_lower_char CHR ''.'' = CHR ''.''"
  by (simp add: to_ascii_lower_char_def)

lemma to_ascii_lower_char_eq_dot [simp]:
  "to_ascii_lower_char c = CHR ''.'' \<longleftrightarrow> c = CHR ''.''"
proof (cases "65 \<le> (of_char c :: nat) \<and> (of_char c :: nat) \<le> 90")
  case True
  have up: "of_char (char_of (of_char c + 32 :: nat)) = (of_char c + 32 :: nat)"
    using True by simp
  have dot: "(of_char CHR ''.'' :: nat) = 46" by simp
  have "to_ascii_lower_char c \<noteq> CHR ''.''"
  proof
    assume "to_ascii_lower_char c = CHR ''.''"
    with True have "char_of (of_char c + 32 :: nat) = CHR ''.''"
      by (simp add: to_ascii_lower_char_def Let_def)
    with up dot have "(of_char c + 32 :: nat) = 46" by metis
    with True show False by simp
  qed
  moreover have "c \<noteq> CHR ''.''" using True dot by auto
  ultimately show ?thesis by simp
next
  case False
  then show ?thesis by (auto simp: to_ascii_lower_char_def Let_def)
qed

lemma to_ascii_lowercase_idem [simp]:
  "to_ascii_lowercase (to_ascii_lowercase s) = to_ascii_lowercase s"
  by (simp add: to_ascii_lowercase_def)

lemma length_to_ascii_lowercase [simp]: "length (to_ascii_lowercase s) = length s"
  by (simp add: to_ascii_lowercase_def)

lemma to_ascii_lowercase_append [simp]:
  "to_ascii_lowercase (s @ t) = to_ascii_lowercase s @ to_ascii_lowercase t"
  by (simp add: to_ascii_lowercase_def)

lemma to_ascii_lowercase_Nil [simp]: "to_ascii_lowercase [] = []"
  by (simp add: to_ascii_lowercase_def)

lemma ends_with_suffix: "ends_with s t \<longleftrightarrow> suffix t s"
proof
  assume "ends_with s t"
  then show "suffix t s"
    unfolding ends_with_def suffix_def by (metis append_take_drop_id)
next
  assume "suffix t s"
  then show "ends_with s t"
    by (auto simp: ends_with_def suffix_def)
qed

lemma ends_with_append [simp]: "ends_with (a @ t) t"
  by (auto simp: ends_with_suffix suffix_def)

lemma split_on_nonempty [simp]: "split_on c s \<noteq> []"
  by (induction s) (auto split: list.split)

lemma split_on_append: "split_on c (p @ c # s) = split_on c p @ split_on c s"
  by (induction p) (auto split: list.split)

lemma split_on_inj: "split_on c s = split_on c t \<Longrightarrow> s = t"
proof (induction s arbitrary: t)
  case Nil
  then show ?case by (cases t) (auto split: list.splits if_splits)
next
  case (Cons x xs)
  show ?case
  proof (cases t)
    case Nil
    with Cons.prems show ?thesis by (auto split: list.splits if_splits)
  next
    case (Cons y ys)
    obtain p ps where p: "split_on c xs = p # ps" using split_on_nonempty by (meson neq_Nil_conv)
    obtain q qs where q: "split_on c ys = q # qs" using split_on_nonempty by (meson neq_Nil_conv)
    show ?thesis
      using Cons.prems Cons.IH [of ys] by (auto simp: Cons p q split: if_splits)
  qed
qed

section \<open>Systems with an invariant\<close>

text \<open>
  The contract a stateful component offers: what holds initially and is kept by every step holds
  in every reachable state. Components interpret it with their own step relation and invariant.
\<close>

locale invariant_system =
  fixes init :: "'s \<Rightarrow> bool"
    and step :: "'s \<Rightarrow> 's \<Rightarrow> bool"
    and inv :: "'s \<Rightarrow> bool"
  assumes inv_init: "init s \<Longrightarrow> inv s"
    and inv_step: "inv s \<Longrightarrow> step s s' \<Longrightarrow> inv s'"
begin

lemma inv_steps: "step\<^sup>*\<^sup>* s t \<Longrightarrow> inv s \<Longrightarrow> inv t"
  by (induction rule: rtranclp_induct) (auto intro: inv_step)

lemma reachable_inv: "init s \<Longrightarrow> step\<^sup>*\<^sup>* s t \<Longrightarrow> inv t"
  by (rule inv_steps) (auto intro: inv_init)

end

end
