(* ===== verification/Bytes.thy ===== *)
theory Bytes
  imports Egress_Prelude
begin

unbundle bit_operations_syntax

text \<open>
  Byte-level helpers: \<^verbatim>\<open>util/mod.rs\<close> and the parts of the standard library it and the wire
  code use (big- and little-endian integers, UTF-8).

  A Rust \<^verbatim>\<open>str\<close> whose characters matter is a list of Unicode scalar values (\<open>ustring\<close>);
  \<open>utf8_encode\<close> is its byte representation (\<^verbatim>\<open>str::as_bytes\<close>) and \<open>utf8_lossy\<close> is
  \<^verbatim>\<open>String::from_utf8_lossy\<close>, which replaces each maximal invalid sequence by U+FFFD. Both
  produce bytes.
\<close>

section \<open>Definitions\<close>

type_synonym bytes = "u8 list"
type_synonym ustring = "nat list"

definition u16_to_be_bytes :: "u16 \<Rightarrow> bytes" where
  "u16_to_be_bytes w = [ucast (drop_bit 8 w), ucast w]"

definition u16_from_be_bytes :: "u8 \<Rightarrow> u8 \<Rightarrow> u16" where
  "u16_from_be_bytes a b = push_bit 8 (ucast a) OR ucast b"

definition u64_to_le_bytes :: "u64 \<Rightarrow> bytes" where
  "u64_to_le_bytes w = map (\<lambda>i. ucast (drop_bit (8 * i) w)) [0..<8]"

text \<open>\<^verbatim>\<open>fnv1a64\<close>: 64-bit FNV-1a, with the multiplication wrapping.\<close>

definition fnv_step :: "u8 \<Rightarrow> u64 \<Rightarrow> u64" where
  "fnv_step b hash = (hash XOR ucast b) * 0x100000001b3"

definition fnv1a64 :: "bytes \<Rightarrow> u64" where
  "fnv1a64 data = fold fnv_step data 0xcbf29ce484222325"

definition hex_digit :: "nat \<Rightarrow> char" where
  "hex_digit n = ''0123456789abcdef'' ! n"

definition hex_encode :: "bytes \<Rightarrow> string" where
  "hex_encode bs = concat (map (\<lambda>b. [hex_digit (unat b div 16), hex_digit (unat b mod 16)]) bs)"

definition bounded :: "ustring \<Rightarrow> nat \<Rightarrow> ustring" where
  "bounded s max_chars =
     (if length s \<le> max_chars then s else take max_chars s @ [0x2026])"

definition is_scalar :: "nat \<Rightarrow> bool" where
  "is_scalar c \<longleftrightarrow> c < 0xd800 \<or> (0xe000 \<le> c \<and> c < 0x110000)"

definition utf8_char :: "nat \<Rightarrow> bytes" where
  "utf8_char c = map of_nat
     (if c < 0x80 then [c]
      else if c < 0x800 then [0xc0 + c div 64, 0x80 + c mod 64]
      else if c < 0x10000 then [0xe0 + c div 4096, 0x80 + c div 64 mod 64, 0x80 + c mod 64]
      else [0xf0 + c div 262144, 0x80 + c div 4096 mod 64, 0x80 + c div 64 mod 64,
            0x80 + c mod 64])"

definition utf8_encode :: "ustring \<Rightarrow> bytes" where
  "utf8_encode s = concat (map utf8_char s)"

definition is_cont :: "u8 \<Rightarrow> bool" where
  "is_cont b \<longleftrightarrow> 0x80 \<le> unat b \<and> unat b < 0xc0"

text \<open>The bytes of the leading valid sequence, or how many bytes one replacement stands for.\<close>

definition second_ok :: "u8 \<Rightarrow> u8 \<Rightarrow> bool" where
  "second_ok a b =
     (let x = unat a; y = unat b in
      if x = 0xe0 then 0xa0 \<le> y \<and> y < 0xc0
      else if x = 0xed then 0x80 \<le> y \<and> y < 0xa0
      else if x = 0xf0 then 0x90 \<le> y \<and> y < 0xc0
      else if x = 0xf4 then 0x80 \<le> y \<and> y < 0x90
      else is_cont b)"

fun utf8_head :: "bytes \<Rightarrow> bool \<times> nat" where
  "utf8_head [] = (True, 0)"
| "utf8_head (a # rest) =
     (let x = unat a; nth0 = (\<lambda>i. if i < length rest then rest ! i else 0) in
      if x < 0x80 then (True, 1)
      else if 0xc2 \<le> x \<and> x < 0xe0 then (if is_cont (nth0 0) then (True, 2) else (False, 1))
      else if 0xe0 \<le> x \<and> x < 0xf0 then
        (if \<not> second_ok a (nth0 0) then (False, 1)
         else if \<not> is_cont (nth0 1) then (False, 2) else (True, 3))
      else if 0xf0 \<le> x \<and> x < 0xf5 then
        (if \<not> second_ok a (nth0 0) then (False, 1)
         else if \<not> is_cont (nth0 1) then (False, 2)
         else if \<not> is_cont (nth0 2) then (False, 3) else (True, 4))
      else (False, 1))"

lemma utf8_head_pos: "utf8_head (a # rest) = (ok, n) \<Longrightarrow> 0 < n"
  by (auto simp: Let_def split: if_splits)

function utf8_lossy :: "bytes \<Rightarrow> bytes" where
  "utf8_lossy [] = []"
| "utf8_lossy (a # rest) =
     (case utf8_head (a # rest) of (ok, n) \<Rightarrow>
        (if ok then take n (a # rest) else [0xef, 0xbf, 0xbd]) @
        utf8_lossy (drop n (a # rest)))"
  by pat_completeness auto
termination
  by (relation "measure length") (auto dest!: utf8_head_pos [OF sym] simp del: utf8_head.simps)

declare utf8_head.simps(2) [simp del]

section \<open>Lemmas\<close>

lemma u16_be_round: "u16_from_be_bytes (u16_to_be_bytes w ! 0) (u16_to_be_bytes w ! 1) = w"
proof (rule bit_word_eqI)
  fix n assume n: "n < LENGTH(16)"
  show "bit (u16_from_be_bytes (u16_to_be_bytes w ! 0) (u16_to_be_bytes w ! 1)) n = bit w n"
  proof (cases "n < 8")
    case True
    then show ?thesis
      by (simp add: u16_from_be_bytes_def u16_to_be_bytes_def bit_simps)
  next
    case False
    with n show ?thesis
      by (auto simp: u16_from_be_bytes_def u16_to_be_bytes_def bit_simps)
  qed
qed

lemma length_u16_to_be_bytes [simp]: "length (u16_to_be_bytes w) = 2"
  by (simp add: u16_to_be_bytes_def)

lemma length_bounded: "length (bounded s n) \<le> n + 1"
  by (simp add: bounded_def)

lemma length_utf8_char: "length (utf8_char c) \<le> 4"
  by (simp add: utf8_char_def)

lemma length_utf8_encode: "length (utf8_encode s) \<le> 4 * length s"
proof (induction s)
  case Nil
  then show ?case by (simp add: utf8_encode_def)
next
  case (Cons c s)
  with length_utf8_char [of c] show ?case by (simp add: utf8_encode_def)
qed

lemma length_bounded_utf8: "length (utf8_encode (bounded s n)) \<le> 4 * n + 4"
  using length_utf8_encode [of "bounded s n"] length_bounded [of s n] by linarith

lemma unat_of_nat_u8: "n < 256 \<Longrightarrow> unat (of_nat n :: u8) = n"
  by (simp add: unat_of_nat take_bit_nat_eq_self)

lemma utf8_lossy_step:
  assumes "utf8_head (xs @ ys) = (True, length xs)" and "xs \<noteq> []"
  shows "utf8_lossy (xs @ ys) = xs @ utf8_lossy ys"
proof -
  obtain a rest where ar: "xs @ ys = a # rest" using assms(2) by (cases xs) auto
  have "utf8_lossy (xs @ ys) =
      (case utf8_head (xs @ ys) of (ok, n) \<Rightarrow>
        (if ok then take n (xs @ ys) else [0xef, 0xbf, 0xbd]) @ utf8_lossy (drop n (xs @ ys)))"
    unfolding ar by (rule utf8_lossy.simps(2))
  with assms(1) show ?thesis by simp
qed

lemma utf8_head_1: "x < 0x80 \<Longrightarrow> utf8_head ([of_nat x] @ ys) = (True, 1)"
  by (simp add: utf8_head.simps unat_of_nat_u8)

lemma utf8_head_2:
  assumes "0xc2 \<le> x" "x < 0xe0" "0x80 \<le> y" "y < 0xc0"
  shows "utf8_head ([of_nat x, of_nat y] @ ys) = (True, 2)"
proof -
  have "unat (of_nat x :: u8) = x" "unat (of_nat y :: u8) = y"
    using assms by (simp_all add: unat_of_nat_u8)
  with assms show ?thesis by (simp add: utf8_head.simps is_cont_def)
qed

lemma utf8_head_3:
  assumes "0xe0 \<le> x" "x < 0xf0" "0x80 \<le> y" "y < 0xc0" "0x80 \<le> z" "z < 0xc0"
    and "x = 0xe0 \<Longrightarrow> 0xa0 \<le> y" and "x = 0xed \<Longrightarrow> y < 0xa0"
  shows "utf8_head ([of_nat x, of_nat y, of_nat z] @ ys) = (True, 3)"
proof -
  have u: "unat (of_nat x :: u8) = x" "unat (of_nat y :: u8) = y" "unat (of_nat z :: u8) = z"
    using assms by (simp_all add: unat_of_nat_u8)
  have "second_ok (of_nat x) (of_nat y)"
    using assms by (simp add: second_ok_def Let_def is_cont_def u)
  moreover have "is_cont (of_nat z)" using assms by (simp add: is_cont_def u)
  ultimately show ?thesis using assms by (simp add: utf8_head.simps u)
qed

lemma utf8_head_4:
  assumes "0xf0 \<le> x" "x < 0xf5" "0x80 \<le> y" "y < 0xc0" "0x80 \<le> z" "z < 0xc0"
    and "0x80 \<le> w" "w < 0xc0" and "x = 0xf0 \<Longrightarrow> 0x90 \<le> y" and "x = 0xf4 \<Longrightarrow> y < 0x90"
  shows "utf8_head ([of_nat x, of_nat y, of_nat z, of_nat w] @ ys) = (True, 4)"
proof -
  have u: "unat (of_nat x :: u8) = x" "unat (of_nat y :: u8) = y" "unat (of_nat z :: u8) = z"
    "unat (of_nat w :: u8) = w"
    using assms by (simp_all add: unat_of_nat_u8)
  have "second_ok (of_nat x) (of_nat y)"
    using assms by (simp add: second_ok_def Let_def is_cont_def u)
  moreover have "is_cont (of_nat z)" "is_cont (of_nat w)"
    using assms by (simp_all add: is_cont_def u)
  ultimately show ?thesis using assms by (simp add: utf8_head.simps u)
qed

lemma split3: "c = 4096 * (c div 4096) + 64 * (c div 64 mod 64) + c mod (64 :: nat)"
proof -
  have "c div 64 = 64 * (c div 64 div 64) + c div 64 mod 64" by simp
  moreover have "c div 64 div 64 = c div 4096" by (simp add: div_mult2_eq [symmetric])
  moreover have "c = 64 * (c div 64) + c mod 64" by simp
  ultimately show ?thesis by linarith
qed

lemma split4:
  "c = 262144 * (c div 262144) + 4096 * (c div 4096 mod 64) + 64 * (c div 64 mod 64)
     + c mod (64 :: nat)"
proof -
  have "c div 4096 = 64 * (c div 4096 div 64) + c div 4096 mod 64" by simp
  moreover have "c div 4096 div 64 = c div 262144" by (simp add: div_mult2_eq [symmetric])
  ultimately show ?thesis using split3 [of c] by linarith
qed

lemma utf8_head_char:
  assumes "is_scalar c"
  shows "utf8_head (utf8_char c @ ys) = (True, length (utf8_char c))"
proof -
  have c: "c < 0x110000" using assms by (auto simp: is_scalar_def)
  consider "c < 0x80" | "0x80 \<le> c" "c < 0x800" | "0x800 \<le> c" "c < 0x10000" | "0x10000 \<le> c"
    by linarith
  then show ?thesis
  proof cases
    case 1
    then show ?thesis using utf8_head_1 [of c ys] by (simp add: utf8_char_def)
  next
    case 2
    have "c = 64 * (c div 64) + c mod 64" "c mod 64 < 64" by simp_all
    with 2 have "2 \<le> c div 64" "c div 64 < 32" by linarith+
    with 2 show ?thesis
      using utf8_head_2 [of "0xc0 + c div 64" "0x80 + c mod 64" ys] by (simp add: utf8_char_def)
  next
    case 3
    have m: "c mod 64 < 64" "c div 64 mod 64 < 64" by simp_all
    have "c div 4096 = 0 \<Longrightarrow> 32 \<le> c div 64 mod 64" using 3 m split3 [of c] by linarith
    moreover have "c div 4096 = 13 \<Longrightarrow> c div 64 mod 64 < 32"
      using assms m split3 [of c] unfolding is_scalar_def by linarith
    moreover have "c div 4096 < 16" using 3 m split3 [of c] by linarith
    ultimately show ?thesis
      using 3 utf8_head_3 [of "0xe0 + c div 4096" "0x80 + c div 64 mod 64" "0x80 + c mod 64" ys]
      by (simp add: utf8_char_def)
  next
    case 4
    have m: "c mod 64 < 64" "c div 64 mod 64 < 64" "c div 4096 mod 64 < 64" by simp_all
    have "c div 262144 = 0 \<Longrightarrow> 16 \<le> c div 4096 mod 64" using 4 m split4 [of c] by linarith
    moreover have "c div 262144 = 4 \<Longrightarrow> c div 4096 mod 64 < 16" using c m split4 [of c] by linarith
    moreover have "c div 262144 < 5" using c m split4 [of c] by linarith
    ultimately show ?thesis
      using 4 utf8_head_4 [of "0xf0 + c div 262144" "0x80 + c div 4096 mod 64"
          "0x80 + c div 64 mod 64" "0x80 + c mod 64" ys]
      by (simp add: utf8_char_def)
  qed
qed

lemma utf8_char_nonempty [simp]: "utf8_char c \<noteq> []"
  by (simp add: utf8_char_def)

text \<open>Text that is already valid UTF-8 survives the lossy conversion unchanged.\<close>

lemma utf8_lossy_encode:
  "list_all is_scalar s \<Longrightarrow> utf8_lossy (utf8_encode s) = utf8_encode s"
proof (induction s)
  case Nil
  then show ?case by (simp add: utf8_encode_def)
next
  case (Cons c s)
  then show ?case
    using utf8_lossy_step [OF utf8_head_char utf8_char_nonempty, of c "utf8_encode s"]
    by (simp add: utf8_encode_def)
qed

lemma list_all_scalar_bounded:
  "list_all is_scalar s \<Longrightarrow> list_all is_scalar (bounded s n)"
  by (auto simp: bounded_def list_all_iff is_scalar_def dest: in_set_takeD)

end
