(* ===== verification/Der.thy ===== *)
theory Der
  imports Bytes "HOL-Library.Monad_Syntax"
begin

unbundle bit_operations_syntax

text \<open>
  The DER walker of \<^verbatim>\<open>util/der.rs\<close>, which reads two facts from a certificate that has already
  been verified: the SHA-256 of its public key info and its issuer's common name.

  A \<open>reader\<close> is a buffer and a position; \<open>read_tlv\<close> returns \<open>None\<close> where the source returns
  \<^verbatim>\<open>None\<close>, and otherwise the element and the advanced reader. Positions and lengths are
  \<^verbatim>\<open>usize\<close> values of a 64-bit target: \<open>usize_add\<close> is \<^verbatim>\<open>checked_add\<close>, and the left shift drops
  the bits above 64. SHA-256 is the \<^verbatim>\<open>ring\<close> crate's, so \<open>spki_sha256\<close> takes it as an argument.
\<close>

section \<open>Definitions\<close>

record reader =
  rd_buf :: bytes
  rd_pos :: nat

record tlv =
  tlv_tag :: u8
  tlv_value :: bytes
  tlv_raw :: bytes

definition MAX_DEPTH :: nat where
  "MAX_DEPTH = 12"

definition reader_new :: "bytes \<Rightarrow> reader" where
  "reader_new buf = \<lparr>rd_buf = buf, rd_pos = 0\<rparr>"

definition reader_is_empty :: "reader \<Rightarrow> bool" where
  "reader_is_empty r = (length (rd_buf r) \<le> rd_pos r)"

definition usize_add :: "nat \<Rightarrow> nat \<Rightarrow> nat option" where
  "usize_add a b = (if a + b < 2 ^ 64 then Some (a + b) else None)"

definition buf_get :: "bytes \<Rightarrow> nat \<Rightarrow> u8 option" where
  "buf_get buf i = (if i < length buf then Some (buf ! i) else None)"

text \<open>The loop that accumulates the octets of a long-form length.\<close>

fun read_len :: "bytes \<Rightarrow> nat \<Rightarrow> nat \<Rightarrow> nat \<Rightarrow> (nat \<times> nat) option" where
  "read_len buf 0 pos v = Some (v, pos)"
| "read_len buf (Suc n) pos v = do {
     b \<leftarrow> buf_get buf pos;
     pos' \<leftarrow> usize_add pos 1;
     v' \<leftarrow> usize_add ((v * 256) mod 2 ^ 64) (unat b);
     read_len buf n pos' v'
   }"

definition length_octets :: "bytes \<Rightarrow> u8 \<Rightarrow> nat \<Rightarrow> (nat \<times> nat) option" where
  "length_octets buf first pos =
     (if first AND 0x80 = 0 then Some (unat first, pos)
      else let n = unat (first AND 0x7f) in
           if n = 0 \<or> 4 < n then None else read_len buf n pos 0)"

definition read_tlv :: "reader \<Rightarrow> (tlv \<times> reader) option" where
  "read_tlv r = do {
     let start = rd_pos r;
     tag \<leftarrow> buf_get (rd_buf r) start;
     pos1 \<leftarrow> usize_add start 1;
     (if tag AND 0x1f = 0x1f then None else do {
       first \<leftarrow> buf_get (rd_buf r) pos1;
       pos2 \<leftarrow> usize_add pos1 1;
       (len, pos3) \<leftarrow> length_octets (rd_buf r) first pos2;
       fin \<leftarrow> usize_add pos3 len;
       (if length (rd_buf r) < fin then None
        else Some (\<lparr>tlv_tag = tag,
                    tlv_value = take (fin - pos3) (drop pos3 (rd_buf r)),
                    tlv_raw = take (fin - start) (drop start (rd_buf r))\<rparr>,
                   r\<lparr>rd_pos := fin\<rparr>))
     })
   }"

text \<open>The field loops of \<^verbatim>\<open>spki_sha256\<close> and \<^verbatim>\<open>issuer_common_name\<close>: at most \<open>n\<close> elements.\<close>

fun read_fields :: "nat \<Rightarrow> reader \<Rightarrow> tlv list option" where
  "read_fields 0 r = Some []"
| "read_fields (Suc n) r =
     (if reader_is_empty r then Some []
      else do { (t, r') \<leftarrow> read_tlv r; ts \<leftarrow> read_fields n r'; Some (t # ts) })"

definition tbs_certificate :: "bytes \<Rightarrow> bytes option" where
  "tbs_certificate cert_der = do {
     (outer, _) \<leftarrow> read_tlv (reader_new cert_der);
     (if tlv_tag outer \<noteq> 0x30 then None else do {
       (tbs, _) \<leftarrow> read_tlv (reader_new (tlv_value outer));
       (if tlv_tag tbs \<noteq> 0x30 then None else Some (tlv_value tbs))
     })
   }"

definition nth_field :: "tlv list \<Rightarrow> nat \<Rightarrow> tlv option" where
  "nth_field ts i = (if i < length ts then Some (ts ! i) else None)"

definition has_version :: "tlv list \<Rightarrow> bool" where
  "has_version ts = (case ts of t # _ \<Rightarrow> tlv_tag t = 0xa0 | [] \<Rightarrow> False)"

definition spki_sha256 :: "(bytes \<Rightarrow> bytes) \<Rightarrow> bytes \<Rightarrow> bytes option" where
  "spki_sha256 sha256 cert_der = do {
     tbs \<leftarrow> tbs_certificate cert_der;
     fields \<leftarrow> read_fields 8 (reader_new tbs);
     spki \<leftarrow> nth_field fields (if has_version fields then 6 else 5);
     (if tlv_tag spki \<noteq> 0x30 then None else Some (sha256 (tlv_raw spki)))
   }"

definition OID_COMMON_NAME :: bytes where
  "OID_COMMON_NAME = [0x55, 0x04, 0x03]"

definition is_text_tag :: "u8 \<Rightarrow> bool" where
  "is_text_tag t \<longleftrightarrow> t = 0x13 \<or> t = 0x0c \<or> t = 0x16 \<or> t = 0x14 \<or> t = 0x1e"

lemma read_len_pos:
  "read_len buf n pos v = Some (w, pos') \<Longrightarrow> pos' = pos + n"
  by (induction n arbitrary: pos v)
    (fastforce simp: usize_add_def split: Option.bind_splits if_splits)+

lemma length_octets_pos:
  "length_octets buf first pos = Some (w, pos') \<Longrightarrow> pos \<le> pos' \<and> pos' \<le> pos + 4"
  by (auto simp: length_octets_def Let_def dest!: read_len_pos split: if_splits)

lemma read_tlv_SomeE:
  assumes "read_tlv r = Some (t, r')"
  obtains pos3 len where
    "rd_pos r + 2 \<le> pos3" "pos3 \<le> rd_pos r + 6" "pos3 + len \<le> length (rd_buf r)"
    "r' = r\<lparr>rd_pos := pos3 + len\<rparr>"
    "tlv_value t = take len (drop pos3 (rd_buf r))"
    "tlv_raw t = take (pos3 + len - rd_pos r) (drop (rd_pos r) (rd_buf r))"
    "tlv_tag t = rd_buf r ! rd_pos r"
proof -
  from assms obtain len pos3 where lo:
      "length_octets (rd_buf r) (rd_buf r ! (rd_pos r + 1)) (rd_pos r + 2) = Some (len, pos3)"
    and "pos3 + len \<le> length (rd_buf r)" "r' = r\<lparr>rd_pos := pos3 + len\<rparr>"
    "t = \<lparr>tlv_tag = rd_buf r ! rd_pos r, tlv_value = take len (drop pos3 (rd_buf r)),
         tlv_raw = take (pos3 + len - rd_pos r) (drop (rd_pos r) (rd_buf r))\<rparr>"
    by (auto simp: read_tlv_def Let_def usize_add_def buf_get_def
        split: Option.bind_splits if_splits)
  with that [of pos3 len] length_octets_pos [OF lo] show thesis by simp
qed

text \<open>
  \<^verbatim>\<open>find_common_name\<close>: the loop over the elements of one buffer and its recursion into
  constructed elements are one function of the depth, the reader and \<^verbatim>\<open>last_oid_was_cn\<close>; both
  calls look at fewer bytes.
\<close>

function cn_loop :: "nat \<Rightarrow> reader \<Rightarrow> bool \<Rightarrow> bytes option" where
  "cn_loop depth r last_oid_was_cn =
     (if reader_is_empty r then None
      else case read_tlv r of
        None \<Rightarrow> None
      | Some (t, r') \<Rightarrow>
          (if tlv_tag t = 0x06 then cn_loop depth r' (tlv_value t = OID_COMMON_NAME)
           else if is_text_tag (tlv_tag t) \<and> last_oid_was_cn then
             (let text = utf8_lossy (tlv_value t) in
              if text = [] \<or> 256 < length text then None else Some text)
           else if tlv_tag t = 0x30 \<or> tlv_tag t = 0x31 then
             (case (if MAX_DEPTH < depth + 1 then None
                    else cn_loop (depth + 1) (reader_new (tlv_value t)) False) of
                Some found \<Rightarrow> Some found
              | None \<Rightarrow> cn_loop depth r' last_oid_was_cn)
           else cn_loop depth r' False))"
  by pat_completeness auto
termination
  by (relation "measure (\<lambda>(depth, r, last). length (rd_buf r) - rd_pos r)")
    (auto elim!: read_tlv_SomeE simp: reader_is_empty_def reader_new_def)

declare cn_loop.simps [simp del]

definition find_common_name :: "bytes \<Rightarrow> nat \<Rightarrow> bytes option" where
  "find_common_name buf depth =
     (if MAX_DEPTH < depth then None else cn_loop depth (reader_new buf) False)"

definition issuer_common_name :: "bytes \<Rightarrow> bytes option" where
  "issuer_common_name cert_der = do {
     tbs \<leftarrow> tbs_certificate cert_der;
     fields \<leftarrow> read_fields 6 (reader_new tbs);
     issuer \<leftarrow> nth_field fields (if has_version fields then 3 else 2);
     find_common_name (tlv_value issuer) 0
   }"

section \<open>The reference encoding\<close>

text \<open>
  DER's definite-length encoding, for contents of less than $2^{32}$ octets: the short form up to
  127 octets, otherwise the number of length octets and the length in big-endian order.
\<close>

definition der_length :: "nat \<Rightarrow> bytes" where
  "der_length n =
     (if n < 0x80 then [of_nat n]
      else if n < 0x100 then [0x81, of_nat n]
      else if n < 0x10000 then [0x82, of_nat (n div 0x100), of_nat n]
      else if n < 0x1000000 then [0x83, of_nat (n div 0x10000), of_nat (n div 0x100), of_nat n]
      else [0x84, of_nat (n div 0x1000000), of_nat (n div 0x10000), of_nat (n div 0x100),
            of_nat n])"

definition der_encode :: "u8 \<Rightarrow> bytes \<Rightarrow> bytes" where
  "der_encode tag v = tag # der_length (length v) @ v"

section \<open>Lemmas\<close>

lemma buf_get_append [simp]: "buf_get (pre @ x # post) (length pre) = Some x"
  by (simp add: buf_get_def)

lemma unat_of_nat_mod: "unat (of_nat n :: u8) = n mod 256"
  by (simp add: unat_of_nat take_bit_eq_mod)

lemma read_len_append:
  assumes "(v + 1) * 256 ^ length bs \<le> 2 ^ 64" and "length (pre @ bs) < 2 ^ 64"
  shows "read_len (pre @ bs @ post) (length bs) (length pre) v =
    Some (foldl (\<lambda>v b. v * 256 + unat b) v bs, length (pre @ bs))"
  using assms
proof (induction bs arbitrary: pre v)
  case Nil
  then show ?case by simp
next
  case (Cons b bs)
  have b: "unat b < 256" using unsigned_less [of b] by simp
  have le: "(v * 256 + unat b + 1) * 256 ^ length bs \<le> 2 ^ 64"
  proof -
    have "(v * 256 + unat b + 1) * 256 ^ length bs \<le> ((v + 1) * 256) * 256 ^ length bs"
      using b by (intro mult_right_mono) auto
    also have "\<dots> = (v + 1) * 256 ^ length (b # bs)" by (simp only: length_Cons power_Suc mult.assoc)
    also have "\<dots> \<le> 2 ^ 64" by (rule Cons.prems(1))
    finally show ?thesis .
  qed
  have pow: "(1::nat) \<le> 256 ^ length bs" by simp
  have "v * 256 + unat b + 1 \<le> (v * 256 + unat b + 1) * 256 ^ length bs"
    using mult_le_mono2 [OF pow, of "v * 256 + unat b + 1"] by simp
  with le have fits: "v * 256 + unat b < 2 ^ 64" by linarith
  have "read_len ((pre @ [b]) @ bs @ post) (length bs) (length (pre @ [b])) (v * 256 + unat b) =
      Some (foldl (\<lambda>v b. v * 256 + unat b) (v * 256 + unat b) bs, length ((pre @ [b]) @ bs))"
    using Cons.prems(2) le by (intro Cons.IH) auto
  moreover have "usize_add (length pre) 1 = Some (length pre + 1)"
    using Cons.prems(2) by (simp add: usize_add_def)
  moreover have "usize_add (v * 256 mod 2 ^ 64) (unat b) = Some (v * 256 + unat b)"
    using fits by (simp add: usize_add_def)
  ultimately show ?case by simp
qed

lemma short_form_bit: "n < 128 \<Longrightarrow> (of_nat n :: u8) AND 0x80 = 0"
proof -
  have "list_all (\<lambda>n. (of_nat n :: u8) AND 0x80 = 0) [0..<128]" by code_simp
  then show "n < 128 \<Longrightarrow> (of_nat n :: u8) AND 0x80 = 0" by (simp add: list_all_iff)
qed

lemma length_octets_long:
  assumes "length ls = k" "1 \<le> k" "k \<le> 4" "length pre + 6 < 2 ^ 64" "first = of_nat (128 + k)"
  shows "length_octets (pre @ ls @ post) first (length pre) =
    Some (foldl (\<lambda>v b. v * 256 + unat b) 0 ls, length pre + k)"
proof -
  have "(0 + 1) * 256 ^ length ls \<le> (256 ^ 4 :: nat)"
    using assms power_increasing [of k 4 "256 :: nat"] by simp
  then have "read_len (pre @ ls @ post) k (length pre) 0 =
      Some (foldl (\<lambda>v b. v * 256 + unat b) 0 ls, length pre + k)"
    using read_len_append [of 0 ls pre post] assms(1-4) by simp
  moreover have "k = 1 \<or> k = 2 \<or> k = 3 \<or> k = 4" using assms by linarith
  ultimately show ?thesis using assms(5) by (auto simp: length_octets_def)
qed

lemma digit_step: "m div 256 * 256 + m mod 256 = (m :: nat)"
  by simp

lemma length_octets_der:
  assumes "n < 2 ^ 32" and "length pre + 6 < 2 ^ 64"
    and "der_length n = first # ls"
  shows "length_octets (pre @ ls @ post) first (length pre) = Some (n, length pre + length ls)"
proof -
  have d: "n div 0x100 div 256 = n div 0x10000" "n div 0x10000 div 256 = n div 0x1000000"
    by (simp_all add: div_mult2_eq [symmetric])
  have g: "n div 0x10000 * 256 + n div 0x100 mod 256 = n div 0x100"
    "n div 0x1000000 * 256 + n div 0x10000 mod 256 = n div 0x10000"
    using digit_step [of "n div 0x100"] digit_step [of "n div 0x10000"] by (simp_all only: d)
  note long = length_octets_long [OF _ _ _ assms(2), where ls = ls and first = first and post = post]
  consider "n < 0x80" | "0x80 \<le> n" "n < 0x100" | "0x100 \<le> n" "n < 0x10000"
    | "0x10000 \<le> n" "n < 0x1000000" | "0x1000000 \<le> n"
    by linarith
  then show ?thesis
  proof cases
    case 1
    with assms(3) short_form_bit [OF 1] show ?thesis
      by (auto simp: der_length_def length_octets_def unat_of_nat_mod)
  next
    case 2
    then have "first = of_nat (128 + 1)" "ls = [of_nat n]" "n mod 256 = n"
      using assms(3) by (auto simp: der_length_def)
    then show ?thesis using long [of 1] by (simp add: unat_of_nat_mod)
  next
    case 3
    then have "first = of_nat (128 + 2)" "ls = [of_nat (n div 0x100), of_nat n]"
      "n div 0x100 mod 256 = n div 0x100"
      using assms(3) by (auto simp: der_length_def)
    then show ?thesis using long [of 2] by (simp add: unat_of_nat_mod)
  next
    case 4
    then have "first = of_nat (128 + 3)"
      "ls = [of_nat (n div 0x10000), of_nat (n div 0x100), of_nat n]"
      "n div 0x10000 mod 256 = n div 0x10000"
      using assms(3) by (auto simp: der_length_def)
    then show ?thesis using long [of 3] by (simp add: unat_of_nat_mod g)
  next
    case 5
    then have "first = of_nat (128 + 4)"
      "ls = [of_nat (n div 0x1000000), of_nat (n div 0x10000), of_nat (n div 0x100), of_nat n]"
      "n div 0x1000000 mod 256 = n div 0x1000000"
      using assms(1,3) by (auto simp: der_length_def)
    then show ?thesis using long [of 4] by (simp add: unat_of_nat_mod g)
  qed
qed

lemma read_tlv_encode:
  assumes "tag AND 0x1f \<noteq> 0x1f" and "length v < 2 ^ 32"
    and "length (pre @ der_encode tag v @ post) < 2 ^ 63"
  shows "read_tlv \<lparr>rd_buf = pre @ der_encode tag v @ post, rd_pos = length pre\<rparr> =
    Some (\<lparr>tlv_tag = tag, tlv_value = v, tlv_raw = der_encode tag v\<rparr>,
          \<lparr>rd_buf = pre @ der_encode tag v @ post, rd_pos = length (pre @ der_encode tag v)\<rparr>)"
proof -
  obtain first ls where fl: "der_length (length v) = first # ls"
    by (cases "der_length (length v)") (auto simp: der_length_def split: if_splits)
  let ?buf = "pre @ der_encode tag v @ post"
  have buf: "?buf = (pre @ [tag, first]) @ ls @ (v @ post)"
    by (simp add: der_encode_def fl)
  have small: "length (pre @ [tag, first]) + 6 < 2 ^ 64"
    using assms(3) by (simp add: der_encode_def)
  have lo: "length_octets ?buf first (length pre + 2) = Some (length v, length pre + 2 + length ls)"
    unfolding buf
    using length_octets_der [OF assms(2) small fl, of "v @ post"] by simp
  have "buf_get ?buf (length pre) = Some tag" by (simp add: der_encode_def)
  moreover have "buf_get ?buf (length pre + 1) = Some first"
    by (simp add: der_encode_def fl buf_get_def nth_append)
  moreover have "usize_add (length pre) 1 = Some (length pre + 1)"
    "usize_add (length pre + 1) 1 = Some (length pre + 2)"
    using small by (simp_all add: usize_add_def)
  moreover have "usize_add (length pre + 2 + length ls) (length v) =
      Some (length (pre @ der_encode tag v))"
    using assms(3) by (simp add: usize_add_def der_encode_def fl)
  moreover have "length (pre @ der_encode tag v) - (length pre + 2 + length ls) = length v"
    "drop (length pre + 2 + length ls) ?buf = v @ post"
    "drop (length pre) ?buf = der_encode tag v @ post"
    by (simp_all add: der_encode_def fl)
  ultimately show ?thesis
    using assms(1) lo by (simp add: read_tlv_def)
qed

lemma cn_loop_bounds: "cn_loop depth r cn = Some s \<Longrightarrow> s \<noteq> [] \<and> length s \<le> 256"
proof (induction depth r cn arbitrary: s rule: cn_loop.induct)
  case (1 depth r cn)
  obtain t r' where tr: "read_tlv r = Some (t, r')" and ne: "\<not> reader_is_empty r"
    using 1(5) by (subst (asm) cn_loop.simps) (auto split: if_splits option.splits)
  show ?case
    using 1(5) ne tr 1(1,2,3,4)
    by (subst (asm) cn_loop.simps)
      (auto simp: Let_def split: if_splits option.splits)
qed

definition encode_fields :: "(u8 \<times> bytes) list \<Rightarrow> bytes" where
  "encode_fields fs = concat (map (\<lambda>(t, v). der_encode t v) fs)"

definition field_ok :: "u8 \<times> bytes \<Rightarrow> bool" where
  "field_ok f \<longleftrightarrow> fst f AND 0x1f \<noteq> 0x1f \<and> length (snd f) < 2 ^ 32"

definition field_tlv :: "u8 \<times> bytes \<Rightarrow> tlv" where
  "field_tlv f = \<lparr>tlv_tag = fst f, tlv_value = snd f, tlv_raw = der_encode (fst f) (snd f)\<rparr>"

lemma der_encode_nonempty [simp]: "der_encode t v \<noteq> []"
  by (simp add: der_encode_def)

lemma read_fields_encode:
  "list_all field_ok fs \<Longrightarrow> length (pre @ encode_fields fs) < 2 ^ 63 \<Longrightarrow>
   read_fields n \<lparr>rd_buf = pre @ encode_fields fs, rd_pos = length pre\<rparr> =
     Some (take n (map field_tlv fs))"
proof (induction n arbitrary: fs pre)
  case (Suc n)
  show ?case
  proof (cases fs)
    case Nil
    then show ?thesis by (simp add: encode_fields_def reader_is_empty_def)
  next
    case (Cons f fs')
    obtain t v where f: "f = (t, v)" by (cases f)
    let ?buf = "pre @ der_encode t v @ encode_fields fs'"
    have e: "encode_fields fs = der_encode t v @ encode_fields fs'"
      by (simp add: encode_fields_def Cons f)
    have "field_ok (t, v)" and oks: "list_all field_ok fs'"
      using Suc.prems(1) by (simp_all add: Cons f)
    then have ok: "t AND 0x1f \<noteq> 0x1f" "length v < 2 ^ 32" "list_all field_ok fs'"
      by (simp_all add: field_ok_def oks)
    have "read_tlv \<lparr>rd_buf = ?buf, rd_pos = length pre\<rparr> =
        Some (field_tlv f, \<lparr>rd_buf = ?buf, rd_pos = length (pre @ der_encode t v)\<rparr>)"
      using read_tlv_encode [OF ok(1,2), of pre "encode_fields fs'"] Suc.prems(2)
      by (simp add: e f field_tlv_def)
    moreover have "read_fields n \<lparr>rd_buf = ?buf, rd_pos = length (pre @ der_encode t v)\<rparr> =
        Some (take n (map field_tlv fs'))"
      using Suc.IH [OF ok(3), of "pre @ der_encode t v"] Suc.prems(2) by (simp add: e)
    moreover have "\<not> reader_is_empty \<lparr>rd_buf = ?buf, rd_pos = length pre\<rparr>"
      by (simp add: reader_is_empty_def)
    ultimately show ?thesis
      by (simp add: e [unfolded Cons] Cons)
  qed
qed simp

definition certificate :: "(u8 \<times> bytes) list \<Rightarrow> bytes \<Rightarrow> bytes" where
  "certificate fs sig = der_encode 0x30 (der_encode 0x30 (encode_fields fs) @ sig)"

lemma read_tlv_prefix:
  assumes "tag AND 0x1f \<noteq> 0x1f" and "length v < 2 ^ 32" and "length (der_encode tag v @ post) < 2 ^ 63"
  shows "\<exists>r'. read_tlv (reader_new (der_encode tag v @ post)) = Some (field_tlv (tag, v), r')"
  using read_tlv_encode [OF assms(1,2), of "[]" post] assms(3)
  by (simp add: reader_new_def field_tlv_def)

lemma length_der_encode_ge: "length v \<le> length (der_encode t v)"
  by (simp add: der_encode_def)

lemma tbs_certificate_encode:
  assumes "length (certificate fs sig) < 2 ^ 32"
  shows "tbs_certificate (certificate fs sig) = Some (encode_fields fs)"
proof -
  let ?tbs = "der_encode 0x30 (encode_fields fs) @ sig"
  have l1: "length ?tbs < 2 ^ 32"
    using assms length_der_encode_ge [of ?tbs "0x30"] by (simp only: certificate_def)
  have l2: "length (encode_fields fs) < 2 ^ 32"
    using l1 length_der_encode_ge [of "encode_fields fs" "0x30"] by simp
  obtain r1 where "read_tlv (reader_new (certificate fs sig)) = Some (field_tlv (0x30, ?tbs), r1)"
    using read_tlv_prefix [of "0x30" ?tbs "[]"] l1 assms by (auto simp: certificate_def)
  moreover obtain r2 where
    "read_tlv (reader_new ?tbs) = Some (field_tlv (0x30, encode_fields fs), r2)"
    using read_tlv_prefix [of "0x30" "encode_fields fs" sig] l1 l2 by auto
  ultimately show ?thesis by (simp add: tbs_certificate_def field_tlv_def)
qed

section \<open>Properties\<close>

text \<open>
  The DER walker never reads outside its buffer: an element it returns is exactly the bytes
  between the old and the new position, its value is the tail of those bytes after a header of
  two to six octets, and the position strictly advances and stays inside the buffer.
\<close>

theorem read_tlv_in_bounds:
  assumes "read_tlv r = Some (t, r')"
  shows "rd_buf r' = rd_buf r \<and> rd_pos r < rd_pos r' \<and> rd_pos r' \<le> length (rd_buf r) \<and>
    tlv_raw t = take (rd_pos r' - rd_pos r) (drop (rd_pos r) (rd_buf r)) \<and>
    (\<exists>header. tlv_raw t = header @ tlv_value t \<and> 2 \<le> length header \<and> length header \<le> 6 \<and>
       hd header = tlv_tag t)"
proof -
  obtain pos3 len where p:
    "rd_pos r + 2 \<le> pos3" "pos3 \<le> rd_pos r + 6" "pos3 + len \<le> length (rd_buf r)"
    "r' = r\<lparr>rd_pos := pos3 + len\<rparr>"
    "tlv_value t = take len (drop pos3 (rd_buf r))"
    "tlv_raw t = take (pos3 + len - rd_pos r) (drop (rd_pos r) (rd_buf r))"
    "tlv_tag t = rd_buf r ! rd_pos r"
    using assms by (rule read_tlv_SomeE)
  let ?h = "take (pos3 - rd_pos r) (drop (rd_pos r) (rd_buf r))"
  have "pos3 + len - rd_pos r = (pos3 - rd_pos r) + len" using p(1) by simp
  then have "tlv_raw t = ?h @ tlv_value t"
    using p(1) by (simp only: p(5,6) take_add) (simp add: add.commute)
  moreover have "length ?h = pos3 - rd_pos r" using p(3) by simp
  moreover have "hd ?h = tlv_tag t" using p(1,3,7) by (simp add: hd_drop_conv_nth)
  ultimately have "tlv_raw t = ?h @ tlv_value t \<and> 2 \<le> length ?h \<and> length ?h \<le> 6 \<and> hd ?h = tlv_tag t"
    using p(1,2) by (simp add: le_diff_conv)
  then show ?thesis using p by auto
qed

theorem read_tlv_in_bounds_witness:
  "\<exists>t r'. read_tlv (reader_new [0x30, 2, 5, 6, 7]) = Some (t, r') \<and>
     tlv_value t = [5, 6] \<and> rd_pos (reader_new [0x30, 2, 5, 6, 7]) < rd_pos r'"
proof -
  have "read_tlv (reader_new [0x30, 2, 5, 6, 7]) =
      Some (\<lparr>tlv_tag = 0x30, tlv_value = [5, 6], tlv_raw = [0x30, 2, 5, 6]\<rparr>,
            \<lparr>rd_buf = [0x30, 2, 5, 6, 7], rd_pos = 4\<rparr>)"
    by (simp add: read_tlv_def reader_new_def buf_get_def usize_add_def length_octets_def)
  with read_tlv_in_bounds [OF this] show ?thesis by simp
qed

text \<open>
  C37. Every DER element with a low tag number and fewer than $2^{32}$ content octets, wherever it
  stands in a buffer, is read back exactly: the same tag, the same contents and the whole encoding,
  with the reader left at the byte after it.
\<close>

theorem read_tlv_round_trip:
  assumes "tag AND 0x1f \<noteq> 0x1f" and "length v < 2 ^ 32"
    and "length (pre @ der_encode tag v @ post) < 2 ^ 63"
  shows "read_tlv \<lparr>rd_buf = pre @ der_encode tag v @ post, rd_pos = length pre\<rparr> =
    Some (\<lparr>tlv_tag = tag, tlv_value = v, tlv_raw = der_encode tag v\<rparr>,
          \<lparr>rd_buf = pre @ der_encode tag v @ post, rd_pos = length (pre @ der_encode tag v)\<rparr>)"
  using assms by (rule read_tlv_encode)

theorem read_tlv_round_trip_witness:
  "der_encode 0x04 (replicate 200 7) = 0x04 # 0x81 # 200 # replicate 200 7 \<and>
   read_tlv \<lparr>rd_buf = [1] @ der_encode 0x04 (replicate 200 7) @ [9], rd_pos = length [1 :: u8]\<rparr> =
    Some (\<lparr>tlv_tag = 0x04, tlv_value = replicate 200 7, tlv_raw = der_encode 0x04 (replicate 200 7)\<rparr>,
          \<lparr>rd_buf = [1] @ der_encode 0x04 (replicate 200 7) @ [9],
           rd_pos = length ([1] @ der_encode 0x04 (replicate 200 7))\<rparr>)"
proof -
  have "der_encode 0x04 (replicate 200 7) = 0x04 # 0x81 # 200 # replicate 200 7"
    by (simp add: der_encode_def der_length_def)
  then show ?thesis
    using read_tlv_round_trip [of "0x04" "replicate 200 7" "[1]" "[9]"] by simp
qed

text \<open>
  On a well-formed version 3 certificate, whose to-be-signed part starts with the version field
  and has the public key info as its seventh field, \<open>spki_sha256\<close> hashes exactly the DER encoding
  of that field: not its contents, and no neighbouring field.
\<close>

theorem spki_sha256_hashes_spki:
  assumes "list_all field_ok fs" and "length (certificate fs sig) < 2 ^ 32"
    and "7 \<le> length fs" and "fst (fs ! 0) = 0xa0" and "fst (fs ! 6) = 0x30"
  shows "spki_sha256 sha256 (certificate fs sig) = Some (sha256 (der_encode 0x30 (snd (fs ! 6))))"
proof -
  have "length (encode_fields fs) < 2 ^ 63"
    using assms(2) length_der_encode_ge [of "encode_fields fs" "0x30"]
      length_der_encode_ge [of "der_encode 0x30 (encode_fields fs) @ sig" "0x30"]
    by (simp add: certificate_def)
  then have "read_fields 8 (reader_new (encode_fields fs)) = Some (take 8 (map field_tlv fs))"
    using read_fields_encode [OF assms(1), of "[]" 8] by (simp add: reader_new_def)
  moreover have "has_version (take 8 (map field_tlv fs))"
    using assms(3,4) by (cases fs) (auto simp: has_version_def field_tlv_def)
  moreover have "nth_field (take 8 (map field_tlv fs)) 6 = Some (field_tlv (fs ! 6))"
    using assms(3) by (simp add: nth_field_def)
  ultimately show ?thesis
    using assms(5) tbs_certificate_encode [OF assms(2)]
    by (simp add: spki_sha256_def field_tlv_def)
qed

theorem spki_sha256_hashes_spki_witness:
  "spki_sha256 (\<lambda>b. b) (certificate [(0xa0, [2]), (2, [1]), (0x30, []), (0x30, []), (0x30, []),
       (0x30, []), (0x30, [7, 8]), (0xa3, [])] [3, 1, 0]) = Some [0x30, 2, 7, 8]"
proof -
  let ?fs = "[(0xa0, [2]), (2, [1]), (0x30, []), (0x30, []), (0x30, []),
       (0x30, []), (0x30, [7, 8]), (0xa3, [])] :: (u8 \<times> bytes) list"
  have "list_all field_ok ?fs" by (simp add: field_ok_def)
  moreover have "length (certificate ?fs [3, 1, 0]) < 2 ^ 32"
    by (simp add: certificate_def encode_fields_def der_encode_def der_length_def)
  ultimately have "spki_sha256 (\<lambda>b. b) (certificate ?fs [3, 1, 0]) =
      Some ((\<lambda>b. b) (der_encode 0x30 (snd (?fs ! 6))))"
    by (rule spki_sha256_hashes_spki) simp_all
  then show ?thesis by (simp add: der_encode_def der_length_def)
qed

text \<open>
  The issuer name the walker reports is never empty and never longer than 256 bytes, whatever
  bytes the certificate holds.
\<close>

theorem issuer_common_name_bounds:
  "\<forall>name. issuer_common_name cert_der = Some name \<longrightarrow> name \<noteq> [] \<and> length name \<le> 256"
  by (auto simp: issuer_common_name_def find_common_name_def
      dest!: cn_loop_bounds split: Option.bind_splits if_splits)

theorem issuer_common_name_bounds_witness:
  "issuer_common_name [0x30, 25, 0x30, 23, 2, 1, 5, 0x30, 0, 0x30, 16, 0x31, 14, 0x30, 12,
      6, 3, 0x55, 4, 3, 0x0c, 5, 0x4d, 0x79, 0x20, 0x43, 0x41] = Some [0x4d, 0x79, 0x20, 0x43, 0x41] \<and>
   length [0x4d, 0x79, 0x20, 0x43, 0x41 :: u8] \<le> 256"
proof -
  note ev = read_tlv_def reader_new_def buf_get_def usize_add_def length_octets_def
    reader_is_empty_def Let_def
  let ?issuer = "[0x31, 14, 0x30, 12, 6, 3, 0x55, 4, 3, 0x0c, 5, 0x4d, 0x79, 0x20, 0x43, 0x41] :: bytes"
  let ?tbs = "[2, 1, 5, 0x30, 0, 0x30, 16] @ ?issuer"
  let ?cert = "[0x30, 25, 0x30, 23] @ ?tbs"
  have t: "tbs_certificate ?cert = Some ?tbs" by (simp add: tbs_certificate_def ev)
  have f: "read_fields (Suc (Suc (Suc (Suc (Suc (Suc 0)))))) (reader_new ?tbs) = Some
      [\<lparr>tlv_tag = 2, tlv_value = [5], tlv_raw = [2, 1, 5]\<rparr>,
       \<lparr>tlv_tag = 0x30, tlv_value = [], tlv_raw = [0x30, 0]\<rparr>,
       \<lparr>tlv_tag = 0x30, tlv_value = ?issuer, tlv_raw = [0x30, 16] @ ?issuer\<rparr>]"
    by (simp add: ev)
  have c: "cn_loop 0 (reader_new ?issuer) False = Some [0x4d, 0x79, 0x20, 0x43, 0x41]"
    by (simp add: cn_loop.simps ev MAX_DEPTH_def is_text_tag_def OID_COMMON_NAME_def utf8_head.simps)
  have six: "6 = Suc (Suc (Suc (Suc (Suc (Suc 0)))))" by simp
  have i: "issuer_common_name ?cert = Some [0x4d, 0x79, 0x20, 0x43, 0x41]"
    unfolding issuer_common_name_def t six using f c
    by (simp add: nth_field_def has_version_def find_common_name_def MAX_DEPTH_def del: read_fields.simps)
  have "length [0x4d, 0x79, 0x20, 0x43, 0x41 :: u8] \<le> 256"
    using issuer_common_name_bounds [of ?cert] i by blast
  then show ?thesis using i by simp
qed

end
