(* ===== verification/Addresses.thy ===== *)
theory Addresses
  imports Egress_Prelude
begin

text \<open>
  IP addresses, client access control and special-use address classes: \<^verbatim>\<open>dns/acl.rs\<close> and
  \<^verbatim>\<open>util/ipclass.rs\<close>.

  Networks are values of the \<^verbatim>\<open>ipnet\<close> crate, represented by their address and prefix length.
  Membership is that crate's \<^verbatim>\<open>contains\<close>, so the definitions take it as the argument
  \<open>L :: ipnet_lib\<close>; \<open>ipnet_law L\<close> states its documented behaviour (equality of the leading
  prefix bits), and only the theorems that need it assume it. The CIDR texts of the two tables
  are written as the networks they denote.
\<close>

section \<open>Addresses and networks\<close>

type_synonym ipv4 = "32 word"
type_synonym ipv6 = "128 word"
type_synonym ipv4net = "ipv4 \<times> nat"
type_synonym ipv6net = "ipv6 \<times> nat"

datatype ipaddr = V4 ipv4 | V6 ipv6

datatype ipnet = NetV4 ipv4net | NetV6 ipv6net

record ipnet_lib =
  contains4 :: "ipv4net \<Rightarrow> ipv4 \<Rightarrow> bool"
  contains6 :: "ipv6net \<Rightarrow> ipv6 \<Rightarrow> bool"

definition ipnet_law :: "ipnet_lib \<Rightarrow> bool" where
  "ipnet_law L \<longleftrightarrow>
     (\<forall>p l a. l \<le> 32 \<longrightarrow>
        contains4 L (p, l) a = (drop_bit (32 - l) a = drop_bit (32 - l) p)) \<and>
     (\<forall>p l a. l \<le> 128 \<longrightarrow>
        contains6 L (p, l) a = (drop_bit (128 - l) a = drop_bit (128 - l) p))"

text \<open>A concrete membership test that satisfies the law.\<close>

definition prefix_lib :: ipnet_lib where
  "prefix_lib =
     \<lparr>contains4 = (\<lambda>(p, l) a. drop_bit (32 - l) a = drop_bit (32 - l) p),
      contains6 = (\<lambda>(p, l) a. drop_bit (128 - l) a = drop_bit (128 - l) p)\<rparr>"

definition ipv4_new :: "nat \<Rightarrow> nat \<Rightarrow> nat \<Rightarrow> nat \<Rightarrow> ipv4" where
  "ipv4_new a b c d = of_nat (((a * 256 + b) * 256 + c) * 256 + d)"

text \<open>\<^verbatim>\<open>Ipv6Addr::to_ipv4_mapped\<close>: \<^verbatim>\<open>::ffff:a.b.c.d\<close> maps to \<^verbatim>\<open>a.b.c.d\<close>.\<close>

definition to_ipv4_mapped :: "ipv6 \<Rightarrow> ipv4 option" where
  "to_ipv4_mapped a = (if drop_bit 32 a = 0xffff then Some (ucast a) else None)"

definition ipv4_mapped :: "ipv4 \<Rightarrow> ipv6" where
  "ipv4_mapped v = 0xffff00000000 + ucast v"

section \<open>Access control (\<^verbatim>\<open>dns/acl.rs\<close>)\<close>

record acl =
  acl_allow :: "ipnet list"
  acl_deny :: "ipnet list"

datatype acl_decision = AclAllow | AclDenied | AclNotAllowed

fun normalise_addr :: "ipaddr \<Rightarrow> ipaddr" where
  "normalise_addr (V6 v6) = (case to_ipv4_mapped v6 of Some v4 \<Rightarrow> V4 v4 | None \<Rightarrow> V6 v6)"
| "normalise_addr (V4 v4) = V4 v4"

fun net_contains :: "ipnet_lib \<Rightarrow> ipnet \<Rightarrow> ipaddr \<Rightarrow> bool" where
  "net_contains L (NetV4 n) (V4 a) = contains4 L n a"
| "net_contains L (NetV6 n) (V6 a) = contains6 L n a"
| "net_contains L _ _ = False"

definition acl_evaluate :: "ipnet_lib \<Rightarrow> acl \<Rightarrow> ipaddr \<Rightarrow> acl_decision" where
  "acl_evaluate L self addr0 =
     (let addr = normalise_addr addr0 in
      if list_ex (\<lambda>n. net_contains L n addr) (acl_deny self) then AclDenied
      else if list_ex (\<lambda>n. net_contains L n addr) (acl_allow self) then AclAllow
      else AclNotAllowed)"

definition acl_permits :: "ipnet_lib \<Rightarrow> acl \<Rightarrow> ipaddr \<Rightarrow> bool" where
  "acl_permits L self addr = (acl_evaluate L self addr = AclAllow)"

section \<open>Special-use classes (\<^verbatim>\<open>util/ipclass.rs\<close>)\<close>

datatype special_use =
    Unspecified | Loopback | Private | SharedAddressSpace | LinkLocal | CloudMetadata
  | Documentation | Benchmarking | ProtocolAssignment | Multicast | Reserved | Translation

definition V4_TABLE :: "(ipv4net \<times> special_use) list" where
  "V4_TABLE =
     [((ipv4_new 0 0 0 0, 8), Unspecified),
      ((ipv4_new 10 0 0 0, 8), Private),
      ((ipv4_new 100 64 0 0, 10), SharedAddressSpace),
      ((ipv4_new 127 0 0 0, 8), Loopback),
      ((ipv4_new 169 254 0 0, 16), LinkLocal),
      ((ipv4_new 172 16 0 0, 12), Private),
      ((ipv4_new 192 0 0 0, 24), ProtocolAssignment),
      ((ipv4_new 192 0 2 0, 24), Documentation),
      ((ipv4_new 192 88 99 0, 24), Translation),
      ((ipv4_new 192 168 0 0, 16), Private),
      ((ipv4_new 198 18 0 0, 15), Benchmarking),
      ((ipv4_new 198 51 100 0, 24), Documentation),
      ((ipv4_new 203 0 113 0, 24), Documentation),
      ((ipv4_new 224 0 0 0, 4), Multicast),
      ((ipv4_new 240 0 0 0, 4), Reserved)]"

definition V6_TABLE :: "(ipv6net \<times> special_use) list" where
  "V6_TABLE =
     [((0, 128), Unspecified),
      ((1, 128), Loopback),
      ((0xffff00000000, 96), Translation),
      ((0x0064ff9b000000000000000000000000, 96), Translation),
      ((0x0064ff9b000100000000000000000000, 48), Translation),
      ((0x01000000000000000000000000000000, 64), Reserved),
      ((0x20010002000000000000000000000000, 48), Benchmarking),
      ((0x20010db8000000000000000000000000, 32), Documentation),
      ((0x20010000000000000000000000000000, 23), ProtocolAssignment),
      ((0x20020000000000000000000000000000, 16), Translation),
      ((0xfc000000000000000000000000000000, 7), Private),
      ((0xfe800000000000000000000000000000, 10), LinkLocal),
      ((0xff000000000000000000000000000000, 8), Multicast)]"

definition METADATA_V4 :: "ipv4 list" where
  "METADATA_V4 =
     [ipv4_new 169 254 169 254, ipv4_new 169 254 170 2,
      ipv4_new 100 100 100 200, ipv4_new 192 0 0 192]"

text \<open>The table walk: the class of the first network that contains the address.\<close>

fun table_lookup :: "('n \<Rightarrow> bool) \<Rightarrow> ('n \<times> special_use) list \<Rightarrow> special_use option" where
  "table_lookup inside [] = None"
| "table_lookup inside ((net, cls) # rest) =
     (if inside net then Some cls else table_lookup inside rest)"

definition classify_v4 :: "ipnet_lib \<Rightarrow> ipv4 \<Rightarrow> special_use option" where
  "classify_v4 L addr =
     (if addr \<in> set METADATA_V4 then Some CloudMetadata
      else if addr = ipv4_new 255 255 255 255 then Some Reserved
      else table_lookup (\<lambda>net. contains4 L net addr) V4_TABLE)"

definition classify_v6 :: "ipnet_lib \<Rightarrow> ipv6 \<Rightarrow> special_use option" where
  "classify_v6 L addr =
     (if addr = 0xfd000ec2000000000000000000000254 then Some CloudMetadata
      else case to_ipv4_mapped addr of
        Some mapped \<Rightarrow>
          Some (case classify_v4 L mapped of Some c \<Rightarrow> c | None \<Rightarrow> Translation)
      | None \<Rightarrow> table_lookup (\<lambda>net. contains6 L net addr) V6_TABLE)"

fun classify :: "ipnet_lib \<Rightarrow> ipaddr \<Rightarrow> special_use option" where
  "classify L (V4 v4) = classify_v4 L v4"
| "classify L (V6 v6) = classify_v6 L v6"

definition is_global_unicast :: "ipnet_lib \<Rightarrow> ipaddr \<Rightarrow> bool" where
  "is_global_unicast L addr = (classify L addr = None)"

definition special_use_networks :: "(ipnet \<times> special_use) list" where
  "special_use_networks =
     map (\<lambda>(net, cls). (NetV4 net, cls)) V4_TABLE @
     map (\<lambda>(net, cls). (NetV6 net, cls)) V6_TABLE"

section \<open>Lemmas\<close>

lemma ipnet_law_prefix_lib: "ipnet_law prefix_lib"
  by (simp add: ipnet_law_def prefix_lib_def)

lemma contains4_law:
  "ipnet_law L \<Longrightarrow> l \<le> 32 \<Longrightarrow>
     contains4 L (p, l) a \<longleftrightarrow> drop_bit (32 - l) a = drop_bit (32 - l) p"
  by (simp add: ipnet_law_def)

lemma contains6_law:
  "ipnet_law L \<Longrightarrow> l \<le> 128 \<Longrightarrow>
     contains6 L (p, l) a \<longleftrightarrow> drop_bit (128 - l) a = drop_bit (128 - l) p"
  by (simp add: ipnet_law_def)

lemma unat_ipv4_mapped: "unat (ipv4_mapped v) = 0xffff00000000 + unat v"
proof -
  have v: "unat v < 2 ^ 32" using unsigned_less [of v] by simp
  have u: "unat (ucast v :: ipv6) = unat v"
    using v by (simp add: unat_ucast_mod)
  have "unat (0xffff00000000 :: ipv6) = 0xffff00000000" by simp
  then show ?thesis
    using v u by (simp add: ipv4_mapped_def unat_word_ariths)
qed

lemma to_ipv4_mapped_ipv4_mapped [simp]: "to_ipv4_mapped (ipv4_mapped v) = Some v"
proof -
  have v: "unat v < 2 ^ 32" using unsigned_less [of v] by simp
  have "unat (drop_bit 32 (ipv4_mapped v)) = unat (ipv4_mapped v) div 2 ^ 32"
    by (rule unat_drop_bit_div)
  also have "\<dots> = 0xffff" using v by (simp add: unat_ipv4_mapped)
  finally have hi: "drop_bit 32 (ipv4_mapped v) = 0xffff"
    by (simp add: word_unat_eq_iff)
  have "unat (ucast (ipv4_mapped v) :: ipv4) = unat (ipv4_mapped v) mod 2 ^ 32"
    by (simp add: unat_ucast_mod)
  also have "\<dots> = unat v"
  proof -
    have "(0xffff * 2 ^ 32 + unat v) mod 2 ^ 32 = unat v mod 2 ^ 32"
      by (rule mod_mult_self3)
    with v show ?thesis by (simp add: unat_ipv4_mapped)
  qed
  finally have "ucast (ipv4_mapped v) = v" by (simp add: word_unat_eq_iff)
  with hi show ?thesis by (simp add: to_ipv4_mapped_def)
qed

lemma table_lookup_None_iff:
  "table_lookup inside t = None \<longleftrightarrow> (\<forall>net \<in> fst ` set t. \<not> inside net)"
  by (induction inside t rule: table_lookup.induct) auto

lemma to_ipv4_mapped_Some_contains:
  assumes "ipnet_law L" and "to_ipv4_mapped a = Some v"
  shows "contains6 L (0xffff00000000, 96) a"
  using assms by (auto simp: contains6_law to_ipv4_mapped_def split: if_splits)

lemma metadata_v4_in_table:
  assumes "ipnet_law L" and "a \<in> set METADATA_V4"
  shows "\<exists>net \<in> fst ` set V4_TABLE. contains4 L net a"
proof -
  have "contains4 L (ipv4_new 169 254 0 0, 16) a \<or> contains4 L (ipv4_new 100 64 0 0, 10) a \<or>
        contains4 L (ipv4_new 192 0 0 0, 24) a"
    using assms by (auto simp: METADATA_V4_def contains4_law ipv4_new_def)
  then show ?thesis by (auto simp: V4_TABLE_def)
qed

lemma broadcast_in_table:
  assumes "ipnet_law L"
  shows "\<exists>net \<in> fst ` set V4_TABLE. contains4 L net (ipv4_new 255 255 255 255)"
proof -
  have "contains4 L (ipv4_new 240 0 0 0, 4) (ipv4_new 255 255 255 255)"
    using assms by (simp add: contains4_law ipv4_new_def)
  then show ?thesis by (auto simp: V4_TABLE_def)
qed

lemma classify_v4_None_iff:
  assumes "ipnet_law L"
  shows "classify_v4 L a = None \<longleftrightarrow> (\<forall>net \<in> fst ` set V4_TABLE. \<not> contains4 L net a)"
  using metadata_v4_in_table [OF assms] broadcast_in_table [OF assms]
  by (auto simp: classify_v4_def table_lookup_None_iff)

lemma aws_v6_in_table:
  assumes "ipnet_law L"
  shows "\<exists>net \<in> fst ` set V6_TABLE. contains6 L net 0xfd000ec2000000000000000000000254"
proof -
  have "contains6 L (0xfc000000000000000000000000000000, 7) 0xfd000ec2000000000000000000000254"
    using assms by (simp add: contains6_law)
  then show ?thesis by (auto simp: V6_TABLE_def)
qed

lemma classify_v6_None_iff:
  assumes "ipnet_law L"
  shows "classify_v6 L a = None \<longleftrightarrow> (\<forall>net \<in> fst ` set V6_TABLE. \<not> contains6 L net a)"
proof (cases "to_ipv4_mapped a")
  case None
  then show ?thesis
    using aws_v6_in_table [OF assms] by (auto simp: classify_v6_def table_lookup_None_iff)
next
  case (Some v)
  have "(0xffff00000000, 96) \<in> fst ` set V6_TABLE" by (simp add: V6_TABLE_def)
  with to_ipv4_mapped_Some_contains [OF assms Some]
  have "\<exists>net \<in> fst ` set V6_TABLE. contains6 L net a" by blast
  moreover have "classify_v6 L a \<noteq> None" using Some by (simp add: classify_v6_def)
  ultimately show ?thesis by blast
qed

lemma ipv4_mapped_not_aws: "ipv4_mapped v \<noteq> 0xfd000ec2000000000000000000000254"
proof
  assume "ipv4_mapped v = 0xfd000ec2000000000000000000000254"
  then have "unat (ipv4_mapped v) = 0xfd000ec2000000000000000000000254" by simp
  moreover have "unat v < 2 ^ 32" using unsigned_less [of v] by simp
  ultimately show False by (simp add: unat_ipv4_mapped)
qed

section \<open>Properties\<close>

text \<open>
  The resolver is default-deny: a client is admitted exactly when its address, with an
  IPv4-mapped IPv6 address read as the IPv4 address it carries, is in some allow network and in
  no deny network. An empty allow list admits nobody, and a client is treated alike whether it
  arrives as \<^verbatim>\<open>a.b.c.d\<close> or as \<^verbatim>\<open>::ffff:a.b.c.d\<close>. This holds for any membership test.
\<close>

theorem acl_default_deny:
  "(acl_permits L self addr \<longleftrightarrow>
      (\<exists>n. n \<in> set (acl_allow self) \<and> net_contains L n (normalise_addr addr)) \<and>
      (\<nexists>n. n \<in> set (acl_deny self) \<and> net_contains L n (normalise_addr addr))) \<and>
   \<not> acl_permits L (self\<lparr>acl_allow := []\<rparr>) addr \<and>
   acl_evaluate L self (V6 (ipv4_mapped v)) = acl_evaluate L self (V4 v)"
  by (auto simp: acl_permits_def acl_evaluate_def Let_def list_ex_iff)

text \<open>
  An address is classified as ordinary global unicast, and so may be probed, exactly when it
  lies in none of the networks that \<^verbatim>\<open>special_use_networks\<close> reports: the metadata addresses, the
  limited broadcast address and every IPv4-mapped address are covered by those networks, so the
  special cases of the code leave no gap.
\<close>

theorem is_global_unicast_iff:
  assumes "ipnet_law L"
  shows "is_global_unicast L addr \<longleftrightarrow>
    (\<nexists>net cls. (net, cls) \<in> set special_use_networks \<and> net_contains L net addr)"
proof (cases addr)
  case (V4 a)
  have "(\<nexists>net cls. (net, cls) \<in> set special_use_networks \<and> net_contains L net (V4 a)) \<longleftrightarrow>
        (\<forall>net \<in> fst ` set V4_TABLE. \<not> contains4 L net a)"
    by (force simp: special_use_networks_def)
  with V4 show ?thesis by (simp add: is_global_unicast_def classify_v4_None_iff [OF assms])
next
  case (V6 a)
  have "(\<nexists>net cls. (net, cls) \<in> set special_use_networks \<and> net_contains L net (V6 a)) \<longleftrightarrow>
        (\<forall>net \<in> fst ` set V6_TABLE. \<not> contains6 L net a)"
    by (force simp: special_use_networks_def)
  with V6 show ?thesis by (simp add: is_global_unicast_def classify_v6_None_iff [OF assms])
qed

theorem is_global_unicast_iff_witness:
  "ipnet_law prefix_lib \<and>
   (is_global_unicast prefix_lib (V4 (ipv4_new 169 254 169 254)) \<longleftrightarrow>
    (\<nexists>net cls. (net, cls) \<in> set special_use_networks \<and>
       net_contains prefix_lib net (V4 (ipv4_new 169 254 169 254)))) \<and>
   \<not> is_global_unicast prefix_lib (V4 (ipv4_new 169 254 169 254)) \<and>
   is_global_unicast prefix_lib (V4 (ipv4_new 8 8 8 8))"
proof -
  have "\<not> is_global_unicast prefix_lib (V4 (ipv4_new 169 254 169 254))"
    by (simp add: is_global_unicast_def classify_v4_def METADATA_V4_def)
  moreover have "is_global_unicast prefix_lib (V4 (ipv4_new 8 8 8 8))"
    by (simp add: is_global_unicast_def classify_v4_def METADATA_V4_def ipv4_new_def V4_TABLE_def
        prefix_lib_def)
  ultimately show ?thesis
    using ipnet_law_prefix_lib
      is_global_unicast_iff [OF ipnet_law_prefix_lib, of "V4 (ipv4_new 169 254 169 254)"]
    by blast
qed

text \<open>
  An IPv4-mapped IPv6 address is never global unicast: it carries the class of the IPv4
  address inside it, and counts as a translation address when that address is ordinary. A
  private or loopback target cannot be reached by writing it in mapped form.
\<close>

theorem mapped_inherits_class:
  "classify L (V6 (ipv4_mapped v)) =
     Some (case classify L (V4 v) of Some c \<Rightarrow> c | None \<Rightarrow> Translation) \<and>
   \<not> is_global_unicast L (V6 (ipv4_mapped v))"
  by (simp add: is_global_unicast_def classify_v6_def ipv4_mapped_not_aws)

end
