(* ===== verification/Config.thy ===== *)
theory Config
  imports Addresses
begin

text \<open>
  The configuration sections the modelled components read (\<^verbatim>\<open>config/mod.rs\<close>), with the defaults
  the source gives them, and the validation of the server, cache, TTL, serve-stale, ranking and
  prefetch sections (\<^verbatim>\<open>config/validate.rs\<close>).

  A section is a record with the fields of the Rust struct, in its order; counts of type
  \<^verbatim>\<open>usize\<close> are \<open>nat\<close>. Validation returns the first violation: \<open>first_violation\<close> walks the checks
  in the order of the source, and an error carries the dotted path of the offending field (the
  explanatory text is not modelled).
\<close>

section \<open>Sections\<close>

record socket_addr =
  sa_ip :: ipaddr
  sa_port :: u16

datatype special_use_policy = SpecialUseLocal | SpecialUseForward

datatype any_policy = AnyMinimal | AnyForward | AnyRefuse

record udp_config =
  udp_max_payload :: u16
  udp_non_edns_max_payload :: u16
  udp_recv_buffer_bytes :: "nat option"
  udp_send_buffer_bytes :: "nat option"
  udp_reuse_port :: bool
  udp_workers_per_socket :: nat

definition udp_config_default :: udp_config where
  "udp_config_default =
     \<lparr>udp_max_payload = 1232, udp_non_edns_max_payload = 512,
      udp_recv_buffer_bytes = Some (4 * 1024 * 1024),
      udp_send_buffer_bytes = Some (4 * 1024 * 1024),
      udp_reuse_port = False, udp_workers_per_socket = 1\<rparr>"

record tcp_config =
  tcp_idle_timeout :: duration
  tcp_max_connection_lifetime :: duration
  tcp_max_connections :: nat
  tcp_max_connections_per_client :: nat
  tcp_max_pipelined_queries :: nat
  tcp_max_message_bytes :: nat
  tcp_advertise_edns_keepalive :: bool

definition tcp_config_default :: tcp_config where
  "tcp_config_default =
     \<lparr>tcp_idle_timeout = from_secs 10, tcp_max_connection_lifetime = from_secs 300,
      tcp_max_connections = 4096, tcp_max_connections_per_client = 64,
      tcp_max_pipelined_queries = 256, tcp_max_message_bytes = 65535,
      tcp_advertise_edns_keepalive = True\<rparr>"

record rate_limit_config =
  rl_enabled :: bool
  rl_per_client_qps :: u32
  rl_per_client_burst :: u32
  rl_global_qps :: u32
  rl_global_burst :: u32
  rl_client_table_size :: nat

definition rate_limit_config_default :: rate_limit_config where
  "rate_limit_config_default =
     \<lparr>rl_enabled = True, rl_per_client_qps = 2000, rl_per_client_burst = 4000,
      rl_global_qps = 200000, rl_global_burst = 400000, rl_client_table_size = 65536\<rparr>"

record server_config =
  sv_udp_listen :: "socket_addr list"
  sv_tcp_listen :: "socket_addr list"
  sv_allow_from :: "ipnet list option"
  sv_deny_from :: "ipnet list"
  sv_foreground_budget :: duration
  sv_any_policy :: any_policy
  sv_special_use :: special_use_policy
  sv_udp :: udp_config
  sv_tcp :: tcp_config
  sv_rate_limit :: rate_limit_config

definition default_listen :: "socket_addr list" where
  "default_listen =
     [\<lparr>sa_ip = V4 (ipv4_new 127 0 0 1), sa_port = 53\<rparr>, \<lparr>sa_ip = V6 1, sa_port = 53\<rparr>]"

definition server_config_default :: server_config where
  "server_config_default =
     \<lparr>sv_udp_listen = default_listen, sv_tcp_listen = default_listen, sv_allow_from = None,
      sv_deny_from = [], sv_foreground_budget = from_millis 2500, sv_any_policy = AnyMinimal,
      sv_special_use = SpecialUseLocal, sv_udp = udp_config_default, sv_tcp = tcp_config_default,
      sv_rate_limit = rate_limit_config_default\<rparr>"

record cache_config =
  cc_max_memory_bytes :: u64
  cc_failure_max_entries :: u64
  cc_variant_max_memory_bytes :: u64
  cc_quality_max_entries :: u64
  cc_internal_max_ttl :: u32
  cc_negative_max_ttl :: u32
  cc_failure_min_ttl :: duration
  cc_failure_max_ttl :: duration

definition cache_config_default :: cache_config where
  "cache_config_default =
     \<lparr>cc_max_memory_bytes = 256 * 1024 * 1024, cc_failure_max_entries = 20000,
      cc_variant_max_memory_bytes = 32 * 1024 * 1024, cc_quality_max_entries = 100000,
      cc_internal_max_ttl = 86400, cc_negative_max_ttl = 3600,
      cc_failure_min_ttl = from_secs 1, cc_failure_max_ttl = from_secs 300\<rparr>"

record ttl_config =
  tc_cap_default :: u32
  tc_cap_optimized_multi :: u32
  tc_cap_cloudflare_preserve :: u32
  tc_cap_cloudflare_augment :: u32
  tc_cap_network_change :: u32
  tc_cap_serve_stale :: u32
  tc_network_change_window :: duration

definition ttl_config_default :: ttl_config where
  "ttl_config_default =
     \<lparr>tc_cap_default = 300, tc_cap_optimized_multi = 90, tc_cap_cloudflare_preserve = 60,
      tc_cap_cloudflare_augment = 25, tc_cap_network_change = 15, tc_cap_serve_stale = 30,
      tc_network_change_window = from_secs 300\<rparr>"

record ranking_config =
  rk_enabled :: bool
  rk_neutral_cost_ms :: real
  rk_failure_penalty_ms :: real
  rk_tail_weight :: real
  rk_jitter_weight :: real
  rk_uncertainty_penalty_ms :: real
  rk_stale_sample_penalty_ms :: real
  rk_sample_max_age :: duration
  rk_evidence_half_life :: duration
  rk_hysteresis :: real
  rk_min_successes_to_lead :: u32
  rk_exploration_rate :: real
  rk_consecutive_failure_base :: real

definition ranking_config_default :: ranking_config where
  "ranking_config_default =
     \<lparr>rk_enabled = True, rk_neutral_cost_ms = 120, rk_failure_penalty_ms = 400,
      rk_tail_weight = 35 / 100, rk_jitter_weight = 25 / 100, rk_uncertainty_penalty_ms = 60,
      rk_stale_sample_penalty_ms = 40, rk_sample_max_age = from_secs 1800,
      rk_evidence_half_life = from_secs 3600, rk_hysteresis = 12 / 100,
      rk_min_successes_to_lead = 3, rk_exploration_rate = 2 / 100,
      rk_consecutive_failure_base = 18 / 10\<rparr>"

record serve_stale_config =
  ss_enabled :: bool
  ss_max_stale :: duration
  ss_client_timeout :: duration
  ss_retry_interval :: duration
  ss_include_ede :: bool

definition serve_stale_config_default :: serve_stale_config where
  "serve_stale_config_default =
     \<lparr>ss_enabled = True, ss_max_stale = from_secs 86400, ss_client_timeout = from_millis 1800,
      ss_retry_interval = from_secs 30, ss_include_ede = True\<rparr>"

record prefetch_config =
  pf_enabled :: bool
  pf_trigger_fraction :: real
  pf_min_hits :: u32
  pf_hot_set_size :: nat
  pf_global_qps :: u32
  pf_per_key_min_interval :: duration
  pf_warm_on_start :: nat
  pf_transition_prediction :: bool
  pf_transition_table_size :: nat

definition prefetch_config_default :: prefetch_config where
  "prefetch_config_default =
     \<lparr>pf_enabled = True, pf_trigger_fraction = 15 / 100, pf_min_hits = 3, pf_hot_set_size = 20000,
      pf_global_qps = 50, pf_per_key_min_interval = from_secs 5, pf_warm_on_start = 200,
      pf_transition_prediction = False, pf_transition_table_size = 20000\<rparr>"

record scheduler_config =
  sc_hedge_enabled :: bool
  sc_hedge_percentile :: real
  sc_hedge_min_delay :: duration
  sc_hedge_max_delay :: duration
  sc_hedge_max_fraction :: real
  sc_query_timeout :: duration
  sc_explore_rate :: real
  sc_circuit_failure_threshold :: u32
  sc_circuit_open_duration :: duration
  sc_circuit_half_open_successes :: u32
  sc_emergency_fanout :: bool
  sc_emergency_fanout_max :: nat

definition scheduler_config_default :: scheduler_config where
  "scheduler_config_default =
     \<lparr>sc_hedge_enabled = True, sc_hedge_percentile = 95 / 100,
      sc_hedge_min_delay = from_millis 20, sc_hedge_max_delay = from_millis 400,
      sc_hedge_max_fraction = 15 / 100, sc_query_timeout = from_millis 1500,
      sc_explore_rate = 2 / 100, sc_circuit_failure_threshold = 5,
      sc_circuit_open_duration = from_secs 20, sc_circuit_half_open_successes = 2,
      sc_emergency_fanout = True, sc_emergency_fanout_max = 3\<rparr>"

datatype dnssec_policy = DnssecOff | DnssecBackground | DnssecStrict

fun blocks_the_client :: "dnssec_policy \<Rightarrow> bool" where
  "blocks_the_client DnssecStrict = True"
| "blocks_the_client _ = False"

fun validates :: "dnssec_policy \<Rightarrow> bool" where
  "validates DnssecBackground = True"
| "validates DnssecStrict = True"
| "validates DnssecOff = False"

definition wants_dnssec_records :: "dnssec_policy \<Rightarrow> bool" where
  "wants_dnssec_records m = validates m"

record dnssec_config =
  dn_mode :: dnssec_policy
  dn_trust_anchor_file :: "string option"
  dn_trust_upstream_ad :: bool
  dn_max_concurrent_validations :: nat
  dn_validation_cache_entries :: nat
  dn_max_validation_depth :: nat
  dn_extended_errors :: bool
  dn_corroborate_negative :: bool
  dn_proof_completion_timeout :: duration

definition dnssec_config_default :: dnssec_config where
  "dnssec_config_default =
     \<lparr>dn_mode = DnssecBackground, dn_trust_anchor_file = None, dn_trust_upstream_ad = False,
      dn_max_concurrent_validations = 256, dn_validation_cache_entries = 10000,
      dn_max_validation_depth = 12, dn_extended_errors = True, dn_corroborate_negative = True,
      dn_proof_completion_timeout = from_secs 20\<rparr>"

record augment_config =
  ag_max_added :: nat
  ag_min_validations :: u32
  ag_validation_ttl :: duration
  ag_min_advantage :: real
  ag_min_samples :: u32

definition augment_config_default :: augment_config where
  "augment_config_default =
     \<lparr>ag_max_added = 2, ag_min_validations = 3, ag_validation_ttl = from_secs 3600,
      ag_min_advantage = 12 / 100, ag_min_samples = 8\<rparr>"

datatype transport_kind = Udp | Tcp | Dot | Doh2 | Doh3 | Doq

fun transport_label :: "transport_kind \<Rightarrow> string" where
  "transport_label Udp = ''udp''"
| "transport_label Tcp = ''tcp''"
| "transport_label Dot = ''dot''"
| "transport_label Doh2 = ''doh2''"
| "transport_label Doh3 = ''doh3''"
| "transport_label Doq = ''doq''"

definition is_encrypted :: "transport_kind \<Rightarrow> bool" where
  "is_encrypted t \<longleftrightarrow> t = Dot \<or> t = Doh2 \<or> t = Doh3 \<or> t = Doq"

definition is_stream :: "transport_kind \<Rightarrow> bool" where
  "is_stream t \<longleftrightarrow> t \<noteq> Udp"

fun default_port :: "transport_kind \<Rightarrow> u16" where
  "default_port Udp = 53"
| "default_port Tcp = 53"
| "default_port Dot = 853"
| "default_port Doq = 853"
| "default_port Doh2 = 443"
| "default_port Doh3 = 443"

record config =
  cfg_server :: server_config
  cfg_cache :: cache_config
  cfg_ttl :: ttl_config
  cfg_ranking :: ranking_config
  cfg_serve_stale :: serve_stale_config
  cfg_prefetch :: prefetch_config
  cfg_dnssec :: dnssec_config

definition config_default :: config where
  "config_default =
     \<lparr>cfg_server = server_config_default, cfg_cache = cache_config_default,
      cfg_ttl = ttl_config_default, cfg_ranking = ranking_config_default,
      cfg_serve_stale = serve_stale_config_default, cfg_prefetch = prefetch_config_default,
      cfg_dnssec = dnssec_config_default\<rparr>"

definition loopback_networks :: "ipnet list" where
  "loopback_networks = [NetV4 (ipv4_new 127 0 0 0, 8), NetV6 (1, 128)]"

definition effective_allow_from :: "config \<Rightarrow> ipnet list" where
  "effective_allow_from cfg =
     (case sv_allow_from (cfg_server cfg) of Some nets \<Rightarrow> nets | None \<Rightarrow> loopback_networks)"

text \<open>The access list the runtime builds from the configuration.\<close>

definition acl_of_config :: "config \<Rightarrow> acl" where
  "acl_of_config cfg =
     \<lparr>acl_allow = effective_allow_from cfg, acl_deny = sv_deny_from (cfg_server cfg)\<rparr>"

section \<open>Validation\<close>

datatype config_error = Invalid (err_path: string)

fun first_violation :: "(bool \<times> string) list \<Rightarrow> config_error + unit" where
  "first_violation [] = Inr ()"
| "first_violation ((violated, path) # checks) =
     (if violated then Inl (Invalid path) else first_violation checks)"

text \<open>\<^verbatim>\<open>Ipv4Addr::is_loopback\<close> and \<^verbatim>\<open>is_multicast\<close>, and their IPv6 counterparts.\<close>

fun addr_is_loopback :: "ipaddr \<Rightarrow> bool" where
  "addr_is_loopback (V4 a) \<longleftrightarrow> drop_bit 24 a = 127"
| "addr_is_loopback (V6 a) \<longleftrightarrow> a = 1"

fun addr_is_multicast :: "ipaddr \<Rightarrow> bool" where
  "addr_is_multicast (V4 a) \<longleftrightarrow> drop_bit 28 a = 0xe"
| "addr_is_multicast (V6 a) \<longleftrightarrow> drop_bit 120 a = 0xff"

fun net_addr :: "ipnet \<Rightarrow> ipaddr" where
  "net_addr (NetV4 (a, _)) = V4 a"
| "net_addr (NetV6 (a, _)) = V6 a"

definition exposed :: "server_config \<Rightarrow> bool" where
  "exposed s = list_ex (\<lambda>a. \<not> addr_is_loopback (sa_ip a)) (sv_udp_listen s @ sv_tcp_listen s)"

definition allow_nets :: "server_config \<Rightarrow> ipnet list" where
  "allow_nets s = (case sv_allow_from s of None \<Rightarrow> [] | Some nets \<Rightarrow> nets)"

definition server_checks :: "server_config \<Rightarrow> (bool \<times> string) list" where
  "server_checks s =
     (let udp = sv_udp s; tcp = sv_tcp s; rl = sv_rate_limit s in
      [(sv_udp_listen s = [] \<and> sv_tcp_listen s = [], ''server.udp_listen''),
       (\<not> distinct (sv_udp_listen s), ''server.udp_listen''),
       (\<not> distinct (sv_tcp_listen s), ''server.tcp_listen''),
       (udp_max_payload udp < 512, ''server.udp.max_payload''),
       (4096 < udp_max_payload udp, ''server.udp.max_payload''),
       (udp_non_edns_max_payload udp \<noteq> 512, ''server.udp.non_edns_max_payload''),
       (udp_workers_per_socket udp = 0, ''server.udp.workers_per_socket''),
       (1 < udp_workers_per_socket udp \<and> \<not> udp_reuse_port udp, ''server.udp.workers_per_socket''),
       (tcp_max_connections tcp = 0, ''server.tcp.max_connections''),
       (tcp_max_connections_per_client tcp = 0, ''server.tcp.max_connections_per_client''),
       (tcp_max_connections tcp < tcp_max_connections_per_client tcp,
        ''server.tcp.max_connections_per_client''),
       (tcp_max_message_bytes tcp < 512 \<or> 65535 < tcp_max_message_bytes tcp,
        ''server.tcp.max_message_bytes''),
       (tcp_max_pipelined_queries tcp = 0, ''server.tcp.max_pipelined_queries''),
       (as_millis (sv_foreground_budget s) = 0, ''server.foreground_budget''),
       (30 < as_secs (sv_foreground_budget s), ''server.foreground_budget''),
       (rl_enabled rl \<and> rl_per_client_qps rl = 0, ''server.rate_limit.per_client_qps''),
       (rl_enabled rl \<and> rl_global_qps rl = 0, ''server.rate_limit.global_qps''),
       (rl_enabled rl \<and> rl_per_client_burst rl < rl_per_client_qps rl,
        ''server.rate_limit.per_client_burst''),
       (rl_enabled rl \<and> rl_global_burst rl < rl_global_qps rl, ''server.rate_limit.global_burst''),
       (rl_enabled rl \<and> rl_client_table_size rl = 0, ''server.rate_limit.client_table_size''),
       (sv_allow_from s = None \<and> exposed s, ''server.allow_from''),
       (list_ex (\<lambda>net. addr_is_multicast (net_addr net)) (allow_nets s), ''server.allow_from''),
       (sv_any_policy s = AnyForward \<and> exposed s \<and> \<not> rl_enabled rl, ''server.any_policy'')])"

definition validate_server :: "config \<Rightarrow> config_error + unit" where
  "validate_server cfg = first_violation (server_checks (cfg_server cfg))"

definition FAILURE_MAX_TTL_CEILING :: duration where
  "FAILURE_MAX_TTL_CEILING = from_secs 300"

definition cache_checks :: "cache_config \<Rightarrow> (bool \<times> string) list" where
  "cache_checks c =
     [(cc_max_memory_bytes c < 1024 * 1024, ''cache.max_memory_bytes''),
      (cc_variant_max_memory_bytes c < 1024 * 1024, ''cache.variant_max_memory_bytes''),
      (cc_max_memory_bytes c < cc_variant_max_memory_bytes c, ''cache.variant_max_memory_bytes''),
      (cc_internal_max_ttl c = 0, ''cache.internal_max_ttl''),
      (604800 < cc_internal_max_ttl c, ''cache.internal_max_ttl''),
      (86400 < cc_negative_max_ttl c, ''cache.negative_max_ttl''),
      (as_secs (cc_failure_min_ttl c) < 1, ''cache.failure_min_ttl''),
      (FAILURE_MAX_TTL_CEILING < cc_failure_max_ttl c, ''cache.failure_max_ttl''),
      (cc_failure_max_ttl c < cc_failure_min_ttl c, ''cache.failure_max_ttl'')]"

definition ttl_checks :: "ttl_config \<Rightarrow> (bool \<times> string) list" where
  "ttl_checks t =
     concat (map (\<lambda>(name, v). [(v = 0, name), (86400 < v, name)])
       [(''ttl.cap_default'', tc_cap_default t),
        (''ttl.cap_optimized_multi'', tc_cap_optimized_multi t),
        (''ttl.cap_cloudflare_preserve'', tc_cap_cloudflare_preserve t),
        (''ttl.cap_cloudflare_augment'', tc_cap_cloudflare_augment t),
        (''ttl.cap_network_change'', tc_cap_network_change t),
        (''ttl.cap_serve_stale'', tc_cap_serve_stale t)]) @
     [(60 < tc_cap_cloudflare_augment t, ''ttl.cap_cloudflare_augment'')]"

definition serve_stale_checks :: "duration \<Rightarrow> serve_stale_config \<Rightarrow> (bool \<times> string) list" where
  "serve_stale_checks foreground_budget ss =
     (if ss_enabled ss then
        [(as_secs (ss_max_stale ss) = 0, ''serve_stale.max_stale''),
         (7 * 86400 < as_secs (ss_max_stale ss), ''serve_stale.max_stale''),
         (foreground_budget \<le> ss_client_timeout ss, ''serve_stale.client_timeout''),
         (1800 < as_millis (ss_client_timeout ss), ''serve_stale.client_timeout'')]
      else [])"

definition ranking_checks :: "ranking_config \<Rightarrow> (bool \<times> string) list" where
  "ranking_checks r =
     [(\<not> (0 \<le> rk_hysteresis r \<and> rk_hysteresis r \<le> 1), ''ranking.hysteresis''),
      (\<not> (0 \<le> rk_exploration_rate r \<and> rk_exploration_rate r \<le> 1 / 2),
       ''ranking.exploration_rate''),
      (rk_neutral_cost_ms r \<le> 0, ''ranking.neutral_cost_ms''),
      (rk_consecutive_failure_base r < 1, ''ranking.consecutive_failure_base''),
      (as_secs (rk_evidence_half_life r) = 0, ''ranking.evidence_half_life'')]"

definition prefetch_checks :: "prefetch_config \<Rightarrow> (bool \<times> string) list" where
  "prefetch_checks p =
     (if pf_enabled p then
        [(\<not> (1 / 100 \<le> pf_trigger_fraction p \<and> pf_trigger_fraction p \<le> 9 / 10),
          ''prefetch.trigger_fraction''),
         (pf_global_qps p = 0, ''prefetch.global_qps''),
         (pf_hot_set_size p = 0, ''prefetch.hot_set_size''),
         (pf_transition_prediction p \<and> pf_transition_table_size p = 0,
          ''prefetch.transition_table_size'')]
      else [])"

definition validate_cache_and_ttl :: "config \<Rightarrow> config_error + unit" where
  "validate_cache_and_ttl cfg =
     first_violation
       (cache_checks (cfg_cache cfg) @ ttl_checks (cfg_ttl cfg) @
        serve_stale_checks (sv_foreground_budget (cfg_server cfg)) (cfg_serve_stale cfg) @
        ranking_checks (cfg_ranking cfg) @ prefetch_checks (cfg_prefetch cfg))"

section \<open>Lemmas\<close>

lemma first_violation_ok: "first_violation checks = Inr u \<longleftrightarrow> list_all (\<lambda>c. \<not> fst c) checks"
  by (induction checks rule: first_violation.induct) auto

lemma validate_server_exposed:
  "validate_server cfg = Inr () \<Longrightarrow> sv_allow_from (cfg_server cfg) = None \<Longrightarrow> \<not> exposed (cfg_server cfg)"
  unfolding validate_server_def first_violation_ok server_checks_def Let_def by simp

lemmas validate_cache_and_ttl_iff =
  validate_cache_and_ttl_def first_violation_ok cache_checks_def ttl_checks_def
  serve_stale_checks_def ranking_checks_def prefetch_checks_def

lemma validated_failure_ttls:
  assumes "validate_cache_and_ttl cfg = Inr ()"
  shows "from_secs 1 \<le> cc_failure_min_ttl (cfg_cache cfg)"
    and "cc_failure_min_ttl (cfg_cache cfg) \<le> cc_failure_max_ttl (cfg_cache cfg)"
    and "cc_failure_max_ttl (cfg_cache cfg) \<le> FAILURE_MAX_TTL_CEILING"
  using assms unfolding validate_cache_and_ttl_iff list_all_append
  by (simp_all add: as_secs_def from_secs_def div_eq_0_iff)

section \<open>Properties\<close>

text \<open>
  C21. A validated configuration never makes an open resolver by omission: if no client networks
  are configured then every listener is on a loopback address, and the access list built from the
  configuration admits loopback clients only.
\<close>

theorem validated_config_not_open:
  assumes "ipnet_law L" and "validate_server cfg = Inr ()"
    and "sv_allow_from (cfg_server cfg) = None"
  shows "\<not> exposed (cfg_server cfg) \<and>
    (acl_permits L (acl_of_config cfg) addr \<longrightarrow> addr_is_loopback (normalise_addr addr))"
proof (intro conjI impI)
  show "\<not> exposed (cfg_server cfg)" using assms(2,3) by (rule validate_server_exposed)
next
  assume "acl_permits L (acl_of_config cfg) addr"
  then have "list_ex (\<lambda>n. net_contains L n (normalise_addr addr)) loopback_networks"
    using assms(3)
    by (simp add: acl_permits_def acl_evaluate_def acl_of_config_def effective_allow_from_def Let_def
        split: if_splits)
  then show "addr_is_loopback (normalise_addr addr)"
  proof (cases "normalise_addr addr")
    case (V4 a)
    then have "contains4 L (ipv4_new 127 0 0 0, 8) a"
      using \<open>list_ex _ _\<close> by (simp add: loopback_networks_def)
    then have "drop_bit 24 a = drop_bit 24 (ipv4_new 127 0 0 0)"
      using assms(1) by (simp add: ipnet_law_def)
    moreover have "drop_bit 24 (ipv4_new 127 0 0 0) = 127" by (simp add: ipv4_new_def)
    ultimately show ?thesis by (simp add: V4)
  next
    case (V6 a)
    then have "contains6 L (1, 128) a"
      using \<open>list_ex _ _\<close> by (simp add: loopback_networks_def)
    then show ?thesis using assms(1) by (simp add: V6 ipnet_law_def)
  qed
qed

theorem validated_config_not_open_witness:
  "validate_server config_default = Inr () \<and>
   \<not> acl_permits prefix_lib (acl_of_config config_default) (V4 (ipv4_new 8 8 8 8))"
proof -
  have v: "validate_server config_default = Inr ()"
    by (simp add: validate_server_def server_checks_def config_default_def server_config_default_def
        udp_config_default_def tcp_config_default_def rate_limit_config_default_def default_listen_def
        allow_nets_def exposed_def ipv4_new_def as_millis_def as_secs_def from_millis_def)
  moreover have "\<not> addr_is_loopback (normalise_addr (V4 (ipv4_new 8 8 8 8)))"
    by (simp add: ipv4_new_def)
  moreover have "sv_allow_from (cfg_server config_default) = None"
    by (simp add: config_default_def server_config_default_def)
  ultimately show ?thesis
    using validated_config_not_open [OF ipnet_law_prefix_lib v] by blast
qed

text \<open>
  The built-in defaults pass the validation of the server, cache, TTL, serve-stale, ranking
  and prefetch sections.
\<close>

theorem default_config_valid:
  "validate_server config_default = Inr () \<and> validate_cache_and_ttl config_default = Inr ()"
proof
  show "validate_server config_default = Inr ()"
    by (simp add: validate_server_def server_checks_def config_default_def server_config_default_def
        udp_config_default_def tcp_config_default_def rate_limit_config_default_def default_listen_def
        allow_nets_def exposed_def ipv4_new_def as_millis_def as_secs_def from_millis_def)
  show "validate_cache_and_ttl config_default = Inr ()"
    by (simp add: validate_cache_and_ttl_iff config_default_def server_config_default_def
        cache_config_default_def ttl_config_default_def serve_stale_config_default_def
        ranking_config_default_def prefetch_config_default_def FAILURE_MAX_TTL_CEILING_def
        as_millis_def as_secs_def from_millis_def from_secs_def)
qed

end
