(* ===== verification/ClientTtl.thy ===== *)
theory ClientTtl
  imports Config Bytes
begin

text \<open>
  Two small time policies: the client-facing TTL (\<^verbatim>\<open>policy/ttl.rs\<close>) and the exponential backoff
  (\<^verbatim>\<open>util/backoff.rs\<close>). The backoff's floating-point scaling is computed over the reals.
\<close>

section \<open>Client TTL\<close>

datatype ttl_reason =
    ReasonServeStale | ReasonNetworkChange | ReasonCloudflareAugment | ReasonCloudflarePreserve
  | ReasonOptimizedMulti | ReasonDefault

record ttl_inputs =
  ti_remaining_authoritative :: u32
  ti_remaining_signature :: "u32 option"
  ti_is_stale :: bool
  ti_recent_network_change :: bool
  ti_cloudflare_augmented :: bool
  ti_cloudflare_preserved :: bool
  ti_optimized_multi :: bool

fun ttl_reason_label :: "ttl_reason \<Rightarrow> string" where
  "ttl_reason_label ReasonServeStale = ''serve_stale''"
| "ttl_reason_label ReasonNetworkChange = ''network_change''"
| "ttl_reason_label ReasonCloudflareAugment = ''cloudflare_augment''"
| "ttl_reason_label ReasonCloudflarePreserve = ''cloudflare_preserve''"
| "ttl_reason_label ReasonOptimizedMulti = ''optimized_multi''"
| "ttl_reason_label ReasonDefault = ''default''"

definition effective_client_ttl :: "ttl_config \<Rightarrow> ttl_inputs \<Rightarrow> u32 \<times> ttl_reason" where
  "effective_client_ttl cfg inputs =
     (let (cap0, reason) =
        (if ti_is_stale inputs then (tc_cap_serve_stale cfg, ReasonServeStale)
         else if ti_cloudflare_augmented inputs
           then (tc_cap_cloudflare_augment cfg, ReasonCloudflareAugment)
         else if ti_recent_network_change inputs
           then (tc_cap_network_change cfg, ReasonNetworkChange)
         else if ti_cloudflare_preserved inputs
           then (tc_cap_cloudflare_preserve cfg, ReasonCloudflarePreserve)
         else if ti_optimized_multi inputs
           then (tc_cap_optimized_multi cfg, ReasonOptimizedMulti)
         else (tc_cap_default cfg, ReasonDefault));
        cap = (if ti_recent_network_change inputs then min cap0 (tc_cap_network_change cfg) else cap0);
        ttl = min (ti_remaining_authoritative inputs) cap
      in (case ti_remaining_signature inputs of Some sig \<Rightarrow> min ttl sig | None \<Rightarrow> ttl, reason))"

section \<open>Backoff\<close>

record backoff =
  bo_base :: duration
  bo_max :: duration
  bo_jitter :: real

definition backoff_new :: "duration \<Rightarrow> duration \<Rightarrow> real \<Rightarrow> backoff" where
  "backoff_new base mx jitter = \<lparr>bo_base = base, bo_max = mx, bo_jitter = max 0 (min 1 jitter)\<rparr>"

text \<open>\<^verbatim>\<open>Duration::MAX\<close>, at which \<^verbatim>\<open>saturating_mul\<close> stops.\<close>

definition DURATION_MAX :: duration where
  "DURATION_MAX = (2 ^ 64 - 1) * 1000000000 + 999999999"

definition backoff_capped :: "backoff \<Rightarrow> u32 \<Rightarrow> duration" where
  "backoff_capped self n =
     (let shift = min (unat n) 20;
          raw = min (bo_base self * 2 ^ shift) DURATION_MAX
      in if bo_max self < raw then bo_max self else raw)"

definition jitter_unit :: "u32 \<Rightarrow> u64 \<Rightarrow> real" where
  "jitter_unit n seed =
     (let mixed = fnv1a64 (u64_to_le_bytes seed @ u64_to_le_bytes (ucast n))
      in real (unat (drop_bit 11 mixed)) / 2 ^ 53)"

definition backoff_delay :: "backoff \<Rightarrow> u32 \<Rightarrow> u64 \<Rightarrow> duration" where
  "backoff_delay self n seed =
     (let capped = backoff_capped self n in
      if bo_jitter self \<le> 1 / 2 ^ 52 then capped
      else
        (let factor = 1 - bo_jitter self / 2 + bo_jitter self * jitter_unit n seed;
             millis = max 0 (real_of_int \<lfloor>as_secs_f64 capped * factor * 1000 + 1 / 2\<rfloor>)
         in from_millis (min (nat \<lfloor>millis\<rfloor>) (2 ^ 64 - 1))))"

section \<open>Lemmas\<close>

lemma jitter_unit_range: "0 \<le> jitter_unit n seed \<and> jitter_unit n seed < 1"
proof -
  have "unat (drop_bit 11 (m :: u64)) < 2 ^ 53" for m
    using unat_less_pow [of m] by (simp add: unat_drop_bit_div div_less_iff_less_mult)
  then have "real (unat (drop_bit 11 (m :: u64))) < 2 ^ 53" for m
    by (metis of_nat_less_numeral_power_cancel_iff)
  moreover have "0 \<le> real (unat (w :: u64))" for w by (rule of_nat_0_le_iff)
  ultimately show ?thesis
    unfolding jitter_unit_def Let_def by (simp add: divide_less_eq del: of_nat_unat)
qed

lemma backoff_capped_min:
  "backoff_capped self n = min (bo_max self) (min (bo_base self * 2 ^ min (unat n) 20) DURATION_MAX)"
  by (simp add: backoff_capped_def Let_def min_def)

lemma backoff_capped_le: "backoff_capped self n \<le> bo_max self"
  by (simp add: backoff_capped_min)

lemma backoff_capped_mono: "unat n \<le> unat m \<Longrightarrow> backoff_capped self n \<le> backoff_capped self m"
  unfolding backoff_capped_min by (intro min.mono mult_left_mono power_increasing) auto

lemma round_millis:
  assumes "0 \<le> x" and "x < 2 ^ 64 - 1"
  shows "\<bar>real (from_millis (min (nat \<lfloor>max 0 (real_of_int \<lfloor>x + 1 / 2\<rfloor>)\<rfloor>) (2 ^ 64 - 1))) - 1000000 * x\<bar> \<le> 500000"
proof -
  let ?k = "\<lfloor>x + 1 / 2\<rfloor>"
  have k: "0 \<le> ?k" using assms(1) by simp
  then have m: "max 0 (real_of_int ?k) = real_of_int ?k" by simp
  have near: "real_of_int ?k \<le> x + 1 / 2" "x - 1 / 2 < real_of_int ?k" by linarith+
  have "x + 1 / 2 < 2 ^ 64" using assms(2) by linarith
  then have "?k < 2 ^ 64" by (simp add: floor_less_iff)
  moreover have "0 \<le> z \<Longrightarrow> z < 2 ^ 64 \<Longrightarrow> nat z < 2 ^ 64" for z :: int by simp
  ultimately have "nat ?k < 2 ^ 64" using k by blast
  then have "min (nat ?k) (2 ^ 64 - 1) = nat ?k" by simp
  then have "real (from_millis (min (nat \<lfloor>max 0 (real_of_int ?k)\<rfloor>) (2 ^ 64 - 1))) = 1000000 * real_of_int ?k"
    unfolding m floor_of_int using k by (simp add: from_millis_def)
  with near show ?thesis unfolding abs_le_iff by (simp only:) linarith
qed

lemma backoff_delay_near:
  fixes n seed
  assumes "0 \<le> bo_jitter self" and "bo_jitter self \<le> 1" and "bo_max self \<le> from_millis (2 ^ 63)"
  defines "f \<equiv> 1 - bo_jitter self / 2 + bo_jitter self * jitter_unit n seed"
  shows "backoff_delay self n seed = backoff_capped self n \<or>
    \<bar>real (backoff_delay self n seed) - real (backoff_capped self n) * f\<bar> \<le> 500000"
proof (cases "bo_jitter self \<le> 1 / 2 ^ 52")
  case True
  then show ?thesis by (simp add: backoff_delay_def Let_def)
next
  case False
  let ?c = "real (backoff_capped self n)" and ?x = "as_secs_f64 (backoff_capped self n) * f * 1000"
  have "bo_jitter self * jitter_unit n seed \<le> bo_jitter self * 1"
    using jitter_unit_range [of n seed] assms(1) by (intro mult_left_mono) auto
  moreover have "0 \<le> bo_jitter self * jitter_unit n seed"
    using jitter_unit_range [of n seed] assms(1) by simp
  ultimately have f: "0 \<le> f" "f \<le> 3 / 2" using assms(2) by (auto simp: f_def)
  have x: "1000000 * ?x = ?c * f" by (simp add: as_secs_f64_def)
  have "backoff_capped self n \<le> from_millis (2 ^ 63)" using backoff_capped_le assms(3) by (rule le_trans)
  then have "?c \<le> 2 ^ 63 * 1000000" by (simp add: from_millis_def)
  then have "?c * f \<le> 2 ^ 63 * 1000000 * (3 / 2)" using f by (intro mult_mono) auto
  then have "1000000 * ?x \<le> 2 ^ 63 * 1000000 * (3 / 2)" unfolding x .
  then have "?x < 2 ^ 64 - 1" by simp
  moreover have "0 \<le> ?x" using f by (simp add: as_secs_f64_def)
  ultimately show ?thesis
    using round_millis [of ?x] False unfolding x by (simp add: backoff_delay_def Let_def f_def)
qed

section \<open>Properties\<close>


text \<open>
  Backoff delays grow with the attempt up to the configured maximum, and jitter keeps the
  delay within half a millisecond of the interval of half the jitter fraction on either side of
  the capped exponential, so no delay exceeds one and a half times the maximum by more than that.
\<close>

theorem backoff_delay_bounds:
  assumes "0 \<le> bo_jitter self" and "bo_jitter self \<le> 1" and "bo_max self \<le> from_millis (2 ^ 63)"
  shows "backoff_capped self n \<le> bo_max self \<and>
    (\<forall>m. unat n \<le> unat m \<longrightarrow> backoff_capped self n \<le> backoff_capped self m) \<and>
    (1 - bo_jitter self / 2) * backoff_capped self n - 500000 \<le> backoff_delay self n seed \<and>
    backoff_delay self n seed \<le> (1 + bo_jitter self / 2) * backoff_capped self n + 500000 \<and>
    backoff_delay self n seed \<le> 3 / 2 * bo_max self + 500000"
proof -
  let ?j = "bo_jitter self" and ?c = "real (backoff_capped self n)"
    and ?f = "1 - bo_jitter self / 2 + bo_jitter self * jitter_unit n seed"
  have u: "0 \<le> ?j * jitter_unit n seed" "?j * jitter_unit n seed \<le> ?j"
    using jitter_unit_range [of n seed] assms(1) by (auto intro: mult_left_le)
  have lo: "?c * (1 - ?j / 2) \<le> ?c * ?f" and hi: "?c * ?f \<le> ?c * (1 + ?j / 2)"
    using u by (auto intro!: mult_left_mono)
  have lo': "?c * (1 - ?j / 2) \<le> ?c" and hi': "?c \<le> ?c * (1 + ?j / 2)"
    using assms(1,2) by (auto simp: algebra_simps)
  have "?c \<le> bo_max self" using backoff_capped_le [of self n] by simp
  then have "?c * (1 + ?j / 2) \<le> bo_max self * (3 / 2)"
    using assms(1,2) by (intro mult_mono) auto
  moreover have "(1 - ?j / 2) * ?c - 500000 \<le> backoff_delay self n seed"
    "backoff_delay self n seed \<le> (1 + ?j / 2) * ?c + 500000"
    using backoff_delay_near [OF assms, of n seed] lo hi lo' hi'
    unfolding abs_le_iff mult.commute [of _ ?c] by (elim disjE; simp)+
  ultimately show ?thesis
    using backoff_capped_le [of self n] backoff_capped_mono [of n _ self]
    by (auto simp: mult.commute)
qed

theorem backoff_delay_bounds_witness:
  "backoff_delay (backoff_new (from_millis 250) (from_secs 60) 0) 3 7 \<le> 3 / 2 * from_secs 60 + 500000"
  using backoff_delay_bounds [of "backoff_new (from_millis 250) (from_secs 60) 0" 3 7]
  by (simp add: backoff_new_def from_secs_def from_millis_def)

end
