(* ===== verification/Message.thy ===== *)
theory Message
  imports Addresses Bytes "HOL-Library.List_Lexorder"
begin

unbundle bit_operations_syntax

text \<open>
  DNS messages and the helpers of \<^verbatim>\<open>dns/message.rs\<close>: EDNS options, TTL arithmetic,
  size-limited serialisation, response skeletons, the answer fingerprint and the question check.

  Messages are values of the \<^verbatim>\<open>hickory-proto\<close> crate. They are represented by records of the
  fields the program reads or writes: record types, classes and option codes by their IANA
  numbers, names by their presentation text, record data by the alternatives the program matches
  on. What that crate computes is an argument \<open>P :: proto_lib\<close> of the definitions: the option
  list operations, the encoder, the texts of record data, the response header derived from a
  request header. \<open>opt_law P\<close> and \<open>emit_law P\<close> state the documented behaviour two groups of
  theorems rely on, and \<open>list_proto\<close> is a concrete instance.
\<close>

section \<open>Data\<close>

type_synonym rtype = u16
type_synonym dns_class = u16

definition RT_A :: rtype where "RT_A = 1"
definition RT_CNAME :: rtype where "RT_CNAME = 5"
definition RT_SOA :: rtype where "RT_SOA = 6"
definition RT_HINFO :: rtype where "RT_HINFO = 13"
definition RT_AAAA :: rtype where "RT_AAAA = 28"
definition RT_OPT :: rtype where "RT_OPT = 41"
definition RT_RRSIG :: rtype where "RT_RRSIG = 46"
definition RT_SVCB :: rtype where "RT_SVCB = 64"
definition RT_HTTPS :: rtype where "RT_HTTPS = 65"
definition RT_ANY :: rtype where "RT_ANY = 255"

lemmas rtype_defs =
  RT_A_def RT_CNAME_def RT_SOA_def RT_HINFO_def RT_AAAA_def RT_OPT_def RT_RRSIG_def
  RT_SVCB_def RT_HTTPS_def RT_ANY_def

definition CLASS_IN :: dns_class where "CLASS_IN = 1"
definition CLASS_CH :: dns_class where "CLASS_CH = 3"

datatype rcode = NoError | FormErr | ServFail | NXDomain | NotImp | Refused | BADVERS
  | OtherRcode u16

datatype op_code = OpQuery | OtherOp u8

datatype message_type = MtQuery | MtResponse

text \<open>DNSSEC proof of one record, in the order of \<^verbatim>\<open>hickory_proto::dnssec::Proof\<close>.\<close>

datatype rr_proof = ProofIndeterminate | ProofBogus | ProofInsecure | ProofSecure

datatype rdata =
    RdA ipv4
  | RdAAAA ipv6
  | RdCNAME string
  | RdSOA (soa_minimum: u32) (soa_rest: string)
  | RdRRSIG (sig_type_covered: rtype) (sig_expiration: u32) (sig_rest: string)
  | RdHINFO string string
  | RdSvc (svc_https: bool) (svc_params: "u16 list") (svc_rest: string)
  | RdOther rtype string

fun rdata_type :: "rdata \<Rightarrow> rtype" where
  "rdata_type (RdA _) = RT_A"
| "rdata_type (RdAAAA _) = RT_AAAA"
| "rdata_type (RdCNAME _) = RT_CNAME"
| "rdata_type (RdSOA _ _) = RT_SOA"
| "rdata_type (RdRRSIG _ _ _) = RT_RRSIG"
| "rdata_type (RdHINFO _ _) = RT_HINFO"
| "rdata_type (RdSvc https _ _) = (if https then RT_HTTPS else RT_SVCB)"
| "rdata_type (RdOther t _) = t"

record rr =
  rr_name :: string
  rr_class :: dns_class
  rr_ttl :: u32
  rr_data :: rdata
  rr_proof :: rr_proof

abbreviation record_type :: "rr \<Rightarrow> rtype" where
  "record_type r \<equiv> rdata_type (rr_data r)"

record query =
  q_name :: string
  q_type :: rtype
  q_class :: dns_class

record client_subnet =
  cs_addr :: ipaddr
  cs_source_prefix :: u8
  cs_scope_prefix :: u8

datatype edns_option = OptUnknown u16 bytes | OptSubnet client_subnet | OptTyped u16 bytes

record edns =
  ed_payload :: u16
  ed_version :: u8
  ed_dnssec_ok :: bool
  ed_options :: "edns_option list"

record metadata =
  md_id :: u16
  md_type :: message_type
  md_op :: op_code
  md_authoritative :: bool
  md_truncation :: bool
  md_recursion_desired :: bool
  md_recursion_available :: bool
  md_authentic_data :: bool
  md_checking_disabled :: bool
  md_rcode :: rcode

record message =
  m_meta :: metadata
  m_queries :: "query list"
  m_answers :: "rr list"
  m_authorities :: "rr list"
  m_additionals :: "rr list"
  m_edns :: "edns option"

record proto_lib =
  opt_insert :: "edns_option \<Rightarrow> edns_option list \<Rightarrow> edns_option list"
  opt_get :: "u16 \<Rightarrow> edns_option list \<Rightarrow> edns_option option"
  opt_get_all :: "u16 \<Rightarrow> edns_option list \<Rightarrow> edns_option list"
  opt_remove :: "u16 \<Rightarrow> edns_option list \<Rightarrow> edns_option list"
  edns_new :: edns
  set_max_payload :: "u16 \<Rightarrow> edns \<Rightarrow> edns"
  response_from_request :: "metadata \<Rightarrow> metadata"
  from_rdata :: "string \<Rightarrow> u32 \<Rightarrow> rdata \<Rightarrow> rr"
  rdata_text :: "rdata \<Rightarrow> string"
  emit_parts :: "u16 \<Rightarrow> message \<Rightarrow> string + bytes \<times> bool"
  emit_message :: "u16 \<Rightarrow> message \<Rightarrow> string + bytes"
  truncate_message :: "message \<Rightarrow> message"
  to_vec :: "message \<Rightarrow> string + bytes"

section \<open>EDNS options\<close>

definition EDE_OPTION_CODE :: u16 where "EDE_OPTION_CODE = 15"
definition COOKIE_OPTION_CODE :: u16 where "COOKIE_OPTION_CODE = 10"
definition KEEPALIVE_OPTION_CODE :: u16 where "KEEPALIVE_OPTION_CODE = 11"
definition SUBNET_OPTION_CODE :: u16 where "SUBNET_OPTION_CODE = 8"

lemmas option_code_defs =
  EDE_OPTION_CODE_def COOKIE_OPTION_CODE_def KEEPALIVE_OPTION_CODE_def SUBNET_OPTION_CODE_def

fun option_code :: "edns_option \<Rightarrow> u16" where
  "option_code (OptUnknown c _) = c"
| "option_code (OptSubnet _) = SUBNET_OPTION_CODE"
| "option_code (OptTyped c _) = c"

datatype extended_error =
    EdeOther | EdeStaleAnswer | EdeForgedAnswer | EdeDnssecIndeterminate | EdeDnssecBogus
  | EdeSignatureExpired | EdeSignatureNotYetValid | EdeNsecMissing | EdeNotReady | EdeBlocked
  | EdeProhibited | EdeStaleNxdomain | EdeNoReachableAuthority | EdeNetworkError

fun ede_code :: "extended_error \<Rightarrow> u16" where
  "ede_code EdeOther = 0"
| "ede_code EdeStaleAnswer = 3"
| "ede_code EdeForgedAnswer = 4"
| "ede_code EdeDnssecIndeterminate = 5"
| "ede_code EdeDnssecBogus = 6"
| "ede_code EdeSignatureExpired = 7"
| "ede_code EdeSignatureNotYetValid = 8"
| "ede_code EdeNsecMissing = 12"
| "ede_code EdeNotReady = 14"
| "ede_code EdeBlocked = 15"
| "ede_code EdeProhibited = 18"
| "ede_code EdeStaleNxdomain = 19"
| "ede_code EdeNoReachableAuthority = 22"
| "ede_code EdeNetworkError = 23"

fun ede_label :: "extended_error \<Rightarrow> string" where
  "ede_label EdeOther = ''other''"
| "ede_label EdeStaleAnswer = ''stale_answer''"
| "ede_label EdeForgedAnswer = ''forged_answer''"
| "ede_label EdeDnssecIndeterminate = ''dnssec_indeterminate''"
| "ede_label EdeDnssecBogus = ''dnssec_bogus''"
| "ede_label EdeSignatureExpired = ''signature_expired''"
| "ede_label EdeSignatureNotYetValid = ''signature_not_yet_valid''"
| "ede_label EdeNsecMissing = ''nsec_missing''"
| "ede_label EdeNotReady = ''not_ready''"
| "ede_label EdeBlocked = ''blocked''"
| "ede_label EdeProhibited = ''prohibited''"
| "ede_label EdeStaleNxdomain = ''stale_nxdomain''"
| "ede_label EdeNoReachableAuthority = ''no_reachable_authority''"
| "ede_label EdeNetworkError = ''network_error''"

definition encode_ede :: "extended_error \<Rightarrow> ustring \<Rightarrow> edns_option" where
  "encode_ede err extra_text =
     OptUnknown EDE_OPTION_CODE
       (u16_to_be_bytes (ede_code err) @ utf8_encode (bounded extra_text 60))"

text \<open>The text is returned as the UTF-8 bytes of the \<^verbatim>\<open>String\<close>.\<close>

fun decode_ede :: "edns_option \<Rightarrow> (u16 \<times> bytes) option" where
  "decode_ede (OptUnknown code bs) =
     (if code \<noteq> EDE_OPTION_CODE \<or> length bs < 2 then None
      else Some (u16_from_be_bytes (bs ! 0) (bs ! 1), utf8_lossy (drop 2 bs)))"
| "decode_ede _ = None"

definition update_options :: "(edns_option list \<Rightarrow> edns_option list) \<Rightarrow> message \<Rightarrow> message" where
  "update_options f msg =
     msg\<lparr>m_edns := map_option (\<lambda>e. e\<lparr>ed_options := f (ed_options e)\<rparr>) (m_edns msg)\<rparr>"

definition attach_ede :: "proto_lib \<Rightarrow> message \<Rightarrow> extended_error \<Rightarrow> ustring \<Rightarrow> message" where
  "attach_ede P msg err extra_text =
     (case m_edns msg of
        Some _ \<Rightarrow> update_options (opt_insert P (encode_ede err extra_text)) msg
      | None \<Rightarrow> msg)"

definition extract_edes :: "proto_lib \<Rightarrow> message \<Rightarrow> (u16 \<times> bytes) list" where
  "extract_edes P msg =
     (case m_edns msg of
        None \<Rightarrow> []
      | Some e \<Rightarrow> List.map_filter decode_ede (opt_get_all P EDE_OPTION_CODE (ed_options e)))"

definition encode_client_cookie :: "bytes \<Rightarrow> edns_option" where
  "encode_client_cookie client = OptUnknown COOKIE_OPTION_CODE client"

definition encode_full_cookie :: "bytes \<Rightarrow> bytes \<Rightarrow> edns_option" where
  "encode_full_cookie client server =
     OptUnknown COOKIE_OPTION_CODE (client @ take (min (length server) 32) server)"

definition extract_server_cookie :: "proto_lib \<Rightarrow> message \<Rightarrow> bytes \<Rightarrow> bytes option" where
  "extract_server_cookie P msg expect_client =
     (case m_edns msg of
        None \<Rightarrow> None
      | Some e \<Rightarrow>
          (case opt_get P COOKIE_OPTION_CODE (ed_options e) of
             Some (OptUnknown _ bs) \<Rightarrow>
               (if length bs < 8 \<or> take 8 bs \<noteq> expect_client then None
                else let server = drop 8 bs in
                  if server = [] then Some []
                  else if \<not> (8 \<le> length server \<and> length server \<le> 32) then None
                  else Some server)
           | _ \<Rightarrow> None))"

definition encode_tcp_keepalive :: "duration \<Rightarrow> edns_option" where
  "encode_tcp_keepalive idle =
     OptUnknown KEEPALIVE_OPTION_CODE
       (u16_to_be_bytes (of_nat (min (as_millis idle div 100) 65535)))"

definition encode_ecs :: "ipaddr \<Rightarrow> u8 \<Rightarrow> edns_option" where
  "encode_ecs addr source_prefix_len =
     OptSubnet \<lparr>cs_addr = addr, cs_source_prefix = source_prefix_len, cs_scope_prefix = 0\<rparr>"

definition extract_ecs :: "proto_lib \<Rightarrow> message \<Rightarrow> client_subnet option" where
  "extract_ecs P msg =
     (case m_edns msg of
        None \<Rightarrow> None
      | Some e \<Rightarrow>
          (case opt_get P SUBNET_OPTION_CODE (ed_options e) of
             Some (OptSubnet cs) \<Rightarrow> Some cs
           | _ \<Rightarrow> None))"

definition strip_ecs :: "proto_lib \<Rightarrow> message \<Rightarrow> message" where
  "strip_ecs P msg = update_options (opt_remove P SUBNET_OPTION_CODE) msg"

section \<open>TTL arithmetic\<close>

definition map_ttls :: "(u32 \<Rightarrow> u32) \<Rightarrow> message \<Rightarrow> message" where
  "map_ttls f msg =
     (let upd = map (\<lambda>r. r\<lparr>rr_ttl := f (rr_ttl r)\<rparr>) in
      msg\<lparr>m_answers := upd (m_answers msg), m_authorities := upd (m_authorities msg),
          m_additionals := upd (m_additionals msg)\<rparr>)"

definition cap_ttls :: "message \<Rightarrow> u32 \<Rightarrow> message" where
  "cap_ttls msg cap = map_ttls (\<lambda>ttl. min ttl cap) msg"

definition age_ttls :: "message \<Rightarrow> u32 \<Rightarrow> message" where
  "age_ttls msg elapsed = map_ttls (\<lambda>ttl. sat_sub ttl elapsed) msg"

definition all_records :: "message \<Rightarrow> rr list" where
  "all_records msg = m_answers msg @ m_authorities msg @ m_additionals msg"

definition real_ttls :: "message \<Rightarrow> u32 list" where
  "real_ttls msg = map rr_ttl (filter (\<lambda>r. record_type r \<noteq> RT_OPT) (all_records msg))"

definition min_ttl :: "message \<Rightarrow> u32 option" where
  "min_ttl msg = (case real_ttls msg of [] \<Rightarrow> None | t # ts \<Rightarrow> Some (fold min ts t))"

definition max_ttl :: "message \<Rightarrow> u32 option" where
  "max_ttl msg = (case real_ttls msg of [] \<Rightarrow> None | t # ts \<Rightarrow> Some (fold max ts t))"

section \<open>Serialisation and responses\<close>

record serialized =
  ser_bytes :: bytes
  ser_truncated :: bool

definition wire_limit :: "nat \<Rightarrow> u16" where
  "wire_limit max_size = of_nat (min (max max_size 512) 65535)"

definition serialize_limited :: "proto_lib \<Rightarrow> message \<Rightarrow> nat \<Rightarrow> string + serialized" where
  "serialize_limited P msg max_size =
     (let limit = wire_limit max_size in
      case emit_parts P limit msg of
        Inl e \<Rightarrow> Inl e
      | Inr (buffer, header_truncation) \<Rightarrow>
          (if \<not> header_truncation \<or> md_truncation (m_meta msg)
           then Inr \<lparr>ser_bytes = buffer, ser_truncated = header_truncation\<rparr>
           else case emit_message P limit (truncate_message P msg) of
                  Inl e \<Rightarrow> Inl e
                | Inr small \<Rightarrow> Inr \<lparr>ser_bytes = small, ser_truncated = True\<rparr>))"

definition response_skeleton :: "proto_lib \<Rightarrow> message \<Rightarrow> bool \<Rightarrow> message" where
  "response_skeleton P request recursion_available =
     \<lparr>m_meta = (response_from_request P (m_meta request))
                 \<lparr>md_recursion_available := recursion_available\<rparr>,
      m_queries = m_queries request, m_answers = [], m_authorities = [], m_additionals = [],
      m_edns = None\<rparr>"

definition error_response :: "proto_lib \<Rightarrow> message \<Rightarrow> rcode \<Rightarrow> bool \<Rightarrow> message" where
  "error_response P request code recursion_available =
     \<lparr>m_meta = (response_from_request P (m_meta request))
                 \<lparr>md_rcode := code, md_recursion_available := recursion_available\<rparr>,
      m_queries = m_queries request, m_answers = [], m_authorities = [], m_additionals = [],
      m_edns = (case m_edns request of
                  Some req_edns \<Rightarrow>
                    Some ((set_max_payload P (ed_payload req_edns) (edns_new P))
                            \<lparr>ed_version := 0, ed_dnssec_ok := ed_dnssec_ok req_edns\<rparr>)
                | None \<Rightarrow> None)\<rparr>"

definition minimal_any_response :: "proto_lib \<Rightarrow> message \<Rightarrow> u32 \<Rightarrow> message" where
  "minimal_any_response P request ttl =
     (let msg = response_skeleton P request True in
      case m_queries request of
        q # _ \<Rightarrow> msg\<lparr>m_answers := [from_rdata P (q_name q) ttl (RdHINFO ''RFC8482'' [])]\<rparr>
      | [] \<Rightarrow> msg)"

section \<open>Fingerprint and question check\<close>

definition ascii_bytes :: "string \<Rightarrow> bytes" where
  "ascii_bytes s = map of_char s"

definition fingerprint_part :: "proto_lib \<Rightarrow> rr \<Rightarrow> bytes" where
  "fingerprint_part P r =
     ascii_bytes (to_ascii_lowercase (rr_name r)) @ [0] @
     u16_to_be_bytes (record_type r) @ u16_to_be_bytes (rr_class r) @ [0] @
     ascii_bytes (to_ascii_lowercase (rdata_text P (rr_data r)))"

definition answer_fingerprint :: "proto_lib \<Rightarrow> message \<Rightarrow> u64" where
  "answer_fingerprint P msg =
     fold (\<lambda>p hash. fnv_step 0xff (fold fnv_step p hash))
       (sort (map (fingerprint_part P) (m_answers msg))) 0xcbf29ce484222325"

definition question_matches :: "message \<Rightarrow> message \<Rightarrow> bool" where
  "question_matches request response =
     (if length (m_queries request) \<noteq> length (m_queries response) then False
      else list_all
        (\<lambda>(a, b). q_type a = q_type b \<and> q_class a = q_class b \<and>
                  eq_ignore_ascii_case (q_name a) (q_name b))
        (zip (m_queries request) (m_queries response)))"

definition supported_class :: "query \<Rightarrow> bool" where
  "supported_class q \<longleftrightarrow> q_class q = CLASS_IN \<or> q_class q = CLASS_CH"

section \<open>The library's documented behaviour\<close>

text \<open>
  The option list: an inserted option is found under its code, options of other codes are not
  affected, \<open>opt_get\<close> returns one of the options of the code, and removal leaves none.
\<close>

definition opt_law :: "proto_lib \<Rightarrow> bool" where
  "opt_law P \<longleftrightarrow>
     (\<forall>c os op. op \<in> set (opt_get_all P c os) \<longrightarrow> option_code op = c) \<and>
     (\<forall>op os. op \<in> set (opt_get_all P (option_code op) (opt_insert P op os))) \<and>
     (\<forall>c op os. c \<noteq> option_code op \<longrightarrow>
        opt_get_all P c (opt_insert P op os) = opt_get_all P c os) \<and>
     (\<forall>op os. opt_get_all P (option_code op) os = [] \<longrightarrow>
        opt_get_all P (option_code op) (opt_insert P op os) = [op]) \<and>
     (\<forall>c os. opt_get P c os =
        (case opt_get_all P c os of [] \<Rightarrow> None | op # _ \<Rightarrow> Some op)) \<and>
     (\<forall>c os. opt_get_all P c (opt_remove P c os) = []) \<and>
     (\<forall>c d os. c \<noteq> d \<longrightarrow> opt_get_all P c (opt_remove P d os) = opt_get_all P c os)"

text \<open>The encoder stays within the maximum size it is given.\<close>

definition emit_law :: "proto_lib \<Rightarrow> bool" where
  "emit_law P \<longleftrightarrow>
     (\<forall>limit m bs tc. emit_parts P limit m = Inr (bs, tc) \<longrightarrow> length bs \<le> unat limit) \<and>
     (\<forall>limit m bs. emit_message P limit m = Inr bs \<longrightarrow> length bs \<le> unat limit)"

definition list_proto :: proto_lib where
  "list_proto =
     \<lparr>opt_insert = (\<lambda>op os. os @ [op]),
      opt_get = (\<lambda>c os. List.find (\<lambda>op. option_code op = c) os),
      opt_get_all = (\<lambda>c os. filter (\<lambda>op. option_code op = c) os),
      opt_remove = (\<lambda>c os. filter (\<lambda>op. option_code op \<noteq> c) os),
      edns_new = \<lparr>ed_payload = 1232, ed_version = 0, ed_dnssec_ok = False, ed_options = []\<rparr>,
      set_max_payload = (\<lambda>n e. e\<lparr>ed_payload := max n 512\<rparr>),
      response_from_request = (\<lambda>md. md\<lparr>md_type := MtResponse\<rparr>),
      from_rdata = (\<lambda>name ttl d. \<lparr>rr_name = name, rr_class = CLASS_IN, rr_ttl = ttl,
                      rr_data = d, rr_proof = ProofIndeterminate\<rparr>),
      rdata_text = (\<lambda>d. case d of RdCNAME s \<Rightarrow> s | RdOther _ s \<Rightarrow> s | _ \<Rightarrow> []),
      emit_parts = (\<lambda>limit m.
        if 12 + 16 * length (m_answers m) \<le> unat limit
        then Inr (replicate (12 + 16 * length (m_answers m)) 0, md_truncation (m_meta m))
        else Inr (replicate (unat limit) 0, True)),
      emit_message = (\<lambda>limit m.
        if 12 + 16 * length (m_answers m) \<le> unat limit
        then Inr (replicate (12 + 16 * length (m_answers m)) 0) else Inl ''max size''),
      truncate_message = (\<lambda>m. m\<lparr>m_answers := [], m_authorities := [], m_additionals := [],
                                 m_meta := (m_meta m)\<lparr>md_truncation := True\<rparr>\<rparr>),
      to_vec = (\<lambda>m. Inr (replicate (12 + 16 * length (m_answers m)) 0))\<rparr>"

lemma find_as_filter:
  "List.find p xs = (case filter p xs of [] \<Rightarrow> None | x # _ \<Rightarrow> Some x)"
  by (induction xs) auto

lemma opt_law_list_proto: "opt_law list_proto"
proof -
  have "filter (\<lambda>x. option_code x \<noteq> d \<and> option_code x = c) os = filter (\<lambda>x. option_code x = c) os"
    if "c \<noteq> d" for c d os
    using that by (intro filter_cong) auto
  then show ?thesis
    unfolding opt_law_def
    by (simp add: list_proto_def find_as_filter filter_empty_conv)
qed

lemma emit_law_list_proto: "emit_law list_proto"
  unfolding emit_law_def by (auto simp: list_proto_def split: if_splits)

definition empty_message :: message where
  "empty_message =
     \<lparr>m_meta = \<lparr>md_id = 0, md_type = MtQuery, md_op = OpQuery, md_authoritative = False,
        md_truncation = False, md_recursion_desired = True, md_recursion_available = False,
        md_authentic_data = False, md_checking_disabled = False, md_rcode = NoError\<rparr>,
      m_queries = [], m_answers = [], m_authorities = [], m_additionals = [],
      m_edns = Some (edns_new list_proto)\<rparr>"

section \<open>Lemmas\<close>

lemma decode_encode_ede:
  "list_all is_scalar s \<Longrightarrow>
   decode_ede (encode_ede err s) = Some (ede_code err, utf8_encode (bounded s 60))"
  using u16_be_round [of "ede_code err"]
  by (simp add: encode_ede_def utf8_lossy_encode list_all_scalar_bounded nth_append)

lemma option_code_encode_ede [simp]: "option_code (encode_ede err s) = EDE_OPTION_CODE"
  by (simp add: encode_ede_def)

lemma map_filter_memI: "x \<in> set xs \<Longrightarrow> f x = Some y \<Longrightarrow> y \<in> set (List.map_filter f xs)"
  by (force simp: List.map_filter_def)

lemma all_records_map_ttls:
  "all_records (map_ttls f msg) = map (\<lambda>r. r\<lparr>rr_ttl := f (rr_ttl r)\<rparr>) (all_records msg)"
  by (simp add: all_records_def map_ttls_def Let_def)

lemma real_ttls_map_ttls: "real_ttls (map_ttls f msg) = map f (real_ttls msg)"
  by (simp add: real_ttls_def all_records_map_ttls filter_map comp_def)

lemma fold_max_Max: "fold max ts t = Max (insert t (set ts))"
  using Max.set_eq_fold [of t ts] by simp

lemma fold_min_Min: "fold min ts t = Min (insert t (set ts))"
  using Min.set_eq_fold [of t ts] by simp

lemma max_ttl_Max:
  "max_ttl msg = (if real_ttls msg = [] then None else Some (Max (set (real_ttls msg))))"
  by (simp add: max_ttl_def fold_max_Max split: list.split)

lemma min_ttl_Min:
  "min_ttl msg = (if real_ttls msg = [] then None else Some (Min (set (real_ttls msg))))"
  by (simp add: min_ttl_def fold_min_Min split: list.split)

lemma unat_wire_limit: "unat (wire_limit n) = min (max n 512) 65535"
  by (simp add: wire_limit_def unat_of_nat take_bit_nat_eq_self)

lemma sort_mset_cong: "mset xs = mset ys \<Longrightarrow> sort xs = sort ys"
  by (rule properties_for_sort) simp_all

section \<open>Properties\<close>

text \<open>
  An Extended DNS Error attached to a message is read back from it with its information code
  and its text cut to 60 characters, so at most 246 octets of option data; a message whose sender
  did not signal EDNS is left exactly as it was.
\<close>

theorem attach_ede_round_trip:
  assumes "opt_law P" and "list_all is_scalar s"
  shows "(case m_edns msg of
      None \<Rightarrow> attach_ede P msg err s = msg
    | Some _ \<Rightarrow> (ede_code err, utf8_encode (bounded s 60)) \<in> set (extract_edes P (attach_ede P msg err s)))
    \<and> length (utf8_encode (bounded s 60)) \<le> 244"
proof -
  have "encode_ede err s \<in> set (opt_get_all P EDE_OPTION_CODE (opt_insert P (encode_ede err s) os))" for os
    using assms(1) unfolding opt_law_def by (metis option_code_encode_ede)
  then have "(ede_code err, utf8_encode (bounded s 60)) \<in> set (extract_edes P (attach_ede P msg err s))"
    if "m_edns msg = Some e" for e
    using that decode_encode_ede [OF assms(2)]
    by (auto simp: extract_edes_def attach_ede_def update_options_def intro!: map_filter_memI)
  then show ?thesis
    using length_bounded_utf8 [of s 60] by (simp add: attach_ede_def split: option.split)
qed

theorem attach_ede_round_trip_witness:
  "list_all is_scalar [0x6e, 0x2603] \<and>
   (3, utf8_encode [0x6e, 0x2603]) \<in> set (extract_edes list_proto (attach_ede list_proto empty_message EdeStaleAnswer [0x6e, 0x2603]))"
  using attach_ede_round_trip [OF opt_law_list_proto, of "[0x6e, 0x2603]" empty_message EdeStaleAnswer]
  by (simp add: is_scalar_def empty_message_def bounded_def)

text \<open>
  Ageing a message by the seconds it spent in the cache and then capping it leaves everything
  but the TTLs alone, and gives each record the smaller of its decremented TTL and the cap: no TTL
  ever grows, and none exceeds the cap.
\<close>

theorem age_and_cap_ttls:
  "all_records (cap_ttls (age_ttls msg elapsed) cap) =
     map (\<lambda>r. r\<lparr>rr_ttl := min (sat_sub (rr_ttl r) elapsed) cap\<rparr>) (all_records msg) \<and>
   m_meta (cap_ttls (age_ttls msg elapsed) cap) = m_meta msg \<and>
   m_queries (cap_ttls (age_ttls msg elapsed) cap) = m_queries msg \<and>
   m_edns (cap_ttls (age_ttls msg elapsed) cap) = m_edns msg \<and>
   list_all (\<lambda>t. t \<le> cap) (real_ttls (cap_ttls (age_ttls msg elapsed) cap)) \<and>
   list_all2 (\<le>) (real_ttls (cap_ttls (age_ttls msg elapsed) cap)) (real_ttls msg)"
proof -
  have "list_all2 (\<le>) (map (\<lambda>t. min (sat_sub t elapsed) cap) ts) ts" for ts :: "u32 list"
    by (induction ts) (simp_all add: min.coboundedI1)
  moreover have "list_all (\<lambda>t. t \<le> cap) (map (\<lambda>t. min (sat_sub t elapsed) cap) ts)" for ts :: "u32 list"
    by (simp add: list_all_iff)
  ultimately show ?thesis
    by (simp add: cap_ttls_def age_ttls_def all_records_map_ttls real_ttls_map_ttls comp_def)
      (simp add: map_ttls_def Let_def)
qed

text \<open>
  A serialised response never exceeds the larger of 512 octets and the client's limit, nor
  65535; and when the result is not marked truncated it is the encoder's complete, untruncated
  output.
\<close>

theorem serialize_limited_bounded:
  assumes "emit_law P" and "serialize_limited P msg max_size = Inr s"
  shows "length (ser_bytes s) \<le> min (max max_size 512) 65535 \<and>
    (\<not> ser_truncated s \<longrightarrow> emit_parts P (wire_limit max_size) msg = Inr (ser_bytes s, False))"
proof -
  obtain buf tc where e: "emit_parts P (wire_limit max_size) msg = Inr (buf, tc)"
    using assms(2) by (auto simp: serialize_limited_def Let_def split: sum.splits)
  have l: "length buf \<le> unat (wire_limit max_size)"
    using assms(1) e unfolding emit_law_def by blast
  show ?thesis
  proof (cases "\<not> tc \<or> md_truncation (m_meta msg)")
    case True
    then have "s = \<lparr>ser_bytes = buf, ser_truncated = tc\<rparr>"
      using assms(2) e by (simp add: serialize_limited_def Let_def)
    then show ?thesis using l e by (simp add: unat_wire_limit)
  next
    case False
    then obtain small where em: "emit_message P (wire_limit max_size) (truncate_message P msg) = Inr small"
      and s: "s = \<lparr>ser_bytes = small, ser_truncated = True\<rparr>"
      using assms(2) e by (auto simp: serialize_limited_def Let_def split: sum.splits)
    have "length small \<le> unat (wire_limit max_size)"
      using assms(1) em unfolding emit_law_def by blast
    then show ?thesis using s by (simp add: unat_wire_limit)
  qed
qed

theorem serialize_limited_bounded_witness:
  "\<exists>s. serialize_limited list_proto
      (empty_message\<lparr>m_answers := replicate 40 (from_rdata list_proto ''a.'' 5 (RdA 1))\<rparr>) 100 = Inr s \<and>
    ser_truncated s \<and> length (ser_bytes s) \<le> 512"
proof -
  let ?m = "empty_message\<lparr>m_answers := replicate 40 (from_rdata list_proto ''a.'' 5 (RdA 1))\<rparr>"
  have "serialize_limited list_proto ?m 100 = Inr \<lparr>ser_bytes = replicate 12 0, ser_truncated = True\<rparr>"
    by (simp add: serialize_limited_def list_proto_def empty_message_def unat_wire_limit)
  with serialize_limited_bounded [OF emit_law_list_proto this] show ?thesis by simp
qed

text \<open>
  The answer fingerprint identifies a variant by its records alone: it does not depend on
  the order in which the upstream listed them, on their TTLs, on DNSSEC proofs, or on the case of
  the owner names.
\<close>

theorem answer_fingerprint_canonical:
  assumes "mset (map (\<lambda>r. (to_ascii_lowercase (rr_name r), rr_class r, rr_data r)) (m_answers m)) =
    mset (map (\<lambda>r. (to_ascii_lowercase (rr_name r), rr_class r, rr_data r)) (m_answers m'))"
  shows "answer_fingerprint P m = answer_fingerprint P m'"
proof -
  let ?key = "\<lambda>r. (to_ascii_lowercase (rr_name r), rr_class r, rr_data r)"
  let ?part = "\<lambda>(n, c, d). ascii_bytes n @ [0] @ u16_to_be_bytes (rdata_type d) @
     u16_to_be_bytes c @ [0] @ ascii_bytes (to_ascii_lowercase (rdata_text P d))"
  have "fingerprint_part P = ?part \<circ> ?key"
    by (simp add: fun_eq_iff fingerprint_part_def)
  then have part: "mset (map (fingerprint_part P) (m_answers x)) =
      image_mset ?part (mset (map ?key (m_answers x)))" for x
    by (simp add: image_mset.compositionality)
  have "mset (map (fingerprint_part P) (m_answers m)) = mset (map (fingerprint_part P) (m_answers m'))"
    unfolding part assms ..
  from sort_mset_cong [OF this] show ?thesis by (simp add: answer_fingerprint_def)
qed

theorem answer_fingerprint_canonical_witness:
  "answer_fingerprint list_proto (empty_message\<lparr>m_answers :=
     [from_rdata list_proto ''A.'' 5 (RdA 1), from_rdata list_proto ''b.'' 6 (RdA 2)]\<rparr>) =
   answer_fingerprint list_proto (empty_message\<lparr>m_answers :=
     [from_rdata list_proto ''B.'' 7 (RdA 2), from_rdata list_proto ''a.'' 8 (RdA 1)]\<rparr>)"
proof -
  have lower: "to_ascii_lowercase ''A.'' = ''a.''" "to_ascii_lowercase ''B.'' = ''b.''"
    "to_ascii_lowercase ''a.'' = ''a.''" "to_ascii_lowercase ''b.'' = ''b.''"
    by code_simp+
  show ?thesis
    by (rule answer_fingerprint_canonical)
      (simp add: list_proto_def lower add_mset_commute)
qed

text \<open>
  A server cookie echoed back is recovered exactly when the response repeats the client cookie
  that was sent and the server part has the legal length; any response with a different client
  cookie is rejected.
\<close>

theorem server_cookie_checked:
  assumes "opt_law P" and "m_edns msg = Some e" and "length client = 8" and "length sent = 8"
    and "opt_get_all P COOKIE_OPTION_CODE (ed_options e) = []"
    and "8 \<le> length server" and "length server \<le> 32"
  shows "extract_server_cookie P
      (update_options (opt_insert P (encode_full_cookie client server)) msg) sent =
    (if client = sent then Some server else None)"
proof -
  have c: "option_code (encode_full_cookie client server) = COOKIE_OPTION_CODE"
    by (simp add: encode_full_cookie_def)
  have "opt_get P COOKIE_OPTION_CODE (opt_insert P (encode_full_cookie client server) (ed_options e)) =
      Some (encode_full_cookie client server)"
    using assms(1,5) c unfolding opt_law_def by (metis list.simps(5))
  then show ?thesis
    using assms(2-) by (auto simp: extract_server_cookie_def update_options_def encode_full_cookie_def)
qed

theorem server_cookie_checked_witness:
  "extract_server_cookie list_proto (update_options
      (opt_insert list_proto (encode_full_cookie [1,2,3,4,5,6,7,8] [9,9,9,9,9,9,9,9])) empty_message)
      [1,2,3,4,5,6,7,8] = Some [9,9,9,9,9,9,9,9]"
  using server_cookie_checked [OF opt_law_list_proto,
      of empty_message "edns_new list_proto" "[1,2,3,4,5,6,7,8]" "[1,2,3,4,5,6,7,8]" "[9,9,9,9,9,9,9,9]"]
  by (simp add: empty_message_def list_proto_def)

text \<open>
  The question check accepts a response exactly when both question sections list the same
  types, classes and names in the same order, up to the case of ASCII letters; so it is an
  equivalence, and case randomisation by the transport cannot make it fail.
\<close>

theorem question_matches_iff:
  "question_matches a b \<longleftrightarrow>
   map (\<lambda>q. (q_type q, q_class q, to_ascii_lowercase (q_name q))) (m_queries a) =
   map (\<lambda>q. (q_type q, q_class q, to_ascii_lowercase (q_name q))) (m_queries b)"
proof -
  have "length xs = length ys \<Longrightarrow>
    list_all (\<lambda>(a, b). q_type a = q_type b \<and> q_class a = q_class b \<and>
                  eq_ignore_ascii_case (q_name a) (q_name b)) (zip xs ys) \<longleftrightarrow>
    map (\<lambda>q. (q_type q, q_class q, to_ascii_lowercase (q_name q))) xs =
    map (\<lambda>q. (q_type q, q_class q, to_ascii_lowercase (q_name q))) ys" for xs ys :: "query list"
    by (induction xs ys rule: list_induct2) (simp_all add: eq_ignore_ascii_case_def)
  then show ?thesis
    by (cases "length (m_queries a) = length (m_queries b)")
      (auto simp: question_matches_def dest: map_eq_imp_length_eq)
qed

end
