(* ===== verification/Cache.thy ===== *)
theory Cache
  imports Message Config
begin

text \<open>
  The composite DNS cache of \<^verbatim>\<open>cache/mod.rs\<close>: answers, resolution failures and answer variants.

  The three stores are caches of the \<^verbatim>\<open>moka\<close> crate. A store is a value of an unspecified type
  and its operations are the argument \<open>C :: cache_lib\<close>, one \<open>moka\<close> record per store; \<open>moka_law\<close>
  states what the crate documents: a lookup returns only what was last inserted under the key and
  not invalidated since, and any entry may be missing, because the store evicts by weight and
  by age. \<open>map_moka\<close>, which never evicts, is a concrete instance. The statistics methods read
  counters of the crate and are not modelled.

  \<open>cache_step\<close> is one use of the cache, by any caller, or an eviction the store decides on its own.
\<close>

section \<open>Stores\<close>

record ('c, 'k, 'v) moka =
  mk_build :: "u64 \<Rightarrow> ('k \<Rightarrow> 'v \<Rightarrow> u32) \<Rightarrow> duration \<Rightarrow> 'c"
  mk_get :: "'c \<Rightarrow> 'k \<Rightarrow> 'v option"
  mk_insert :: "'k \<Rightarrow> 'v \<Rightarrow> 'c \<Rightarrow> 'c"
  mk_invalidate :: "'k \<Rightarrow> 'c \<Rightarrow> 'c"
  mk_invalidate_if :: "('k \<Rightarrow> 'v \<Rightarrow> bool) \<Rightarrow> 'c \<Rightarrow> 'c"
  mk_invalidate_all :: "'c \<Rightarrow> 'c"
  mk_run_pending :: "'c \<Rightarrow> 'c"

definition moka_sub :: "('c, 'k, 'v) moka \<Rightarrow> 'c \<Rightarrow> 'c \<Rightarrow> bool" where
  "moka_sub M c' c \<longleftrightarrow> (\<forall>k w. mk_get M c' k = Some w \<longrightarrow> mk_get M c k = Some w)"

definition moka_law :: "('c, 'k, 'v) moka \<Rightarrow> bool" where
  "moka_law M \<longleftrightarrow>
     (\<forall>cap wgh ttl k. mk_get M (mk_build M cap wgh ttl) k = None) \<and>
     (\<forall>k v c k' w. mk_get M (mk_insert M k v c) k' = Some w \<longrightarrow>
        (if k' = k then w = v else mk_get M c k' = Some w)) \<and>
     (\<forall>k c k' w. mk_get M (mk_invalidate M k c) k' = Some w \<longrightarrow>
        k' \<noteq> k \<and> mk_get M c k' = Some w) \<and>
     (\<forall>p c k w. mk_get M (mk_invalidate_if M p c) k = Some w \<longrightarrow>
        \<not> p k w \<and> mk_get M c k = Some w) \<and>
     (\<forall>c k. mk_get M (mk_invalidate_all M c) k = None) \<and>
     (\<forall>c. moka_sub M (mk_run_pending M c) c)"

definition map_moka :: "('k \<rightharpoonup> 'v, 'k, 'v) moka" where
  "map_moka =
     \<lparr>mk_build = (\<lambda>_ _ _ _. None), mk_get = (\<lambda>c k. c k), mk_insert = (\<lambda>k v c. c(k \<mapsto> v)),
      mk_invalidate = (\<lambda>k c. c(k := None)),
      mk_invalidate_if = (\<lambda>p c k. case c k of Some v \<Rightarrow> if p k v then None else Some v | None \<Rightarrow> None),
      mk_invalidate_all = (\<lambda>_ _. None), mk_run_pending = (\<lambda>c. c)\<rparr>"

section \<open>Entries and keys\<close>

datatype dnssec_status = Secure | Insecure | Bogus | Indeterminate

definition is_authentic :: "dnssec_status \<Rightarrow> bool" where
  "is_authentic s \<longleftrightarrow> s = Secure"

datatype entry_kind = Positive | NoData | NxDomainKind

record policy_view =
  pv_group :: string
  pv_ecs_identity :: "string option"

definition policy_view_plain :: "string \<Rightarrow> policy_view" where
  "policy_view_plain g = \<lparr>pv_group = g, pv_ecs_identity = None\<rparr>"

record dnssec_mode =
  dm_dnssec_ok :: bool
  dm_checking_disabled :: bool

record cache_key =
  ck_name :: string
  ck_qtype :: rtype
  ck_qclass :: dns_class
  ck_view :: policy_view
  ck_mode :: dnssec_mode

definition normalize_name :: "string \<Rightarrow> string" where
  "normalize_name name =
     (let s = to_ascii_lowercase name in if ends_with s ''.'' then s else s @ ''.'')"

definition cache_key_new ::
  "string \<Rightarrow> rtype \<Rightarrow> dns_class \<Rightarrow> policy_view \<Rightarrow> dnssec_mode \<Rightarrow> cache_key" where
  "cache_key_new name qtype qclass view mode =
     \<lparr>ck_name = normalize_name name, ck_qtype = qtype, ck_qclass = qclass, ck_view = view,
      ck_mode = mode\<rparr>"

record answer_source =
  as_server :: string
  as_transport :: transport_kind

record cache_entry =
  ce_message :: message
  ce_received_at :: instant
  ce_received_unix :: u64
  ce_ttl :: u32
  ce_kind :: entry_kind
  ce_dnssec :: dnssec_status
  ce_source :: answer_source
  ce_fingerprint :: u64
  ce_rrsig_expiry_unix :: "u64 option"
  ce_approx_bytes :: u32

text \<open>\<^verbatim>\<open>as u32\<close> keeps the low 32 bits of the number of seconds.\<close>

definition age_secs :: "cache_entry \<Rightarrow> instant \<Rightarrow> u32" where
  "age_secs e now = of_nat (as_secs (now - ce_received_at e))"

definition remaining_ttl :: "cache_entry \<Rightarrow> instant \<Rightarrow> u32" where
  "remaining_ttl e now = sat_sub (ce_ttl e) (age_secs e now)"

definition is_fresh :: "cache_entry \<Rightarrow> instant \<Rightarrow> bool" where
  "is_fresh e now \<longleftrightarrow> 0 < remaining_ttl e now"

definition staleness_secs :: "cache_entry \<Rightarrow> instant \<Rightarrow> u32" where
  "staleness_secs e now = sat_sub (age_secs e now) (ce_ttl e)"

definition remaining_signature_secs :: "cache_entry \<Rightarrow> u64 \<Rightarrow> u32 option" where
  "remaining_signature_secs e now_unix =
     map_option (\<lambda>exp. ucast (min (sat_sub exp now_unix) 0xffffffff)) (ce_rrsig_expiry_unix e)"

datatype lookup = Fresh cache_entry u32 | Stale cache_entry u32 | Miss

fun lookup_label :: "lookup \<Rightarrow> string" where
  "lookup_label (Fresh entry _) =
     (case ce_kind entry of Positive \<Rightarrow> ''hit'' | _ \<Rightarrow> ''negative_hit'')"
| "lookup_label (Stale _ _) = ''stale''"
| "lookup_label Miss = ''miss''"

record failure_entry =
  fe_recorded_at :: instant
  fe_ttl :: duration
  fe_rcode :: rcode
  fe_reason :: string
  fe_consecutive :: u32

definition failure_is_active :: "failure_entry \<Rightarrow> instant \<Rightarrow> bool" where
  "failure_is_active f now \<longleftrightarrow> now - fe_recorded_at f < fe_ttl f"

record variant_record =
  vr_fingerprint :: u64
  vr_message :: message
  vr_source :: answer_source
  vr_observed_at :: instant
  vr_ttl :: u32
  vr_dnssec :: dnssec_status

definition variant_is_valid :: "variant_record \<Rightarrow> instant \<Rightarrow> bool" where
  "variant_is_valid v now \<longleftrightarrow> as_secs (now - vr_observed_at v) < unat (vr_ttl v)"

record variant_set =
  vs_variants :: "variant_record list"
  vs_selected :: "u64 option"
  vs_selected_at :: "instant option"

definition variant_set_default :: variant_set where
  "variant_set_default = \<lparr>vs_variants = [], vs_selected = None, vs_selected_at = None\<rparr>"

definition MAX_VARIANTS_PER_KEY :: nat where
  "MAX_VARIANTS_PER_KEY = 4"

definition estimate_bytes :: "proto_lib \<Rightarrow> message \<Rightarrow> u32" where
  "estimate_bytes P msg =
     (let wire = (case to_vec P msg of Inr v \<Rightarrow> length v | Inl _ \<Rightarrow> 512)
      in sat_add (sat_mul (of_nat wire) 4) 512)"

definition variant_set_bytes :: "proto_lib \<Rightarrow> variant_set \<Rightarrow> u32" where
  "variant_set_bytes P vs =
     fold (\<lambda>v acc. sat_add acc (estimate_bytes P (vr_message v))) (vs_variants vs) 256"

section \<open>The cache\<close>

record ('a, 'f, 'v) cache_lib =
  lib_answers :: "('a, cache_key, cache_entry) moka"
  lib_failures :: "('f, cache_key, failure_entry) moka"
  lib_variants :: "('v, cache_key, variant_set) moka"

record ('a, 'f, 'v) dns_cache =
  dc_answers :: 'a
  dc_failures :: 'f
  dc_variants :: 'v
  dc_serve_stale :: serve_stale_config
  dc_internal_max_ttl :: u32

definition cache_law :: "('a, 'f, 'v) cache_lib \<Rightarrow> bool" where
  "cache_law C \<longleftrightarrow> moka_law (lib_answers C) \<and> moka_law (lib_failures C) \<and> moka_law (lib_variants C)"

definition retention :: "cache_config \<Rightarrow> serve_stale_config \<Rightarrow> duration" where
  "retention cfg stale =
     (if ss_enabled stale then ss_max_stale stale + from_secs (unat (cc_internal_max_ttl cfg))
      else from_secs (unat (cc_internal_max_ttl cfg)))"

definition cache_new ::
  "proto_lib \<Rightarrow> ('a, 'f, 'v) cache_lib \<Rightarrow> cache_config \<Rightarrow> serve_stale_config \<Rightarrow> ('a, 'f, 'v) dns_cache"
where
  "cache_new P C cfg stale =
     \<lparr>dc_answers = mk_build (lib_answers C) (cc_max_memory_bytes cfg)
        (\<lambda>_ v. max (ce_approx_bytes v) 1) (retention cfg stale),
      dc_failures = mk_build (lib_failures C) (cc_failure_max_entries cfg)
        (\<lambda>_ _. 1) (FAILURE_MAX_TTL_CEILING + from_secs 1),
      dc_variants = mk_build (lib_variants C) (cc_variant_max_memory_bytes cfg)
        (\<lambda>_ v. max (variant_set_bytes P v) 1) (retention cfg stale),
      dc_serve_stale = stale, dc_internal_max_ttl = cc_internal_max_ttl cfg\<rparr>"

definition cache_get ::
  "('a, 'f, 'v) cache_lib \<Rightarrow> ('a, 'f, 'v) dns_cache \<Rightarrow> cache_key \<Rightarrow> instant \<Rightarrow> lookup" where
  "cache_get C self key now =
     (case mk_get (lib_answers C) (dc_answers self) key of
        None \<Rightarrow> Miss
      | Some entry \<Rightarrow>
          (let remaining = remaining_ttl entry now in
           if 0 < remaining then Fresh entry remaining
           else if \<not> ss_enabled (dc_serve_stale self) then Miss
           else
             (let staleness = staleness_secs entry now in
              if as_secs (ss_max_stale (dc_serve_stale self)) < unat staleness then Miss
              else if ce_dnssec entry = Bogus then Miss
              else Stale entry staleness)))"

definition cache_insert ::
  "('a, 'f, 'v) cache_lib \<Rightarrow> cache_key \<Rightarrow> cache_entry \<Rightarrow> ('a, 'f, 'v) dns_cache \<Rightarrow> ('a, 'f, 'v) dns_cache"
where
  "cache_insert C key entry self =
     (if ce_dnssec entry = Bogus then self
      else self\<lparr>dc_answers := mk_insert (lib_answers C) key entry (dc_answers self)\<rparr>)"

definition record_failure ::
  "('a, 'f, 'v) cache_lib \<Rightarrow> cache_key \<Rightarrow> failure_entry \<Rightarrow> ('a, 'f, 'v) dns_cache \<Rightarrow> ('a, 'f, 'v) dns_cache"
where
  "record_failure C key entry self =
     self\<lparr>dc_failures := mk_insert (lib_failures C) key entry (dc_failures self)\<rparr>"

definition clear_failure ::
  "('a, 'f, 'v) cache_lib \<Rightarrow> cache_key \<Rightarrow> ('a, 'f, 'v) dns_cache \<Rightarrow> ('a, 'f, 'v) dns_cache" where
  "clear_failure C key self =
     self\<lparr>dc_failures := mk_invalidate (lib_failures C) key (dc_failures self)\<rparr>"

definition cache_failure ::
  "('a, 'f, 'v) cache_lib \<Rightarrow> cache_key \<Rightarrow> instant \<Rightarrow> ('a, 'f, 'v) dns_cache \<Rightarrow>
     failure_entry option \<times> ('a, 'f, 'v) dns_cache"
where
  "cache_failure C key now self =
     (case mk_get (lib_failures C) (dc_failures self) key of
        None \<Rightarrow> (None, self)
      | Some f \<Rightarrow>
          (if failure_is_active f now then (Some f, self)
           else (None, self\<lparr>dc_failures := mk_invalidate (lib_failures C) key (dc_failures self)\<rparr>)))"

definition failure_streak ::
  "('a, 'f, 'v) cache_lib \<Rightarrow> cache_key \<Rightarrow> ('a, 'f, 'v) dns_cache \<Rightarrow> u32" where
  "failure_streak C key self =
     (case mk_get (lib_failures C) (dc_failures self) key of
        Some f \<Rightarrow> fe_consecutive f | None \<Rightarrow> 0)"

definition cache_variants ::
  "('a, 'f, 'v) cache_lib \<Rightarrow> cache_key \<Rightarrow> ('a, 'f, 'v) dns_cache \<Rightarrow> variant_set option" where
  "cache_variants C key self = mk_get (lib_variants C) (dc_variants self) key"

definition add_variant :: "variant_set \<Rightarrow> variant_record \<Rightarrow> instant \<Rightarrow> variant_set" where
  "add_variant vs rec now =
     (let kept = filter (\<lambda>v. vr_fingerprint v \<noteq> vr_fingerprint rec \<and> variant_is_valid v now)
                   (vs_variants vs);
          pushed = kept @ [rec]
      in if MAX_VARIANTS_PER_KEY < length pushed
         then vs\<lparr>vs_variants := drop (length pushed - MAX_VARIANTS_PER_KEY) (sort_key vr_observed_at pushed)\<rparr>
         else vs\<lparr>vs_variants := pushed\<rparr>)"

definition record_variant ::
  "('a, 'f, 'v) cache_lib \<Rightarrow> cache_key \<Rightarrow> variant_record \<Rightarrow> instant \<Rightarrow> ('a, 'f, 'v) dns_cache \<Rightarrow>
     bool \<times> ('a, 'f, 'v) dns_cache"
where
  "record_variant C key rec now self =
     (let vs = (case mk_get (lib_variants C) (dc_variants self) key of
                   Some s \<Rightarrow> s | None \<Rightarrow> variant_set_default);
          is_new = (\<not> list_ex (\<lambda>v. vr_fingerprint v = vr_fingerprint rec) (vs_variants vs))
      in (is_new,
          self\<lparr>dc_variants := mk_insert (lib_variants C) key (add_variant vs rec now)
                 (dc_variants self)\<rparr>))"

definition set_selected_variant ::
  "('a, 'f, 'v) cache_lib \<Rightarrow> cache_key \<Rightarrow> u64 \<Rightarrow> instant \<Rightarrow> ('a, 'f, 'v) dns_cache \<Rightarrow> ('a, 'f, 'v) dns_cache"
where
  "set_selected_variant C key fingerprint now self =
     (case mk_get (lib_variants C) (dc_variants self) key of
        None \<Rightarrow> self
      | Some vs \<Rightarrow>
          (if vs_selected vs = Some fingerprint then self
           else self\<lparr>dc_variants := mk_insert (lib_variants C) key
                       (vs\<lparr>vs_selected := Some fingerprint, vs_selected_at := Some now\<rparr>)
                       (dc_variants self)\<rparr>))"

definition invalidate_names ::
  "('a, 'f, 'v) cache_lib \<Rightarrow> (string \<Rightarrow> bool) \<Rightarrow> ('a, 'f, 'v) dns_cache \<Rightarrow> ('a, 'f, 'v) dns_cache" where
  "invalidate_names C p self =
     self\<lparr>dc_answers := mk_invalidate_if (lib_answers C) (\<lambda>k _. p (ck_name k)) (dc_answers self),
          dc_failures := mk_invalidate_if (lib_failures C) (\<lambda>k _. p (ck_name k)) (dc_failures self),
          dc_variants := mk_invalidate_if (lib_variants C) (\<lambda>k _. p (ck_name k)) (dc_variants self)\<rparr>"

definition flush_name ::
  "('a, 'f, 'v) cache_lib \<Rightarrow> string \<Rightarrow> ('a, 'f, 'v) dns_cache \<Rightarrow> ('a, 'f, 'v) dns_cache" where
  "flush_name C name self =
     (let target = normalize_name name in invalidate_names C (\<lambda>n. n = target) self)"

definition promote ::
  "('a, 'f, 'v) cache_lib \<Rightarrow> cache_key \<Rightarrow> u64 \<Rightarrow> dnssec_status \<Rightarrow> ('a, 'f, 'v) dns_cache \<Rightarrow>
     bool \<times> ('a, 'f, 'v) dns_cache"
where
  "promote C key fingerprint status self =
     (case mk_get (lib_answers C) (dc_answers self) key of
        None \<Rightarrow> (False, self)
      | Some existing \<Rightarrow>
          (if ce_fingerprint existing \<noteq> fingerprint then (False, self)
           else if ce_dnssec existing = status then (False, self)
           else (True, self\<lparr>dc_answers := mk_insert (lib_answers C) key
                              (existing\<lparr>ce_dnssec := status\<rparr>) (dc_answers self)\<rparr>)))"

definition evict_variant ::
  "('a, 'f, 'v) cache_lib \<Rightarrow> cache_key \<Rightarrow> u64 \<Rightarrow> ('a, 'f, 'v) dns_cache \<Rightarrow> bool \<times> ('a, 'f, 'v) dns_cache"
where
  "evict_variant C key fingerprint self =
     (case mk_get (lib_answers C) (dc_answers self) key of
        None \<Rightarrow> (False, self)
      | Some existing \<Rightarrow>
          (if ce_fingerprint existing \<noteq> fingerprint then (False, self)
           else (True, self\<lparr>dc_answers := mk_invalidate (lib_answers C) key (dc_answers self)\<rparr>)))"

definition name_in_suffix :: "string \<Rightarrow> string \<Rightarrow> bool" where
  "name_in_suffix name sfx =
     (if name = sfx then True
      else if sfx = ''.'' then True
      else ends_with name sfx \<and> length sfx < length name \<and>
           name ! (length name - length sfx - 1) = CHR ''.'')"

definition flush_suffix ::
  "('a, 'f, 'v) cache_lib \<Rightarrow> string \<Rightarrow> ('a, 'f, 'v) dns_cache \<Rightarrow> ('a, 'f, 'v) dns_cache" where
  "flush_suffix C sfx self =
     (let target = normalize_name sfx in invalidate_names C (\<lambda>n. name_in_suffix n target) self)"

definition flush_all ::
  "('a, 'f, 'v) cache_lib \<Rightarrow> ('a, 'f, 'v) dns_cache \<Rightarrow> ('a, 'f, 'v) dns_cache" where
  "flush_all C self =
     self\<lparr>dc_answers := mk_invalidate_all (lib_answers C) (dc_answers self),
          dc_failures := mk_invalidate_all (lib_failures C) (dc_failures self),
          dc_variants := mk_invalidate_all (lib_variants C) (dc_variants self)\<rparr>"

definition run_maintenance ::
  "('a, 'f, 'v) cache_lib \<Rightarrow> ('a, 'f, 'v) dns_cache \<Rightarrow> ('a, 'f, 'v) dns_cache" where
  "run_maintenance C self =
     self\<lparr>dc_answers := mk_run_pending (lib_answers C) (dc_answers self),
          dc_failures := mk_run_pending (lib_failures C) (dc_failures self),
          dc_variants := mk_run_pending (lib_variants C) (dc_variants self)\<rparr>"

section \<open>Uses of the cache\<close>

text \<open>
  Callers promote an entry to a verdict that is not Bogus: the background validator evicts a
  Bogus variant instead.
\<close>

inductive cache_step ::
  "('a, 'f, 'v) cache_lib \<Rightarrow> ('a, 'f, 'v) dns_cache \<Rightarrow> ('a, 'f, 'v) dns_cache \<Rightarrow> bool"
  for C where
  StepInsert: "cache_step C c (cache_insert C k e c)"
| StepRecordFailure: "cache_step C c (record_failure C k f c)"
| StepClearFailure: "cache_step C c (clear_failure C k c)"
| StepFailure: "cache_step C c (snd (cache_failure C k now c))"
| StepRecordVariant: "cache_step C c (snd (record_variant C k v now c))"
| StepSetSelected: "cache_step C c (set_selected_variant C k fp now c)"
| StepFlushName: "cache_step C c (flush_name C n c)"
| StepFlushSuffix: "cache_step C c (flush_suffix C n c)"
| StepFlushAll: "cache_step C c (flush_all C c)"
| StepPromote: "status \<noteq> Bogus \<Longrightarrow> cache_step C c (snd (promote C k fp status c))"
| StepEvictVariant: "cache_step C c (snd (evict_variant C k fp c))"
| StepMaintenance: "cache_step C c (run_maintenance C c)"
| StepStoreEvicts: "moka_sub (lib_answers C) a (dc_answers c) \<Longrightarrow> moka_sub (lib_failures C) f (dc_failures c) \<Longrightarrow>
    moka_sub (lib_variants C) v (dc_variants c) \<Longrightarrow>
    cache_step C c (c\<lparr>dc_answers := a, dc_failures := f, dc_variants := v\<rparr>)"

definition variants_ok :: "variant_set \<Rightarrow> bool" where
  "variants_ok vs \<longleftrightarrow> length (vs_variants vs) \<le> MAX_VARIANTS_PER_KEY \<and>
     distinct (map vr_fingerprint (vs_variants vs))"

definition moka_all :: "('c, 'k, 'v) moka \<Rightarrow> ('v \<Rightarrow> bool) \<Rightarrow> 'c \<Rightarrow> bool" where
  "moka_all M P c \<longleftrightarrow> (\<forall>k w. mk_get M c k = Some w \<longrightarrow> P w)"

definition not_bogus :: "cache_entry \<Rightarrow> bool" where
  "not_bogus e \<longleftrightarrow> ce_dnssec e \<noteq> Bogus"

definition cache_ok :: "('a, 'f, 'v) cache_lib \<Rightarrow> ('a, 'f, 'v) dns_cache \<Rightarrow> bool" where
  "cache_ok C c \<longleftrightarrow>
     moka_all (lib_answers C) not_bogus (dc_answers c) \<and>
     moka_all (lib_variants C) variants_ok (dc_variants c)"

section \<open>Lemmas\<close>

lemma moka_law_map_moka: "moka_law map_moka"
  unfolding moka_law_def moka_sub_def
  by (intro conjI) (simp_all add: map_moka_def split: option.split)

lemma moka_buildD: "moka_law M \<Longrightarrow> mk_get M (mk_build M cap wgh ttl) k = None"
  unfolding moka_law_def by (elim conjE allE)

lemma moka_insertD:
  assumes "mk_get M (mk_insert M k v c) k' = Some w" and "moka_law M"
  shows "(k' = k \<and> w = v) \<or> (k' \<noteq> k \<and> mk_get M c k' = Some w)"
proof -
  have "\<forall>k v c k' w. mk_get M (mk_insert M k v c) k' = Some w \<longrightarrow>
        (if k' = k then w = v else mk_get M c k' = Some w)"
    using assms(2) unfolding moka_law_def by (elim conjE)
  from this [rule_format, OF assms(1)] show ?thesis by (simp split: if_splits)
qed

lemma moka_invalidateD:
  assumes "mk_get M (mk_invalidate M k c) k' = Some w" and "moka_law M"
  shows "k' \<noteq> k \<and> mk_get M c k' = Some w"
proof -
  have "\<forall>k c k' w. mk_get M (mk_invalidate M k c) k' = Some w \<longrightarrow> k' \<noteq> k \<and> mk_get M c k' = Some w"
    using assms(2) unfolding moka_law_def by (elim conjE)
  from this [rule_format, OF assms(1)] show ?thesis .
qed

lemma moka_invalidate_self: "moka_law M \<Longrightarrow> mk_get M (mk_invalidate M k c) k = None"
  by (cases "mk_get M (mk_invalidate M k c) k") (auto dest: moka_invalidateD)

lemma moka_invalidate_ifD:
  assumes "mk_get M (mk_invalidate_if M p c) k = Some w" and "moka_law M"
  shows "\<not> p k w \<and> mk_get M c k = Some w"
proof -
  have "\<forall>p c k w. mk_get M (mk_invalidate_if M p c) k = Some w \<longrightarrow> \<not> p k w \<and> mk_get M c k = Some w"
    using assms(2) unfolding moka_law_def by (elim conjE)
  from this [rule_format, OF assms(1)] show ?thesis .
qed

lemma moka_invalidate_all: "moka_law M \<Longrightarrow> mk_get M (mk_invalidate_all M c) k = None"
  unfolding moka_law_def by (elim conjE allE)

lemma moka_pendingD:
  assumes "mk_get M (mk_run_pending M c) k = Some w" and "moka_law M"
  shows "mk_get M c k = Some w"
proof -
  have "\<forall>c. moka_sub M (mk_run_pending M c) c" using assms(2) unfolding moka_law_def by (elim conjE)
  then have "moka_sub M (mk_run_pending M c) c" by (rule spec)
  with assms(1) show ?thesis by (simp add: moka_sub_def)
qed

lemma moka_all_get: "moka_all M P c \<Longrightarrow> mk_get M c k = Some w \<Longrightarrow> P w"
  by (simp add: moka_all_def)

lemma moka_all_build: "moka_law M \<Longrightarrow> moka_all M P (mk_build M cap wgh ttl)"
  by (simp add: moka_all_def moka_buildD)

lemma moka_all_insert:
  "moka_law M \<Longrightarrow> moka_all M P c \<Longrightarrow> P v \<Longrightarrow> moka_all M P (mk_insert M k v c)"
  by (auto simp: moka_all_def dest!: moka_insertD)

lemma moka_all_invalidate: "moka_law M \<Longrightarrow> moka_all M P c \<Longrightarrow> moka_all M P (mk_invalidate M k c)"
  by (auto simp: moka_all_def dest!: moka_invalidateD)

lemma moka_all_invalidate_if:
  "moka_law M \<Longrightarrow> moka_all M P c \<Longrightarrow> moka_all M P (mk_invalidate_if M p c)"
  by (auto simp: moka_all_def dest!: moka_invalidate_ifD)

lemma moka_all_invalidate_all: "moka_law M \<Longrightarrow> moka_all M P (mk_invalidate_all M c)"
  by (simp add: moka_all_def moka_invalidate_all)

lemma moka_all_pending: "moka_law M \<Longrightarrow> moka_all M P c \<Longrightarrow> moka_all M P (mk_run_pending M c)"
  by (auto simp: moka_all_def dest!: moka_pendingD)

lemma moka_all_sub: "moka_sub M c' c \<Longrightarrow> moka_all M P c \<Longrightarrow> moka_all M P c'"
  by (auto simp: moka_all_def moka_sub_def)

lemmas moka_all_rules =
  moka_all_build moka_all_insert moka_all_invalidate moka_all_invalidate_if
  moka_all_invalidate_all moka_all_pending

lemma variants_ok_default [simp]: "variants_ok variant_set_default"
  by (simp add: variants_ok_def variant_set_default_def)

lemma distinct_map_push:
  "distinct (map f xs) \<Longrightarrow> distinct (map f (filter (\<lambda>v. f v \<noteq> f r \<and> Q v) xs @ [r]))"
  by (induction xs) auto

lemma distinct_map_sort_drop: "distinct (map f xs) \<Longrightarrow> distinct (map f (drop n (sort_key g xs)))"
proof -
  assume d: "distinct (map f xs)"
  have "mset (map f (sort_key g xs)) = mset (map f xs)" by simp
  with d have "distinct (map f (sort_key g xs))" using mset_eq_imp_distinct_iff by blast
  then show ?thesis by (simp add: drop_map [symmetric])
qed

lemma vs_variants_add_variant:
  "vs_variants (add_variant vs rec now) =
     (let p = filter (\<lambda>v. vr_fingerprint v \<noteq> vr_fingerprint rec \<and> variant_is_valid v now)
                (vs_variants vs) @ [rec]
      in if MAX_VARIANTS_PER_KEY < length p
         then drop (length p - MAX_VARIANTS_PER_KEY) (sort_key vr_observed_at p) else p)"
  by (simp add: add_variant_def Let_def)

lemma drop_bounded_ok:
  assumes "distinct (map f p)"
  shows "length (if n < length p then drop (length p - n) (sort_key g p) else p) \<le> n \<and>
     distinct (map f (if n < length p then drop (length p - n) (sort_key g p) else p))"
  using assms distinct_map_sort_drop [OF assms, of _ g] by simp

lemma variants_ok_add:
  assumes "variants_ok vs"
  shows "variants_ok (add_variant vs rec now)"
proof -
  have "distinct (map vr_fingerprint (vs_variants vs))"
    using assms unfolding variants_ok_def by (rule conjunct2)
  then show ?thesis
    unfolding variants_ok_def vs_variants_add_variant Let_def
    by (intro drop_bounded_ok distinct_map_push)
qed

lemma cache_ok_new: "cache_law C \<Longrightarrow> cache_ok C (cache_new P C cfg stale)"
  by (simp add: cache_ok_def cache_law_def cache_new_def moka_all_rules)

lemma cache_ok_invalidate_names: "cache_law C \<Longrightarrow> cache_ok C c \<Longrightarrow> cache_ok C (invalidate_names C p c)"
  by (simp add: cache_ok_def cache_law_def invalidate_names_def moka_all_rules)

lemma cache_ok_step:
  assumes law: "cache_law C" and ok: "cache_ok C c" and "cache_step C c c'"
  shows "cache_ok C c'"
  using assms(3)
proof cases
  case (StepInsert k e)
  then show ?thesis using law ok
    by (simp add: cache_ok_def cache_law_def cache_insert_def moka_all_rules not_bogus_def)
next
  case (StepRecordVariant k v now)
  have "variants_ok (case mk_get (lib_variants C) (dc_variants c) k of
      Some s \<Rightarrow> s | None \<Rightarrow> variant_set_default)"
    using ok moka_all_get [of "lib_variants C" variants_ok "dc_variants c" k]
    by (simp add: cache_ok_def split: option.split)
  with StepRecordVariant show ?thesis using law ok
    by (simp add: cache_ok_def cache_law_def record_variant_def Let_def variants_ok_add moka_all_rules)
next
  case (StepSetSelected k fp now)
  then show ?thesis using law ok moka_all_get [of "lib_variants C" variants_ok "dc_variants c" k]
    by (simp add: cache_ok_def cache_law_def set_selected_variant_def moka_all_rules
        variants_ok_def split: option.split)
next
  case (StepPromote status k fp)
  then show ?thesis using law ok
    by (simp add: cache_ok_def cache_law_def promote_def moka_all_rules not_bogus_def
        split: option.split)
next
  case (StepEvictVariant k fp)
  then show ?thesis using law ok
    by (simp add: cache_ok_def cache_law_def evict_variant_def moka_all_rules split: option.split)
next
  case (StepStoreEvicts a f v)
  then show ?thesis using ok by (simp add: cache_ok_def moka_all_sub)
qed (use law ok in \<open>simp_all add: cache_ok_def cache_law_def record_failure_def clear_failure_def
      cache_failure_def flush_all_def flush_name_def flush_suffix_def invalidate_names_def
      run_maintenance_def moka_all_rules Let_def split: option.split\<close>)

interpretation cache_sys: invariant_system
  "\<lambda>c. \<exists>P cfg stale. c = cache_new P C cfg stale" "cache_step C"
  "\<lambda>c. cache_law C \<longrightarrow> cache_ok C c" for C
  by unfold_locales (auto intro: cache_ok_new cache_ok_step)

lemma drop_sort_key_older:
  assumes "x \<in> set xs" and "x \<notin> set (drop n (sort_key g xs))" and "y \<in> set (drop n (sort_key g xs))"
  shows "g x \<le> g y"
proof -
  have "x \<in> set (take n (sort_key g xs) @ drop n (sort_key g xs))" using assms(1) by simp
  then have "x \<in> set (take n (sort_key g xs))" using assms(2) unfolding set_append by blast
  moreover have "sorted (map g (take n (sort_key g xs) @ drop n (sort_key g xs)))" by simp
  ultimately show ?thesis
    using assms(3) unfolding map_append sorted_append by auto
qed

lemma last_filter: "xs \<noteq> [] \<Longrightarrow> P (last xs) \<Longrightarrow> last (filter P xs) = last xs"
  by (induction xs rule: rev_induct) auto

lemma last_in_drop_sort_key:
  assumes "\<forall>x\<in>set xs. g x \<le> g r" and "n < length (xs @ [r])"
  shows "r \<in> set (drop n (sort_key g (xs @ [r])))"
proof -
  let ?s = "sort_key g (xs @ [r])"
  have "filter (\<lambda>x. g x = g r) ?s = filter (\<lambda>x. g x = g r) xs @ [r]"
    by (simp add: sort_key_stable)
  have "length ?s \<noteq> 0" by (simp only: length_sort) simp
  then have "?s \<noteq> []" using length_0_conv by blast
  have mx: "\<forall>y\<in>set ?s. g y \<le> g r" using assms(1) by auto
  have srt: "sorted (map g ?s)" by simp
  have "g (last ?s) = g r"
  proof (rule antisym)
    show "g (last ?s) \<le> g r" using mx \<open>?s \<noteq> []\<close> last_in_set by blast
    have "r \<in> set ?s" by simp
    then obtain i where i: "i < length ?s" "?s ! i = r" by (meson in_set_conv_nth)
    then have "g (?s ! i) \<le> g (?s ! (length ?s - 1))"
      using srt sorted_nth_mono [of "map g ?s" i "length ?s - 1"] by simp
    then show "g r \<le> g (last ?s)" using i \<open>?s \<noteq> []\<close> by (simp add: last_conv_nth)
  qed
  then have "last ?s = last (filter (\<lambda>x. g x = g r) ?s)"
    using \<open>?s \<noteq> []\<close> by (intro last_filter [symmetric])
  then have "last ?s = r" using \<open>filter _ ?s = _\<close> by simp
  moreover have "last ?s = last (drop n ?s)" "drop n ?s \<noteq> []"
    using assms(2) by (simp_all add: last_drop)
  ultimately show ?thesis by (metis last_in_set)
qed

lemma push_bounded_spec:
  fixes f :: "'a \<Rightarrow> 'b" and g :: "'a \<Rightarrow> 'c::linorder"
  assumes "\<forall>v\<in>set xs. g v \<le> g r" and "0 < n"
  shows "let p = filter (\<lambda>v. f v \<noteq> f r \<and> Q v) xs @ [r];
      out = (if n < length p then drop (length p - n) (sort_key g p) else p)
    in r \<in> set out \<and> set out \<subseteq> insert r {v \<in> set xs. f v \<noteq> f r \<and> Q v} \<and>
      (\<forall>v\<in>set xs. f v \<noteq> f r \<and> Q v \<and> v \<notin> set out \<longrightarrow> (\<forall>w\<in>set out. g v \<le> g w))"
proof -
  let ?k = "filter (\<lambda>v. f v \<noteq> f r \<and> Q v) xs"
  let ?d = "drop (length (?k @ [r]) - n) (sort_key g (?k @ [r]))"
  have "\<forall>v\<in>set ?k. g v \<le> g r" using assms(1) by simp
  then have "r \<in> set ?d"
    using assms(2) by (intro last_in_drop_sort_key) auto
  moreover have "set ?d \<subseteq> set (?k @ [r])"
    using set_drop_subset [of _ "sort_key g (?k @ [r])"] by (simp only: set_sort)
  moreover have "g v \<le> g w" if "v \<in> set ?k" "v \<notin> set ?d" "w \<in> set ?d" for v w
    using drop_sort_key_older [of v "?k @ [r]"] that by simp
  ultimately show ?thesis by (auto simp: Let_def)
qed

definition name_labels :: "string \<Rightarrow> string list" where
  "name_labels n = split_on CHR ''.'' n"

lemma ends_with_dot_normalize: "\<exists>p. normalize_name n = p @ ''.''"
  by (auto simp: normalize_name_def Let_def ends_with_suffix suffix_def)

lemma name_in_suffix_iff:
  "name_in_suffix n t \<longleftrightarrow> t = ''.'' \<or> n = t \<or> (\<exists>p. n = p @ ''.'' @ t)"
proof -
  have "(ends_with n t \<and> length t < length n \<and> n ! (length n - length t - 1) = CHR ''.'') \<longleftrightarrow>
      (\<exists>p. n = p @ ''.'' @ t)"
  proof
    assume a: "ends_with n t \<and> length t < length n \<and> n ! (length n - length t - 1) = CHR ''.''"
    then obtain q where q: "n = q @ t" by (auto simp: ends_with_suffix suffix_def)
    with a have "q \<noteq> []" "q ! (length q - 1) = CHR ''.''" by (auto simp: nth_append)
    then have "q = butlast q @ ''.''" by (metis append_butlast_last_id last_conv_nth)
    with q show "\<exists>p. n = p @ ''.'' @ t" by (metis append.assoc)
  next
    assume "\<exists>p. n = p @ ''.'' @ t"
    then obtain p where "n = (p @ ''.'') @ t" by auto
    then show "ends_with n t \<and> length t < length n \<and> n ! (length n - length t - 1) = CHR ''.''"
      using ends_with_append [of "p @ ''.''" t] by (auto simp: nth_append)
  qed
  then show ?thesis by (auto simp: name_in_suffix_def)
qed

lemma split_on_suffix_iff:
  "suffix (split_on c t) (split_on c n) \<longleftrightarrow> n = t \<or> (\<exists>p. n = p @ c # t)"
proof
  assume "suffix (split_on c t) (split_on c n)"
  then obtain ps where "split_on c n = ps @ split_on c t" by (auto simp: suffix_def)
  then show "n = t \<or> (\<exists>p. n = p @ c # t)"
  proof (induction ps arbitrary: n)
    case Nil
    then show ?case using split_on_inj by auto
  next
    case (Cons q qs)
    then show ?case
    proof (induction n arbitrary: q)
      case Nil
      then show ?case by (cases "split_on c t") auto
    next
      case (Cons x n)
      obtain r rs where r: "split_on c n = r # rs" using split_on_nonempty by (meson neq_Nil_conv)
      show ?case
      proof (cases "x = c")
        case True
        then have "split_on c n = qs @ split_on c t" using Cons.prems(2) by simp
        then have "n = t \<or> (\<exists>p. n = p @ c # t)" by (rule Cons.prems(1))
        then show ?thesis using True by (metis append_Cons append_Nil)
      next
        case False
        then have sn: "split_on c n = tl q # qs @ split_on c t"
          using Cons.prems(2) r by auto
        then have "n = t \<or> (\<exists>p. n = p @ c # t)"
          using Cons.IH [of "tl q"] Cons.prems(1) sn by simp
        moreover have "length (split_on c n) \<noteq> length (split_on c t)" using sn by simp
        then have "n \<noteq> t" by auto
        ultimately show ?thesis by (metis append_Cons)
      qed
    qed
  qed
next
  assume "n = t \<or> (\<exists>p. n = p @ c # t)"
  then show "suffix (split_on c t) (split_on c n)" by (auto simp: split_on_append suffix_def)
qed

lemma name_in_suffix_labels:
  "name_in_suffix n t \<longleftrightarrow> t = ''.'' \<or> suffix (name_labels t) (name_labels n)"
  by (simp add: name_in_suffix_iff name_labels_def split_on_suffix_iff)

lemma promote_touches:
  assumes law: "moka_law (lib_answers C)"
    and "mk_get (lib_answers C) (dc_answers (snd (promote C k fp status c))) k' = Some e'"
  shows "mk_get (lib_answers C) (dc_answers c) k' = Some e' \<or>
      (k' = k \<and> (\<exists>e. mk_get (lib_answers C) (dc_answers c) k = Some e \<and> ce_fingerprint e = fp \<and>
          e' = e\<lparr>ce_dnssec := status\<rparr>))"
proof (cases "fst (promote C k fp status c)")
  case True
  then obtain e where e: "mk_get (lib_answers C) (dc_answers c) k = Some e" "ce_fingerprint e = fp"
    "snd (promote C k fp status c) = c\<lparr>dc_answers :=
        mk_insert (lib_answers C) k (e\<lparr>ce_dnssec := status\<rparr>) (dc_answers c)\<rparr>"
    by (cases "mk_get (lib_answers C) (dc_answers c) k") (simp_all add: promote_def split: if_splits)
  have "mk_get (lib_answers C) (mk_insert (lib_answers C) k (e\<lparr>ce_dnssec := status\<rparr>) (dc_answers c)) k' = Some e'"
    using assms(2) by (simp add: e(3))
  from moka_insertD [OF this law] e(1,2) show ?thesis by blast
next
  case False
  then have "snd (promote C k fp status c) = c"
    by (cases "mk_get (lib_answers C) (dc_answers c) k") (simp_all add: promote_def split: if_splits)
  with assms(2) show ?thesis by simp
qed

lemma evict_touches:
  assumes law: "moka_law (lib_answers C)"
    and "mk_get (lib_answers C) (dc_answers (snd (evict_variant C k fp c))) k' = Some e'"
  shows "mk_get (lib_answers C) (dc_answers c) k' = Some e'" and "k' = k \<Longrightarrow> ce_fingerprint e' \<noteq> fp"
proof -
  have "mk_get (lib_answers C) (dc_answers c) k' = Some e' \<and> (k' = k \<longrightarrow> ce_fingerprint e' \<noteq> fp)"
  proof (cases "fst (evict_variant C k fp c)")
    case True
    then have "snd (evict_variant C k fp c) = c\<lparr>dc_answers := mk_invalidate (lib_answers C) k (dc_answers c)\<rparr>"
      by (cases "mk_get (lib_answers C) (dc_answers c) k") (simp_all add: evict_variant_def split: if_splits)
    with assms(2) have "mk_get (lib_answers C) (mk_invalidate (lib_answers C) k (dc_answers c)) k' = Some e'"
      by simp
    from moka_invalidateD [OF this law] show ?thesis by blast
  next
    case False
    then have "snd (evict_variant C k fp c) = c"
      by (cases "mk_get (lib_answers C) (dc_answers c) k") (simp_all add: evict_variant_def split: if_splits)
    then have e': "mk_get (lib_answers C) (dc_answers c) k' = Some e'" using assms(2) by simp
    have "ce_fingerprint e' \<noteq> fp" if "k' = k"
      using False e' that by (simp add: evict_variant_def split: if_splits)
    with e' show ?thesis by blast
  qed
  then show "mk_get (lib_answers C) (dc_answers c) k' = Some e'" "k' = k \<Longrightarrow> ce_fingerprint e' \<noteq> fp"
    by simp_all
qed

section \<open>Properties\<close>

text \<open>
  Whatever sequence of inserts, promotions, flushes, failure and variant updates the resolver
  performs on a new cache, and whatever the stores evict in between, no lookup, fresh or stale,
  ever returns an answer that validation found Bogus.
\<close>

theorem cache_never_serves_bogus:
  assumes "cache_law C" and "(cache_step C)\<^sup>*\<^sup>* (cache_new P C cfg stale) c"
  shows "case cache_get C c k now of
      Fresh e _ \<Rightarrow> ce_dnssec e \<noteq> Bogus | Stale e _ \<Rightarrow> ce_dnssec e \<noteq> Bogus | Miss \<Rightarrow> True"
proof -
  have "cache_ok C c"
    using cache_sys.reachable_inv [of "cache_new P C cfg stale" C c] assms by blast
  then have "moka_all (lib_answers C) not_bogus (dc_answers c)" unfolding cache_ok_def by (rule conjunct1)
  then have "not_bogus e" if "mk_get (lib_answers C) (dc_answers c) k = Some e" for e
    using that by (rule moka_all_get)
  then show ?thesis
    by (simp add: cache_get_def Let_def not_bogus_def split: option.split)
qed

definition map_lib ::
  "(cache_key \<rightharpoonup> cache_entry, cache_key \<rightharpoonup> failure_entry, cache_key \<rightharpoonup> variant_set) cache_lib" where
  "map_lib = \<lparr>lib_answers = map_moka, lib_failures = map_moka, lib_variants = map_moka\<rparr>"

lemma cache_law_map_lib: "cache_law map_lib"
  by (simp add: cache_law_def map_lib_def moka_law_map_moka)

definition sample_key :: cache_key where
  "sample_key = cache_key_new ''Example.com'' RT_A CLASS_IN (policy_view_plain ''default'')
     \<lparr>dm_dnssec_ok = False, dm_checking_disabled = False\<rparr>"

definition sample_entry :: cache_entry where
  "sample_entry =
     \<lparr>ce_message = empty_message, ce_received_at = from_secs 100, ce_received_unix = 100, ce_ttl = 60,
      ce_kind = Positive, ce_dnssec = Insecure,
      ce_source = \<lparr>as_server = ''a'', as_transport = Udp\<rparr>, ce_fingerprint = 7,
      ce_rrsig_expiry_unix = None, ce_approx_bytes = 600\<rparr>"

abbreviation sample_cache where
  "sample_cache \<equiv> cache_new list_proto map_lib cache_config_default serve_stale_config_default"

theorem cache_never_serves_bogus_witness:
  "cache_get map_lib (cache_insert map_lib sample_key sample_entry sample_cache) sample_key (from_secs 130)
     = Fresh sample_entry 30 \<and> ce_dnssec sample_entry \<noteq> Bogus"
proof -
  let ?c = "cache_insert map_lib sample_key sample_entry sample_cache"
  have g: "cache_get map_lib ?c sample_key (from_secs 130) = Fresh sample_entry 30"
    by (simp add: cache_get_def cache_insert_def map_lib_def map_moka_def sample_entry_def
        remaining_ttl_def age_secs_def as_secs_def from_secs_def sat_sub_def)
  moreover have "(cache_step map_lib)\<^sup>*\<^sup>* sample_cache ?c"
    by (rule r_into_rtranclp) (rule cache_step.StepInsert)
  ultimately show ?thesis
    using cache_never_serves_bogus [OF cache_law_map_lib, of list_proto cache_config_default
        serve_stale_config_default ?c sample_key "from_secs 130"]
    by simp
qed

text \<open>
  C32. A lookup serves data only inside its lifetime: a fresh answer carries exactly the unexpired
  part of its TTL, a stale answer is served only when serve-stale is on and at most
  \<^verbatim>\<open>max_stale\<close> seconds after expiry, and an answer that is still held is refused only when it
  has expired and serve-stale does not cover it. (Ages stay below $2^{32}$ seconds.)
\<close>

theorem cache_get_lifetimes:
  assumes "\<forall>e. mk_get (lib_answers C) (dc_answers c) k = Some e \<longrightarrow>
      as_secs (now - ce_received_at e) < 2 ^ 32"
  shows "case cache_get C c k now of
      Fresh e r \<Rightarrow> as_secs (now - ce_received_at e) + unat r = unat (ce_ttl e) \<and> 0 < r
    | Stale e s \<Rightarrow> unat (ce_ttl e) + unat s = as_secs (now - ce_received_at e) \<and>
        ss_enabled (dc_serve_stale c) \<and> unat s \<le> as_secs (ss_max_stale (dc_serve_stale c))
    | Miss \<Rightarrow> (case mk_get (lib_answers C) (dc_answers c) k of None \<Rightarrow> True | Some e \<Rightarrow>
        unat (ce_ttl e) \<le> as_secs (now - ce_received_at e) \<and>
        (\<not> ss_enabled (dc_serve_stale c) \<or> ce_dnssec e = Bogus \<or>
         as_secs (ss_max_stale (dc_serve_stale c)) <
           as_secs (now - ce_received_at e) - unat (ce_ttl e)))"
proof (cases "mk_get (lib_answers C) (dc_answers c) k")
  case None
  then show ?thesis by (simp add: cache_get_def)
next
  case (Some e)
  let ?age = "as_secs (now - ce_received_at e)"
  have "?age < 2 ^ 32" using assms Some by blast
  then have age: "unat (age_secs e now) = ?age"
    by (simp add: age_secs_def unat_of_nat take_bit_nat_eq_self)
  have r: "unat (remaining_ttl e now) = unat (ce_ttl e) - ?age"
    and st: "unat (staleness_secs e now) = ?age - unat (ce_ttl e)"
    by (simp_all add: remaining_ttl_def staleness_secs_def sat_simps age)
  have z: "0 < remaining_ttl e now \<longleftrightarrow> ?age < unat (ce_ttl e)"
    by (simp add: word_less_nat_alt r)
  show ?thesis
    unfolding cache_get_def Some option.case Let_def z
    by (simp add: r st z)
qed

theorem cache_get_lifetimes_witness:
  "cache_get map_lib (cache_insert map_lib sample_key sample_entry sample_cache) sample_key (from_secs 200)
     = Stale sample_entry 40 \<and> unat (ce_ttl sample_entry) + 40 = as_secs (from_secs 200 - from_secs 100)"
proof -
  let ?c = "cache_insert map_lib sample_key sample_entry sample_cache"
  have g: "cache_get map_lib ?c sample_key (from_secs 200) = Stale sample_entry 40"
    by (simp add: cache_get_def cache_insert_def map_lib_def map_moka_def sample_entry_def cache_new_def
        serve_stale_config_default_def remaining_ttl_def staleness_secs_def age_secs_def as_secs_def
        from_secs_def sat_sub_def)
  have "\<forall>e. mk_get (lib_answers map_lib) (dc_answers ?c) sample_key = Some e \<longrightarrow>
      as_secs (from_secs 200 - ce_received_at e) < 2 ^ 32"
    by (simp add: cache_insert_def map_lib_def map_moka_def sample_entry_def as_secs_def from_secs_def)
  from cache_get_lifetimes [OF this] show ?thesis
    unfolding g by (simp add: sample_entry_def)
qed

text \<open>
  Recording a variant keeps the complete answers apart and bounded: the new observation is
  kept, every other retained variant is an unexpired one that was there before under a different
  fingerprint, fingerprints stay distinct, at most four remain, and what is dropped for space is
  never newer than what is kept.
\<close>

theorem add_variant_keeps_newest:
  assumes "variants_ok vs" and "\<forall>v\<in>set (vs_variants vs). vr_observed_at v \<le> vr_observed_at rec"
  shows "variants_ok (add_variant vs rec now) \<and>
    rec \<in> set (vs_variants (add_variant vs rec now)) \<and>
    set (vs_variants (add_variant vs rec now)) \<subseteq>
      insert rec {v \<in> set (vs_variants vs). vr_fingerprint v \<noteq> vr_fingerprint rec \<and> variant_is_valid v now} \<and>
    (\<forall>v\<in>set (vs_variants vs). vr_fingerprint v \<noteq> vr_fingerprint rec \<and> variant_is_valid v now \<and>
       v \<notin> set (vs_variants (add_variant vs rec now)) \<longrightarrow>
       (\<forall>w\<in>set (vs_variants (add_variant vs rec now)). vr_observed_at v \<le> vr_observed_at w))"
  unfolding vs_variants_add_variant Let_def
  by (intro conjI variants_ok_add [OF assms(1)]
      push_bounded_spec [OF assms(2), unfolded Let_def, THEN conjunct1]
      push_bounded_spec [OF assms(2), unfolded Let_def, THEN conjunct2, THEN conjunct1]
      push_bounded_spec [OF assms(2), unfolded Let_def, THEN conjunct2, THEN conjunct2])
    (simp_all add: MAX_VARIANTS_PER_KEY_def)

definition sample_variant :: "u64 \<Rightarrow> instant \<Rightarrow> variant_record" where
  "sample_variant fp t =
     \<lparr>vr_fingerprint = fp, vr_message = empty_message,
      vr_source = \<lparr>as_server = ''a'', as_transport = Udp\<rparr>, vr_observed_at = t, vr_ttl = 300,
      vr_dnssec = Insecure\<rparr>"

theorem add_variant_keeps_newest_witness:
  "let vs = variant_set_default\<lparr>vs_variants :=
       [sample_variant 1 1, sample_variant 2 2, sample_variant 3 3, sample_variant 4 4]\<rparr>
   in sample_variant 5 5 \<in> set (vs_variants (add_variant vs (sample_variant 5 5) 6)) \<and>
      length (vs_variants (add_variant vs (sample_variant 5 5) 6)) \<le> 4"
proof -
  let ?vs = "variant_set_default\<lparr>vs_variants :=
       [sample_variant 1 1, sample_variant 2 2, sample_variant 3 3, sample_variant 4 4]\<rparr>"
  have "variants_ok ?vs"
    by (simp add: variants_ok_def MAX_VARIANTS_PER_KEY_def sample_variant_def)
  moreover have "\<forall>v\<in>set (vs_variants ?vs). vr_observed_at v \<le> vr_observed_at (sample_variant 5 5)"
    by (simp add: sample_variant_def)
  ultimately have "variants_ok (add_variant ?vs (sample_variant 5 5) 6) \<and>
      sample_variant 5 5 \<in> set (vs_variants (add_variant ?vs (sample_variant 5 5) 6))"
    using add_variant_keeps_newest by blast
  then show ?thesis
    unfolding Let_def variants_ok_def MAX_VARIANTS_PER_KEY_def by (elim conjE) (intro conjI)
qed

text \<open>
  Flushing a suffix removes exactly the names at or beneath it, label by label: after
  \<^verbatim>\<open>flush_suffix\<close> no answer, failure or variant is found under a name whose labels end with
  those of the suffix (every name, for the root), and \<^verbatim>\<open>notexample.com\<close> is not beneath
  \<^verbatim>\<open>example.com\<close>: a store entry of any other name is not selected for invalidation.
\<close>

theorem flush_suffix_by_labels:
  assumes "cache_law C"
  shows "(name_in_suffix (ck_name k) (normalize_name sfx) \<longleftrightarrow>
      normalize_name sfx = ''.'' \<or> suffix (name_labels (normalize_name sfx)) (name_labels (ck_name k))) \<and>
    (name_in_suffix (ck_name k) (normalize_name sfx) \<longrightarrow>
      cache_get C (flush_suffix C sfx c) k now = Miss \<and>
      fst (cache_failure C k now (flush_suffix C sfx c)) = None \<and>
      cache_variants C k (flush_suffix C sfx c) = None)"
proof (intro conjI impI)
  show "name_in_suffix (ck_name k) (normalize_name sfx) \<longleftrightarrow>
      normalize_name sfx = ''.'' \<or> suffix (name_labels (normalize_name sfx)) (name_labels (ck_name k))"
    by (rule name_in_suffix_labels)
next
  assume under: "name_in_suffix (ck_name k) (normalize_name sfx)"
  have gone: "moka_law M \<Longrightarrow>
      mk_get M (mk_invalidate_if M (\<lambda>k _. name_in_suffix (ck_name k) (normalize_name sfx)) s) k = None" for M s
    using under by (cases "mk_get M (mk_invalidate_if M (\<lambda>k _. name_in_suffix (ck_name k) (normalize_name sfx)) s) k")
      (auto dest: moka_invalidate_ifD)
  have laws: "moka_law (lib_answers C)" "moka_law (lib_failures C)" "moka_law (lib_variants C)"
    using assms by (simp_all add: cache_law_def)
  show "cache_get C (flush_suffix C sfx c) k now = Miss"
    by (simp add: cache_get_def flush_suffix_def invalidate_names_def Let_def gone [OF laws(1)])
  show "fst (cache_failure C k now (flush_suffix C sfx c)) = None"
    by (simp add: cache_failure_def flush_suffix_def invalidate_names_def Let_def gone [OF laws(2)])
  show "cache_variants C k (flush_suffix C sfx c) = None"
    by (simp add: cache_variants_def flush_suffix_def invalidate_names_def Let_def gone [OF laws(3)])
qed

theorem flush_suffix_by_labels_witness:
  "cache_get map_lib (flush_suffix map_lib ''COM''
     (cache_insert map_lib sample_key sample_entry sample_cache)) sample_key (from_secs 130) = Miss"
proof -
  have "normalize_name ''COM'' = ''com.''" by code_simp
  moreover have "normalize_name ''Example.com'' = ''example.com.''" by code_simp
  then have "ck_name sample_key = ''example.com.''"
    by (simp add: sample_key_def cache_key_new_def)
  moreover have "name_in_suffix ''example.com.'' ''com.''" by code_simp
  ultimately show ?thesis
    using flush_suffix_by_labels [OF cache_law_map_lib, of sample_key "''COM''"] by simp
qed

text \<open>
  A late verdict touches only the answer it examined: promotion changes nothing but the DNSSEC
  state of the entry whose fingerprint was validated, and eviction removes that entry and no
  other; an entry that has been replaced in the meantime is left alone.
\<close>

theorem verdict_only_touches_examined:
  assumes "cache_law C"
  shows "(mk_get (lib_answers C) (dc_answers (snd (promote C k fp status c))) k' = Some e' \<longrightarrow>
      mk_get (lib_answers C) (dc_answers c) k' = Some e' \<or>
      (k' = k \<and> (\<exists>e. mk_get (lib_answers C) (dc_answers c) k = Some e \<and> ce_fingerprint e = fp \<and>
          e' = e\<lparr>ce_dnssec := status\<rparr>))) \<and>
    (mk_get (lib_answers C) (dc_answers (snd (evict_variant C k fp c))) k' = Some e' \<longrightarrow>
      mk_get (lib_answers C) (dc_answers c) k' = Some e' \<and> (k' = k \<longrightarrow> ce_fingerprint e' \<noteq> fp)) \<and>
    (mk_get (lib_answers C) (dc_answers c) k = Some e \<and> ce_fingerprint e \<noteq> fp \<longrightarrow>
      promote C k fp status c = (False, c) \<and> evict_variant C k fp c = (False, c))"
proof -
  have law: "moka_law (lib_answers C)" using assms by (simp add: cache_law_def)
  show ?thesis
    using promote_touches [OF law, of k fp status c k' e'] evict_touches [OF law, of k fp c k' e']
    by (intro conjI impI) (blast | simp add: promote_def evict_variant_def)+
qed

theorem verdict_only_touches_examined_witness:
  "promote map_lib sample_key 8 Secure (cache_insert map_lib sample_key sample_entry sample_cache) =
     (False, cache_insert map_lib sample_key sample_entry sample_cache)"
proof -
  let ?c = "cache_insert map_lib sample_key sample_entry sample_cache"
  have "mk_get (lib_answers map_lib) (dc_answers ?c) sample_key = Some sample_entry \<and>
      ce_fingerprint sample_entry \<noteq> 8"
    by (simp add: cache_insert_def map_lib_def map_moka_def sample_entry_def)
  then show ?thesis
    using verdict_only_touches_examined [OF cache_law_map_lib] by blast
qed

text \<open>
  Looking up a failure entry that has expired removes it, and with it the count of consecutive
  failures: the streak read afterwards is zero, whatever it was before.
\<close>

theorem expired_failure_resets_streak:
  assumes "cache_law C" and "mk_get (lib_failures C) (dc_failures c) k = Some f"
    and "fe_ttl f \<le> now - fe_recorded_at f"
  shows "fst (cache_failure C k now c) = None \<and> failure_streak C k (snd (cache_failure C k now c)) = 0"
  using assms(2,3) moka_invalidate_self [of "lib_failures C"] assms(1)
  by (simp add: cache_failure_def failure_is_active_def failure_streak_def cache_law_def)

theorem expired_failure_resets_streak_witness:
  "let f = \<lparr>fe_recorded_at = 0, fe_ttl = from_secs 4, fe_rcode = ServFail, fe_reason = ''timeout'', fe_consecutive = 6\<rparr>;
       c = record_failure map_lib sample_key f sample_cache
   in failure_streak map_lib sample_key c = 6 \<and>
      failure_streak map_lib sample_key (snd (cache_failure map_lib sample_key (from_secs 5) c)) = 0"
proof -
  let ?f = "\<lparr>fe_recorded_at = 0, fe_ttl = from_secs 4, fe_rcode = ServFail, fe_reason = ''timeout'', fe_consecutive = 6\<rparr>"
  let ?c = "record_failure map_lib sample_key ?f sample_cache"
  have g: "mk_get (lib_failures map_lib) (dc_failures ?c) sample_key = Some ?f"
    by (simp add: record_failure_def map_lib_def map_moka_def)
  have "fe_ttl ?f \<le> from_secs 5 - fe_recorded_at ?f" by (simp add: from_secs_def)
  then show ?thesis
    using expired_failure_resets_streak [OF cache_law_map_lib g] g
    by (simp add: failure_streak_def)
qed

end
