(* ===== verification/SingleFlight.thy ===== *)
theory SingleFlight
  imports Bytes "HOL-Library.AList"
begin

unbundle bit_operations_syntax

text \<open>
  Request coalescing (\<^verbatim>\<open>cache/singleflight.rs\<close>): concurrent misses for one key share one upstream
  operation.

  The registry is a list of shards, each the association list of its hash map from keys to
  broadcast channels; a channel is a number, and \<open>sf_sent\<close> holds the value sent on it. A leader
  handle is in the hands of the task that does the work, \<open>sf_leaders\<close>; a follower handle is the
  channel it waits on. The hash is the process's random hasher, an argument \<open>h\<close>.

  A registry operation runs under the lock of one shard, so it is one step. Publishing removes
  the key under that lock and then sends on a channel nobody else can still reach, so it is one
  step too. \<open>sf_step\<close> interleaves the operations of any number of tasks, dropping a leader handle
  (cancellation, panic) included.
\<close>

section \<open>Definitions\<close>

datatype flight_error = LeaderGone | Failed ustring | Transient ustring

fun is_cacheable :: "flight_error \<Rightarrow> bool" where
  "is_cacheable (Failed _) = True"
| "is_cacheable _ = False"

fun flight_detail :: "flight_error \<Rightarrow> ustring" where
  "flight_detail LeaderGone = map of_char ''the leading query was cancelled''"
| "flight_detail (Failed d) = d"
| "flight_detail (Transient d) = d"

type_synonym 'v shared = "flight_error + 'v"

record 'k leader =
  ld_key :: "'k option"
  ld_tx :: nat
  ld_published :: bool

record ('k, 'v) single_flight =
  sf_shards :: "('k \<times> nat) list list"
  sf_max_inflight_per_shard :: nat
  sf_next_chan :: nat
  sf_sent :: "nat \<Rightarrow> 'v shared option"
  sf_leaders :: "nat \<Rightarrow> 'k leader option"
  sf_followers :: "nat list"

datatype 'k join = Leader "'k leader" | Follower nat | Saturated

function next_power_of_two :: "nat \<Rightarrow> nat" where
  "next_power_of_two n = (if n \<le> 1 then 1 else 2 * next_power_of_two ((n + 1) div 2))"
  by pat_completeness auto
termination by (relation "measure id") auto

declare next_power_of_two.simps [simp del]

definition sf_new :: "nat \<Rightarrow> nat \<Rightarrow> ('k, 'v) single_flight" where
  "sf_new shards max_inflight_per_shard =
     \<lparr>sf_shards = replicate (next_power_of_two (max shards 1)) [],
      sf_max_inflight_per_shard = max max_inflight_per_shard 1,
      sf_next_chan = 0, sf_sent = (\<lambda>_. None), sf_leaders = (\<lambda>_. None), sf_followers = []\<rparr>"

definition shard_index :: "('k \<Rightarrow> nat) \<Rightarrow> ('k, 'v) single_flight \<Rightarrow> 'k \<Rightarrow> nat" where
  "shard_index h s key = (h key AND (length (sf_shards s) - 1))"

definition sf_join ::
  "('k \<Rightarrow> nat) \<Rightarrow> 'k \<Rightarrow> ('k, 'v) single_flight \<Rightarrow> 'k join \<times> ('k, 'v) single_flight" where
  "sf_join h key s =
     (let idx = shard_index h s key; shard = sf_shards s ! idx in
      case map_of shard key of
        Some tx \<Rightarrow> (Follower tx, s\<lparr>sf_followers := tx # sf_followers s\<rparr>)
      | None \<Rightarrow>
          (if sf_max_inflight_per_shard s \<le> length shard then (Saturated, s)
           else
             (let tx = sf_next_chan s;
                  l = \<lparr>ld_key = Some key, ld_tx = tx, ld_published = False\<rparr>
              in (Leader l,
                  s\<lparr>sf_shards := (sf_shards s)[idx := (key, tx) # shard],
                    sf_next_chan := tx + 1,
                    sf_leaders := (sf_leaders s)(tx := Some l)\<rparr>))))"

definition sf_remove :: "('k \<Rightarrow> nat) \<Rightarrow> 'k \<Rightarrow> ('k, 'v) single_flight \<Rightarrow> ('k, 'v) single_flight" where
  "sf_remove h key s =
     (let idx = shard_index h s key
      in s\<lparr>sf_shards := (sf_shards s)[idx := AList.delete key (sf_shards s ! idx)]\<rparr>)"

definition inflight :: "('k, 'v) single_flight \<Rightarrow> nat" where
  "inflight s = sum_list (map length (sf_shards s))"

definition sf_send :: "nat \<Rightarrow> 'v shared \<Rightarrow> ('k, 'v) single_flight \<Rightarrow> ('k, 'v) single_flight" where
  "sf_send tx v s = s\<lparr>sf_sent := (sf_sent s)(tx := Some v)\<rparr>"

definition publish ::
  "('k \<Rightarrow> nat) \<Rightarrow> 'v shared \<Rightarrow> 'k leader \<Rightarrow> ('k, 'v) single_flight \<Rightarrow> 'k leader \<times> ('k, 'v) single_flight"
where
  "publish h v l s =
     (if ld_published l then (l, s)
      else (l\<lparr>ld_published := True, ld_key := None\<rparr>,
            sf_send (ld_tx l) v (case ld_key l of Some key \<Rightarrow> sf_remove h key s | None \<Rightarrow> s)))"

text \<open>Dropping a handle: the task that held it no longer has it.\<close>

definition leader_drop ::
  "('k \<Rightarrow> nat) \<Rightarrow> 'k leader \<Rightarrow> ('k, 'v) single_flight \<Rightarrow> ('k, 'v) single_flight" where
  "leader_drop h l s =
     (let s' = (if \<not> ld_published l then snd (publish h (Inl LeaderGone) l s) else s)
      in s'\<lparr>sf_leaders := (sf_leaders s')(ld_tx l := None)\<rparr>)"

text \<open>The three publishing methods consume the handle: it is dropped at their end.\<close>

definition leader_complete ::
  "('k \<Rightarrow> nat) \<Rightarrow> 'v \<Rightarrow> 'k leader \<Rightarrow> ('k, 'v) single_flight \<Rightarrow> ('k, 'v) single_flight" where
  "leader_complete h v l s = (let (l', s') = publish h (Inr v) l s in leader_drop h l' s')"

definition leader_fail ::
  "('k \<Rightarrow> nat) \<Rightarrow> ustring \<Rightarrow> 'k leader \<Rightarrow> ('k, 'v) single_flight \<Rightarrow> ('k, 'v) single_flight" where
  "leader_fail h reason l s = (let (l', s') = publish h (Inl (Failed reason)) l s in leader_drop h l' s')"

definition leader_fail_uncacheable ::
  "('k \<Rightarrow> nat) \<Rightarrow> ustring \<Rightarrow> 'k leader \<Rightarrow> ('k, 'v) single_flight \<Rightarrow> ('k, 'v) single_flight" where
  "leader_fail_uncacheable h reason l s =
     (let (l', s') = publish h (Inl (Transient reason)) l s in leader_drop h l' s')"

text \<open>
  \<^verbatim>\<open>Follower::wait\<close>: \<open>None\<close> while the receiver would still block. A channel is open while a sender
  is held by the registry or by its leader; a receiver of a closed, empty channel gets an error.
\<close>

definition chan_open :: "('k, 'v) single_flight \<Rightarrow> nat \<Rightarrow> bool" where
  "chan_open s tx \<longleftrightarrow>
     sf_leaders s tx \<noteq> None \<or> list_ex (\<lambda>shard. list_ex (\<lambda>(_, t). t = tx) shard) (sf_shards s)"

definition follower_wait :: "('k, 'v) single_flight \<Rightarrow> nat \<Rightarrow> 'v shared option" where
  "follower_wait s tx =
     (case sf_sent s tx of
        Some (Inr v) \<Rightarrow> Some (Inr v)
      | Some (Inl e) \<Rightarrow> Some (Inl e)
      | None \<Rightarrow> if chan_open s tx then None else Some (Inl LeaderGone))"

inductive sf_step ::
  "('k \<Rightarrow> nat) \<Rightarrow> ('k, 'v) single_flight \<Rightarrow> ('k, 'v) single_flight \<Rightarrow> bool" for h where
  SfJoin: "sf_step h s (snd (sf_join h key s))"
| SfComplete: "sf_leaders s tx = Some l \<Longrightarrow> sf_step h s (leader_complete h v l s)"
| SfFail: "sf_leaders s tx = Some l \<Longrightarrow> sf_step h s (leader_fail h reason l s)"
| SfFailUncacheable: "sf_leaders s tx = Some l \<Longrightarrow> sf_step h s (leader_fail_uncacheable h reason l s)"
| SfDrop: "sf_leaders s tx = Some l \<Longrightarrow> sf_step h s (leader_drop h l s)"

definition sf_init :: "('k, 'v) single_flight \<Rightarrow> bool" where
  "sf_init s \<longleftrightarrow> (\<exists>n m. s = sf_new n m)"

section \<open>Invariant\<close>

text \<open>
  A key is registered, in its shard, exactly while a leader holds it; leaders never hold a
  published handle; a channel is silent while its leader works and carries a value afterwards.
\<close>

definition held_by :: "'k \<Rightarrow> nat \<Rightarrow> 'k leader" where
  "held_by k tx = \<lparr>ld_key = Some k, ld_tx = tx, ld_published = False\<rparr>"

definition shard_ok :: "('k \<Rightarrow> nat) \<Rightarrow> ('k, 'v) single_flight \<Rightarrow> nat \<Rightarrow> ('k \<times> nat) list \<Rightarrow> bool" where
  "shard_ok h s i shard \<longleftrightarrow>
     distinct (map fst shard) \<and> length shard \<le> sf_max_inflight_per_shard s \<and>
     (\<forall>(k, tx)\<in>set shard. shard_index h s k = i \<and> sf_leaders s tx = Some (held_by k tx))"

definition shards_ok :: "('k \<Rightarrow> nat) \<Rightarrow> ('k, 'v) single_flight \<Rightarrow> bool" where
  "shards_ok h s \<longleftrightarrow>
     (\<exists>b. length (sf_shards s) = 2 ^ b) \<and>
     (\<forall>i < length (sf_shards s). shard_ok h s i (sf_shards s ! i))"

definition leaders_ok :: "('k \<Rightarrow> nat) \<Rightarrow> ('k, 'v) single_flight \<Rightarrow> bool" where
  "leaders_ok h s \<longleftrightarrow>
     (\<forall>tx l. sf_leaders s tx = Some l \<longrightarrow> tx < sf_next_chan s \<and>
        (\<exists>k. l = held_by k tx \<and>
             (k, tx) \<in> set (sf_shards s ! shard_index h s k)))"

definition chans_ok :: "('k, 'v) single_flight \<Rightarrow> bool" where
  "chans_ok s \<longleftrightarrow>
     (\<forall>tx < sf_next_chan s. sf_sent s tx = None \<longleftrightarrow> sf_leaders s tx \<noteq> None) \<and>
     (\<forall>tx\<ge>sf_next_chan s. sf_sent s tx = None) \<and>
     (\<forall>tx\<in>set (sf_followers s). tx < sf_next_chan s)"

definition sf_ok :: "('k \<Rightarrow> nat) \<Rightarrow> ('k, 'v) single_flight \<Rightarrow> bool" where
  "sf_ok h s \<longleftrightarrow> shards_ok h s \<and> leaders_ok h s \<and> chans_ok s"

lemma next_power_of_two_pow: "\<exists>b. next_power_of_two n = 2 ^ b"
proof (induction n rule: next_power_of_two.induct)
  case (1 n)
  show ?case
  proof (cases "n \<le> 1")
    case True
    then have "next_power_of_two n = 2 ^ 0" by (simp add: next_power_of_two.simps)
    then show ?thesis by blast
  next
    case False
    then obtain b where "next_power_of_two ((n + 1) div 2) = 2 ^ b" using 1 by blast
    then have "next_power_of_two n = 2 ^ Suc b" using False by (subst next_power_of_two.simps) simp
    then show ?thesis by blast
  qed
qed

lemma shard_index_less:
  assumes "length (sf_shards s) = 2 ^ b"
  shows "shard_index h s k < length (sf_shards s)"
proof -
  have "shard_index h s k = take_bit b (h k)"
    using assms by (simp add: shard_index_def take_bit_eq_mask mask_eq_exp_minus_1)
  then show ?thesis using assms by simp
qed

lemma shards_ok_index: "shards_ok h s \<Longrightarrow> shard_index h s k < length (sf_shards s)"
  unfolding shards_ok_def by (elim conjE exE) (rule shard_index_less)

lemma sf_ok_new: "sf_ok h (sf_new n m)"
  using next_power_of_two_pow [of "max n 1"]
  by (auto simp: sf_ok_def shards_ok_def shard_ok_def leaders_ok_def chans_ok_def sf_new_def)

lemma length_shards_join [simp]: "length (sf_shards (snd (sf_join h key s))) = length (sf_shards s)"
  by (simp add: sf_join_def Let_def split: option.split)

lemma shards_okD: "shards_ok h s \<Longrightarrow> i < length (sf_shards s) \<Longrightarrow> shard_ok h s i (sf_shards s ! i)"
  by (simp add: shards_ok_def)

lemma shard_okD:
  assumes "shard_ok h s i sh"
  shows "distinct (map fst sh)" "length sh \<le> sf_max_inflight_per_shard s"
    "(k, tx) \<in> set sh \<Longrightarrow> shard_index h s k = i"
    "(k, tx) \<in> set sh \<Longrightarrow> sf_leaders s tx = Some (held_by k tx)"
  using assms by (auto simp: shard_ok_def)

lemma shard_okI:
  assumes "distinct (map fst sh)" "length sh \<le> sf_max_inflight_per_shard s"
    "\<And>k tx. (k, tx) \<in> set sh \<Longrightarrow> shard_index h s k = i"
    "\<And>k tx. (k, tx) \<in> set sh \<Longrightarrow> sf_leaders s tx = Some (held_by k tx)"
  shows "shard_ok h s i sh"
  using assms by (auto simp: shard_ok_def)

lemma held_by_inject [simp]: "held_by k tx = held_by k' tx' \<longleftrightarrow> k = k' \<and> tx = tx'"
  by (auto simp: held_by_def)

lemma registered_leader:
  assumes "shards_ok h s" and "(k, tx) \<in> set (sf_shards s ! shard_index h s k)"
  shows "sf_leaders s tx = Some (held_by k tx)"
  using shards_okD [OF assms(1) shards_ok_index [OF assms(1)], of k] assms(2)
  unfolding shard_ok_def by blast

lemma leaders_okD:
  assumes "leaders_ok h s" and "sf_leaders s tx = Some l"
  obtains k where "l = held_by k tx" "(k, tx) \<in> set (sf_shards s ! shard_index h s k)" "tx < sf_next_chan s"
  using assms unfolding leaders_ok_def by blast

lemma leaders_ok_fresh: "leaders_ok h s \<Longrightarrow> sf_leaders s (sf_next_chan s) = None"
  by (cases "sf_leaders s (sf_next_chan s)") (auto elim: leaders_okD)

lemma sf_ok_lead:
  assumes ok: "sf_ok h s" and free: "key \<notin> fst ` set (sf_shards s ! shard_index h s key)"
    and room: "length (sf_shards s ! shard_index h s key) < sf_max_inflight_per_shard s"
    and t: "sf_shards t = (sf_shards s)[shard_index h s key :=
        (key, sf_next_chan s) # sf_shards s ! shard_index h s key]"
      "sf_max_inflight_per_shard t = sf_max_inflight_per_shard s" "sf_next_chan t = Suc (sf_next_chan s)"
      "sf_leaders t = (sf_leaders s)(sf_next_chan s := Some (held_by key (sf_next_chan s)))"
      "sf_sent t = sf_sent s" "sf_followers t = sf_followers s"
  shows "sf_ok h t"
proof -
  let ?i = "shard_index h s key" and ?tx = "sf_next_chan s"
  have sh: "shards_ok h s" and le: "leaders_ok h s" and ch: "chans_ok s"
    using ok by (simp_all add: sf_ok_def)
  have idx: "shard_index h t k = shard_index h s k" for k by (simp add: shard_index_def t)
  have lt: "?i < length (sf_shards s)" using sh by (rule shards_ok_index)
  have fresh: "sf_leaders s ?tx = None" using le by (rule leaders_ok_fresh)
  have "shard_ok h t j (sf_shards t ! j)" if j: "j < length (sf_shards s)" for j
  proof (cases "j = ?i")
    case True
    then show ?thesis
      using shards_okD [OF sh j] free room fresh lt
      by (auto simp: shard_ok_def t idx)
  next
    case False
    then show ?thesis
      using shards_okD [OF sh j] fresh by (auto simp: shard_ok_def t idx)
  qed
  then have "shards_ok h t" using sh by (simp add: shards_ok_def t)
  moreover have "leaders_ok h t"
    unfolding leaders_ok_def
  proof (intro allI impI)
    fix tx l assume l: "sf_leaders t tx = Some l"
    show "tx < sf_next_chan t \<and> (\<exists>k. l = held_by k tx \<and> (k, tx) \<in> set (sf_shards t ! shard_index h t k))"
    proof (cases "tx = ?tx")
      case True
      then show ?thesis using l lt by (auto simp: t idx)
    next
      case False
      then have "sf_leaders s tx = Some l" using l by (simp add: t)
      with le obtain k where "l = held_by k tx" "(k, tx) \<in> set (sf_shards s ! shard_index h s k)" "tx < ?tx"
        by (rule leaders_okD)
      then show ?thesis by (cases "shard_index h s k = ?i") (auto simp: lt t idx)
    qed
  qed
  moreover have "chans_ok t"
    using ch unfolding chans_ok_def t by (auto simp: less_Suc_eq)
  ultimately show ?thesis by (simp add: sf_ok_def)
qed

lemma sf_ok_join:
  assumes "sf_ok h s"
  shows "sf_ok h (snd (sf_join h key s))"
proof -
  let ?i = "shard_index h s key"
  have sh: "shards_ok h s" and le: "leaders_ok h s" and ch: "chans_ok s"
    using assms by (simp_all add: sf_ok_def)
  show ?thesis
  proof (cases "map_of (sf_shards s ! ?i) key")
    case (Some tx)
    then have "(key, tx) \<in> set (sf_shards s ! ?i)" by (rule map_of_SomeD)
    then have "sf_leaders s tx = Some (held_by key tx)" using sh by (intro registered_leader)
    then have "tx < sf_next_chan s" using le by (auto elim: leaders_okD)
    then have "chans_ok (s\<lparr>sf_followers := tx # sf_followers s\<rparr>)" using ch by (simp add: chans_ok_def)
    then show ?thesis
      using sh le Some
      by (simp add: sf_ok_def sf_join_def Let_def shards_ok_def shard_ok_def leaders_ok_def shard_index_def)
  next
    case None
    show ?thesis
    proof (cases "sf_max_inflight_per_shard s \<le> length (sf_shards s ! ?i)")
      case True
      then show ?thesis using assms None by (simp add: sf_join_def Let_def)
    next
      case False
      have free: "key \<notin> fst ` set (sf_shards s ! ?i)" using None by (simp add: map_of_eq_None_iff)
      have room: "length (sf_shards s ! ?i) < sf_max_inflight_per_shard s" using False by simp
      show ?thesis
        by (rule sf_ok_lead [OF assms free room]) (use None False in \<open>simp_all add: sf_join_def Let_def held_by_def\<close>)
    qed
  qed
qed

text \<open>What all four ways of ending a flight come to.\<close>

definition finish ::
  "('k \<Rightarrow> nat) \<Rightarrow> 'v shared \<Rightarrow> 'k \<Rightarrow> nat \<Rightarrow> ('k, 'v) single_flight \<Rightarrow> ('k, 'v) single_flight" where
  "finish h v k tx s =
     (let s' = sf_send tx v (sf_remove h k s) in s'\<lparr>sf_leaders := (sf_leaders s')(tx := None)\<rparr>)"

lemma end_of_flight:
  "leader_complete h v (held_by k tx) s = finish h (Inr v) k tx s"
  "leader_fail h r (held_by k tx) s = finish h (Inl (Failed r)) k tx s"
  "leader_fail_uncacheable h r (held_by k tx) s = finish h (Inl (Transient r)) k tx s"
  "leader_drop h (held_by k tx) s = finish h (Inl LeaderGone) k tx s"
  by (simp_all add: held_by_def leader_complete_def leader_fail_def leader_fail_uncacheable_def
      leader_drop_def publish_def finish_def Let_def)

lemma sf_ok_finish:
  assumes ok: "sf_ok h s" and l: "sf_leaders s tx = Some (held_by k tx)"
  shows "sf_ok h (finish h v k tx s)"
proof -
  define i where "i = shard_index h s k"
  let ?t = "finish h v k tx s"
  have sh: "shards_ok h s" and le: "leaders_ok h s" and ch: "chans_ok s"
    using ok by (simp_all add: sf_ok_def)
  have t: "sf_shards ?t = (sf_shards s)[i := AList.delete k (sf_shards s ! i)]"
    "sf_max_inflight_per_shard ?t = sf_max_inflight_per_shard s" "sf_next_chan ?t = sf_next_chan s"
    "sf_leaders ?t = (sf_leaders s)(tx := None)" "sf_sent ?t = (sf_sent s)(tx := Some v)"
    "sf_followers ?t = sf_followers s"
    by (simp_all add: finish_def sf_send_def sf_remove_def Let_def i_def)
  have idx: "shard_index h ?t k' = shard_index h s k'" for k' by (simp add: shard_index_def t)
  have lt: "i < length (sf_shards s)" using sh unfolding i_def by (rule shards_ok_index)
  have reg: "shard_index h s k' = j" "sf_leaders s tx' = Some (held_by k' tx')"
    if "j < length (sf_shards s)" "(k', tx') \<in> set (sf_shards s ! j)" for j k' tx'
    using shard_okD [OF shards_okD [OF sh that(1)]] that(2) by blast+
  have ki: "shard_index h s k = i" by (simp add: i_def)
  have "shard_ok h ?t j (sf_shards ?t ! j)" if j: "j < length (sf_shards s)" for j
  proof (cases "j = i")
    case True
    note old = shard_okD [OF shards_okD [OF sh lt]]
    have tj: "sf_shards ?t ! j = AList.delete k (sf_shards s ! i)" using True lt by (simp add: t)
    have sub: "(k', tx') \<in> set (sf_shards s ! i) \<and> k' \<noteq> k"
      if "(k', tx') \<in> set (AList.delete k (sf_shards s ! i))" for k' tx'
      using that by (auto simp: AList.delete_eq)
    have "tx' \<noteq> tx" if "(k', tx') \<in> set (AList.delete k (sf_shards s ! i))" for k' tx'
      using sub [OF that] reg(2) [OF lt, of k' tx'] l by auto
    then have new: "sf_leaders ?t tx' = Some (held_by k' tx')" "shard_index h ?t k' = j"
      if "(k', tx') \<in> set (AList.delete k (sf_shards s ! i))" for k' tx'
      using reg [OF lt, of k' tx'] sub [OF that] that True by (simp_all add: t(4) idx)
    show ?thesis
      unfolding tj
    proof (rule shard_okI)
      show "distinct (map fst (AList.delete k (sf_shards s ! i)))" using old(1) by (rule distinct_delete)
      show "length (AList.delete k (sf_shards s ! i)) \<le> sf_max_inflight_per_shard ?t"
        using old(2) length_delete_le [of k "sf_shards s ! i"] by (simp add: t(2))
    qed (rule new; assumption)+
  next
    case False
    have tj: "sf_shards ?t ! j = sf_shards s ! j" using False by (simp add: t)
    have "tx' \<noteq> tx" if m: "(k', tx') \<in> set (sf_shards s ! j)" for k' tx'
      using reg [OF j m] l False ki by auto
    then have new: "sf_leaders ?t tx' = Some (held_by k' tx')" "shard_index h ?t k' = j"
      if "(k', tx') \<in> set (sf_shards s ! j)" for k' tx'
      using reg [OF j that] that by (simp_all add: t(4) idx)
    show ?thesis
      unfolding tj
    proof (rule shard_okI)
      show "distinct (map fst (sf_shards s ! j))" "length (sf_shards s ! j) \<le> sf_max_inflight_per_shard ?t"
        using shard_okD(1,2) [OF shards_okD [OF sh j]] by (simp_all add: t(2))
    qed (rule new; assumption)+
  qed
  then have "shards_ok h ?t" using sh by (simp add: shards_ok_def t)
  moreover have "leaders_ok h ?t"
    unfolding leaders_ok_def
  proof (intro allI impI)
    fix tx' l' assume "sf_leaders ?t tx' = Some l'"
    then have ne: "tx' \<noteq> tx" and "sf_leaders s tx' = Some l'" by (auto simp: t split: if_splits)
    with le obtain k' where k': "l' = held_by k' tx'" "(k', tx') \<in> set (sf_shards s ! shard_index h s k')"
      "tx' < sf_next_chan s" by (auto elim: leaders_okD)
    have "(k', tx') \<in> set (sf_shards ?t ! shard_index h s k')"
    proof (cases "shard_index h s k' = i")
      case True
      have "k' \<noteq> k"
      proof
        assume "k' = k"
        have "(k, tx) \<in> set (sf_shards s ! i)" using l le unfolding i_def by (auto elim: leaders_okD)
        then show False
          using \<open>k' = k\<close> k'(2) ne shards_okD [OF sh lt] True
          by (auto simp: shard_ok_def dest: eq_key_imp_eq_value)
      qed
      then show ?thesis using True k'(2) lt by (auto simp: t AList.delete_eq)
    next
      case False
      then show ?thesis using k'(2) by (simp add: t)
    qed
    then show "tx' < sf_next_chan ?t \<and> (\<exists>k. l' = held_by k tx' \<and> (k, tx') \<in> set (sf_shards ?t ! shard_index h ?t k))"
      using k' by (auto simp: t(3) idx)
  qed
  moreover have "tx < sf_next_chan s" using l le by (auto elim: leaders_okD)
  then have "chans_ok ?t"
    using ch unfolding chans_ok_def t by auto
  ultimately show ?thesis by (simp add: sf_ok_def)
qed

lemma leader_form:
  assumes "sf_ok h s" and "sf_leaders s tx = Some l"
  obtains k where "l = held_by k tx"
proof -
  have "leaders_ok h s" using assms(1) by (simp add: sf_ok_def)
  then show ?thesis using assms(2) by (rule leaders_okD) (rule that)
qed

lemma sf_ok_end:
  assumes "sf_ok h s" and "sf_leaders s tx = Some l"
  shows "sf_ok h (leader_complete h v l s)" "sf_ok h (leader_fail h r l s)"
    "sf_ok h (leader_fail_uncacheable h r l s)" "sf_ok h (leader_drop h l s)"
proof -
  obtain k where l: "l = held_by k tx" using assms by (rule leader_form)
  have "sf_ok h (finish h w k tx s)" for w
    using assms(2) unfolding l by (rule sf_ok_finish [OF assms(1)])
  then show "sf_ok h (leader_complete h v l s)" "sf_ok h (leader_fail h r l s)"
    "sf_ok h (leader_fail_uncacheable h r l s)" "sf_ok h (leader_drop h l s)"
    unfolding l end_of_flight by this+
qed

lemma sf_ok_step: "sf_ok h s \<Longrightarrow> sf_step h s s' \<Longrightarrow> sf_ok h s'"
  by (erule sf_step.cases) (simp_all add: sf_ok_join sf_ok_end)

interpretation sf_sys: invariant_system sf_init "sf_step h" "sf_ok h" for h
  by unfold_locales (auto simp: sf_init_def intro: sf_ok_new sf_ok_step)

text \<open>A concrete run: one leader and one follower on the same key.\<close>

definition sample_flight :: "(nat, nat) single_flight" where
  "sample_flight = snd (sf_join id 5 (snd (sf_join id 5 (sf_new 1 2))))"

lemma sample_flight_simps:
  "sf_leaders sample_flight 0 = Some (held_by 5 0)" "sf_followers sample_flight = [0]"
  "length (sf_shards sample_flight) = 1" "sf_max_inflight_per_shard sample_flight = 2"
  by (simp_all add: sample_flight_def sf_join_def sf_new_def shard_index_def held_by_def
      next_power_of_two.simps Let_def)

lemma sample_flight_reachable: "(sf_step id)\<^sup>*\<^sup>* (sf_new 1 2) sample_flight"
  unfolding sample_flight_def
  by (rule converse_rtranclp_into_rtranclp, rule sf_step.SfJoin,
      rule converse_rtranclp_into_rtranclp, rule sf_step.SfJoin, rule rtranclp.rtrancl_refl)

lemma sf_init_new: "sf_init (sf_new n m)"
  by (auto simp: sf_init_def)

section \<open>Properties\<close>

text \<open>
  C7. Concurrent identical misses produce one upstream operation: in every reachable state of the
  registry, two leaders that work on the same key are the same leader, and while one works every
  further join of that key becomes its follower.
\<close>

theorem one_leader_per_key:
  assumes "sf_init s0" and "(sf_step h)\<^sup>*\<^sup>* s0 s"
    and "sf_leaders s tx = Some l" and "ld_key l = Some key"
  shows "(\<forall>tx' l'. sf_leaders s tx' = Some l' \<and> ld_key l' = Some key \<longrightarrow> tx' = tx \<and> l' = l) \<and>
    fst (sf_join h key s) = Follower tx"
proof -
  have ok: "shards_ok h s" "leaders_ok h s"
    using sf_sys.reachable_inv [OF assms(1,2)] by (simp_all add: sf_ok_def)
  have d: "distinct (map fst (sf_shards s ! shard_index h s key))"
    using shards_okD [OF ok(1) shards_ok_index [OF ok(1)]] by (simp add: shard_ok_def)
  have reg: "(key, tx') \<in> set (sf_shards s ! shard_index h s key) \<and> l' = held_by key tx'"
    if "sf_leaders s tx' = Some l'" "ld_key l' = Some key" for tx' l'
    using ok(2) that(1) by (rule leaders_okD) (use that(2) in \<open>simp add: held_by_def\<close>)
  have "tx' = tx" if "sf_leaders s tx' = Some l'" "ld_key l' = Some key" for tx' l'
    using d conjunct1 [OF reg [OF that]] conjunct1 [OF reg [OF assms(3,4)]] by (rule eq_key_imp_eq_value)
  then have "tx' = tx \<and> l' = l" if "sf_leaders s tx' = Some l'" "ld_key l' = Some key" for tx' l'
    using that assms(3) by fastforce
  moreover have "map_of (sf_shards s ! shard_index h s key) key = Some tx"
    using conjunct1 [OF reg [OF assms(3,4)]] d by (simp add: map_of_is_SomeI)
  then have "fst (sf_join h key s) = Follower tx" by (simp add: sf_join_def Let_def)
  ultimately show ?thesis by blast
qed

theorem one_leader_per_key_witness: "fst (sf_join id 5 sample_flight) = Follower 0"
  using one_leader_per_key [OF sf_init_new sample_flight_reachable sample_flight_simps(1), of 5]
  by (simp add: held_by_def)

text \<open>
  C13. No follower hangs on a leader that is gone: in every reachable state a follower that has no
  result yet waits for a leader that is still working, and however that leader ends (a result, a
  failure, an uncacheable failure, or its future being dropped) its followers have the result in
  the next state.
\<close>

theorem followers_are_woken:
  assumes "sf_init s0" and "(sf_step h)\<^sup>*\<^sup>* s0 s" and "tx \<in> set (sf_followers s)"
  shows "(follower_wait s tx = None \<longrightarrow> (\<exists>l. sf_leaders s tx = Some l)) \<and>
    (\<forall>l. sf_leaders s tx = Some l \<longrightarrow>
       follower_wait (leader_complete h v l s) tx = Some (Inr v) \<and>
       follower_wait (leader_fail h r l s) tx = Some (Inl (Failed r)) \<and>
       follower_wait (leader_fail_uncacheable h r l s) tx = Some (Inl (Transient r)) \<and>
       follower_wait (leader_drop h l s) tx = Some (Inl LeaderGone))"
proof -
  have ok: "sf_ok h s" using assms(1,2) by (rule sf_sys.reachable_inv)
  have "sf_sent s tx = None \<longleftrightarrow> sf_leaders s tx \<noteq> None"
    using ok assms(3) by (simp add: sf_ok_def chans_ok_def)
  then have "follower_wait s tx = None \<longrightarrow> (\<exists>l. sf_leaders s tx = Some l)"
    by (auto simp: follower_wait_def split: option.splits sum.splits)
  moreover have "sf_sent (finish h w k tx s) tx = Some w" for w k
    by (simp add: finish_def sf_send_def Let_def)
  then have "follower_wait (finish h w k tx s) tx = Some w" for w k
    by (simp add: follower_wait_def split: sum.split)
  then have "follower_wait (leader_complete h v l s) tx = Some (Inr v) \<and>
       follower_wait (leader_fail h r l s) tx = Some (Inl (Failed r)) \<and>
       follower_wait (leader_fail_uncacheable h r l s) tx = Some (Inl (Transient r)) \<and>
       follower_wait (leader_drop h l s) tx = Some (Inl LeaderGone)"
    if "sf_leaders s tx = Some l" for l
    using that by (auto simp: end_of_flight elim!: leader_form [OF ok])
  ultimately show ?thesis by blast
qed

theorem followers_are_woken_witness:
  "follower_wait (leader_drop id (held_by 5 0) sample_flight) 0 = Some (Inl LeaderGone) \<and>
   follower_wait (leader_complete id 42 (held_by 5 0) sample_flight) 0 = Some (Inr 42)"
  using followers_are_woken [OF sf_init_new sample_flight_reachable, of 0 42] sample_flight_simps
  by simp

text \<open>The number of flights in progress never exceeds the number of shards times the per-shard ceiling.\<close>

theorem inflight_bounded:
  assumes "sf_init s0" and "(sf_step h)\<^sup>*\<^sup>* s0 s"
  shows "inflight s \<le> length (sf_shards s) * sf_max_inflight_per_shard s"
proof -
  have "shards_ok h s" using sf_sys.reachable_inv [OF assms] by (simp add: sf_ok_def)
  then have "\<forall>x\<in>set (sf_shards s). length x \<le> sf_max_inflight_per_shard s"
    by (auto simp: shards_ok_def shard_ok_def in_set_conv_nth)
  then have "sum_list (map length (sf_shards s)) \<le> sum_list (map (\<lambda>_. sf_max_inflight_per_shard s) (sf_shards s))"
    by (intro sum_list_mono) auto
  then show ?thesis by (simp add: inflight_def sum_list_triv)
qed

theorem inflight_bounded_witness: "inflight sample_flight \<le> 1 * 2"
  using inflight_bounded [OF sf_init_new sample_flight_reachable] sample_flight_simps by simp

end
