(* ===== verification/HotSet.thy ===== *)
theory HotSet
  imports Egress_Prelude "HOL-Library.AList" "HOL-Library.Product_Lexorder"
begin

text \<open>
  Popularity tracking for prefetching (\<^verbatim>\<open>cache/hotset.rs\<close>): a decayed hit count per cache key and
  a bounded table of which key tends to follow which.

  The keys are a type parameter (the source's \<^verbatim>\<open>CacheKey\<close>). A hash map is an association list with
  distinct keys whose order is the map's iteration order; since that order is arbitrary, the step
  relation \<open>hot_step\<close> may permute it at any time. Scores are reals.
\<close>

section \<open>Definitions\<close>

record hot_entry =
  he_score :: real
  he_hits :: u64
  he_last_seen :: instant
  he_last_prefetch :: "instant option"

record 'k hot_set =
  hs_map :: "('k \<times> hot_entry) list"
  hs_last_decay :: instant
  hs_transitions :: "('k \<times> ('k \<times> real) list) list"
  hs_transition_capacity :: nat
  hs_capacity :: nat
  hs_half_life_secs :: real

definition hot_new :: "nat \<Rightarrow> real \<Rightarrow> nat \<Rightarrow> instant \<Rightarrow> 'k hot_set" where
  "hot_new capacity half_life_secs transition_capacity now =
     \<lparr>hs_map = [], hs_last_decay = now, hs_transitions = [],
      hs_transition_capacity = transition_capacity, hs_capacity = max capacity 1,
      hs_half_life_secs = max half_life_secs 1\<rparr>"

text \<open>\<^verbatim>\<open>entry(k).or_insert(d)\<close> followed by an update of the entry in place.\<close>

definition upsert :: "'k \<Rightarrow> 'v \<Rightarrow> ('v \<Rightarrow> 'v) \<Rightarrow> ('k \<times> 'v) list \<Rightarrow> ('k \<times> 'v) list" where
  "upsert k d f m =
     (case map_of m k of None \<Rightarrow> m @ [(k, f d)] | Some v \<Rightarrow> AList.update k (f v) m)"

definition decay_row :: "real \<Rightarrow> ('k \<times> real) list \<Rightarrow> ('k \<times> real) list" where
  "decay_row factor row = filter (\<lambda>(_, w). 1 / 100 < w) (map (\<lambda>(k, w). (k, w * factor)) row)"

definition decay_locked :: "instant \<Rightarrow> 'k hot_set \<Rightarrow> 'k hot_set" where
  "decay_locked now self =
     (let elapsed = as_secs_f64 (now - hs_last_decay self) in
      if elapsed < 1 then self
      else
        (let factor = (1 / 2) powr (elapsed / hs_half_life_secs self) in
         if 999 / 1000 \<le> factor then self\<lparr>hs_last_decay := now\<rparr>
         else self\<lparr>
           hs_map := filter (\<lambda>(_, e). 1 / 100 < he_score e)
             (map (\<lambda>(k, e). (k, e\<lparr>he_score := he_score e * factor\<rparr>)) (hs_map self)),
           hs_transitions := filter (\<lambda>(_, row). row \<noteq> [])
             (map (\<lambda>(k, row). (k, decay_row factor row)) (hs_transitions self)),
           hs_last_decay := now\<rparr>))"

definition hot_rank :: "hot_entry \<Rightarrow> real \<times> instant" where
  "hot_rank e = (he_score e, he_last_seen e)"

definition evict_batch :: "nat \<Rightarrow> nat \<Rightarrow> nat" where
  "evict_batch len cap = max (min (len - cap + cap div 10 + 1) (len - 1)) 1"

definition evict_retain :: "nat \<Rightarrow> 'k \<Rightarrow> ('k \<times> hot_entry) list \<Rightarrow> ('k \<times> hot_entry) list" where
  "evict_retain cap protect m =
     (let ranks = map (\<lambda>(_, e). hot_rank e) m;
          idx = min (evict_batch (length m) cap) (length ranks - 1);
          threshold = sort ranks ! idx
      in filter (\<lambda>(k, e). k = protect \<or> threshold < hot_rank e) m)"

definition evict_excess :: "nat \<Rightarrow> 'k \<Rightarrow> ('k \<times> hot_entry) list \<Rightarrow> ('k \<times> hot_entry) list" where
  "evict_excess cap protect m =
     (let still_over = length m - cap;
          victims = take still_over (filter (\<lambda>k. k \<noteq> protect) (map fst m))
      in fold AList.delete victims m)"

definition evict_locked :: "'k \<Rightarrow> 'k hot_set \<Rightarrow> 'k hot_set" where
  "evict_locked protect self =
     (let m = hs_map self; overflow = length m - hs_capacity self in
      if overflow = 0 \<or> length m < 2 then self
      else self\<lparr>hs_map := evict_excess (hs_capacity self) protect
                           (evict_retain (hs_capacity self) protect m)\<rparr>)"

definition strongest :: "nat \<Rightarrow> ('k \<times> real) list \<Rightarrow> ('k \<times> real) list" where
  "strongest n row = take n (sort_key (\<lambda>(_, w). - w) row)"

definition note_transition :: "'k \<Rightarrow> 'k \<Rightarrow> 'k hot_set \<Rightarrow> 'k hot_set" where
  "note_transition prev key self =
     (let add = (\<lambda>row. let row' = upsert key 0 (\<lambda>w. w + 1) row
                       in if 8 < length row' then strongest 8 row' else row');
          trs = upsert prev [] add (hs_transitions self)
      in self\<lparr>hs_transitions :=
           if hs_transition_capacity self < length trs then AList.delete (fst (hd trs)) trs else trs\<rparr>)"

definition observe :: "'k \<Rightarrow> 'k option \<Rightarrow> instant \<Rightarrow> 'k hot_set \<Rightarrow> 'k hot_set" where
  "observe key previous now self0 =
     (let self1 = decay_locked now self0;
          e0 = \<lparr>he_score = 0, he_hits = 0, he_last_seen = now, he_last_prefetch = None\<rparr>;
          hit = (\<lambda>e. e\<lparr>he_score := he_score e + 1, he_hits := he_hits e + 1, he_last_seen := now\<rparr>);
          self2 = self1\<lparr>hs_map := upsert key e0 hit (hs_map self1)\<rparr>;
          self3 = (if hs_capacity self2 < length (hs_map self2) then evict_locked key self2 else self2)
      in if 0 < hs_transition_capacity self3
         then (case previous of
                 Some prev \<Rightarrow> if prev \<noteq> key then note_transition prev key self3 else self3
               | None \<Rightarrow> self3)
         else self3)"

definition mark_prefetch :: "'k \<Rightarrow> instant \<Rightarrow> 'k hot_set \<Rightarrow> 'k hot_set" where
  "mark_prefetch key now self =
     (case map_of (hs_map self) key of
        Some e \<Rightarrow> self\<lparr>hs_map := AList.update key (e\<lparr>he_last_prefetch := Some now\<rparr>) (hs_map self)\<rparr>
      | None \<Rightarrow> self)"

definition hot_get :: "'k \<Rightarrow> 'k hot_set \<Rightarrow> hot_entry option" where
  "hot_get key self = map_of (hs_map self) key"

definition hot_top :: "nat \<Rightarrow> 'k hot_set \<Rightarrow> ('k \<times> hot_entry) list" where
  "hot_top n self = take n (sort_key (\<lambda>(_, e). - he_score e) (hs_map self))"

definition successors :: "'k \<Rightarrow> nat \<Rightarrow> 'k hot_set \<Rightarrow> 'k list" where
  "successors key n self =
     (case map_of (hs_transitions self) key of
        None \<Rightarrow> []
      | Some row \<Rightarrow> map fst (strongest n row))"

definition hot_clear :: "'k hot_set \<Rightarrow> 'k hot_set" where
  "hot_clear self = self\<lparr>hs_map := [], hs_transitions := []\<rparr>"

inductive hot_step :: "'k hot_set \<Rightarrow> 'k hot_set \<Rightarrow> bool" where
  HotObserve: "hot_step s (observe key previous now s)"
| HotMarkPrefetch: "hot_step s (mark_prefetch key now s)"
| HotClear: "hot_step s (hot_clear s)"
| HotReorder: "mset m = mset (hs_map s) \<Longrightarrow> mset t = mset (hs_transitions s) \<Longrightarrow>
    hot_step s (s\<lparr>hs_map := m, hs_transitions := t\<rparr>)"

definition hot_ok :: "'k hot_set \<Rightarrow> bool" where
  "hot_ok s \<longleftrightarrow>
     0 < hs_capacity s \<and> distinct (map fst (hs_map s)) \<and> length (hs_map s) \<le> hs_capacity s \<and>
     distinct (map fst (hs_transitions s)) \<and>
     length (hs_transitions s) \<le> hs_transition_capacity s \<and>
     list_all (\<lambda>(_, row). length row \<le> 8) (hs_transitions s)"

section \<open>Lemmas\<close>

lemma keys_upsert: "fst ` set (upsert k d f m) = insert k (fst ` set m)"
  by (auto simp: upsert_def dom_update split: option.split dest: map_of_SomeD)

lemma distinct_upsert: "distinct (map fst m) \<Longrightarrow> distinct (map fst (upsert k d f m))"
  by (auto simp: upsert_def distinct_update map_of_eq_None_iff split: option.split)

lemma length_alist_update: "k \<in> fst ` set m \<Longrightarrow> length (AList.update k v m) = length m"
  by (induction m) auto

lemma length_upsert:
  "length (upsert k d f m) = (if k \<in> fst ` set m then length m else Suc (length m))"
  by (auto simp: upsert_def length_alist_update map_of_eq_None_iff split: option.split
      dest: map_of_SomeD intro: rev_image_eqI)

lemma distinct_fst_filter: "distinct (map fst m) \<Longrightarrow> distinct (map fst (filter p m))"
  by (rule distinct_map_filter)

lemma decay_locked_simps [simp]:
  "hs_capacity (decay_locked now s) = hs_capacity s"
  "hs_transition_capacity (decay_locked now s) = hs_transition_capacity s"
  by (simp_all add: decay_locked_def Let_def)

lemma length_filter_map_le: "length (filter p (map f xs)) \<le> length xs"
  using length_filter_le [of p "map f xs"] by simp

lemma length_filter_map_bound: "length xs \<le> n \<Longrightarrow> length (filter p (map f xs)) \<le> n"
  by (rule le_trans [OF length_filter_map_le])

lemma distinct_fst_filter_map:
  "distinct (map fst m) \<Longrightarrow> distinct (map fst (filter p (map (\<lambda>(k, v). (k, g k v)) m)))"
  by (rule distinct_fst_filter) (simp add: case_prod_unfold comp_def)

lemma hot_ok_update:
  assumes "hot_ok s" "distinct (map fst m)" "length m \<le> hs_capacity s" "distinct (map fst t)"
    "length t \<le> hs_transition_capacity s" "list_all (\<lambda>(_, row). length row \<le> 8) t"
  shows "hot_ok (s\<lparr>hs_map := m, hs_transitions := t, hs_last_decay := d\<rparr>)"
  using assms by (simp add: hot_ok_def)

lemma hot_ok_decay: "hot_ok s \<Longrightarrow> hot_ok (decay_locked now s)"
proof -
  assume ok: "hot_ok s"
  have row: "length (decay_row f r) \<le> length r" for f and r :: "('a \<times> real) list"
    unfolding decay_row_def by (rule length_filter_map_le)
  have rows: "list_all (\<lambda>(_, row). length row \<le> 8)
      (filter p (map (\<lambda>(k, row). (k, decay_row f row)) (hs_transitions s)))" for p f
    using ok row by (fastforce simp: hot_ok_def list_all_iff intro: le_trans)
  have "hot_ok (s\<lparr>hs_map := filter p (map (\<lambda>(k, e). (k, g e)) (hs_map s)),
      hs_transitions := filter q (map (\<lambda>(k, row). (k, decay_row f row)) (hs_transitions s)),
      hs_last_decay := now\<rparr>)" for p q f g
    by (rule hot_ok_update [OF ok distinct_fst_filter_map length_filter_map_bound
          distinct_fst_filter_map length_filter_map_bound rows])
      (use ok in \<open>simp_all add: hot_ok_def\<close>)
  moreover have "hot_ok (s\<lparr>hs_last_decay := now\<rparr>)" using ok by (simp add: hot_ok_def)
  ultimately show ?thesis
    using ok unfolding decay_locked_def Let_def by (simp only: split: if_split) blast
qed

lemma sort_greater_count:
  fixes xs :: "'a::linorder list"
  assumes "i < length xs"
  shows "length (filter (\<lambda>x. sort xs ! i < x) xs) \<le> length xs - Suc i"
proof -
  let ?s = "sort xs"
  have "length (filter (\<lambda>x. ?s ! i < x) xs) = length (filter (\<lambda>x. ?s ! i < x) ?s)"
    by (metis mset_filter mset_sort size_mset)
  also have "\<dots> = length (filter (\<lambda>x. ?s ! i < x) (take (Suc i) ?s)) +
      length (filter (\<lambda>x. ?s ! i < x) (drop (Suc i) ?s))"
    by (metis append_take_drop_id filter_append length_append)
  also have "filter (\<lambda>x. ?s ! i < x) (take (Suc i) ?s) = []"
    using assms by (auto simp: filter_empty_conv in_set_conv_nth not_less
        intro!: sorted_nth_mono [OF sorted_sort])
  also have "length (filter (\<lambda>x. ?s ! i < x) (drop (Suc i) ?s)) \<le> length xs - Suc i"
    using length_filter_le [of "\<lambda>x. ?s ! i < x" "drop (Suc i) ?s"] by simp
  finally show ?thesis by simp
qed

lemma evict_retain_fits:
  assumes "distinct (map fst m)" "cap < length m" "0 < cap"
  shows "length (evict_retain cap protect m) \<le> cap"
proof -
  let ?r = "map (\<lambda>(_, e). hot_rank e) m"
  let ?i = "min (evict_batch (length m) cap) (length ?r - 1)"
  let ?th = "sort ?r ! ?i"
  have i: "?i < length ?r" using assms(2) by simp
  have ge: "length m - cap \<le> ?i" using assms(2,3) by (auto simp: evict_batch_def)
  have split: "length (filter (\<lambda>x. P x \<or> Q x) xs) \<le> length (filter P xs) + length (filter Q xs)"
    for P Q and xs :: "('a \<times> hot_entry) list" by (induction xs) auto
  have "length (filter (\<lambda>(k, e). k = protect) m) \<le> 1"
    using assms(1) by (induction m) (auto simp: filter_empty_conv image_iff case_prod_unfold)
  moreover have "length (filter (\<lambda>(k, e). ?th < hot_rank e) m) = length (filter (\<lambda>x. ?th < x) ?r)"
    by (simp add: filter_map case_prod_unfold comp_def)
  ultimately have "length (evict_retain cap protect m) \<le> 1 + (length ?r - Suc ?i)"
    using split [of "\<lambda>(k, e). k = protect" "\<lambda>(k, e). ?th < hot_rank e" m] sort_greater_count [OF i]
    unfolding evict_retain_def Let_def case_prod_unfold by simp
  also have "\<dots> \<le> cap" using ge i assms(2) unfolding length_map by linarith
  finally show ?thesis .
qed

lemma evict_retain_protect: "protect \<in> fst ` set m \<Longrightarrow> protect \<in> fst ` set (evict_retain cap protect m)"
  by (force simp: evict_retain_def Let_def)

lemma evict_excess_fits: "length m \<le> cap \<Longrightarrow> evict_excess cap protect m = m"
  by (simp add: evict_excess_def Let_def)

lemma evict_locked_spec:
  assumes "distinct (map fst (hs_map s))" "hs_capacity s < length (hs_map s)" "0 < hs_capacity s"
    and "protect \<in> fst ` set (hs_map s)"
  shows "hs_map (evict_locked protect s) = evict_retain (hs_capacity s) protect (hs_map s)"
    and "length (hs_map (evict_locked protect s)) \<le> hs_capacity s"
    and "protect \<in> fst ` set (hs_map (evict_locked protect s))"
    and "distinct (map fst (hs_map (evict_locked protect s)))"
proof -
  have fits: "length (evict_retain (hs_capacity s) protect (hs_map s)) \<le> hs_capacity s"
    using assms(1-3) by (rule evict_retain_fits)
  show eq: "hs_map (evict_locked protect s) = evict_retain (hs_capacity s) protect (hs_map s)"
    using assms(2,3) by (simp add: evict_locked_def Let_def evict_excess_fits [OF fits])
  show "length (hs_map (evict_locked protect s)) \<le> hs_capacity s" using fits eq by simp
  show "protect \<in> fst ` set (hs_map (evict_locked protect s))"
    unfolding eq using assms(4) by (rule evict_retain_protect)
  show "distinct (map fst (hs_map (evict_locked protect s)))"
    unfolding eq evict_retain_def Let_def using assms(1) by (rule distinct_fst_filter)
qed

lemma evict_locked_others [simp]:
  "hs_capacity (evict_locked k s) = hs_capacity s" "hs_transitions (evict_locked k s) = hs_transitions s"
  "hs_transition_capacity (evict_locked k s) = hs_transition_capacity s"
  by (simp_all add: evict_locked_def Let_def)

lemma length_strongest: "length (strongest n row) \<le> n"
  by (simp add: strongest_def)

lemma list_all_upsert:
  assumes "list_all (\<lambda>(_, v). P v) m" and "P (f d)" and "\<And>v. P v \<Longrightarrow> P (f v)"
  shows "list_all (\<lambda>(_, v). P v) (upsert k d f m)"
proof (cases "map_of m k")
  case None
  then show ?thesis using assms(1,2) by (simp add: upsert_def)
next
  case (Some v)
  then have "P v" using assms(1) by (auto simp: list_all_iff dest: map_of_SomeD)
  then have "P (f v)" by (rule assms(3))
  moreover have "set (AList.update k (f v) m) \<subseteq> insert (k, f v) (set m)"
    by (induction m) auto
  ultimately show ?thesis using assms(1) Some by (fastforce simp: upsert_def list_all_iff)
qed

lemma hot_ok_note_transition:
  assumes ok: "hot_ok s" and cap: "0 < hs_transition_capacity s"
  shows "hot_ok (note_transition prev key s)"
proof -
  let ?add = "\<lambda>row. let row' = upsert key 0 (\<lambda>w. w + 1) row
      in if 8 < length row' then strongest 8 row' else row'"
  let ?t = "upsert prev [] ?add (hs_transitions s)"
  have add: "length (?add row) \<le> 8" for row by (simp add: Let_def length_strongest)
  have d: "distinct (map fst ?t)" using ok by (simp add: hot_ok_def distinct_upsert)
  have rows: "list_all (\<lambda>(_, row). length row \<le> 8) ?t"
    by (rule list_all_upsert) (use ok add in \<open>simp_all add: hot_ok_def\<close>)
  have len: "length ?t \<le> Suc (hs_transition_capacity s)"
    using ok by (simp add: hot_ok_def length_upsert)
  have short: "length (AList.delete (fst (hd ?t)) ?t) \<le> hs_transition_capacity s"
    if "hs_transition_capacity s < length ?t"
  proof -
    from that have "?t \<noteq> []" by auto
    then obtain x xs where x: "?t = x # xs" by (meson neq_Nil_conv)
    have "length (AList.delete (fst x) (x # xs)) \<le> length xs"
      using length_delete_le [of "fst x" xs] by (cases x) simp
    then show ?thesis using len by (simp only: x list.sel(1)) simp
  qed
  have "list_all (\<lambda>(_, row). length row \<le> 8) (AList.delete k ?t)" for k
    using rows by (auto simp: list_all_iff AList.delete_eq)
  then show ?thesis
    using ok rows d short len distinct_delete [OF d]
    unfolding note_transition_def Let_def hot_ok_def by simp
qed

text \<open>The map after decay and counting the hit, before eviction.\<close>

definition counted :: "'k \<Rightarrow> instant \<Rightarrow> 'k hot_set \<Rightarrow> ('k \<times> hot_entry) list" where
  "counted key now s =
     upsert key \<lparr>he_score = 0, he_hits = 0, he_last_seen = now, he_last_prefetch = None\<rparr>
       (\<lambda>e. e\<lparr>he_score := he_score e + 1, he_hits := he_hits e + 1, he_last_seen := now\<rparr>)
       (hs_map (decay_locked now s))"

lemma observe_map:
  fixes s :: "'a hot_set" and key now
  assumes ok: "hot_ok s"
  defines "s1 \<equiv> decay_locked now s"
  defines "m \<equiv> counted key now s"
  shows "hs_map (observe key previous now s) =
      (if hs_capacity s < length m then evict_retain (hs_capacity s) key m else m)"
    and "distinct (map fst m)" and "key \<in> fst ` set m"
    and "length (hs_map (observe key previous now s)) \<le> hs_capacity s"
    and "key \<in> fst ` set (hs_map (observe key previous now s))"
    and "hot_ok (observe key previous now s)"
proof -
  have ok1: "hot_ok s1" using ok unfolding s1_def by (rule hot_ok_decay)
  have cap: "hs_capacity s1 = hs_capacity s" by (simp add: s1_def)
  show d: "distinct (map fst m)" using ok1 by (simp add: m_def counted_def s1_def [symmetric] hot_ok_def distinct_upsert)
  show k: "key \<in> fst ` set m" by (simp add: m_def counted_def keys_upsert)
  define s3 where "s3 = (if hs_capacity s < length m then evict_locked key (s1\<lparr>hs_map := m\<rparr>) else s1\<lparr>hs_map := m\<rparr>)"
  have obs: "observe key previous now s =
      (if 0 < hs_transition_capacity s3 then (case previous of
           Some prev \<Rightarrow> if prev \<noteq> key then note_transition prev key s3 else s3 | None \<Rightarrow> s3) else s3)"
    unfolding observe_def Let_def s3_def m_def counted_def s1_def by simp
  have nt: "hs_map (note_transition p q t) = hs_map t" for p q and t :: "'a hot_set"
    by (simp add: note_transition_def Let_def)
  have m3: "hs_map (observe key previous now s) = hs_map s3"
    unfolding obs by (simp add: nt split: option.split)
  have pos: "0 < hs_capacity s" using ok by (simp add: hot_ok_def)
  note ev = evict_locked_spec [of "s1\<lparr>hs_map := m\<rparr>" key]
  show "hs_map (observe key previous now s) =
      (if hs_capacity s < length m then evict_retain (hs_capacity s) key m else m)"
    unfolding m3 s3_def using ev(1) d k pos cap by simp
  have ok3: "hot_ok s3"
    unfolding s3_def using ev(2,4) d k pos cap ok1 by (simp add: hot_ok_def)
  show "length (hs_map (observe key previous now s)) \<le> hs_capacity s"
    unfolding m3 s3_def using ev(2) d k pos cap by simp
  show "key \<in> fst ` set (hs_map (observe key previous now s))"
    unfolding m3 s3_def using ev(3) d k pos cap by simp
  show "hot_ok (observe key previous now s)"
    unfolding obs using ok3 hot_ok_note_transition [OF ok3] by (simp split: option.split)
qed

lemma hot_ok_step:
  assumes ok: "hot_ok s" and "hot_step s s'"
  shows "hot_ok s'"
  using assms(2)
proof cases
  case HotObserve
  then show ?thesis using observe_map(6) [OF ok] by simp
next
  case (HotMarkPrefetch key now)
  show ?thesis
  proof (cases "map_of (hs_map s) key")
    case None
    then show ?thesis using HotMarkPrefetch ok by (simp add: mark_prefetch_def)
  next
    case (Some e)
    then have "key \<in> fst ` set (hs_map s)" by (metis map_of_eq_None_iff option.distinct(1))
    then show ?thesis
      using HotMarkPrefetch ok Some
      by (simp add: mark_prefetch_def hot_ok_def distinct_update length_alist_update)
  qed
next
  case HotClear
  then show ?thesis using ok by (simp add: hot_clear_def hot_ok_def)
next
  case (HotReorder m t)
  have mf: "mset (map fst m) = mset (map fst (hs_map s))" "mset (map fst t) = mset (map fst (hs_transitions s))"
    using HotReorder by simp_all
  note mset_eq_imp_distinct_iff [OF mf(1)] mset_eq_imp_distinct_iff [OF mf(2)]
  moreover have "length m = length (hs_map s)" "length t = length (hs_transitions s)" "set t = set (hs_transitions s)"
    using HotReorder by (auto dest: mset_eq_length mset_eq_setD)
  ultimately show ?thesis
    using ok HotReorder by (simp add: hot_ok_def list_all_iff)
qed

lemma hot_ok_new: "hot_ok (hot_new cap hl tcap now)"
  by (simp add: hot_new_def hot_ok_def)

interpretation hot_sys: invariant_system "\<lambda>s. \<exists>cap hl tcap now. s = hot_new cap hl tcap now" hot_step hot_ok
  by unfold_locales (auto intro: hot_ok_new hot_ok_step)

lemma evict_retain_ranks:
  assumes "(k, e) \<in> set m" "(k, e) \<notin> set (evict_retain cap protect m)"
    and "(k', e') \<in> set (evict_retain cap protect m)" "k' \<noteq> protect"
  shows "hot_rank e < hot_rank e'"
  using assms unfolding evict_retain_def Let_def by auto

section \<open>Properties\<close>

text \<open>
  In every reachable state the tracker holds at most its capacity of keys, at most the
  configured number of transition rows and eight successors in each; an observation always leaves
  the observed key tracked, and the trim it may cause drops only keys that rank below every other
  key that stays, by score and then by recency.
\<close>

theorem hot_set_bounded:
  assumes "hot_step\<^sup>*\<^sup>* (hot_new cap hl tcap t0) s"
  shows "length (hs_map s) \<le> hs_capacity s \<and> length (hs_transitions s) \<le> hs_transition_capacity s \<and>
    list_all (\<lambda>(_, row). length row \<le> 8) (hs_transitions s) \<and>
    key \<in> fst ` set (hs_map (observe key previous now s)) \<and>
    length (hs_map (observe key previous now s)) \<le> hs_capacity s \<and>
    (\<forall>k e k' e'. (k, e) \<in> set (counted key now s) \<and> (k, e) \<notin> set (hs_map (observe key previous now s)) \<and>
       (k', e') \<in> set (hs_map (observe key previous now s)) \<and> k' \<noteq> key \<longrightarrow> hot_rank e < hot_rank e')"
proof -
  have ok: "hot_ok s" using assms by (intro hot_sys.reachable_inv) blast
  note obs = observe_map(1,4,5) [OF ok, where key = key and previous = previous and now = now]
  have "hot_rank e < hot_rank e'"
    if "(k, e) \<in> set (counted key now s)" "(k, e) \<notin> set (hs_map (observe key previous now s))"
      "(k', e') \<in> set (hs_map (observe key previous now s))" "k' \<noteq> key" for k e k' e'
    using that evict_retain_ranks unfolding obs(1) by (cases "hs_capacity s < length (counted key now s)") auto
  then show ?thesis using obs(2,3) ok by (simp add: hot_ok_def) blast
qed

theorem hot_set_bounded_witness:
  "let s = observe 2 None 2 (observe 1 None 1 (hot_new 2 60 0 0)) :: nat hot_set
   in 3 \<in> fst ` set (hs_map (observe 3 None 3 s)) \<and> length (hs_map (observe 3 None 3 s)) \<le> hs_capacity s"
proof -
  have "hot_step\<^sup>*\<^sup>* (hot_new 2 60 0 0) (observe 2 None 2 (observe 1 None 1 (hot_new 2 60 0 0)) :: nat hot_set)"
    by (rule converse_rtranclp_into_rtranclp, rule hot_step.HotObserve,
        rule converse_rtranclp_into_rtranclp, rule hot_step.HotObserve, rule rtranclp.rtrancl_refl)
  from hot_set_bounded [OF this, of 3 None 3] show ?thesis
    unfolding Let_def by (elim conjE) (intro conjI)
qed

text \<open>
  One pass is enough: whenever the tracker is over its ceiling, keeping the protected key and
  the keys above the threshold already brings it within the ceiling, ties included, so the second
  pass that follows never removes anything.
\<close>

theorem evict_second_pass_idle:
  assumes "distinct (map fst m)" and "cap < length m" and "0 < cap"
  shows "length (evict_retain cap protect m) \<le> cap \<and>
    evict_excess cap protect (evict_retain cap protect m) = evict_retain cap protect m"
  using evict_retain_fits [OF assms, of protect] evict_excess_fits [OF evict_retain_fits [OF assms]]
  by (intro conjI)

theorem evict_second_pass_idle_witness:
  "let e = \<lparr>he_score = 1, he_hits = 1, he_last_seen = 5, he_last_prefetch = None\<rparr>
   in length (evict_retain 2 3 [(1 :: nat, e), (2, e), (3, e)]) \<le> 2"
  using evict_second_pass_idle [of "[(1 :: nat, e), (2, e), (3, e)]" 2 3 for e] by (simp add: Let_def)

end
