(* ===== verification/RateLimit.thy ===== *)
theory RateLimit
  imports Config "HOL-Library.AList"
begin

text \<open>
  Inbound rate limiting (\<^verbatim>\<open>dns/ratelimit.rs\<close>): a global limiter and a two-generation table of
  per-client limiters.

  A limiter is a cell of the \<^verbatim>\<open>governor\<close> crate shared by reference: the same limiter may stand in
  both generations of the table. Limiters are therefore numbered cells of a store, \<open>il_cells\<close>, and
  the crate's operations, making a limiter for a quota and checking it at an instant, are the
  argument \<open>G :: gov_lib\<close>. Nothing is assumed about them.
\<close>

section \<open>Definitions\<close>

record quota =
  qt_per_second :: u32
  qt_burst :: u32

record 'l gov_lib =
  gov_direct :: "quota \<Rightarrow> 'l"
  gov_check :: "'l \<Rightarrow> instant \<Rightarrow> bool \<times> 'l"

datatype rate_decision = RateAllow | RateClientLimited | RateGlobalLimited

record client_table =
  ct_quota :: quota
  ct_capacity :: nat
  ct_current :: "(ipaddr \<times> nat) list"
  ct_previous :: "(ipaddr \<times> nat) list"

record 'l inbound_limiter =
  il_enabled :: bool
  il_global :: "nat option"
  il_per_client :: "client_table option"
  il_cells :: "nat \<Rightarrow> 'l"
  il_next :: nat

text \<open>\<^verbatim>\<open>NonZeroU32::new(burst.max(qps)).unwrap_or(qps)\<close> for a non-zero \<^verbatim>\<open>qps\<close>.\<close>

definition burst_of :: "u32 \<Rightarrow> u32 \<Rightarrow> u32" where
  "burst_of burst qps = (let b = max burst qps in if b = 0 then qps else b)"

definition limiter_new :: "'l gov_lib \<Rightarrow> rate_limit_config \<Rightarrow> 'l inbound_limiter" where
  "limiter_new G cfg =
     (let gq = \<lparr>qt_per_second = rl_global_qps cfg,
                qt_burst = burst_of (rl_global_burst cfg) (rl_global_qps cfg)\<rparr>;
          cq = \<lparr>qt_per_second = rl_per_client_qps cfg,
                qt_burst = burst_of (rl_per_client_burst cfg) (rl_per_client_qps cfg)\<rparr>
      in if \<not> rl_enabled cfg
         then \<lparr>il_enabled = False, il_global = None, il_per_client = None,
               il_cells = (\<lambda>_. gov_direct G gq), il_next = 0\<rparr>
         else \<lparr>il_enabled = True,
               il_global = (if rl_global_qps cfg = 0 then None else Some 0),
               il_per_client =
                 (if rl_per_client_qps cfg = 0 then None
                  else Some \<lparr>ct_quota = cq, ct_capacity = max (rl_client_table_size cfg) 1,
                             ct_current = [], ct_previous = []\<rparr>),
               il_cells = (\<lambda>_. gov_direct G gq), il_next = 1\<rparr>)"

text \<open>The table after the lookup, the client's limiter, and whether that limiter is a new one.\<close>

definition limiter_for :: "ipaddr \<Rightarrow> nat \<Rightarrow> client_table \<Rightarrow> nat \<times> bool \<times> client_table" where
  "limiter_for client fresh t =
     (case map_of (ct_current t) client of
        Some l \<Rightarrow> (l, False, t)
      | None \<Rightarrow>
          (case map_of (ct_previous t) client of
             Some l \<Rightarrow> (l, False, t\<lparr>ct_current := (client, l) # ct_current t\<rparr>)
           | None \<Rightarrow>
               (let t' = (if ct_capacity t \<le> length (ct_current t)
                          then t\<lparr>ct_previous := ct_current t, ct_current := []\<rparr> else t)
                in (fresh, True, t'\<lparr>ct_current := (client, fresh) # ct_current t'\<rparr>))))"

definition client_check ::
  "'l gov_lib \<Rightarrow> ipaddr \<Rightarrow> instant \<Rightarrow> 'l inbound_limiter \<Rightarrow> bool \<times> 'l inbound_limiter" where
  "client_check G client now self =
     (case il_per_client self of
        None \<Rightarrow> (True, self)
      | Some table \<Rightarrow>
          (let (l, new, table') = limiter_for client (il_next self) table;
               cells = (if new then (il_cells self)(l := gov_direct G (ct_quota table)) else il_cells self);
               (ok, cell) = gov_check G (cells l) now
           in (ok, self\<lparr>il_per_client := Some table', il_cells := cells(l := cell),
                        il_next := if new then il_next self + 1 else il_next self\<rparr>)))"

definition global_check ::
  "'l gov_lib \<Rightarrow> instant \<Rightarrow> 'l inbound_limiter \<Rightarrow> bool \<times> 'l inbound_limiter" where
  "global_check G now self =
     (case il_global self of
        None \<Rightarrow> (True, self)
      | Some g \<Rightarrow>
          (let (ok, cell) = gov_check G (il_cells self g) now
           in (ok, self\<lparr>il_cells := (il_cells self)(g := cell)\<rparr>)))"

definition limiter_check ::
  "'l gov_lib \<Rightarrow> ipaddr \<Rightarrow> instant \<Rightarrow> 'l inbound_limiter \<Rightarrow> rate_decision \<times> 'l inbound_limiter" where
  "limiter_check G client now self =
     (if \<not> il_enabled self then (RateAllow, self)
      else
        (let (ok, self1) = client_check G client now self in
         if \<not> ok then (RateClientLimited, self1)
         else
           (let (ok', self2) = global_check G now self1 in
            if \<not> ok' then (RateGlobalLimited, self2) else (RateAllow, self2))))"

definition tracked_clients :: "'l inbound_limiter \<Rightarrow> nat" where
  "tracked_clients self =
     (case il_per_client self of
        Some t \<Rightarrow> length (ct_current t) + length (ct_previous t)
      | None \<Rightarrow> 0)"

text \<open>A sequence of requests, one client after the other.\<close>

definition requests ::
  "'l gov_lib \<Rightarrow> instant \<Rightarrow> ipaddr list \<Rightarrow> 'l inbound_limiter \<Rightarrow> 'l inbound_limiter" where
  "requests G now clients self = fold (\<lambda>c s. snd (limiter_check G c now s)) clients self"

section \<open>Invariant\<close>

text \<open>
  Limiter cells are allocated: the table's cells are below the allocation counter, are not the
  global cell, and belong to one client each.
\<close>

definition cells_ok :: "nat option \<Rightarrow> nat \<Rightarrow> ('a \<times> nat) set \<Rightarrow> bool" where
  "cells_ok g n R \<longleftrightarrow> (\<forall>c l. (c, l) \<in> R \<longrightarrow> l < n \<and> g \<noteq> Some l) \<and>
     (\<forall>c c' l. (c, l) \<in> R \<longrightarrow> (c', l) \<in> R \<longrightarrow> c' = c)"

definition table_ok :: "nat option \<Rightarrow> nat \<Rightarrow> client_table \<Rightarrow> bool" where
  "table_ok g n t \<longleftrightarrow>
     distinct (map fst (ct_current t)) \<and> distinct (map fst (ct_previous t)) \<and>
     cells_ok g n (set (ct_current t) \<union> set (ct_previous t))"

definition limiter_ok :: "'l inbound_limiter \<Rightarrow> bool" where
  "limiter_ok s \<longleftrightarrow>
     (case il_global s of Some g \<Rightarrow> g < il_next s | None \<Rightarrow> True) \<and>
     (case il_per_client s of None \<Rightarrow> True | Some t \<Rightarrow> table_ok (il_global s) (il_next s) t)"

text \<open>The limiter a client's next request is charged to, if the table knows the client.\<close>

definition limiter_of :: "'l inbound_limiter \<Rightarrow> ipaddr \<Rightarrow> nat option" where
  "limiter_of s c =
     (case il_per_client s of
        None \<Rightarrow> None
      | Some t \<Rightarrow> (case map_of (ct_current t) c of Some l \<Rightarrow> Some l | None \<Rightarrow> map_of (ct_previous t) c))"

lemma limiter_ok_new: "limiter_ok (limiter_new G cfg)"
  by (simp add: limiter_ok_def table_ok_def cells_ok_def limiter_new_def Let_def)

lemma cells_ok_mono: "cells_ok g n R \<Longrightarrow> R' \<subseteq> R \<Longrightarrow> cells_ok g n R'"
  unfolding cells_ok_def by blast

lemma cells_ok_insert:
  assumes "cells_ok g n R" "g \<noteq> Some n" shows "cells_ok g (Suc n) (insert (c, n) R)"
proof -
  have "(d, n) \<notin> R" for d using assms(1) by (auto simp: cells_ok_def)
  with assms show ?thesis by (auto simp: cells_ok_def less_Suc_eq)
qed

lemma limiter_for_cases:
  assumes "limiter_for c n t = (l, new, t')"
  obtains (current) "(c, l) \<in> set (ct_current t)" "\<not> new" "t' = t"
  | (promoted) "(c, l) \<in> set (ct_previous t)" "\<not> new" "c \<notin> fst ` set (ct_current t)"
      "t' = t\<lparr>ct_current := (c, l) # ct_current t\<rparr>"
  | (rotated) "l = n" "new" "c \<notin> fst ` set (ct_current t)" "c \<notin> fst ` set (ct_previous t)"
      "ct_capacity t \<le> length (ct_current t)"
      "t' = t\<lparr>ct_previous := ct_current t, ct_current := [(c, n)]\<rparr>"
  | (added) "l = n" "new" "c \<notin> fst ` set (ct_current t)" "c \<notin> fst ` set (ct_previous t)"
      "length (ct_current t) < ct_capacity t"
      "t' = t\<lparr>ct_current := (c, n) # ct_current t\<rparr>"
proof (cases "map_of (ct_current t) c")
  case (Some x)
  then have "x = l" "\<not> new" "t' = t" using assms by (simp_all add: limiter_for_def)
  with map_of_SomeD [OF Some] show thesis by (intro current) simp_all
next
  case cur: None
  then have nc: "c \<notin> fst ` set (ct_current t)" by (simp add: map_of_eq_None_iff)
  show thesis
  proof (cases "map_of (ct_previous t) c")
    case (Some x)
    then have "x = l" "\<not> new" "t' = t\<lparr>ct_current := (c, l) # ct_current t\<rparr>"
      using assms cur by (auto simp: limiter_for_def)
    with map_of_SomeD [OF Some] nc show thesis by (intro promoted) simp_all
  next
    case None
    then have np: "c \<notin> fst ` set (ct_previous t)" by (simp add: map_of_eq_None_iff)
    show thesis
    proof (cases "ct_capacity t \<le> length (ct_current t)")
      case True
      then have "n = l" "new" "t' = t\<lparr>ct_previous := ct_current t, ct_current := [(c, n)]\<rparr>"
        using assms cur None by (auto simp: limiter_for_def Let_def)
      with nc np True show thesis by (intro rotated) simp_all
    next
      case False
      then have "n = l" "new" "t' = t\<lparr>ct_current := (c, n) # ct_current t\<rparr>"
        using assms cur None by (auto simp: limiter_for_def Let_def)
      with nc np False show thesis by (intro added) simp_all
    qed
  qed
qed

lemma table_ok_limiter_for:
  assumes ok: "table_ok g n t" and lf: "limiter_for c n t = (l, new, t')"
    and g: "case g of Some x \<Rightarrow> x < n | None \<Rightarrow> True"
  shows "table_ok g (if new then Suc n else n) t'"
proof -
  let ?R = "set (ct_current t) \<union> set (ct_previous t)"
  have "g \<noteq> Some n" using g by (cases g) auto
  have cells: "cells_ok g n ?R" using ok by (simp add: table_ok_def)
  from cells \<open>g \<noteq> Some n\<close> have ins: "cells_ok g (Suc n) (insert (c, n) ?R)"
    by (rule cells_ok_insert)
  from lf show ?thesis
  proof (cases rule: limiter_for_cases)
    case current
    then show ?thesis using ok by simp
  next
    case promoted
    then have "cells_ok g n (insert (c, l) ?R)" using cells by (simp add: insert_absorb)
    then show ?thesis using ok promoted by (simp add: table_ok_def)
  next
    case rotated
    have "cells_ok g (Suc n) (insert (c, n) (set (ct_current t)))"
      by (rule cells_ok_mono [OF ins]) blast
    then show ?thesis using ok rotated by (simp add: table_ok_def)
  next
    case added
    then show ?thesis using ok ins by (simp add: table_ok_def)
  qed
qed

lemma limiter_for_cell:
  assumes ok: "table_ok g n t" and lf: "limiter_for c n t = (l, new, t')"
    and g: "case g of Some x \<Rightarrow> x < n | None \<Rightarrow> True"
  shows "g \<noteq> Some l"
    and "(d, l) \<in> set (ct_current t) \<union> set (ct_previous t) \<Longrightarrow> d = c"
proof -
  let ?R = "set (ct_current t) \<union> set (ct_previous t)"
  have cells: "cells_ok g n ?R" using ok by (simp add: table_ok_def)
  have "g \<noteq> Some n" using g by (cases g) auto
  have "(c, l) \<in> ?R \<or> l = n" using lf by (cases rule: limiter_for_cases) simp_all
  then show "g \<noteq> Some l" "(d, l) \<in> ?R \<Longrightarrow> d = c"
    using cells \<open>g \<noteq> Some n\<close> unfolding cells_ok_def by blast+
qed

lemma client_check_some:
  assumes "il_per_client s = Some t" and "limiter_for c (il_next s) t = (l, new, t')"
  shows "client_check G c now s =
     (let cells = (if new then (il_cells s)(l := gov_direct G (ct_quota t)) else il_cells s);
          r = gov_check G (cells l) now
      in (fst r, s\<lparr>il_per_client := Some t', il_cells := cells(l := snd r),
                   il_next := if new then il_next s + 1 else il_next s\<rparr>))"
  using assms by (simp add: client_check_def Let_def split_def)

lemma global_check_frame:
  "il_per_client (snd (global_check G now s)) = il_per_client s"
  "il_global (snd (global_check G now s)) = il_global s"
  "il_next (snd (global_check G now s)) = il_next s"
  "il_enabled (snd (global_check G now s)) = il_enabled s"
  "il_global s \<noteq> Some l \<Longrightarrow> il_cells (snd (global_check G now s)) l = il_cells s l"
  by (auto simp: global_check_def split_def Let_def split: option.split)

lemma limiter_check_unfold:
  "limiter_check G c now s =
     (if \<not> il_enabled s then (RateAllow, s)
      else if \<not> fst (client_check G c now s) then (RateClientLimited, snd (client_check G c now s))
      else ((if fst (global_check G now (snd (client_check G c now s))) then RateAllow
             else RateGlobalLimited),
            snd (global_check G now (snd (client_check G c now s)))))"
  by (simp add: limiter_check_def split_def Let_def)

lemma client_check_global: "il_global (snd (client_check G c now s)) = il_global s"
  by (auto simp: client_check_def split_def Let_def split: option.split)

lemma client_check_enabled: "il_enabled (snd (client_check G c now s)) = il_enabled s"
  by (auto simp: client_check_def split_def Let_def split: option.split)

lemma client_check_ok:
  assumes "limiter_ok s" shows "limiter_ok (snd (client_check G c now s))"
proof (cases "il_per_client s")
  case None
  then show ?thesis using assms by (simp add: client_check_def)
next
  case (Some t)
  obtain l new t' where lf: "limiter_for c (il_next s) t = (l, new, t')"
    by (metis prod_cases3)
  have "table_ok (il_global s) (if new then Suc (il_next s) else il_next s) t'"
    using assms Some lf by (intro table_ok_limiter_for [of _ _ t c l]) (auto simp: limiter_ok_def)
  then show ?thesis using assms Some
    by (auto simp: client_check_some [OF Some lf] limiter_ok_def Let_def split: option.splits)
qed

lemma limiter_ok_global_check [simp]: "limiter_ok (snd (global_check G now s)) = limiter_ok s"
  by (simp add: limiter_ok_def global_check_frame split: option.split)

lemma limiter_check_ok:
  assumes "limiter_ok s" shows "limiter_ok (snd (limiter_check G c now s))"
  using assms client_check_ok [OF assms, of G c now]
  by (simp add: limiter_check_unfold limiter_ok_global_check)

lemma requests_ok: "limiter_ok s \<Longrightarrow> limiter_ok (requests G now cs s)"
  unfolding requests_def by (induction cs arbitrary: s) (auto intro: limiter_check_ok)

lemma client_check_isolated:
  assumes "limiter_ok s"
  shows "il_global s = Some g \<Longrightarrow> il_cells (snd (client_check G c now s)) g = il_cells s g"
    and "d \<noteq> c \<Longrightarrow> limiter_of s d = Some l \<Longrightarrow>
      il_cells (snd (client_check G c now s)) l = il_cells s l"
    and "limiter_of s c = Some l \<Longrightarrow> limiter_of (snd (client_check G c now s)) c = Some l"
proof -
  have *: "(il_global s = Some g \<longrightarrow> il_cells (snd (client_check G c now s)) g = il_cells s g) \<and>
     (d \<noteq> c \<and> limiter_of s d = Some l \<longrightarrow> il_cells (snd (client_check G c now s)) l = il_cells s l) \<and>
     (limiter_of s c = Some l \<longrightarrow> limiter_of (snd (client_check G c now s)) c = Some l)"
  proof (cases "il_per_client s")
    case None
    then show ?thesis by (simp add: client_check_def)
  next
    case (Some t)
    obtain k new t' where lf: "limiter_for c (il_next s) t = (k, new, t')"
      by (metis prod_cases3)
    have ok: "table_ok (il_global s) (il_next s) t"
      and g: "case il_global s of Some x \<Rightarrow> x < il_next s | None \<Rightarrow> True"
      using assms Some by (auto simp: limiter_ok_def)
    note cell = limiter_for_cell [OF ok lf g]
    have mem: "(d, l) \<in> set (ct_current t) \<union> set (ct_previous t)" if "limiter_of s d = Some l"
      using that Some by (auto simp: limiter_of_def dest: map_of_SomeD split: option.splits)
    have keep: "limiter_of (snd (client_check G c now s)) c = Some l" if "limiter_of s c = Some l"
      using that lf
      by (auto simp: client_check_some [OF Some lf] limiter_of_def Some Let_def limiter_for_def
          split: option.splits if_splits)
    show ?thesis using cell(1) cell(2) [of d] mem keep
      by (auto simp: client_check_some [OF Some lf] Let_def)
  qed
  then show "il_global s = Some g \<Longrightarrow> il_cells (snd (client_check G c now s)) g = il_cells s g"
    "d \<noteq> c \<Longrightarrow> limiter_of s d = Some l \<Longrightarrow>
      il_cells (snd (client_check G c now s)) l = il_cells s l"
    "limiter_of s c = Some l \<Longrightarrow> limiter_of (snd (client_check G c now s)) c = Some l" by blast+
qed

lemma limiter_of_not_global:
  assumes "limiter_ok s" "limiter_of s d = Some l" shows "il_global s \<noteq> Some l"
  using assms
  by (auto simp: limiter_ok_def limiter_of_def table_ok_def cells_ok_def dest: map_of_SomeD split: option.splits)

lemma limiter_of_global_check [simp]: "limiter_of (snd (global_check G now s)) c = limiter_of s c"
  by (simp add: limiter_of_def global_check_frame)


section \<open>How far the client table grows\<close>

text \<open>The clients of the two generations after one more request.\<close>

definition touch_keys :: "nat \<Rightarrow> 'a \<Rightarrow> 'a list \<times> 'a list \<Rightarrow> 'a list \<times> 'a list" where
  "touch_keys cap c = (\<lambda>(cur, prev).
     if c \<in> set cur then (cur, prev)
     else if c \<in> set prev then (c # cur, prev)
     else if cap \<le> length cur then ([c], cur) else (c # cur, prev))"

definition table_keys :: "client_table \<Rightarrow> ipaddr list \<times> ipaddr list" where
  "table_keys t = (map fst (ct_current t), map fst (ct_previous t))"

lemma limiter_for_keys:
  assumes "limiter_for c n t = (l, new, t')"
  shows "table_keys t' = touch_keys (ct_capacity t) c (table_keys t)"
    and "ct_capacity t' = ct_capacity t"
proof -
  have "table_keys t' = touch_keys (ct_capacity t) c (table_keys t) \<and> ct_capacity t' = ct_capacity t"
    using assms by (cases rule: limiter_for_cases) (force simp: table_keys_def touch_keys_def)+
  then show "table_keys t' = touch_keys (ct_capacity t) c (table_keys t)"
    "ct_capacity t' = ct_capacity t" by simp_all
qed

definition has_table :: "nat \<Rightarrow> ipaddr list \<times> ipaddr list \<Rightarrow> 'l inbound_limiter \<Rightarrow> bool" where
  "has_table cap ks s \<longleftrightarrow> il_enabled s \<and>
     (case il_per_client s of None \<Rightarrow> False | Some t \<Rightarrow> ct_capacity t = cap \<and> table_keys t = ks)"

lemma has_table_check:
  assumes "has_table cap ks s"
  shows "has_table cap (touch_keys cap c ks) (snd (limiter_check G c now s))"
proof -
  obtain t where t: "il_per_client s = Some t" "ct_capacity t = cap" "table_keys t = ks"
    using assms by (auto simp: has_table_def split: option.splits)
  obtain l new t' where lf: "limiter_for c (il_next s) t = (l, new, t')"
    by (metis prod_cases3)
  have "has_table cap (touch_keys cap c ks) (snd (client_check G c now s))"
    using assms limiter_for_keys [OF lf] t
    by (simp add: client_check_some [OF t(1) lf] has_table_def Let_def)
  then show ?thesis using assms
    by (simp add: limiter_check_unfold) (simp add: has_table_def global_check_frame)
qed

lemma has_table_requests:
  "has_table cap ks s \<Longrightarrow> has_table cap (fold (touch_keys cap) cs ks) (requests G now cs s)"
  unfolding requests_def
proof (induction cs arbitrary: ks s)
  case (Cons c cs)
  then show ?case using Cons.IH [OF has_table_check [OF Cons.prems]] by simp
qed simp

lemma touch_keys_fill:
  "distinct (xs @ cur) \<Longrightarrow> length xs + length cur \<le> cap \<Longrightarrow>
   fold (touch_keys cap) xs (cur, []) = (rev xs @ cur, [])"
  by (induction xs arbitrary: cur) (auto simp: touch_keys_def)

lemma touch_keys_promote:
  "distinct (xs @ cur) \<Longrightarrow> set xs \<subseteq> set prev \<Longrightarrow>
   fold (touch_keys cap) xs (cur, prev) = (rev xs @ cur, prev)"
  by (induction xs arbitrary: cur) (auto simp: touch_keys_def)

lemma touch_keys_grow:
  assumes "distinct xs" "cap < length xs"
  shows "\<exists>cs cur prev. fold (touch_keys cap) cs ([], []) = (cur, prev) \<and> distinct cur \<and>
           set cur = set xs \<and> set prev \<subseteq> set xs \<and> length prev = length xs - 1"
  using assms
proof (induction xs)
  case (Cons x xs)
  have step: "fold (touch_keys cap) (cs @ x # cur) ([], []) = (rev cur @ [x], cur)"
    if "fold (touch_keys cap) cs ([], []) = (cur, prev)" "distinct cur" "set cur = set xs"
      "set prev \<subseteq> set xs" "cap \<le> length cur" for cs cur prev
    using that Cons.prems touch_keys_promote [of cur "[x]" cur cap]
    by (auto simp: touch_keys_def)
  have len: "length cur = length xs" if "distinct cur" "set cur = set xs" for cur
    using that Cons.prems by (metis distinct_card distinct.simps(2))
  obtain cs cur prev where "fold (touch_keys cap) cs ([], []) = (cur, prev)" "distinct cur"
    "set cur = set xs" "set prev \<subseteq> set xs"
  proof (cases "cap < length xs")
    case True
    then show ?thesis using Cons that by (metis distinct.simps(2))
  next
    case False
    then show ?thesis using Cons.prems touch_keys_fill [of xs "[]" cap] that [of xs "rev xs" "[]"]
      by simp
  qed
  then show ?case using step [of cs cur prev] len [of cur] Cons.prems
    by (intro exI [of _ "cs @ x # cur"] exI [of _ "rev cur @ [x]"] exI [of _ cur]) auto
qed simp

lemma v4_addresses_distinct:
  "n \<le> 2 ^ 32 \<Longrightarrow> distinct (map (\<lambda>i. V4 (of_nat i)) [0..<n])"
  by (auto simp: distinct_map inj_on_def word_of_nat_eq_iff take_bit_nat_eq_self)

lemma has_table_new:
  "rl_enabled cfg \<Longrightarrow> rl_per_client_qps cfg \<noteq> 0 \<Longrightarrow>
   has_table (max (rl_client_table_size cfg) 1) ([], []) (limiter_new G cfg)"
  by (simp add: has_table_def limiter_new_def table_keys_def Let_def)

lemma tracked_clients_keys:
  "has_table cap (cur, prev) s \<Longrightarrow> tracked_clients s = length cur + length prev"
  by (auto simp: has_table_def tracked_clients_def table_keys_def split: option.splits)

text \<open>
  The client table is not bounded by twice its capacity: a client found in the previous
  generation is copied into the current one without looking at the capacity, so for every number
  \<open>n\<close> of IPv4 addresses above the capacity some sequence of requests from them leaves \<open>2 * n - 1\<close>
  tracked entries.
\<close>
theorem client_table_outgrows_capacity:
  assumes "rl_enabled cfg" "rl_per_client_qps cfg \<noteq> 0"
    and "max (rl_client_table_size cfg) 1 < n" "n \<le> 2 ^ 32"
  shows "\<exists>cs. tracked_clients (requests G now cs (limiter_new G cfg)) = 2 * n - 1"
proof -
  let ?cap = "max (rl_client_table_size cfg) 1"
  let ?xs = "map (\<lambda>i. V4 (of_nat i)) [0..<n]"
  have dx: "distinct ?xs" by (rule v4_addresses_distinct [OF assms(4)])
  then obtain cs cur prev where *: "fold (touch_keys ?cap) cs ([], []) = (cur, prev)"
      "distinct cur" "set cur = set ?xs" "length prev = length ?xs - 1"
    using touch_keys_grow [of ?xs ?cap] assms(3) by auto
  have "length cur = n" using *(2,3) dx by (metis diff_zero distinct_card length_map length_upt)
  then have "tracked_clients (requests G now cs (limiter_new G cfg)) = 2 * n - 1"
    using tracked_clients_keys [OF has_table_requests [OF has_table_new [OF assms(1,2)],
        of cs G now, unfolded *(1)]] *(4) assms(3) by simp
  then show ?thesis by blast
qed

section \<open>Concrete instances\<close>

text \<open>A limiter that counts down its burst.\<close>

definition counter_gov :: "nat gov_lib" where
  "counter_gov = \<lparr>gov_direct = (\<lambda>q. unat (qt_burst q)), gov_check = (\<lambda>l _. (0 < l, l - 1))\<rparr>"

definition sample_rate_limit :: rate_limit_config where
  "sample_rate_limit = \<lparr>rl_enabled = True, rl_per_client_qps = 1,
     rl_per_client_burst = 1, rl_global_qps = 5, rl_global_burst = 5, rl_client_table_size = 1\<rparr>"


theorem client_table_outgrows_capacity_witness:
  "\<exists>cs. tracked_clients (requests counter_gov 0 cs (limiter_new counter_gov sample_rate_limit)) = 99"
  using client_table_outgrows_capacity [of sample_rate_limit 50 counter_gov 0]
  by (simp add: sample_rate_limit_def)

end
