(* ===== verification/SpecialUse.thy ===== *)
theory SpecialUse
  imports Cache
begin

text \<open>
  Special-use names (\<^verbatim>\<open>dns/specialuse.rs\<close>) and the gateway rules and loop marker of
  \<^verbatim>\<open>config/auto.rs\<close> they rely on.

  Names are presentation texts. The set of addresses the host's interfaces carry
  (\<^verbatim>\<open>network::local_addresses\<close>, a system call) is an argument of the gateway rules.
\<close>

section \<open>The loop marker and the gateway rules (\<^verbatim>\<open>config/auto.rs\<close>)\<close>

datatype resolver_role = RoleAuthority | RoleLocalForwarder

fun is_independent :: "resolver_role \<Rightarrow> bool" where
  "is_independent RoleAuthority = True"
| "is_independent RoleLocalForwarder = False"

fun role_label :: "resolver_role \<Rightarrow> string" where
  "role_label RoleAuthority = ''authority''"
| "role_label RoleLocalForwarder = ''local_forwarder''"

datatype gateway_rejection = NoGateway | NotAResolver | IsOurself | ForwardsToUs

fun rejection_reason :: "gateway_rejection \<Rightarrow> string" where
  "rejection_reason NoGateway = ''no default route was detected''"
| "rejection_reason NotAResolver = ''the gateway did not answer DNS over UDP or TCP''"
| "rejection_reason IsOurself = ''the gateway address is one of this resolver's own listeners''"
| "rejection_reason ForwardsToUs = ''the gateway forwards DNS back to this resolver, which would loop''"

datatype gateway_probe = GwUsable (gw_addr: ipaddr) (gw_udp: bool) (gw_tcp: bool)
  | GwRejected gateway_rejection

fun gateway_address :: "gateway_probe \<Rightarrow> ipaddr option" where
  "gateway_address (GwUsable a _ _) = Some a"
| "gateway_address (GwRejected _) = None"

text \<open>\<^verbatim>\<open>IpAddr::is_loopback\<close> and \<^verbatim>\<open>IpAddr::is_unspecified\<close>.\<close>

fun ip_is_loopback :: "ipaddr \<Rightarrow> bool" where
  "ip_is_loopback (V4 a) = (drop_bit 24 a = 127)"
| "ip_is_loopback (V6 a) = (a = 1)"

fun ip_is_unspecified :: "ipaddr \<Rightarrow> bool" where
  "ip_is_unspecified (V4 a) = (a = 0)"
| "ip_is_unspecified (V6 a) = (a = 0)"

definition is_local_address :: "ipaddr list \<Rightarrow> ipaddr \<Rightarrow> bool" where
  "is_local_address local_addresses addr =
     (if ip_is_loopback addr then True else List.member local_addresses addr)"

definition judge_gateway ::
  "ipaddr list \<Rightarrow> ipaddr option \<Rightarrow> (ipaddr \<times> u16) list \<Rightarrow> bool \<Rightarrow> bool \<Rightarrow> bool \<Rightarrow> gateway_probe" where
  "judge_gateway local_addresses gateway listeners udp_answered tcp_answered loop_detected =
     (case gateway of
        None \<Rightarrow> GwRejected NoGateway
      | Some addr \<Rightarrow>
          if list_ex (\<lambda>l. fst l = addr \<or>
               (ip_is_unspecified (fst l) \<and> is_local_address local_addresses addr)) listeners
          then GwRejected IsOurself
          else if loop_detected then GwRejected ForwardsToUs
          else if \<not> udp_answered \<and> \<not> tcp_answered then GwRejected NotAResolver
          else GwUsable addr udp_answered tcp_answered)"

definition GATEWAY_PROBE_TIMEOUT :: duration where
  "GATEWAY_PROBE_TIMEOUT = from_millis 700"

definition LOOP_MARKER_SUFFIX :: string where
  "LOOP_MARKER_SUFFIX = ''loop-probe.egressdns.invalid''"

text \<open>\<^verbatim>\<open>{instance:016x}\<close>: the sixteen hexadecimal digits of a 64-bit number.\<close>

definition hex16 :: "u64 \<Rightarrow> string" where
  "hex16 i = map (\<lambda>k. hex_digit (unat i div 16 ^ k mod 16)) (rev [0..<16])"

definition loop_marker :: "u64 \<Rightarrow> string" where
  "loop_marker i = hex16 i @ ''.'' @ LOOP_MARKER_SUFFIX"

definition is_loop_marker :: "string \<Rightarrow> bool" where
  "is_loop_marker name =
     ends_with (to_ascii_lowercase (trim_end_matches CHR ''.'' name)) LOOP_MARKER_SUFFIX"

section \<open>Classification (\<^verbatim>\<open>dns/specialuse.rs\<close>)\<close>

datatype disposition = DspForward | DspLoopback | DspNxDomain | DspLoopMarker

datatype registry = RegLocalhost | RegInvalid | RegTest | RegMulticastDns | RegHomeArpa
  | RegOnion | RegPrivateReverse

fun registry_label :: "registry \<Rightarrow> string" where
  "registry_label RegLocalhost = ''localhost''"
| "registry_label RegInvalid = ''invalid''"
| "registry_label RegTest = ''test''"
| "registry_label RegMulticastDns = ''mdns''"
| "registry_label RegHomeArpa = ''home_arpa''"
| "registry_label RegOnion = ''onion''"
| "registry_label RegPrivateReverse = ''private_reverse''"

definition NXDOMAIN_SUFFIXES :: "(string \<times> registry) list" where
  "NXDOMAIN_SUFFIXES =
     [(''invalid.'', RegInvalid),
      (''local.'', RegMulticastDns),
      (''home.arpa.'', RegHomeArpa),
      (''onion.'', RegOnion),
      (''10.in-addr.arpa.'', RegPrivateReverse),
      (''16.172.in-addr.arpa.'', RegPrivateReverse),
      (''17.172.in-addr.arpa.'', RegPrivateReverse),
      (''18.172.in-addr.arpa.'', RegPrivateReverse),
      (''19.172.in-addr.arpa.'', RegPrivateReverse),
      (''20.172.in-addr.arpa.'', RegPrivateReverse),
      (''21.172.in-addr.arpa.'', RegPrivateReverse),
      (''22.172.in-addr.arpa.'', RegPrivateReverse),
      (''23.172.in-addr.arpa.'', RegPrivateReverse),
      (''24.172.in-addr.arpa.'', RegPrivateReverse),
      (''25.172.in-addr.arpa.'', RegPrivateReverse),
      (''26.172.in-addr.arpa.'', RegPrivateReverse),
      (''27.172.in-addr.arpa.'', RegPrivateReverse),
      (''28.172.in-addr.arpa.'', RegPrivateReverse),
      (''29.172.in-addr.arpa.'', RegPrivateReverse),
      (''30.172.in-addr.arpa.'', RegPrivateReverse),
      (''31.172.in-addr.arpa.'', RegPrivateReverse),
      (''168.192.in-addr.arpa.'', RegPrivateReverse),
      (''254.169.in-addr.arpa.'', RegPrivateReverse),
      (''8.e.f.ip6.arpa.'', RegPrivateReverse),
      (''9.e.f.ip6.arpa.'', RegPrivateReverse),
      (''a.e.f.ip6.arpa.'', RegPrivateReverse),
      (''b.e.f.ip6.arpa.'', RegPrivateReverse),
      (''c.f.ip6.arpa.'', RegPrivateReverse),
      (''d.f.ip6.arpa.'', RegPrivateReverse)]"

definition suffix_matches :: "string \<Rightarrow> string \<Rightarrow> bool" where
  "suffix_matches name sfx =
     (if name = sfx then True
      else if length sfx \<le> length name \<and> 2 \<le> length name - length sfx
      then ends_with name sfx \<and> name ! (length name - length sfx - 1) = CHR ''.''
      else False)"

definition classify_name :: "string \<Rightarrow> (registry \<times> disposition) option" where
  "classify_name qname =
     (let lowered = to_ascii_lowercase qname;
          name = (if ends_with lowered ''.'' then lowered else lowered @ ''.'')
      in if suffix_matches name ''localhost.'' then Some (RegLocalhost, DspLoopback)
         else if is_loop_marker name then Some (RegInvalid, DspLoopMarker)
         else case find (\<lambda>(sfx, _). suffix_matches name sfx) NXDOMAIN_SUFFIXES of
                Some (_, reg) \<Rightarrow> Some (reg, DspNxDomain)
              | None \<Rightarrow> None)"

definition loop_marker_rdata :: "rtype \<Rightarrow> rdata option" where
  "loop_marker_rdata qtype = (if qtype = RT_A then Some (RdA (ipv4_new 192 0 2 53)) else None)"

definition loopback_rdata :: "rtype \<Rightarrow> rdata option" where
  "loopback_rdata qtype =
     (if qtype = RT_A then Some (RdA (ipv4_new 127 0 0 1))
      else if qtype = RT_AAAA then Some (RdAAAA 1) else None)"

section \<open>Matching on labels\<close>

lemma suffix_matches_iff:
  "suffix_matches n t \<longleftrightarrow> n = t \<or> (\<exists>p. p \<noteq> [] \<and> n = p @ ''.'' @ t)"
proof (cases "n = t")
  case False
  have "2 \<le> length n - length t \<and> ends_with n t \<and> n ! (length n - length t - 1) = CHR ''.'' \<longleftrightarrow>
      (\<exists>p. p \<noteq> [] \<and> n = p @ ''.'' @ t)" (is "?l \<longleftrightarrow> ?r")
  proof
    assume a: ?l
    then obtain q where q: "n = q @ t" by (auto simp: ends_with_suffix suffix_def)
    with a have len: "2 \<le> length q" by simp
    then have "length q - 1 < length q" by simp
    with a q have "q ! (length q - 1) = CHR ''.''" by (simp add: nth_append)
    moreover note len
    moreover from this have "q \<noteq> []" by auto
    ultimately have "q = butlast q @ ''.''" "butlast q \<noteq> []"
      by (metis append_butlast_last_id last_conv_nth, cases q, auto)
    with q show ?r by (metis append.assoc)
  next
    assume ?r
    then obtain p where "p \<noteq> []" "n = p @ ''.'' @ t" by blast
    then show ?l by (cases p) (auto simp: ends_with_suffix suffix_def nth_append)
  qed
  with False show ?thesis by (auto simp: suffix_matches_def)
qed (simp add: suffix_matches_def)

text \<open>On a name whose first label is not empty the test is the suffix relation on labels.\<close>

lemma suffix_matches_labels:
  assumes "take 1 n \<noteq> ''.''"
  shows "suffix_matches n t \<longleftrightarrow> suffix (name_labels t) (name_labels n)"
  using assms by (auto simp: suffix_matches_iff name_labels_def split_on_suffix_iff)

section \<open>Reverse zones\<close>

text \<open>Decimal numbers and the reverse-mapping name of an IPv4 address (RFC 1035, 3.5).\<close>

definition digit_char :: "nat \<Rightarrow> char" where
  "digit_char n = ''0123456789'' ! n"

lemma digit_char_facts:
  assumes "k < 10"
  shows "of_char (digit_char k) = k + (48::nat)" and "digit_char k \<in> set ''0123456789''"
proof -
  from assms have "k \<in> {0, 1, 2, 3, 4, 5, 6, 7, 8, 9}" by auto
  then show "of_char (digit_char k) = k + (48::nat)" "digit_char k \<in> set ''0123456789''"
    by (auto simp: digit_char_def)
qed

lemma to_ascii_lowercase_Cons [simp]:
  "to_ascii_lowercase (c # s) = to_ascii_lower_char c # to_ascii_lowercase s"
  by (simp add: to_ascii_lowercase_def)

fun dec :: "nat \<Rightarrow> string" where
  "dec n = (if n < 10 then [digit_char n] else dec (n div 10) @ [digit_char (n mod 10)])"

declare dec.simps [simp del]

definition reverse_name :: "nat \<Rightarrow> nat \<Rightarrow> nat \<Rightarrow> nat \<Rightarrow> string" where
  "reverse_name a b c d =
     dec d @ ''.'' @ dec c @ ''.'' @ dec b @ ''.'' @ dec a @ ''.in-addr.arpa.''"

definition dec_value :: "string \<Rightarrow> nat" where
  "dec_value s = foldl (\<lambda>v c. v * 10 + (of_char c - 48)) 0 s"

lemma dec_value_dec: "dec_value (dec n) = n"
proof (induction n rule: dec.induct)
  case (1 n)
  show ?case
  proof (cases "n < 10")
    case True
    then show ?thesis by (subst dec.simps) (simp add: dec_value_def digit_char_facts)
  next
    case False
    have d: "dec_value (s @ [digit_char k]) = dec_value s * 10 + k" if "k < 10" for s k
      using that by (simp add: dec_value_def digit_char_facts)
    have "dec_value (dec n) = dec_value (dec (n div 10) @ [digit_char (n mod 10)])"
      using False by (subst dec.simps) simp
    also have "\<dots> = n div 10 * 10 + n mod 10" using 1 False by (subst d) simp_all
    finally show ?thesis by simp
  qed
qed

lemma dec_inj: "dec m = dec n \<longleftrightarrow> m = n"
  by (metis dec_value_dec)

lemma dec_chars: "c \<in> set (dec n) \<Longrightarrow> c \<in> set ''0123456789''"
proof (induction n rule: dec.induct)
  case (1 n)
  show ?case
  proof (cases "n < 10")
    case True
    then have "dec n = [digit_char n]" by (subst dec.simps) simp
    with 1(2) digit_char_facts(2) [OF True] show ?thesis by simp
  next
    case False
    then have "dec n = dec (n div 10) @ [digit_char (n mod 10)]" by (subst dec.simps) simp
    with 1 False digit_char_facts(2) [of "n mod 10"] show ?thesis by auto
  qed
qed

lemma dec_not_Nil [simp]: "dec n \<noteq> []"
  by (subst dec.simps) simp

lemma dec_lower [simp]: "to_ascii_lowercase (dec n) = dec n"
proof -
  have "to_ascii_lower_char c = c" if "c \<in> set (dec n)" for c
    using dec_chars [OF that] by (auto simp: to_ascii_lower_char_def)
  then show ?thesis by (simp add: to_ascii_lowercase_def map_idI)
qed

lemma dec_no_dot: "CHR ''.'' \<notin> set (dec n)"
  using dec_chars [of "CHR ''.''" n] by auto

lemma split_on_no_sep: "c \<notin> set s \<Longrightarrow> split_on c s = [s]"
  by (induction s) auto

lemma split_on_dec: "split_on CHR ''.'' (dec n @ CHR ''.'' # s) = dec n # split_on CHR ''.'' s"
  by (simp add: split_on_append split_on_no_sep dec_no_dot)

lemma dec_literal: "dec m = s \<Longrightarrow> s = dec n \<longleftrightarrow> n = m"
  by (auto simp: dec_inj)

lemma dec_literals:
  "''10'' = dec n \<longleftrightarrow> n = 10"
  "''172'' = dec n \<longleftrightarrow> n = 172"
  "''16'' = dec n \<longleftrightarrow> n = 16"
  "''17'' = dec n \<longleftrightarrow> n = 17"
  "''18'' = dec n \<longleftrightarrow> n = 18"
  "''19'' = dec n \<longleftrightarrow> n = 19"
  "''20'' = dec n \<longleftrightarrow> n = 20"
  "''21'' = dec n \<longleftrightarrow> n = 21"
  "''22'' = dec n \<longleftrightarrow> n = 22"
  "''23'' = dec n \<longleftrightarrow> n = 23"
  "''24'' = dec n \<longleftrightarrow> n = 24"
  "''25'' = dec n \<longleftrightarrow> n = 25"
  "''26'' = dec n \<longleftrightarrow> n = 26"
  "''27'' = dec n \<longleftrightarrow> n = 27"
  "''28'' = dec n \<longleftrightarrow> n = 28"
  "''29'' = dec n \<longleftrightarrow> n = 29"
  "''30'' = dec n \<longleftrightarrow> n = 30"
  "''31'' = dec n \<longleftrightarrow> n = 31"
  "''168'' = dec n \<longleftrightarrow> n = 168"
  "''192'' = dec n \<longleftrightarrow> n = 192"
  "''254'' = dec n \<longleftrightarrow> n = 254"
  "''169'' = dec n \<longleftrightarrow> n = 169"
  by (rule dec_literal, simp add: dec.simps digit_char_def)+

lemma reverse_name_labels:
  "name_labels (reverse_name a b c d) =
     [dec d, dec c, dec b, dec a, ''in-addr'', ''arpa'', []]"
  by (simp add: name_labels_def reverse_name_def split_on_dec)

lemma reverse_name_lower [simp]: "to_ascii_lowercase (reverse_name a b c d) = reverse_name a b c d"
  by (simp add: reverse_name_def to_ascii_lower_char_def)

lemma reverse_name_not_marker: "\<not> is_loop_marker (reverse_name a b c d)"
proof -
  have e1: "to_ascii_lowercase (trim_end_matches CHR ''.'' (reverse_name a b c d)) =
      (dec d @ ''.'' @ dec c @ ''.'' @ dec b @ ''.'' @ dec a @ ''.in-addr.arp'') @ [CHR ''a'']"
    by (simp add: reverse_name_def trim_end_matches_def to_ascii_lower_char_def)
  have e2: "LOOP_MARKER_SUFFIX = ''loop-probe.egressdns.invali'' @ [CHR ''d'']"
    by (simp add: LOOP_MARKER_SUFFIX_def)
  show ?thesis
    unfolding is_loop_marker_def ends_with_suffix e1 e2 snoc_suffix_snoc by simp
qed

lemma reverse_name_start: "take 1 (reverse_name a b c d) \<noteq> ''.''"
proof -
  obtain x xs where "dec d = x # xs" by (cases "dec d") auto
  moreover from this have "x \<noteq> CHR ''.''" using dec_no_dot [of d] by auto
  ultimately show ?thesis by (simp add: reverse_name_def)
qed

lemma reverse_name_dot: "ends_with (reverse_name a b c d) ''.''"
proof -
  have "reverse_name a b c d =
      (dec d @ ''.'' @ dec c @ ''.'' @ dec b @ ''.'' @ dec a @ ''.in-addr.arpa'') @ ''.''"
    by (simp add: reverse_name_def)
  then show ?thesis by (metis ends_with_append)
qed

lemma nxdomain_labels:
  "map (\<lambda>(s, r). (name_labels s, r)) NXDOMAIN_SUFFIXES =
     [([''invalid'', []], RegInvalid),
      ([''local'', []], RegMulticastDns),
      ([''home'', ''arpa'', []], RegHomeArpa),
      ([''onion'', []], RegOnion),
      ([''10'', ''in-addr'', ''arpa'', []], RegPrivateReverse),
      ([''16'', ''172'', ''in-addr'', ''arpa'', []], RegPrivateReverse),
      ([''17'', ''172'', ''in-addr'', ''arpa'', []], RegPrivateReverse),
      ([''18'', ''172'', ''in-addr'', ''arpa'', []], RegPrivateReverse),
      ([''19'', ''172'', ''in-addr'', ''arpa'', []], RegPrivateReverse),
      ([''20'', ''172'', ''in-addr'', ''arpa'', []], RegPrivateReverse),
      ([''21'', ''172'', ''in-addr'', ''arpa'', []], RegPrivateReverse),
      ([''22'', ''172'', ''in-addr'', ''arpa'', []], RegPrivateReverse),
      ([''23'', ''172'', ''in-addr'', ''arpa'', []], RegPrivateReverse),
      ([''24'', ''172'', ''in-addr'', ''arpa'', []], RegPrivateReverse),
      ([''25'', ''172'', ''in-addr'', ''arpa'', []], RegPrivateReverse),
      ([''26'', ''172'', ''in-addr'', ''arpa'', []], RegPrivateReverse),
      ([''27'', ''172'', ''in-addr'', ''arpa'', []], RegPrivateReverse),
      ([''28'', ''172'', ''in-addr'', ''arpa'', []], RegPrivateReverse),
      ([''29'', ''172'', ''in-addr'', ''arpa'', []], RegPrivateReverse),
      ([''30'', ''172'', ''in-addr'', ''arpa'', []], RegPrivateReverse),
      ([''31'', ''172'', ''in-addr'', ''arpa'', []], RegPrivateReverse),
      ([''168'', ''192'', ''in-addr'', ''arpa'', []], RegPrivateReverse),
      ([''254'', ''169'', ''in-addr'', ''arpa'', []], RegPrivateReverse),
      ([''8'', ''e'', ''f'', ''ip6'', ''arpa'', []], RegPrivateReverse),
      ([''9'', ''e'', ''f'', ''ip6'', ''arpa'', []], RegPrivateReverse),
      ([''a'', ''e'', ''f'', ''ip6'', ''arpa'', []], RegPrivateReverse),
      ([''b'', ''e'', ''f'', ''ip6'', ''arpa'', []], RegPrivateReverse),
      ([''c'', ''f'', ''ip6'', ''arpa'', []], RegPrivateReverse),
      ([''d'', ''f'', ''ip6'', ''arpa'', []], RegPrivateReverse)]"
  by (simp add: NXDOMAIN_SUFFIXES_def name_labels_def)

lemma case_find_same:
  assumes "\<And>x. x \<in> set xs \<Longrightarrow> P x \<Longrightarrow> snd x = r"
  shows "(case find P xs of Some (_, y) \<Rightarrow> Some (y, d) | None \<Rightarrow> None) =
     (if list_ex P xs then Some (r, d) else None)"
  using assms
proof (induction xs)
  case (Cons x xs)
  then show ?case using Cons.prems [of x] by (cases x) auto
qed simp

lemma list_ex_labels:
  "list_ex (\<lambda>(s, _). suffix (name_labels s) ls) xs =
     list_ex (\<lambda>(l, _). suffix l ls) (map (\<lambda>(s, r). (name_labels s, r)) xs)"
  by (induction xs) auto

lemma reverse_matches_private:
  assumes "x \<in> set NXDOMAIN_SUFFIXES" "suffix (name_labels (fst x)) (name_labels (reverse_name a b c d))"
  shows "snd x = RegPrivateReverse"
proof -
  have "(name_labels (fst x), snd x) \<in> set (map (\<lambda>(s, r). (name_labels s, r)) NXDOMAIN_SUFFIXES)"
    using assms(1) by (force simp: split_def)
  then show ?thesis
    using assms(2) unfolding nxdomain_labels reverse_name_labels
    by (auto simp: suffix_Cons)
qed

lemma reverse_listed:
  "list_ex (\<lambda>(l, _). suffix l (name_labels (reverse_name a b c d)))
     (map (\<lambda>(s, r). (name_labels s, r)) NXDOMAIN_SUFFIXES) \<longleftrightarrow>
   a = 10 \<or> a = 172 \<and> 16 \<le> b \<and> b \<le> 31 \<or> a = 192 \<and> b = 168 \<or> a = 169 \<and> b = 254"
proof -
  have b: "16 \<le> b \<and> b \<le> 31 \<longleftrightarrow> b = 16 \<or> b = 17 \<or> b = 18 \<or> b = 19 \<or> b = 20 \<or> b = 21 \<or> b = 22 \<or>
      b = 23 \<or> b = 24 \<or> b = 25 \<or> b = 26 \<or> b = 27 \<or> b = 28 \<or> b = 29 \<or> b = 30 \<or> b = 31"
    by presburger
  show ?thesis
    unfolding b nxdomain_labels reverse_name_labels
    by (simp add: suffix_Cons dec_literals) argo
qed

lemma classify_reverse_name:
  "classify_name (reverse_name a b c d) =
     (if a = 10 \<or> a = 172 \<and> 16 \<le> b \<and> b \<le> 31 \<or> a = 192 \<and> b = 168 \<or> a = 169 \<and> b = 254
      then Some (RegPrivateReverse, DspNxDomain) else None)"
proof -
  have loc: "\<not> suffix (name_labels ''localhost.'') (name_labels (reverse_name a b c d))"
    unfolding reverse_name_labels by (simp add: name_labels_def suffix_Cons)
  have "(case find (\<lambda>(sfx, _). suffix (name_labels sfx) (name_labels (reverse_name a b c d)))
        NXDOMAIN_SUFFIXES of Some (_, reg) \<Rightarrow> Some (reg, DspNxDomain) | None \<Rightarrow> None) =
      (if list_ex (\<lambda>(sfx, _). suffix (name_labels sfx) (name_labels (reverse_name a b c d)))
        NXDOMAIN_SUFFIXES then Some (RegPrivateReverse, DspNxDomain) else None)"
    by (rule case_find_same) (auto intro: reverse_matches_private)
  then show ?thesis
    unfolding classify_name_def Let_def reverse_name_lower if_P [OF reverse_name_dot]
      suffix_matches_labels [OF reverse_name_start] if_not_P [OF loc]
      if_not_P [OF reverse_name_not_marker] list_ex_labels reverse_listed .
qed

lemma ipv4_new_prefix:
  assumes "a < 256" "b < 256" "c < 256" "d < 256" "k \<le> 32"
  shows "unat (drop_bit k (ipv4_new a b c d)) = (((a * 256 + b) * 256 + c) * 256 + d) div 2 ^ k"
proof -
  have "((a * 256 + b) * 256 + c) * 256 + d < 2 ^ 32" using assms by simp
  then have "unat (ipv4_new a b c d) = ((a * 256 + b) * 256 + c) * 256 + d"
    by (simp only: ipv4_new_def unsigned_of_nat) (simp add: take_bit_nat_eq_self)
  then show ?thesis by (simp add: unat_drop_bit_div)
qed

lemma digits_iff: "b < (m::nat) \<Longrightarrow> a * m + b = n \<longleftrightarrow> a = n div m \<and> b = n mod m"
  by (auto simp: div_mult_mod_eq)

lemma div_eq_iff_bounds: "n div 16 = Suc 0 \<longleftrightarrow> 16 \<le> n \<and> n \<le> (31::nat)"
  by presburger

text \<open>
  The reverse-zone entries are exactly the private networks: the reverse-mapping name of an
  IPv4 address is answered locally with NXDOMAIN if and only if the address lies in 10/8,
  172.16/12, 192.168/16 or 169.254/16, and is forwarded otherwise.
\<close>
theorem private_reverse_exact:
  assumes "ipnet_law L" "a < 256" "b < 256" "c < 256" "d < 256"
  shows "classify_name (reverse_name a b c d) =
     (if list_ex (\<lambda>net. contains4 L net (ipv4_new a b c d))
           [(ipv4_new 10 0 0 0, 8), (ipv4_new 172 16 0 0, 12),
            (ipv4_new 192 168 0 0, 16), (ipv4_new 169 254 0 0, 16)]
      then Some (RegPrivateReverse, DspNxDomain) else None)"
proof -
  define n where "n = ((a * 256 + b) * 256 + c) * 256 + d"
  have iff: "contains4 L (ipv4_new a' b' c' d', l) (ipv4_new a b c d) \<longleftrightarrow>
      n div 2 ^ (32 - l) = (((a' * 256 + b') * 256 + c') * 256 + d') div 2 ^ (32 - l)"
    if "a' < 256" "b' < 256" "c' < 256" "d' < 256" "l \<le> 32" for a' b' c' d' l
    using ipv4_new_prefix [OF assms(2-5), of "32 - l"] ipv4_new_prefix [of a' b' c' d' "32 - l"]
      that assms(1) by (simp add: contains4_law word_unat_eq_iff n_def)
  have "c * 256 + d < 65536" using assms(4,5) by simp
  then have n16: "n div 65536 = a * 256 + b"
    unfolding n_def by (intro div_nat_eqI) (simp_all add: algebra_simps)
  have "n div 1048576 = n div 65536 div 16" by (simp add: div_mult2_eq [symmetric])
  then have n20: "n div 1048576 = (a * 256 + b) div 16" unfolding n16 .
  have "n div 16777216 = n div 65536 div 256" by (simp add: div_mult2_eq [symmetric])
  also have "\<dots> = a" unfolding n16 using assms(3) by simp
  finally have n24: "n div 16777216 = a" .
  have k: "b div 16 < 16" using assms(3) by simp
  have "(a * 256 + b) div 16 = a * 16 + b div 16" by simp
  also have "\<dots> = 2753 \<longleftrightarrow> a = 2753 div 16 \<and> b div 16 = 2753 mod 16" by (rule digits_iff [OF k])
  also have "b div 16 = 2753 mod 16 \<longleftrightarrow> 16 \<le> b \<and> b \<le> 31"
    by (simp add: div_eq_iff_bounds)
  finally have t20: "(a * 256 + b) div 16 = 2753 \<longleftrightarrow> a = 172 \<and> 16 \<le> b \<and> b \<le> 31" by simp
  have t16: "a * 256 + b = 49320 \<longleftrightarrow> a = 192 \<and> b = 168" "a * 256 + b = 43518 \<longleftrightarrow> a = 169 \<and> b = 254"
    using digits_iff [OF assms(3), of a 49320] digits_iff [OF assms(3), of a 43518] by simp_all
  have nets: "contains4 L (ipv4_new 10 0 0 0, 8) (ipv4_new a b c d) \<longleftrightarrow> a = 10"
    "contains4 L (ipv4_new 172 16 0 0, 12) (ipv4_new a b c d) \<longleftrightarrow> a = 172 \<and> 16 \<le> b \<and> b \<le> 31"
    "contains4 L (ipv4_new 192 168 0 0, 16) (ipv4_new a b c d) \<longleftrightarrow> a = 192 \<and> b = 168"
    "contains4 L (ipv4_new 169 254 0 0, 16) (ipv4_new a b c d) \<longleftrightarrow> a = 169 \<and> b = 254"
    using iff [of 10 0 0 0 8, simplified] iff [of 172 16 0 0 12, simplified]
      iff [of 192 168 0 0 16, simplified] iff [of 169 254 0 0 16, simplified]
    unfolding n24 n20 n16 t20 t16 by blast+
  show ?thesis unfolding classify_reverse_name by (simp add: nets)
qed

theorem private_reverse_exact_witness:
  "classify_name (reverse_name 172 31 0 9) = Some (RegPrivateReverse, DspNxDomain) \<and>
   classify_name (reverse_name 172 32 0 9) = None"
  using private_reverse_exact [OF ipnet_law_prefix_lib, of 172 31 0 9]
    private_reverse_exact [OF ipnet_law_prefix_lib, of 172 32 0 9]
  by (simp add: prefix_lib_def ipv4_new_def)

section \<open>Whole labels\<close>

text \<open>
  Classification compares whole labels, without regard to ASCII case: a name whose first label
  is not empty and which is not a loop marker is classified exactly by the registry suffixes whose
  label sequence ends the name's label sequence.
\<close>
theorem classify_name_by_labels:
  assumes "take 1 qname \<noteq> ''.''" "qname \<noteq> []" "\<not> is_loop_marker (normalize_name qname)"
  shows "classify_name qname =
     (if suffix (name_labels ''localhost.'') (name_labels (normalize_name qname))
      then Some (RegLocalhost, DspLoopback)
      else map_option (\<lambda>(_, reg). (reg, DspNxDomain))
        (find (\<lambda>(sfx, _). suffix (name_labels sfx) (name_labels (normalize_name qname)))
           NXDOMAIN_SUFFIXES))"
proof -
  obtain c cs where q: "qname = c # cs" "c \<noteq> CHR ''.''" using assms(1,2) by (cases qname) auto
  then have start: "take 1 (normalize_name qname) \<noteq> ''.''" by (simp add: normalize_name_def Let_def)
  have "classify_name qname =
     (if suffix_matches (normalize_name qname) ''localhost.'' then Some (RegLocalhost, DspLoopback)
      else if is_loop_marker (normalize_name qname) then Some (RegInvalid, DspLoopMarker)
      else case find (\<lambda>(sfx, _). suffix_matches (normalize_name qname) sfx) NXDOMAIN_SUFFIXES of
             Some (_, reg) \<Rightarrow> Some (reg, DspNxDomain) | None \<Rightarrow> None)"
    by (simp only: classify_name_def normalize_name_def Let_def)
  then show ?thesis
    unfolding suffix_matches_labels [OF start] using assms(3) by (simp split: option.split)
qed

theorem classify_name_by_labels_witness:
  "classify_name ''NotLocal'' = None \<and>
   classify_name ''Printer.Local'' = Some (RegMulticastDns, DspNxDomain)"
proof -
  have "\<not> is_loop_marker (normalize_name ''NotLocal'')"
    "\<not> is_loop_marker (normalize_name ''Printer.Local'')" by code_simp+
  moreover have "\<not> suffix (name_labels ''localhost.'') (name_labels (normalize_name ''NotLocal''))"
    "\<not> suffix (name_labels ''localhost.'') (name_labels (normalize_name ''Printer.Local''))"
    "find (\<lambda>(sfx, _). suffix (name_labels sfx) (name_labels (normalize_name ''NotLocal'')))
       NXDOMAIN_SUFFIXES = None"
    "find (\<lambda>(sfx, _). suffix (name_labels sfx) (name_labels (normalize_name ''Printer.Local'')))
       NXDOMAIN_SUFFIXES = Some (''local.'', RegMulticastDns)" by code_simp+
  ultimately show ?thesis
    using classify_name_by_labels [of "''NotLocal''"] classify_name_by_labels [of "''Printer.Local''"]
    by simp
qed

text \<open>
  The loop marker is the exception to the rule on labels: it is recognised by a plain suffix of
  the text, so that a label such as \<^verbatim>\<open>notloop-probe\<close> also matches.
\<close>

lemma loop_marker_ignores_labels:
  "is_loop_marker (''not'' @ LOOP_MARKER_SUFFIX)"
  "\<not> suffix (name_labels LOOP_MARKER_SUFFIX) (name_labels (''not'' @ LOOP_MARKER_SUFFIX))"
  by (code_simp, simp add: LOOP_MARKER_SUFFIX_def name_labels_def suffix_Cons)

end
