(* ===== verification/Validation.thy ===== *)
theory Validation
  imports Cache
begin

text \<open>
  What a DNSSEC validation concluded and why it failed: the resolution errors of \<^verbatim>\<open>error.rs\<close>, the
  observation window of \<^verbatim>\<open>dns/proofwatch.rs\<close>, the foreground deadline of \<^verbatim>\<open>dns/deadline.rs\<close>, the
  sub-lookups of \<^verbatim>\<open>dns/handle.rs\<close>, and the decisions of \<^verbatim>\<open>policy/dnssec.rs\<close> and
  \<^verbatim>\<open>policy/corroborate.rs\<close>.

  The two task-local variables are explicit: the window is an optional cell that is passed
  through, \<open>None\<close> outside a validation, and the deadline is an optional instant. The validator
  itself is the \<^verbatim>\<open>hickory\<close> crate's: of it only the sequence of sub-lookups it asked for appears,
  each with the scheduler's result.
\<close>

section \<open>Resolution errors (\<^verbatim>\<open>error.rs\<close>)\<close>

datatype resolve_error =
    NoRoute string
  | AllFailed ustring
  | ResolveTimeout u64
  | InvalidResponse string
  | ErrDnssecBogus
  | ProofIncomplete string
  | ShuttingDown
  | Overloaded nat

fun is_transient :: "resolve_error \<Rightarrow> bool" where
  "is_transient (ProofIncomplete _) = True"
| "is_transient _ = False"

datatype reject_reason = RejAcl | RejRateLimited | RejMalformed | RejUnsupportedOpCode
  | RejQuestionCount | RejBadEdnsVersion | RejTooLarge | RejUnsupportedClass

section \<open>The observation window (\<^verbatim>\<open>dns/proofwatch.rs\<close>)\<close>

datatype proof_failure = PfNone | PfDeadline | PfTransport | PfRefused

fun pf_rank :: "proof_failure \<Rightarrow> nat" where
  "pf_rank PfNone = 0"
| "pf_rank PfDeadline = 1"
| "pf_rank PfTransport = 2"
| "pf_rank PfRefused = 3"

lemma pf_rank_inj: "pf_rank a = pf_rank b \<longleftrightarrow> a = b"
  by (cases a; cases b) auto

instantiation proof_failure :: linorder
begin

definition less_eq_proof_failure :: "proof_failure \<Rightarrow> proof_failure \<Rightarrow> bool" where
  "less_eq_proof_failure a b = (pf_rank a \<le> pf_rank b)"

definition less_proof_failure :: "proof_failure \<Rightarrow> proof_failure \<Rightarrow> bool" where
  "less_proof_failure a b = (pf_rank a < pf_rank b)"

instance
  by standard (auto simp: less_eq_proof_failure_def less_proof_failure_def pf_rank_inj)

end

type_synonym window = "proof_failure option"

definition observe_failure :: "proof_failure \<Rightarrow> window \<Rightarrow> window" where
  "observe_failure failure w =
     (if failure = PfNone then w
      else case w of None \<Rightarrow> None | Some c \<Rightarrow> if c < failure then Some failure else Some c)"

definition watch :: "(window \<Rightarrow> 'a \<times> window) \<Rightarrow> window \<Rightarrow> ('a \<times> proof_failure) \<times> window" where
  "watch f outer =
     (let (out, w) = f (Some PfNone)
      in ((out, case w of Some c \<Rightarrow> c | None \<Rightarrow> PfNone), outer))"

definition current_failure :: "window \<Rightarrow> proof_failure" where
  "current_failure w = (case w of Some c \<Rightarrow> c | None \<Rightarrow> PfNone)"

section \<open>The foreground deadline (\<^verbatim>\<open>dns/deadline.rs\<close>)\<close>

definition with_deadline :: "instant \<Rightarrow> (instant option \<Rightarrow> 'a) \<Rightarrow> 'a" where
  "with_deadline deadline f = f (Some deadline)"

definition remaining_or :: "instant option \<Rightarrow> instant \<Rightarrow> duration \<Rightarrow> duration" where
  "remaining_or deadline now fallback =
     (case deadline of Some d \<Rightarrow> min (d - now) fallback | None \<Rightarrow> fallback)"

section \<open>Sub-lookups of a validation (\<^verbatim>\<open>dns/handle.rs\<close>)\<close>

fun proof_failure_for :: "resolve_error \<Rightarrow> proof_failure" where
  "proof_failure_for (ResolveTimeout _) = PfDeadline"
| "proof_failure_for (InvalidResponse _) = PfRefused"
| "proof_failure_for (NoRoute _) = PfTransport"
| "proof_failure_for (AllFailed _) = PfTransport"
| "proof_failure_for (Overloaded _) = PfTransport"
| "proof_failure_for ShuttingDown = PfTransport"
| "proof_failure_for ErrDnssecBogus = PfNone"
| "proof_failure_for (ProofIncomplete _) = PfTransport"

text \<open>
  One sub-lookup, given the scheduler's result for the budget that is left. \<open>resolve\<close> is
  \<^verbatim>\<open>scheduler.resolve(&group, message, options, budget, seed)\<close>.
\<close>

definition handle_send ::
  "(message \<Rightarrow> duration \<Rightarrow> resolve_error + message) \<Rightarrow> duration \<Rightarrow> instant option \<Rightarrow> instant \<Rightarrow> message \<Rightarrow>
     window \<Rightarrow> message option \<times> window" where
  "handle_send resolve budget deadline now msg w =
     (case resolve msg (remaining_or deadline now budget) of
        Inr answer \<Rightarrow> (Some answer, w)
      | Inl e \<Rightarrow> (None, observe_failure (proof_failure_for e) w))"

text \<open>What a sequence of sub-lookups with the given results leaves in the window.\<close>

definition observe_results :: "(resolve_error + message) list \<Rightarrow> window \<Rightarrow> window" where
  "observe_results rs w =
     fold (\<lambda>r w. case r of Inr _ \<Rightarrow> w | Inl e \<Rightarrow> observe_failure (proof_failure_for e) w) rs w"

section \<open>The state of an answer (\<^verbatim>\<open>policy/dnssec.rs\<close>)\<close>

datatype validation_outcome = VoSecure | VoProvenInsecure | VoBogus | VoIncompleteProof
  | VoTransportFailure | VoTimeout | VoIndeterminate

fun outcome_label :: "validation_outcome \<Rightarrow> string" where
  "outcome_label VoSecure = ''secure''"
| "outcome_label VoProvenInsecure = ''proven_insecure''"
| "outcome_label VoBogus = ''bogus''"
| "outcome_label VoIncompleteProof = ''incomplete_proof''"
| "outcome_label VoTransportFailure = ''transport_failure''"
| "outcome_label VoTimeout = ''timeout''"
| "outcome_label VoIndeterminate = ''indeterminate''"

fun is_retryable :: "validation_outcome \<Rightarrow> bool" where
  "is_retryable VoIncompleteProof = True"
| "is_retryable VoTransportFailure = True"
| "is_retryable VoTimeout = True"
| "is_retryable _ = False"

fun cache_status :: "validation_outcome \<Rightarrow> dnssec_status" where
  "cache_status VoSecure = Secure"
| "cache_status VoProvenInsecure = Insecure"
| "cache_status VoBogus = Bogus"
| "cache_status VoIncompleteProof = Indeterminate"
| "cache_status VoTransportFailure = Indeterminate"
| "cache_status VoTimeout = Indeterminate"
| "cache_status VoIndeterminate = Indeterminate"

fun proof_rank :: "rr_proof \<Rightarrow> nat" where
  "proof_rank ProofIndeterminate = 0"
| "proof_rank ProofBogus = 1"
| "proof_rank ProofInsecure = 2"
| "proof_rank ProofSecure = 3"

lemma proof_rank_inj: "proof_rank a = proof_rank b \<longleftrightarrow> a = b"
  by (cases a; cases b) auto

instantiation rr_proof :: linorder
begin

definition less_eq_rr_proof :: "rr_proof \<Rightarrow> rr_proof \<Rightarrow> bool" where
  "less_eq_rr_proof a b = (proof_rank a \<le> proof_rank b)"

definition less_rr_proof :: "rr_proof \<Rightarrow> rr_proof \<Rightarrow> bool" where
  "less_rr_proof a b = (proof_rank a < proof_rank b)"

instance
  by standard (auto simp: less_eq_rr_proof_def less_rr_proof_def proof_rank_inj)

end

definition proof_records :: "message \<Rightarrow> rr list" where
  "proof_records msg = filter (\<lambda>r. record_type r \<noteq> RT_OPT) (m_answers msg @ m_authorities msg)"

definition worst_proof :: "rr list \<Rightarrow> bool \<times> rr_proof" where
  "worst_proof rs =
     fold (\<lambda>r (saw, worst). (True, if rr_proof r < worst then rr_proof r else worst)) rs
       (False, ProofSecure)"

fun status_of_proof :: "rr_proof \<Rightarrow> dnssec_status" where
  "status_of_proof ProofSecure = Secure"
| "status_of_proof ProofInsecure = Insecure"
| "status_of_proof ProofBogus = Bogus"
| "status_of_proof ProofIndeterminate = Indeterminate"

definition dnssec_status_of :: "message \<Rightarrow> dnssec_config \<Rightarrow> bool \<Rightarrow> dnssec_status" where
  "dnssec_status_of msg cfg upstream_trusted_ad =
     (if dn_mode cfg = DnssecOff
      then if dn_trust_upstream_ad cfg \<and> upstream_trusted_ad \<and> md_authentic_data (m_meta msg)
           then Secure else Indeterminate
      else
        (let (saw_record, worst) = worst_proof (proof_records msg)
         in if \<not> saw_record then Indeterminate else status_of_proof worst))"

definition classify_outcome ::
  "message \<Rightarrow> dnssec_config \<Rightarrow> bool \<Rightarrow> proof_failure \<Rightarrow> validation_outcome" where
  "classify_outcome msg cfg upstream_trusted_ad observed =
     (case dnssec_status_of msg cfg upstream_trusted_ad of
        Secure \<Rightarrow> VoSecure
      | Insecure \<Rightarrow> VoProvenInsecure
      | Indeterminate \<Rightarrow> VoIndeterminate
      | Bogus \<Rightarrow>
          (case observed of
             PfNone \<Rightarrow> VoBogus
           | PfDeadline \<Rightarrow> VoTimeout
           | PfTransport \<Rightarrow> VoTransportFailure
           | PfRefused \<Rightarrow> VoIncompleteProof))"

definition earliest_rrsig_expiry :: "message \<Rightarrow> u64 option" where
  "earliest_rrsig_expiry msg =
     fold (\<lambda>r earliest.
         case rr_data r of
           RdRRSIG _ expiration _ \<Rightarrow>
             (let e = ucast expiration
              in Some (case earliest of Some m \<Rightarrow> min m e | None \<Rightarrow> e))
         | _ \<Rightarrow> earliest)
       (m_answers msg @ m_authorities msg @ m_additionals msg) None"

definition may_set_ad :: "dnssec_status \<Rightarrow> bool \<Rightarrow> bool \<Rightarrow> bool" where
  "may_set_ad status client_asked modified = (client_asked \<and> is_authentic status \<and> \<not> modified)"

section \<open>Second opinions (\<^verbatim>\<open>policy/corroborate.rs\<close>)\<close>

definition last_of :: "(rr \<Rightarrow> bool) \<Rightarrow> rr list \<Rightarrow> (string \<times> rtype) option" where
  "last_of p rs =
     (case rev (filter p rs) of [] \<Rightarrow> None | r # _ \<Rightarrow> Some (rr_name r, record_type r))"

definition terminal :: "message \<Rightarrow> (string \<times> rtype) option" where
  "terminal msg =
     (case last_of (\<lambda>r. record_type r \<noteq> RT_CNAME \<and> record_type r \<noteq> RT_RRSIG) (m_answers msg) of
        Some t \<Rightarrow> Some t
      | None \<Rightarrow> last_of (\<lambda>r. record_type r = RT_CNAME) (m_answers msg))"

fun join_dots :: "string list \<Rightarrow> string" where
  "join_dots [] = []"
| "join_dots [l] = l"
| "join_dots (l # ls) = l @ ''.'' @ join_dots ls"

definition registrable_suffix :: "string \<Rightarrow> string" where
  "registrable_suffix name =
     (let txt = to_ascii_lowercase (trim_end_matches CHR ''.'' name);
          labels = split_on CHR ''.'' txt
      in if length labels \<le> 2 then txt else join_dots (drop (length labels - 2) labels))"

definition answers_are_compatible :: "message \<Rightarrow> message \<Rightarrow> bool" where
  "answers_are_compatible a b =
     (if md_rcode (m_meta a) \<noteq> md_rcode (m_meta b) then False
      else if md_rcode (m_meta a) \<noteq> NoError then False
      else case (terminal a, terminal b) of
             (Some ta, Some tb) \<Rightarrow>
               if snd ta \<noteq> snd tb then False
               else registrable_suffix (fst ta) = registrable_suffix (fst tb)
           | _ \<Rightarrow> False)"

section \<open>The window keeps the most telling failure\<close>

lemma PfNone_least [simp]: "PfNone \<le> p"
  by (simp add: less_eq_proof_failure_def)

lemma observe_failure_max: "observe_failure f (Some c) = Some (max c f)"
  by (cases "f = PfNone") (auto simp: observe_failure_def max_def antisym)

lemma observe_failure_outside [simp]: "observe_failure f None = None"
  by (simp add: observe_failure_def)

definition failures :: "(resolve_error + message) list \<Rightarrow> proof_failure list" where
  "failures rs = map proof_failure_for (concat (map (\<lambda>r. case r of Inl e \<Rightarrow> [e] | Inr _ \<Rightarrow> []) rs))"

lemma observe_results_fold: "observe_results rs (Some c) = Some (fold max (failures rs) c)"
  unfolding observe_results_def failures_def
  by (induction rs arbitrary: c) (auto simp: observe_failure_max max.commute split: sum.split)

lemma fold_max_PfNone: "fold max xs c = PfNone \<longleftrightarrow> c = PfNone \<and> set xs \<subseteq> {PfNone}"
proof (induction xs arbitrary: c)
  case (Cons x xs)
  have "max x c = PfNone \<longleftrightarrow> x = PfNone \<and> c = PfNone"
    by (cases x; cases c) (auto simp: max_def less_eq_proof_failure_def)
  then show ?case by (auto simp: Cons.IH)
qed simp

lemma proof_failure_for_PfNone: "proof_failure_for e = PfNone \<longleftrightarrow> e = ErrDnssecBogus"
  by (cases e) auto

lemma failures_PfNone: "set (failures rs) \<subseteq> {PfNone} \<longleftrightarrow> (\<forall>e. Inl e \<in> set rs \<longrightarrow> e = ErrDnssecBogus)"
  by (induction rs) (auto simp: failures_def proof_failure_for_PfNone split: sum.splits)

lemma classify_outcome_bogus:
  "classify_outcome msg cfg ad obs = VoBogus \<longleftrightarrow> dnssec_status_of msg cfg ad = Bogus \<and> obs = PfNone"
  by (auto simp: classify_outcome_def split: dnssec_status.splits proof_failure.splits)

lemma classify_outcome_retryable:
  "is_retryable (classify_outcome msg cfg ad obs) \<longleftrightarrow>
     dnssec_status_of msg cfg ad = Bogus \<and> obs \<noteq> PfNone"
  by (auto simp: classify_outcome_def split: dnssec_status.splits proof_failure.splits)

lemma cache_status_bogus: "cache_status v = Bogus \<longleftrightarrow> v = VoBogus"
  by (cases v) auto


section \<open>The state of an answer\<close>

lemma worst_proof_fold:
  "fold (\<lambda>r (saw, worst). (True, if rr_proof r < worst then rr_proof r else worst)) rs (b, w) =
     (b \<or> rs \<noteq> [], fold min (map rr_proof rs) w)"
  by (induction rs arbitrary: b w) (auto simp: min_def not_less antisym_conv2)

lemma fold_min_eq: "fold min xs (w :: 'a::linorder) = Min (set (w # xs))"
  by (simp only: Min.set_eq_fold)

lemma worst_proof_eq: "worst_proof rs = (rs \<noteq> [], Min (set (ProofSecure # map rr_proof rs)))"
  by (simp add: worst_proof_def worst_proof_fold fold_min_eq del: list.simps(15))

definition status_of_proofs :: "rr_proof list \<Rightarrow> dnssec_status" where
  "status_of_proofs ps = (if ps = [] then Indeterminate else status_of_proof (Min (set (ProofSecure # ps))))"

lemma dnssec_status_of_proofs:
  "dn_mode cfg \<noteq> DnssecOff \<Longrightarrow>
   dnssec_status_of msg cfg ad = status_of_proofs (map rr_proof (proof_records msg))"
  by (simp add: dnssec_status_of_def status_of_proofs_def worst_proof_eq)

lemma status_of_proofs_secure:
  "status_of_proofs ps = Secure \<longleftrightarrow> ps \<noteq> [] \<and> (\<forall>p\<in>set ps. p = ProofSecure)"
proof -
  have "status_of_proof p = Secure \<longleftrightarrow> p = ProofSecure" "ProofSecure \<le> p \<longleftrightarrow> p = ProofSecure" for p
    by (cases p; simp add: less_eq_rr_proof_def)+
  moreover have "Min (set (ProofSecure # ps)) = ProofSecure \<longleftrightarrow> (\<forall>p\<in>set ps. ProofSecure \<le> p)"
    by (subst Min_eq_iff) auto
  ultimately show ?thesis by (simp add: status_of_proofs_def del: set_simps)
qed

lemma status_of_proofs_insecure:
  "status_of_proofs ps = Insecure \<longleftrightarrow>
     (\<forall>p\<in>set ps. p = ProofSecure \<or> p = ProofInsecure) \<and> ProofInsecure \<in> set ps"
proof -
  have "status_of_proof p = Insecure \<longleftrightarrow> p = ProofInsecure"
    "ProofInsecure \<le> p \<longleftrightarrow> p = ProofSecure \<or> p = ProofInsecure" for p
    by (cases p; simp add: less_eq_rr_proof_def)+
  moreover have "Min (set (ProofSecure # ps)) = ProofInsecure \<longleftrightarrow>
      ProofInsecure \<in> set ps \<and> (\<forall>p\<in>set ps. ProofInsecure \<le> p)"
    by (subst Min_eq_iff) (auto simp: less_eq_rr_proof_def)
  ultimately show ?thesis
    by (cases "ps = []") (simp add: status_of_proofs_def, auto simp: status_of_proofs_def simp del: set_simps)
qed

text \<open>
  With validation on, an answer is Secure exactly when it has a record and every record of its
  answer and authority sections is Secure; it is proven Insecure exactly when every record is
  Secure or Insecure and one is Insecure; so one Bogus or Indeterminate record takes both away,
  and the AD bit, from the whole answer.
\<close>
theorem dnssec_status_weakest_link:
  assumes "dn_mode cfg \<noteq> DnssecOff"
  shows "(dnssec_status_of msg cfg ad = Secure \<longleftrightarrow>
      proof_records msg \<noteq> [] \<and> (\<forall>r\<in>set (proof_records msg). rr_proof r = ProofSecure)) \<and>
    (dnssec_status_of msg cfg ad = Insecure \<longleftrightarrow>
      (\<forall>r\<in>set (proof_records msg). rr_proof r = ProofSecure \<or> rr_proof r = ProofInsecure) \<and>
      (\<exists>r\<in>set (proof_records msg). rr_proof r = ProofInsecure)) \<and>
    (may_set_ad (dnssec_status_of msg cfg ad) asked modified \<longrightarrow>
      (\<forall>r\<in>set (proof_records msg). rr_proof r = ProofSecure))"
  using assms
  by (simp add: dnssec_status_of_proofs status_of_proofs_secure status_of_proofs_insecure
      may_set_ad_def is_authentic_def image_iff) (metis (no_types))

section \<open>Signature expiry, deadline and second opinions\<close>

fun rrsig_expiries :: "rr list \<Rightarrow> u64 list" where
  "rrsig_expiries [] = []"
| "rrsig_expiries (r # rs) =
     (case rr_data r of RdRRSIG _ e _ \<Rightarrow> ucast e # rrsig_expiries rs | _ \<Rightarrow> rrsig_expiries rs)"

lemma earliest_fold:
  "fold (\<lambda>r earliest. case rr_data r of
         RdRRSIG _ expiration _ \<Rightarrow> (let e = ucast expiration
              in Some (case earliest of Some m \<Rightarrow> min m e | None \<Rightarrow> e))
         | _ \<Rightarrow> earliest) rs acc =
   fold (\<lambda>e acc. Some (case acc of Some m \<Rightarrow> min m e | None \<Rightarrow> e)) (rrsig_expiries rs) acc"
proof (induction rs arbitrary: acc)
  case (Cons r rs)
  then show ?case by (cases "rr_data r") (simp_all add: Let_def)
qed simp

lemma fold_min_option:
  "fold (\<lambda>e acc. Some (case acc of Some m \<Rightarrow> min m e | None \<Rightarrow> e)) es (acc :: 'a::linorder option) =
   (case acc of
      Some m \<Rightarrow> Some (fold min es m)
    | None \<Rightarrow> (case es of [] \<Rightarrow> None | e # es' \<Rightarrow> Some (fold min es' e)))"
proof -
  have some: "fold (\<lambda>e acc. Some (case acc of Some m \<Rightarrow> min m e | None \<Rightarrow> e)) es (Some m) =
      Some (fold min es m)" for es and m :: 'a
    by (induction es arbitrary: m) (auto simp: min.commute)
  show ?thesis by (cases acc; cases es) (simp_all add: some, simp add: min.commute)
qed

lemma earliest_rrsig_expiry_Min:
  "earliest_rrsig_expiry msg =
     (let es = rrsig_expiries (m_answers msg @ m_authorities msg @ m_additionals msg)
      in if es = [] then None else Some (Min (set es)))"
  unfolding earliest_rrsig_expiry_def earliest_fold fold_min_option
  by (auto simp: Let_def fold_min_eq split: list.split)

lemma registrable_suffix_terminal_sym:
  "answers_are_compatible a b = answers_are_compatible b a"
  by (auto simp: answers_are_compatible_def split: option.splits)

text \<open>
  A second opinion confirms an answer only when both are positive answers that end in records
  of one type under the same last two labels, whatever the order of the two.
\<close>
theorem compatible_answers_agree:
  "answers_are_compatible a b \<longleftrightarrow>
     md_rcode (m_meta a) = NoError \<and> md_rcode (m_meta b) = NoError \<and>
     (\<exists>na nb t. terminal a = Some (na, t) \<and> terminal b = Some (nb, t) \<and>
        registrable_suffix na = registrable_suffix nb)"
  by (auto simp: answers_are_compatible_def split: option.splits)

text \<open>
  An answer whose chain ends in a CNAME is judged by the owner of that CNAME and not by where it
  points: two such answers for the same name agree whatever the two targets are.
\<close>

definition cname_answer :: "string \<Rightarrow> string \<Rightarrow> message" where
  "cname_answer owner target =
     empty_message\<lparr>m_answers :=
       [\<lparr>rr_name = owner, rr_class = CLASS_IN, rr_ttl = 60, rr_data = RdCNAME target,
         rr_proof = ProofIndeterminate\<rparr>]\<rparr>"

lemma dangling_cname_ignores_target:
  "answers_are_compatible (cname_answer owner t1) (cname_answer owner t2)"
  by (simp add: answers_are_compatible_def cname_answer_def terminal_def last_of_def
      empty_message_def)

text \<open>
  A nested operation never gets more time than its own limit, and with a deadline in force it
  ends by that deadline whenever it starts before it, and gets no time after it.
\<close>
theorem remaining_or_bounds:
  "remaining_or deadline now fallback \<le> fallback \<and>
   (case deadline of
      None \<Rightarrow> remaining_or deadline now fallback = fallback
    | Some d \<Rightarrow> now + remaining_or deadline now fallback \<le> max d now)"
  by (auto simp: remaining_or_def split: option.split)

section \<open>Concrete instances\<close>

definition bogus_answer :: message where
  "bogus_answer =
     empty_message\<lparr>m_answers :=
       [\<lparr>rr_name = ''a.test.'', rr_class = CLASS_IN, rr_ttl = 60, rr_data = RdA 1,
         rr_proof = ProofBogus\<rparr>,
        \<lparr>rr_name = ''a.test.'', rr_class = CLASS_IN, rr_ttl = 60, rr_data = RdA 2,
         rr_proof = ProofSecure\<rparr>]\<rparr>"

lemma bogus_answer_status: "dnssec_status_of bogus_answer dnssec_config_default ad = Bogus"
  by (simp add: dnssec_status_of_def bogus_answer_def dnssec_config_default_def proof_records_def
      worst_proof_def rtype_defs less_rr_proof_def empty_message_def)


theorem dnssec_status_weakest_link_witness:
  "\<not> may_set_ad (dnssec_status_of bogus_answer dnssec_config_default False) True False"
proof -
  have "\<not> (\<forall>r\<in>set (proof_records bogus_answer). rr_proof r = ProofSecure)"
    by (simp add: proof_records_def bogus_answer_def rtype_defs empty_message_def)
  moreover have "dn_mode dnssec_config_default \<noteq> DnssecOff" by (simp add: dnssec_config_default_def)
  ultimately show ?thesis
    using dnssec_status_weakest_link [of dnssec_config_default bogus_answer False True False] by blast
qed

end
