(* ===== verification/Quality.thy ===== *)
theory Quality
  imports Config Bytes "HOL-Library.Product_Lexorder" "HOL-Library.AList"
begin

text \<open>
  Address quality and answer ordering: \<^verbatim>\<open>ranking/model.rs\<close>, \<^verbatim>\<open>ranking/store.rs\<close>,
  \<^verbatim>\<open>ranking/mod.rs\<close> and \<^verbatim>\<open>ranking/service.rs\<close>.

  Posterior parameters, latencies and costs are reals. The hash map of the store is an
  association list in its iteration order, which is arbitrary: the capacity and eviction results
  hold for every order. The map of statistics handed to the ordering is a partial function.
\<close>

section \<open>Statistics of one series (\<^verbatim>\<open>ranking/model.rs\<close>)\<close>

definition QUALITY_WINDOW :: nat where "QUALITY_WINDOW = 16"

datatype observation_class = ObsSuccess | ObsApplicableFailure | ObsAmbiguousFailure
  | ObsUnsupported | ObsTimeout | ObsPolicyBlocked

fun observation_label :: "observation_class \<Rightarrow> string" where
  "observation_label ObsSuccess = ''success''"
| "observation_label ObsApplicableFailure = ''applicable_failure''"
| "observation_label ObsAmbiguousFailure = ''ambiguous_failure''"
| "observation_label ObsUnsupported = ''unsupported''"
| "observation_label ObsTimeout = ''timeout''"
| "observation_label ObsPolicyBlocked = ''policy_blocked''"

fun is_penalising :: "observation_class \<Rightarrow> bool" where
  "is_penalising ObsApplicableFailure = True"
| "is_penalising ObsTimeout = True"
| "is_penalising _ = False"

datatype confidence = ConfUnknown | ConfLow | ConfMedium | ConfHigh

fun confidence_label :: "confidence \<Rightarrow> string" where
  "confidence_label ConfUnknown = ''unknown''"
| "confidence_label ConfLow = ''low''"
| "confidence_label ConfMedium = ''medium''"
| "confidence_label ConfHigh = ''high''"

record quality_stats =
  qs_alpha :: real
  qs_beta :: real
  qs_ewma_ms :: real
  qs_jitter_ms :: real
  qs_window :: "real list"
  qs_window_len :: nat
  qs_window_pos :: nat
  qs_consecutive_failures :: u32
  qs_samples :: u32
  qs_successes :: u32
  qs_last_update :: "instant option"
  qs_last_success :: "instant option"
  qs_generation :: u64

definition PRIOR_ALPHA :: real where "PRIOR_ALPHA = 1"
definition PRIOR_BETA :: real where "PRIOR_BETA = 1"
definition EWMA_WEIGHT :: real where "EWMA_WEIGHT = 1 / 4"

lemmas prior_defs = PRIOR_ALPHA_def PRIOR_BETA_def EWMA_WEIGHT_def

definition quality_new :: "u64 \<Rightarrow> quality_stats" where
  "quality_new gen =
     \<lparr>qs_alpha = PRIOR_ALPHA, qs_beta = PRIOR_BETA, qs_ewma_ms = 0, qs_jitter_ms = 0,
      qs_window = replicate QUALITY_WINDOW 0, qs_window_len = 0, qs_window_pos = 0,
      qs_consecutive_failures = 0, qs_samples = 0, qs_successes = 0,
      qs_last_update = None, qs_last_success = None, qs_generation = gen\<rparr>"

definition has_applicable_evidence :: "quality_stats \<Rightarrow> bool" where
  "has_applicable_evidence s \<longleftrightarrow>
     0 < qs_samples s \<and> (0 < qs_successes s \<or> 0 < qs_consecutive_failures s)"

text \<open>\<^verbatim>\<open>((q * len).ceil() as usize).clamp(1, len) - 1\<close>, the cast saturating at zero.\<close>

definition percentile_index :: "real \<Rightarrow> nat \<Rightarrow> nat" where
  "percentile_index q n = min (max (nat \<lceil>q * real n\<rceil>) 1) n - 1"

definition window_percentile :: "real list \<Rightarrow> nat \<Rightarrow> real \<Rightarrow> real" where
  "window_percentile window len q =
     (if len = 0 then 0
      else (let v = sort (take len window) in v ! percentile_index q (length v)))"

definition quality_percentile :: "quality_stats \<Rightarrow> real \<Rightarrow> real" where
  "quality_percentile s q = window_percentile (qs_window s) (qs_window_len s) q"

definition quality_p50_ms :: "quality_stats \<Rightarrow> real" where
  "quality_p50_ms s = quality_percentile s (1 / 2)"

definition quality_p95_ms :: "quality_stats \<Rightarrow> real" where
  "quality_p95_ms s = quality_percentile s (95 / 100)"

definition quality_p99_ms :: "quality_stats \<Rightarrow> real" where
  "quality_p99_ms s = quality_percentile s (99 / 100)"

definition quality_decay :: "instant \<Rightarrow> ranking_config \<Rightarrow> quality_stats \<Rightarrow> quality_stats" where
  "quality_decay now cfg s =
     (case qs_last_update s of
        None \<Rightarrow> s
      | Some last_at \<Rightarrow>
          (let elapsed = as_secs_f64 (now - last_at)
           in if elapsed \<le> 0 then s
              else
                (let half_life = max (as_secs_f64 (rk_evidence_half_life cfg)) 1;
                     factor = (1 / 2) powr (elapsed / half_life)
                 in s\<lparr>qs_alpha := PRIOR_ALPHA + (qs_alpha s - PRIOR_ALPHA) * factor,
                      qs_beta := PRIOR_BETA + (qs_beta s - PRIOR_BETA) * factor\<rparr>)))"

definition quality_record_success ::
  "duration \<Rightarrow> instant \<Rightarrow> ranking_config \<Rightarrow> quality_stats \<Rightarrow> quality_stats" where
  "quality_record_success latency now cfg s0 =
     (let s = quality_decay now cfg s0;
          ms = as_secs_f64 latency * 1000;
          s1 = (if qs_window_len s = 0 then s\<lparr>qs_ewma_ms := ms\<rparr>
                else s\<lparr>qs_jitter_ms := (1 - EWMA_WEIGHT) * qs_jitter_ms s
                                        + EWMA_WEIGHT * \<bar>ms - qs_ewma_ms s\<bar>,
                       qs_ewma_ms := (1 - EWMA_WEIGHT) * qs_ewma_ms s + EWMA_WEIGHT * ms\<rparr>)
      in s1\<lparr>qs_window := (qs_window s1)[qs_window_pos s1 := ms],
            qs_window_pos := (qs_window_pos s1 + 1) mod QUALITY_WINDOW,
            qs_window_len := min (qs_window_len s1 + 1) QUALITY_WINDOW,
            qs_alpha := qs_alpha s1 + 1,
            qs_samples := sat_add (qs_samples s1) 1,
            qs_successes := sat_add (qs_successes s1) 1,
            qs_consecutive_failures := 0,
            qs_last_update := Some now,
            qs_last_success := Some now\<rparr>)"

definition quality_record_failure ::
  "observation_class \<Rightarrow> instant \<Rightarrow> ranking_config \<Rightarrow> quality_stats \<Rightarrow> quality_stats" where
  "quality_record_failure cls now cfg s0 =
     (let s = quality_decay now cfg s0;
          s1 = s\<lparr>qs_samples := sat_add (qs_samples s) 1\<rparr>;
          s2 = (if is_penalising cls
                then s1\<lparr>qs_beta := qs_beta s1 + 1,
                        qs_consecutive_failures := sat_add (qs_consecutive_failures s1) 1\<rparr>
                else s1)
      in s2\<lparr>qs_last_update := Some now\<rparr>)"

definition quality_record ::
  "observation_class \<Rightarrow> duration option \<Rightarrow> instant \<Rightarrow> ranking_config \<Rightarrow> quality_stats \<Rightarrow>
     quality_stats" where
  "quality_record cls latency now cfg s =
     (if cls = ObsSuccess
      then (case latency of
              Some d \<Rightarrow> quality_record_success d now cfg s
            | None \<Rightarrow> quality_record_success (from_millis 0) now cfg s)
      else quality_record_failure cls now cfg s)"

definition quality_success_probability :: "quality_stats \<Rightarrow> real" where
  "quality_success_probability s = qs_alpha s / (qs_alpha s + qs_beta s)"

definition clamp01 :: "real \<Rightarrow> real" where
  "clamp01 x = min (max x 0) 1"

definition success_probability_lower_bound :: "quality_stats \<Rightarrow> real" where
  "success_probability_lower_bound s =
     (let n = qs_alpha s + qs_beta s;
          mean = qs_alpha s / n;
          var = (qs_alpha s * qs_beta s) / (n * n * (n + 1))
      in clamp01 (mean - sqrt var))"

definition quality_uncertainty :: "quality_stats \<Rightarrow> real" where
  "quality_uncertainty s =
     (let n = qs_alpha s + qs_beta s;
          var = (qs_alpha s * qs_beta s) / (n * n * (n + 1))
      in clamp01 (sqrt var))"

definition quality_confidence :: "ranking_config \<Rightarrow> instant \<Rightarrow> quality_stats \<Rightarrow> confidence" where
  "quality_confidence cfg now s =
     (if qs_samples s = 0 then ConfUnknown
      else
        (let fresh = (case qs_last_update s of
                        Some t \<Rightarrow> now - t \<le> rk_sample_max_age cfg | None \<Rightarrow> False)
         in if \<not> fresh then ConfLow
            else if qs_samples s \<le> 2 then ConfLow
            else if qs_samples s \<le> 9 then ConfMedium
            else ConfHigh))"

definition expected_cost :: "ranking_config \<Rightarrow> instant \<Rightarrow> quality_stats \<Rightarrow> real" where
  "expected_cost cfg now s =
     (if qs_samples s = 0 then rk_neutral_cost_ms cfg
      else
        (let base = (if qs_successes s = 0 then rk_neutral_cost_ms cfg else qs_ewma_ms s);
             tail = rk_tail_weight cfg * quality_p95_ms s;
             jitter = rk_jitter_weight cfg * qs_jitter_ms s;
             failure = (1 - success_probability_lower_bound s) * rk_failure_penalty_ms cfg;
             streak = (if qs_consecutive_failures s = 0 then 0
                       else rk_failure_penalty_ms cfg *
                            rk_consecutive_failure_base cfg ^ unat (min (qs_consecutive_failures s) 8)
                            / 8);
             uncertainty = quality_uncertainty s * rk_uncertainty_penalty_ms cfg;
             stale = (case qs_last_update s of
                        Some t \<Rightarrow> if rk_sample_max_age cfg < now - t
                                  then rk_stale_sample_penalty_ms cfg else 0
                      | None \<Rightarrow> 0)
         in base + tail + jitter + failure + streak + uncertainty + stale))"

text \<open>\<^verbatim>\<open>(x as f64 * f) as u32\<close>.\<close>

definition scale_u32 :: "u32 \<Rightarrow> real \<Rightarrow> u32" where
  "scale_u32 x f = of_nat (min (nat \<lfloor>real (unat x) * f\<rfloor>) (2 ^ 32 - 1))"

definition demote_to_prior :: "u64 \<Rightarrow> real \<Rightarrow> quality_stats \<Rightarrow> quality_stats" where
  "demote_to_prior new_generation factor s =
     (let f = clamp01 factor
      in s\<lparr>qs_alpha := PRIOR_ALPHA + (qs_alpha s - PRIOR_ALPHA) * f,
           qs_beta := PRIOR_BETA + (qs_beta s - PRIOR_BETA) * f,
           qs_consecutive_failures := 0,
           qs_samples := scale_u32 (qs_samples s) f,
           qs_successes := scale_u32 (qs_successes s) f,
           qs_generation := new_generation\<rparr>)"

record persisted_quality =
  pq_alpha :: real
  pq_beta :: real
  pq_ewma_ms :: real
  pq_p95_ms :: real
  pq_jitter_ms :: real
  pq_samples :: u32
  pq_successes :: u32
  pq_generation :: u64

definition from_persisted :: "persisted_quality \<Rightarrow> quality_stats" where
  "from_persisted p =
     (let s = (quality_new (pq_generation p))
            \<lparr>qs_alpha := max (pq_alpha p) PRIOR_ALPHA,
             qs_beta := max (pq_beta p) PRIOR_BETA,
             qs_ewma_ms := max (pq_ewma_ms p) 0,
             qs_jitter_ms := max (pq_jitter_ms p) 0,
             qs_samples := pq_samples p,
             qs_successes := pq_successes p\<rparr>
      in if 0 < pq_ewma_ms p
         then s\<lparr>qs_window := (qs_window s)[0 := pq_ewma_ms p, 1 := max (pq_p95_ms p) (pq_ewma_ms p)],
                qs_window_len := 2,
                qs_window_pos := 2 mod QUALITY_WINDOW\<rparr>
         else s)"

definition to_persisted :: "quality_stats \<Rightarrow> persisted_quality" where
  "to_persisted s =
     \<lparr>pq_alpha = qs_alpha s, pq_beta = qs_beta s, pq_ewma_ms = qs_ewma_ms s,
      pq_p95_ms = quality_p95_ms s, pq_jitter_ms = qs_jitter_ms s, pq_samples = qs_samples s,
      pq_successes = qs_successes s, pq_generation = qs_generation s\<rparr>"

section \<open>The store (\<^verbatim>\<open>ranking/store.rs\<close>)\<close>

record probe_key =
  pk_addr :: ipaddr
  pk_port :: u16
  pk_profile :: string

definition probe_key_https :: "ipaddr \<Rightarrow> u16 \<Rightarrow> string \<Rightarrow> probe_key" where
  "probe_key_https addr port hostname =
     \<lparr>pk_addr = addr, pk_port = port,
      pk_profile = ''https:'' @ trim_end_matches CHR ''.'' hostname\<rparr>"

definition probe_key_generic :: "ipaddr \<Rightarrow> u16 \<Rightarrow> probe_key" where
  "probe_key_generic addr port = \<lparr>pk_addr = addr, pk_port = port, pk_profile = ''generic''\<rparr>"

definition probe_key_quic :: "ipaddr \<Rightarrow> u16 \<Rightarrow> probe_key" where
  "probe_key_quic addr port = \<lparr>pk_addr = addr, pk_port = port, pk_profile = ''quic''\<rparr>"

record quality_store =
  qst_map :: "(probe_key \<times> quality_stats) list"
  qst_capacity :: nat

definition quality_store_new :: "nat \<Rightarrow> quality_store" where
  "quality_store_new capacity = \<lparr>qst_map = [], qst_capacity = max capacity 1\<rparr>"

definition quality_evict ::
  "nat \<Rightarrow> (probe_key \<times> quality_stats) list \<Rightarrow> (probe_key \<times> quality_stats) list" where
  "quality_evict n m =
     (let victims = sort_key snd (map (\<lambda>(k, v). (k, qs_samples v)) m)
      in fold (\<lambda>(k, _) m'. AList.delete k m') (take n victims) m)"

definition quality_store_record ::
  "probe_key \<Rightarrow> observation_class \<Rightarrow> duration option \<Rightarrow> u64 \<Rightarrow> instant \<Rightarrow> ranking_config \<Rightarrow>
     quality_store \<Rightarrow> quality_store" where
  "quality_store_record key cls latency gen now cfg self =
     (let m = (if qst_capacity self \<le> length (qst_map self) \<and> map_of (qst_map self) key = None
               then quality_evict (qst_capacity self div 16 + 1) (qst_map self)
               else qst_map self);
          entry = (case map_of m key of Some e \<Rightarrow> e | None \<Rightarrow> quality_new gen);
          entry1 = (if qs_generation entry \<noteq> gen
                    then demote_to_prior gen (min (rk_neutral_cost_ms cfg) 1) entry else entry)
      in self\<lparr>qst_map := AList.update key (quality_record cls latency now cfg entry1) m\<rparr>)"

definition quality_store_get :: "quality_store \<Rightarrow> probe_key \<Rightarrow> quality_stats option" where
  "quality_store_get self key = map_of (qst_map self) key"

definition snapshot_for ::
  "quality_store \<Rightarrow> ipaddr list \<Rightarrow> u16 \<Rightarrow> string \<Rightarrow> ipaddr \<rightharpoonup> quality_stats" where
  "snapshot_for self addrs port hostname =
     fold (\<lambda>addr out.
         case map_of (qst_map self) (probe_key_https addr port hostname) of
           Some s \<Rightarrow> out(addr \<mapsto> s)
         | None \<Rightarrow>
             (case map_of (qst_map self) (probe_key_generic addr port) of
                Some s \<Rightarrow> out(addr \<mapsto> s)
              | None \<Rightarrow> out))
       addrs Map.empty"

definition quality_on_generation_change :: "u64 \<Rightarrow> real \<Rightarrow> quality_store \<Rightarrow> quality_store" where
  "quality_on_generation_change gen factor self =
     self\<lparr>qst_map := map (\<lambda>(k, s). (k, demote_to_prior gen factor s)) (qst_map self)\<rparr>"

definition quality_len :: "quality_store \<Rightarrow> nat" where
  "quality_len self = length (qst_map self)"

definition quality_export :: "quality_store \<Rightarrow> (probe_key \<times> persisted_quality) list" where
  "quality_export self = map (\<lambda>(k, v). (k, to_persisted v)) (qst_map self)"

fun import_rows ::
  "nat \<Rightarrow> (probe_key \<times> persisted_quality) list \<Rightarrow> (probe_key \<times> quality_stats) list \<Rightarrow>
     (probe_key \<times> quality_stats) list" where
  "import_rows cap [] m = m"
| "import_rows cap ((key, p) # rows) m =
     (if cap \<le> length m then m else import_rows cap rows (AList.update key (from_persisted p) m))"

definition quality_import ::
  "(probe_key \<times> persisted_quality) list \<Rightarrow> quality_store \<Rightarrow> quality_store" where
  "quality_import rows self = self\<lparr>qst_map := import_rows (qst_capacity self) rows (qst_map self)\<rparr>"

definition quality_clear :: "quality_store \<Rightarrow> quality_store" where
  "quality_clear self = self\<lparr>qst_map := []\<rparr>"

section \<open>Ordering (\<^verbatim>\<open>ranking/mod.rs\<close>)\<close>

datatype order_decision = OrdDisabled | OrdNoEvidence | OrdBelowHysteresis | OrdExploration
  | OrdReordered | OrdUnchanged

fun order_label :: "order_decision \<Rightarrow> string" where
  "order_label OrdDisabled = ''disabled''"
| "order_label OrdNoEvidence = ''no_evidence''"
| "order_label OrdBelowHysteresis = ''below_hysteresis''"
| "order_label OrdExploration = ''exploration''"
| "order_label OrdReordered = ''reordered''"
| "order_label OrdUnchanged = ''unchanged''"

record ordering =
  ord_addresses :: "ipaddr list"
  ord_decision :: order_decision
  ord_confidence :: confidence

definition unit_from_seed :: "u64 \<Rightarrow> real" where
  "unit_from_seed seed =
     (let mixed = fnv1a64 (u64_to_le_bytes seed)
      in real (unat (drop_bit 11 mixed)) / real (2 ^ 53 :: nat))"

record scored =
  sc_idx :: nat
  sc_addr :: ipaddr
  sc_cost :: real
  sc_conf :: confidence

definition score_addresses ::
  "ipaddr list \<Rightarrow> (ipaddr \<rightharpoonup> quality_stats) \<Rightarrow> ranking_config \<Rightarrow> instant \<Rightarrow> scored list" where
  "score_addresses original stats cfg now =
     map (\<lambda>(idx, addr).
         case stats addr of
           Some s \<Rightarrow>
             if has_applicable_evidence s
             then \<lparr>sc_idx = idx, sc_addr = addr, sc_cost = expected_cost cfg now s,
                   sc_conf = quality_confidence cfg now s\<rparr>
             else \<lparr>sc_idx = idx, sc_addr = addr, sc_cost = rk_neutral_cost_ms cfg,
                   sc_conf = ConfUnknown\<rparr>
         | None \<Rightarrow> \<lparr>sc_idx = idx, sc_addr = addr, sc_cost = rk_neutral_cost_ms cfg,
                   sc_conf = ConfUnknown\<rparr>)
       (enumerate 0 original)"

definition any_evidence :: "ipaddr list \<Rightarrow> (ipaddr \<rightharpoonup> quality_stats) \<Rightarrow> bool" where
  "any_evidence original stats =
     list_ex (\<lambda>a. case stats a of Some s \<Rightarrow> has_applicable_evidence s | None \<Rightarrow> False) original"

definition order_addresses ::
  "ipaddr list \<Rightarrow> (ipaddr \<rightharpoonup> quality_stats) \<Rightarrow> ranking_config \<Rightarrow> instant \<Rightarrow> u64 \<Rightarrow> ordering" where
  "order_addresses original stats cfg now explore_seed =
     (if \<not> rk_enabled cfg \<or> length original < 2
      then \<lparr>ord_addresses = original, ord_decision = OrdDisabled, ord_confidence = ConfUnknown\<rparr>
      else if \<not> any_evidence original stats
      then \<lparr>ord_addresses = original, ord_decision = OrdNoEvidence, ord_confidence = ConfUnknown\<rparr>
      else if 0 < rk_exploration_rate cfg \<and> unit_from_seed explore_seed < rk_exploration_rate cfg
      then \<lparr>ord_addresses = original, ord_decision = OrdExploration, ord_confidence = ConfUnknown\<rparr>
      else
        (let scored_list = score_addresses original stats cfg now;
             incumbent_cost = sc_cost (hd scored_list);
             sorted_list = sort_key (\<lambda>s. (sc_cost s, sc_idx s)) scored_list;
             challenger = hd sorted_list;
             leader_changed = (sc_idx challenger \<noteq> 0);
             advantage = (incumbent_cost - sc_cost challenger) / max incumbent_cost 1;
             successes = (case stats (sc_addr challenger) of Some s \<Rightarrow> qs_successes s | None \<Rightarrow> 0);
             addresses = map sc_addr sorted_list
         in if leader_changed \<and>
               (advantage < rk_hysteresis cfg \<or> successes < rk_min_successes_to_lead cfg)
            then \<lparr>ord_addresses = original, ord_decision = OrdBelowHysteresis,
                  ord_confidence = sc_conf challenger\<rparr>
            else \<lparr>ord_addresses = addresses,
                  ord_decision = (if addresses = original then OrdUnchanged else OrdReordered),
                  ord_confidence = sc_conf challenger\<rparr>))"

section \<open>Which names are services (\<^verbatim>\<open>ranking/service.rs\<close>)\<close>

datatype service_class = SvcHttps | SvcUnknown

record service_classifier =
  svc_known :: "string list"
  svc_capacity :: nat

definition classifier_new :: "nat \<Rightarrow> service_classifier" where
  "classifier_new capacity = \<lparr>svc_known = [], svc_capacity = max capacity 1\<rparr>"

definition service_normalise :: "string \<Rightarrow> string" where
  "service_normalise name = to_ascii_lowercase (trim_end_matches CHR ''.'' name)"

definition note_https :: "string \<Rightarrow> service_classifier \<Rightarrow> service_classifier" where
  "note_https name self =
     (let key = service_normalise name; known = svc_known self
      in if key \<in> set known
         then self\<lparr>svc_known := key # remove1 key known\<rparr>
         else
           (let known' = key # known
            in self\<lparr>svc_known := if svc_capacity self < length known' then butlast known' else known'\<rparr>))"

definition classify_service :: "service_classifier \<Rightarrow> string \<Rightarrow> service_class" where
  "classify_service self name =
     (if service_normalise name \<in> set (svc_known self) then SvcHttps else SvcUnknown)"

definition is_web_service :: "service_classifier \<Rightarrow> string \<Rightarrow> bool" where
  "is_web_service self name = (classify_service self name = SvcHttps)"

definition is_service_binding :: "u16 \<Rightarrow> bool" where
  "is_service_binding rtype \<longleftrightarrow> rtype = 65 \<or> rtype = 64"

section \<open>Well-formed statistics\<close>

definition quality_ok :: "quality_stats \<Rightarrow> bool" where
  "quality_ok s \<longleftrightarrow>
     1 \<le> qs_alpha s \<and> 1 \<le> qs_beta s \<and> 0 \<le> qs_ewma_ms s \<and> 0 \<le> qs_jitter_ms s \<and>
     length (qs_window s) = QUALITY_WINDOW \<and> (\<forall>x\<in>set (qs_window s). 0 \<le> x) \<and>
     qs_window_len s \<le> QUALITY_WINDOW \<and> qs_window_pos s < QUALITY_WINDOW \<and>
     (qs_window_len s < QUALITY_WINDOW \<longrightarrow> qs_window_pos s = qs_window_len s)"

lemma as_secs_f64_nonneg [simp]: "0 \<le> as_secs_f64 d"
  by (simp add: as_secs_f64_def)

lemma half_powr_bounds: "0 \<le> (1 / 2 :: real) powr x" by simp

lemma quality_ok_new: "quality_ok (quality_new g)"
  by (simp add: quality_ok_def quality_new_def QUALITY_WINDOW_def prior_defs)

lemma quality_ok_posterior:
  assumes "quality_ok s" "1 \<le> a" "1 \<le> b"
  shows "quality_ok (s\<lparr>qs_alpha := a, qs_beta := b\<rparr>)"
  using assms by (simp add: quality_ok_def)

lemma quality_ok_decay: "quality_ok s \<Longrightarrow> quality_ok (quality_decay now cfg s)"
  by (auto simp: quality_decay_def Let_def prior_defs intro!: quality_ok_posterior split: option.split)
    (simp_all add: quality_ok_def)

lemma update_nonneg: "\<forall>x\<in>set xs. 0 \<le> x \<Longrightarrow> 0 \<le> v \<Longrightarrow> \<forall>x\<in>set (xs[i := v]). 0 \<le> (x::real)"
  using set_update_subset_insert [of xs i v] by auto

lemma ring_step:
  assumes "len \<le> W" "pos < W" "len < W \<longrightarrow> pos = len"
  shows "min (len + 1) W \<le> (W::nat)" "(pos + 1) mod W < W"
    "min (len + 1) W < W \<longrightarrow> (pos + 1) mod W = min (len + 1) W"
  using assms by auto

lemma quality_ok_success:
  assumes "quality_ok s" shows "quality_ok (quality_record_success d now cfg s)"
proof -
  define t where "t = quality_decay now cfg s"
  have t: "quality_ok t" unfolding t_def by (rule quality_ok_decay [OF assms])
  have ring: "qs_window_len t \<le> QUALITY_WINDOW" "qs_window_pos t < QUALITY_WINDOW"
    "qs_window_len t < QUALITY_WINDOW \<longrightarrow> qs_window_pos t = qs_window_len t"
    using t by (simp_all add: quality_ok_def)
  have w: "\<forall>x\<in>set ((qs_window t)[qs_window_pos t := as_secs_f64 d * 1000]). 0 \<le> x"
    by (rule update_nonneg) (use t in \<open>simp_all add: quality_ok_def\<close>)
  show ?thesis
    unfolding quality_record_success_def Let_def t_def [symmetric]
    using t w ring_step [OF ring] by (simp add: quality_ok_def prior_defs)
qed

lemma quality_ok_failure:
  assumes "quality_ok s" shows "quality_ok (quality_record_failure c now cfg s)"
proof -
  have "quality_ok (quality_decay now cfg s)" by (rule quality_ok_decay [OF assms])
  then show ?thesis by (simp add: quality_record_failure_def Let_def quality_ok_def)
qed

lemma quality_ok_record: "quality_ok s \<Longrightarrow> quality_ok (quality_record c l now cfg s)"
  by (simp add: quality_record_def quality_ok_success quality_ok_failure split: option.split)

lemma clamp01_bounds [simp]: "0 \<le> clamp01 x" "clamp01 x \<le> 1"
  by (simp_all add: clamp01_def)

lemma quality_ok_demote: "quality_ok s \<Longrightarrow> quality_ok (demote_to_prior g f s)"
  by (simp add: demote_to_prior_def Let_def quality_ok_def prior_defs)

lemma quality_ok_from_persisted: "quality_ok (from_persisted p)"
proof (cases "0 < pq_ewma_ms p")
  case True
  have "\<forall>x\<in>set ((replicate QUALITY_WINDOW 0)[0 := pq_ewma_ms p, 1 := max (pq_p95_ms p) (pq_ewma_ms p)]). 0 \<le> x"
    by (intro update_nonneg) (use True in \<open>simp_all add: le_max_iff_disj\<close>)
  then show ?thesis
    using True by (simp add: from_persisted_def Let_def quality_ok_def quality_new_def prior_defs
        QUALITY_WINDOW_def)
next
  case False
  then show ?thesis
    by (simp add: from_persisted_def Let_def quality_ok_def quality_new_def prior_defs
        QUALITY_WINDOW_def)
qed

section \<open>The store keeps its bound\<close>

lemma fold_delete_filter:
  "fold (\<lambda>(k, _) m'. AList.delete k m') vs m = filter (\<lambda>(k, _). k \<notin> fst ` set vs) m"
proof (induction vs arbitrary: m)
  case (Cons v vs)
  obtain k b where v: "v = (k, b)" by (cases v)
  have "fold (\<lambda>(k, _) m'. AList.delete k m') (v # vs) m =
      filter (\<lambda>(k, _). k \<notin> fst ` set vs) (AList.delete k m)" by (simp add: v Cons)
  also have "\<dots> = filter (\<lambda>(k', _). k' \<notin> fst ` set (v # vs)) m"
    by (auto simp: AList.delete_eq v split_def intro!: filter_cong)
  finally show ?case .
qed simp

lemma length_filter_keys:
  assumes "distinct (map fst m)" "distinct ks" "set ks \<subseteq> fst ` set m"
  shows "length (filter (\<lambda>(k, _). k \<notin> set ks) m) = length m - length ks"
proof -
  have "length (filter (\<lambda>(k, _). k \<notin> set ks) m) = length (filter (\<lambda>k. k \<notin> set ks) (map fst m))"
    by (simp add: filter_map comp_def split_def)
  also have "\<dots> = card (set (map fst m) - set ks)"
  proof -
    have "set (filter (\<lambda>k. k \<notin> set ks) (map fst m)) = set (map fst m) - set ks" by auto
    then show ?thesis using assms(1) by (metis distinct_card distinct_filter)
  qed
  also have "\<dots> = length m - length ks"
    using assms by (simp add: card_Diff_subset distinct_card distinct_card [of "map fst m", simplified])
  finally show ?thesis .
qed

definition evicted_keys :: "nat \<Rightarrow> (probe_key \<times> quality_stats) list \<Rightarrow> probe_key list" where
  "evicted_keys n m = map fst (take n (sort_key snd (map (\<lambda>(k, v). (k, qs_samples v)) m)))"

lemma quality_evict_filter:
  "quality_evict n m = filter (\<lambda>(k, _). k \<notin> set (evicted_keys n m)) m"
  by (simp add: quality_evict_def Let_def fold_delete_filter evicted_keys_def)

lemma evicted_keys_props:
  assumes "distinct (map fst m)"
  shows "distinct (evicted_keys n m)" "set (evicted_keys n m) \<subseteq> fst ` set m"
    "length (evicted_keys n m) = min n (length m)"
proof -
  let ?v = "map (\<lambda>(k, v). (k, qs_samples v)) m"
  have fv: "map fst ?v = map fst m" by (simp add: split_def)
  have "mset (map fst (sort_key snd ?v)) = mset (map fst ?v)" by (simp only: mset_map mset_sort)
  then have perm: "mset (map fst (sort_key snd ?v)) = mset (map fst m)" by (simp only: fv)
  then have d: "distinct (map fst (sort_key snd ?v))"
    using assms by (metis mset_eq_imp_distinct_iff)
  have ev: "evicted_keys n m = take n (map fst (sort_key snd ?v))"
    by (simp only: evicted_keys_def take_map)
  show "distinct (evicted_keys n m)" unfolding ev by (rule distinct_take [OF d])
  have "set (map fst (sort_key snd ?v)) = fst ` set m" using mset_eq_setD [OF perm] by simp
  then show "set (evicted_keys n m) \<subseteq> fst ` set m"
    unfolding ev using set_take_subset [of n "map fst (sort_key snd ?v)"] by simp
  show "length (evicted_keys n m) = min n (length m)" unfolding ev by (simp add: min.commute)
qed

lemma length_quality_evict:
  "distinct (map fst m) \<Longrightarrow> length (quality_evict n m) = length m - min n (length m)"
  using evicted_keys_props [of m n] length_filter_keys [of m "evicted_keys n m"]
  by (simp add: quality_evict_filter)

definition store_ok :: "quality_store \<Rightarrow> bool" where
  "store_ok s \<longleftrightarrow>
     0 < qst_capacity s \<and> length (qst_map s) \<le> qst_capacity s \<and> distinct (map fst (qst_map s)) \<and>
     list_all quality_ok (map snd (qst_map s))"

lemma list_all_map_of: "list_all P (map snd m) \<Longrightarrow> map_of m k = Some v \<Longrightarrow> P v"
  using map_of_SomeD [of m k v] by (auto simp: list_all_iff)

lemma list_all_update:
  "list_all P (map snd m) \<Longrightarrow> P v \<Longrightarrow> list_all P (map snd (AList.update k v m))"
  by (induction m) auto

lemma length_update:
  "length (AList.update k v m) = (if k \<in> fst ` set m then length m else Suc (length m))"
  by (induction m) auto

lemma store_ok_update:
  assumes "store_ok s" "quality_ok v" "length m \<le> qst_capacity s" "distinct (map fst m)"
    "list_all quality_ok (map snd m)" "map_of m k = None \<Longrightarrow> length m < qst_capacity s"
  shows "store_ok (s\<lparr>qst_map := AList.update k v m\<rparr>)"
proof -
  have "length (AList.update k v m) \<le> qst_capacity s"
    using assms(3,6) by (cases "k \<in> fst ` set m") (simp_all add: length_update map_of_eq_None_iff)
  then show ?thesis
    using assms(1,2,4,5) by (simp add: store_ok_def distinct_update list_all_update)
qed

lemma store_ok_record:
  assumes ok: "store_ok s"
  shows "store_ok (quality_store_record key c l g now cfg s)"
proof -
  define m where "m = (if qst_capacity s \<le> length (qst_map s) \<and> map_of (qst_map s) key = None
               then quality_evict (qst_capacity s div 16 + 1) (qst_map s) else qst_map s)"
  define e where "e = (case map_of m key of Some e \<Rightarrow> e | None \<Rightarrow> quality_new g)"
  have d: "distinct (map fst (qst_map s))" and all: "list_all quality_ok (map snd (qst_map s))"
    and len: "length (qst_map s) \<le> qst_capacity s" "0 < qst_capacity s"
    using ok by (simp_all add: store_ok_def)
  have m: "length m \<le> qst_capacity s" "distinct (map fst m)" "list_all quality_ok (map snd m)"
    using d all len
    by (auto simp: m_def length_quality_evict quality_evict_filter list_all_iff split_def
        intro: distinct_map_filter)
  have short: "length m < qst_capacity s" if "map_of m key = None"
    using that d len by (auto simp: m_def length_quality_evict)
  have "quality_ok e"
    using list_all_map_of [OF m(3)] by (simp add: e_def quality_ok_new split: option.split)
  then have "quality_ok (if qs_generation e \<noteq> g then demote_to_prior g (min (rk_neutral_cost_ms cfg) 1) e else e)"
    by (simp add: quality_ok_demote)
  then have "store_ok (s\<lparr>qst_map := AList.update key (quality_record c l now cfg
      (if qs_generation e \<noteq> g then demote_to_prior g (min (rk_neutral_cost_ms cfg) 1) e else e)) m\<rparr>)"
    by (intro store_ok_update ok m short quality_ok_record)
  then show ?thesis
    unfolding quality_store_record_def Let_def m_def [symmetric] e_def [symmetric] .
qed

lemma import_rows_ok:
  assumes "length m \<le> cap" "distinct (map fst m)" "list_all quality_ok (map snd m)"
  shows "length (import_rows cap rows m) \<le> cap \<and> distinct (map fst (import_rows cap rows m)) \<and>
    list_all quality_ok (map snd (import_rows cap rows m))"
  using assms
proof (induction cap rows m rule: import_rows.induct)
  case (2 cap key p rows m)
  then show ?case
    by (cases "cap \<le> length m")
      (simp_all add: length_update distinct_update list_all_update quality_ok_from_persisted)
qed simp

inductive quality_step :: "quality_store \<Rightarrow> quality_store \<Rightarrow> bool" where
  "quality_step s (quality_store_record key c l g now cfg s)"
| "quality_step s (quality_on_generation_change g f s)"
| "quality_step s (quality_import rows s)"
| "quality_step s (quality_clear s)"

lemma store_ok_step: "store_ok s \<Longrightarrow> quality_step s t \<Longrightarrow> store_ok t"
proof (erule quality_step.cases, goal_cases)
  case (1 s key c l g now cfg)
  then show ?case by (simp add: store_ok_record)
next
  case (2 s g f)
  then show ?case
    by (auto simp: quality_on_generation_change_def store_ok_def split_def list_all_iff comp_def
        intro: quality_ok_demote)
next
  case (3 s rows)
  then show ?case
    using import_rows_ok [of "qst_map s" "qst_capacity s" rows]
    by (simp add: quality_import_def store_ok_def)
next
  case (4 s)
  then show ?case by (simp add: quality_clear_def store_ok_def)
qed

interpretation quality_sys: invariant_system "\<lambda>s. \<exists>cap. s = quality_store_new cap" quality_step store_ok
proof unfold_locales
  show "store_ok s" if "\<exists>cap. s = quality_store_new cap" for s
    using that by (auto simp: quality_store_new_def store_ok_def)
  show "store_ok s'" if "store_ok s" "quality_step s s'" for s s'
    using that by (rule store_ok_step)
qed

lemma sort_key_take_le:
  assumes "x \<in> set (take n (sort_key f xs))" "y \<in> set (drop n (sort_key f xs))"
  shows "f x \<le> f y"
proof -
  have "sorted (map f (take n (sort_key f xs)) @ map f (drop n (sort_key f xs)))"
    by (metis append_take_drop_id map_append sorted_sort_key)
  then show ?thesis using assms by (auto simp: sorted_append)
qed

lemma take_sort_fewest:
  fixes m :: "('k \<times> 'v) list" and f :: "'v \<Rightarrow> 'o::linorder"
  defines "s \<equiv> sort_key snd (map (\<lambda>(k, v). (k, f v)) m)"
  assumes dist: "distinct (map fst m)" and kv: "(k, v) \<in> set m" and out: "k \<in> fst ` set (take n s)"
    and kv': "(k', v') \<in> set m" and stay: "k' \<notin> fst ` set (take n s)"
  shows "f v \<le> f v'"
proof -
  have mem: "(k, f v) \<in> set s" "(k', f v') \<in> set s" using kv kv' by (force simp: s_def)+
  have "mset (map fst s) = mset (map fst (map (\<lambda>(k, v). (k, f v)) m))"
    by (simp only: s_def mset_map mset_sort)
  then have "mset (map fst s) = mset (map fst m)" by (simp add: comp_def split_def)
  with dist have d: "distinct (map fst s)" by (metis mset_eq_imp_distinct_iff)
  have "(k', f v') \<in> set (take n s) \<union> set (drop n s)"
    using mem(2) by (metis append_take_drop_id set_append)
  then have "(k', f v') \<in> set (drop n s)" using stay by force
  moreover obtain u where u: "(k, u) \<in> set (take n s)" using out by auto
  moreover have "u = f v" using eq_key_imp_eq_value [OF d mem(1) in_set_takeD [OF u]] by simp
  ultimately show ?thesis
    using sort_key_take_le [of "(k, f v)" n snd "map (\<lambda>(k, v). (k, f v)) m" "(k', f v')"]
    by (simp add: s_def)
qed

lemma evicted_have_fewest_samples:
  assumes "distinct (map fst m)" "(k, v) \<in> set m" "k \<in> set (evicted_keys n m)"
    "(k', v') \<in> set m" "k' \<notin> set (evicted_keys n m)"
  shows "qs_samples v \<le> qs_samples v'"
  using take_sort_fewest [where n = n and f = qs_samples, OF assms(1,2) _ assms(4)] assms(3,5)
  unfolding evicted_keys_def set_map .

text \<open>
  However observations, imports and network changes interleave, the quality store never tracks
  more series than its capacity or one key twice, and every series is well formed: its posterior
  never falls below the prior, its latencies are not negative and its ring of samples is
  consistent.
\<close>
theorem quality_store_bounded:
  assumes "quality_step\<^sup>*\<^sup>* (quality_store_new cap) s"
  shows "quality_len s \<le> qst_capacity s \<and> distinct (map fst (qst_map s)) \<and>
    list_all quality_ok (map snd (qst_map s))"
  using quality_sys.reachable_inv [OF _ assms] by (auto simp: store_ok_def quality_len_def)

text \<open>
  Eviction removes the series with the fewest samples: no series that stays has fewer samples
  than one that is removed, and exactly the requested number is removed while there are as many.
\<close>
theorem quality_evict_least_sampled:
  assumes "distinct (map fst m)" "(k, v) \<in> set m" "(k, v) \<notin> set (quality_evict n m)"
    "(k', v') \<in> set (quality_evict n m)"
  shows "qs_samples v \<le> qs_samples v' \<and> length (quality_evict n m) = length m - min n (length m)"
proof -
  have "k \<in> set (evicted_keys n m)" "(k', v') \<in> set m" "k' \<notin> set (evicted_keys n m)"
    using assms(2-4) by (simp_all add: quality_evict_filter)
  then show ?thesis
    using evicted_have_fewest_samples [OF assms(1,2)] length_quality_evict [OF assms(1)] by simp
qed

section \<open>Costs\<close>

lemma lower_bound_bounds [simp]:
  "0 \<le> success_probability_lower_bound s" "success_probability_lower_bound s \<le> 1"
  by (simp_all add: success_probability_lower_bound_def Let_def)

lemma percentile_index_less: "0 < n \<Longrightarrow> percentile_index q n < n"
  by (auto simp: percentile_index_def)

lemma window_percentile_mem:
  assumes "0 < len" "len \<le> length w" shows "window_percentile w len q \<in> set (take len w)"
proof -
  have "percentile_index q (length (sort (take len w))) < length (sort (take len w))"
    using assms by (intro percentile_index_less) simp
  then have "window_percentile w len q \<in> set (sort (take len w))"
    using assms(1) unfolding window_percentile_def Let_def by (simp del: length_sort set_sort)
  then show ?thesis by simp
qed

lemma quality_percentile_nonneg: "quality_ok s \<Longrightarrow> 0 \<le> quality_percentile s q"
  using window_percentile_mem [of "qs_window_len s" "qs_window s" q]
  by (cases "qs_window_len s = 0")
    (auto simp: quality_percentile_def window_percentile_def quality_ok_def dest: in_set_takeD)

definition ranking_weights_ok :: "ranking_config \<Rightarrow> bool" where
  "ranking_weights_ok cfg \<longleftrightarrow>
     0 \<le> rk_neutral_cost_ms cfg \<and> 0 \<le> rk_failure_penalty_ms cfg \<and> 0 \<le> rk_tail_weight cfg \<and>
     0 \<le> rk_jitter_weight cfg \<and> 0 \<le> rk_uncertainty_penalty_ms cfg \<and>
     0 \<le> rk_stale_sample_penalty_ms cfg \<and> 0 \<le> rk_consecutive_failure_base cfg"

lemma expected_cost_ge_latency:
  assumes "quality_ok s" "ranking_weights_ok cfg" "qs_samples s \<noteq> 0"
  shows "(if qs_successes s = 0 then rk_neutral_cost_ms cfg else qs_ewma_ms s) \<le> expected_cost cfg now s"
proof -
  have "0 \<le> quality_p95_ms s" "0 \<le> qs_jitter_ms s" "0 \<le> quality_uncertainty s"
    using quality_percentile_nonneg [OF assms(1)] assms(1)
    by (simp_all add: quality_p95_ms_def quality_ok_def quality_uncertainty_def Let_def)
  then show ?thesis
    using assms(2,3)
    by (simp add: expected_cost_def Let_def ranking_weights_ok_def add_increasing2 split: option.split)
qed

definition cost_of :: "ranking_config \<Rightarrow> instant \<Rightarrow> (ipaddr \<rightharpoonup> quality_stats) \<Rightarrow> ipaddr \<Rightarrow> real" where
  "cost_of cfg now stats a =
     (case stats a of
        Some s \<Rightarrow> if has_applicable_evidence s then expected_cost cfg now s else rk_neutral_cost_ms cfg
      | None \<Rightarrow> rk_neutral_cost_ms cfg)"

lemma score_addresses_fields:
  "map sc_addr (score_addresses original stats cfg now) = original"
  "map sc_idx (score_addresses original stats cfg now) = [0..<length original]"
  "map sc_cost (score_addresses original stats cfg now) = map (cost_of cfg now stats) original"
proof -
  have "map sc_addr (score_addresses original stats cfg now) = map snd (enumerate 0 original)"
    unfolding score_addresses_def map_map
    by (intro map_cong refl) (auto split: option.split)
  then show "map sc_addr (score_addresses original stats cfg now) = original" by simp
  have "map sc_idx (score_addresses original stats cfg now) = map fst (enumerate 0 original)"
    unfolding score_addresses_def map_map
    by (intro map_cong refl) (auto split: option.split)
  then show "map sc_idx (score_addresses original stats cfg now) = [0..<length original]" by simp
  have "map sc_cost (score_addresses original stats cfg now) =
      map (cost_of cfg now stats) (map snd (enumerate 0 original))"
    unfolding score_addresses_def map_map
    by (intro map_cong refl) (auto simp: cost_of_def split: option.split)
  then show "map sc_cost (score_addresses original stats cfg now) = map (cost_of cfg now stats) original"
    by (simp only: map_snd_enumerate)
qed

text \<open>The outcome of a sort by cost and position, for any list of scored addresses.\<close>

lemma mset_map_sort_key: "mset (map g (sort_key f xs)) = mset (map g xs)"
  by (simp only: mset_map mset_sort)

lemma sorted_by_cost:
  "sorted (map cost (sort_key (\<lambda>x. (cost x :: real, idx x :: nat)) xs))"
proof -
  have "sorted (map (\<lambda>x. (cost x, idx x)) (sort_key (\<lambda>x. (cost x, idx x)) xs))"
    by (rule sorted_sort_key)
  then show ?thesis
    by (simp add: sorted_map) (erule sorted_wrt_mono_rel [rotated], auto simp: less_eq_prod_def)
qed

lemma hd_sorted_not_first:
  assumes "map idx xs = [0..<length xs]" "xs \<noteq> []" "idx (hd (sort_key f xs)) = 0"
  shows "hd (sort_key f xs) = hd xs"
proof -
  have "sort_key f xs \<noteq> []" using assms(2) by (metis length_0_conv length_sort)
  then have "hd (sort_key f xs) \<in> set xs" by (metis hd_in_set set_sort)
  then obtain i where i: "i < length xs" "hd (sort_key f xs) = xs ! i"
    by (metis in_set_conv_nth)
  then have "i = 0" using assms(1,3) by (metis add_0 nth_map nth_upt)
  then show ?thesis using i assms(2) by (simp add: hd_conv_nth)
qed

definition leader_earned ::
  "ranking_config \<Rightarrow> instant \<Rightarrow> (ipaddr \<rightharpoonup> quality_stats) \<Rightarrow> ipaddr \<Rightarrow> ipaddr \<Rightarrow> bool" where
  "leader_earned cfg now stats old new \<longleftrightarrow>
     rk_hysteresis cfg * max (cost_of cfg now stats old) 1
       \<le> cost_of cfg now stats old - cost_of cfg now stats new \<and>
     rk_min_successes_to_lead cfg \<le> (case stats new of Some s \<Rightarrow> qs_successes s | None \<Rightarrow> 0)"

lemma order_addresses_cases:
  "ord_addresses (order_addresses original stats cfg now seed) = original \<or>
   (let xs = score_addresses original stats cfg now;
        ys = sort_key (\<lambda>s. (sc_cost s, sc_idx s)) xs
    in rk_enabled cfg \<and> any_evidence original stats \<and> 2 \<le> length original \<and>
       ord_addresses (order_addresses original stats cfg now seed) = map sc_addr ys \<and>
       (sc_idx (hd ys) \<noteq> 0 \<longrightarrow>
          rk_hysteresis cfg \<le> (sc_cost (hd xs) - sc_cost (hd ys)) / max (sc_cost (hd xs)) 1 \<and>
          rk_min_successes_to_lead cfg \<le> (case stats (sc_addr (hd ys)) of Some s \<Rightarrow> qs_successes s | None \<Rightarrow> 0)))"
  by (simp add: order_addresses_def Let_def not_less)

text \<open>
  C33. Ordering never adds or drops an address: the result is a permutation of the upstream order,
  and it is that order itself unless ranking is on and some address has applicable evidence. A
  changed order is sorted by cost, and its first address displaces the upstream's first only with
  the configured relative advantage and number of successes.
\<close>
theorem order_addresses_sound:
  "mset (ord_addresses (order_addresses original stats cfg now seed)) = mset original \<and>
   (ord_addresses (order_addresses original stats cfg now seed) \<noteq> original \<longrightarrow>
      rk_enabled cfg \<and> any_evidence original stats \<and>
      sorted (map (cost_of cfg now stats) (ord_addresses (order_addresses original stats cfg now seed))) \<and>
      (hd (ord_addresses (order_addresses original stats cfg now seed)) \<noteq> hd original \<longrightarrow>
        leader_earned cfg now stats (hd original)
          (hd (ord_addresses (order_addresses original stats cfg now seed)))))"
proof (cases "ord_addresses (order_addresses original stats cfg now seed) = original")
  case False
  define xs where "xs = score_addresses original stats cfg now"
  define ys where "ys = sort_key (\<lambda>s. (sc_cost s, sc_idx s)) xs"
  define res where "res = ord_addresses (order_addresses original stats cfg now seed)"
  have f: "rk_enabled cfg" "any_evidence original stats" "2 \<le> length original" "res = map sc_addr ys"
    and lead: "sc_idx (hd ys) \<noteq> 0 \<longrightarrow>
      rk_hysteresis cfg \<le> (sc_cost (hd xs) - sc_cost (hd ys)) / max (sc_cost (hd xs)) 1 \<and>
      rk_min_successes_to_lead cfg \<le> (case stats (sc_addr (hd ys)) of Some s \<Rightarrow> qs_successes s | None \<Rightarrow> 0)"
    using order_addresses_cases [of original stats cfg now seed] False
    by (simp_all add: Let_def xs_def ys_def res_def)
  note fields = score_addresses_fields [of original stats cfg now, folded xs_def]
  have len: "length xs = length original" using fields(1) by (metis length_map)
  have ne: "xs \<noteq> []" "original \<noteq> []" "ys \<noteq> []" using f(3) len by (auto simp: ys_def simp flip: length_0_conv)
  have cost: "sc_cost y = cost_of cfg now stats (sc_addr y)" if "y \<in> set xs" for y
    using that fields(1,3) by (metis map_map comp_apply map_eq_conv)
  have perm: "mset res = mset original" and srt: "sorted (map sc_cost ys)"
    using sorted_by_cost [of sc_cost sc_idx xs]
    by (simp_all only: f(4) ys_def mset_map_sort_key fields(1))
  have "map (cost_of cfg now stats) res = map sc_cost ys"
    unfolding f(4) map_map by (rule map_cong) (simp_all add: ys_def cost)
  moreover have "leader_earned cfg now stats (hd original) (hd res)" if "hd res \<noteq> hd original"
  proof -
    have heads: "hd res = sc_addr (hd ys)" "hd original = sc_addr (hd xs)"
      using ne f(4) fields(1) by (simp_all add: hd_map) (metis hd_map ne(1))
    then have "hd ys \<noteq> hd xs" using that by auto
    then have "sc_idx (hd ys) \<noteq> 0"
      using hd_sorted_not_first [of sc_idx xs "\<lambda>s. (sc_cost s, sc_idx s)"] fields(2) len ne(1)
      by (auto simp: ys_def)
    moreover have "hd ys \<in> set xs" "hd xs \<in> set xs"
      using ne hd_in_set [of ys] by (simp_all add: ys_def)
    ultimately show ?thesis
      using lead by (simp add: leader_earned_def heads cost pos_le_divide_eq)
  qed
  ultimately show ?thesis using perm srt f(1,2) unfolding res_def by simp
qed simp

section \<open>Persistence\<close>

lemma window_pair_p95:
  assumes "a \<le> b" "take 2 w = [a, b]" shows "window_percentile w 2 (95 / 100) = b"
proof -
  have "\<lceil>95 / 100 * real 2\<rceil> = 2" by (simp add: ceiling_eq_iff)
  then have "percentile_index (95 / 100) (length [a, b]) = 1"
    by (simp add: percentile_index_def numeral_2_eq_2)
  moreover have "sort (take 2 w) = [a, b]" using assms by simp
  ultimately show ?thesis by (simp only: window_percentile_def Let_def) simp
qed

lemma from_persisted_p95:
  assumes "0 < pq_ewma_ms p"
  shows "quality_p95_ms (from_persisted p) = max (pq_p95_ms p) (pq_ewma_ms p)"
proof -
  have "replicate QUALITY_WINDOW (0::real) = 0 # 0 # replicate 14 0"
    by (simp add: QUALITY_WINDOW_def numeral_eq_Suc)
  then have "take 2 (qs_window (from_persisted p)) = [pq_ewma_ms p, max (pq_p95_ms p) (pq_ewma_ms p)]"
    and "qs_window_len (from_persisted p) = 2"
    using assms by (simp_all add: from_persisted_def Let_def quality_new_def numeral_2_eq_2)
  then show ?thesis
    using window_pair_p95 [of "pq_ewma_ms p"] by (simp add: quality_p95_ms_def quality_percentile_def)
qed

lemma import_rows_distinct:
  "distinct (map fst rows) \<Longrightarrow> fst ` set rows \<inter> fst ` set m = {} \<Longrightarrow>
   length m + length rows \<le> cap \<Longrightarrow>
   map_of (import_rows cap rows m) k =
     (case map_of rows k of Some p \<Rightarrow> Some (from_persisted p) | None \<Rightarrow> map_of m k)"
proof (induction cap rows m rule: import_rows.induct)
  case (2 cap key p rows m)
  have keys: "fst ` set (AList.update key (from_persisted p) m) = insert key (fst ` set m)"
    by (simp add: update_conv' flip: dom_map_of_conv_image_fst)
  have "key \<notin> fst ` set rows" "key \<notin> fst ` set m" using "2.prems" by (auto simp: image_iff)
  then have "map_of (import_rows cap rows (AList.update key (from_persisted p) m)) k =
     (case map_of rows k of Some p \<Rightarrow> Some (from_persisted p)
      | None \<Rightarrow> map_of (AList.update key (from_persisted p) m) k)"
    using "2.prems" by (intro "2.IH") (auto simp: keys length_update)
  moreover have "map_of rows key = None" using \<open>key \<notin> fst ` set rows\<close> by (simp add: map_of_eq_None_iff)
  ultimately show ?case using "2.prems"(3) by (simp add: update_conv' split: option.split)
qed simp

lemma import_rows_export:
  assumes "distinct (map fst m)" "length m \<le> cap"
  shows "map_of (import_rows cap (map (\<lambda>(k, v). (k, to_persisted v)) m) []) k =
    map_option (from_persisted \<circ> to_persisted) (map_of m k)"
proof -
  have fm: "map fst (map (\<lambda>(k, v). (k, to_persisted v)) m) = map fst m" by (simp add: split_def)
  show ?thesis
    by (subst import_rows_distinct)
      (use assms in \<open>simp_all add: fm map_of_map comp_def split: option.split del: map_map\<close>)
qed

text \<open>
  Exporting a store and importing the rows into an empty store of the same capacity restores
  exactly the same keys, and every series with its posterior, latency, jitter, counts and network
  generation; a series that had a latency keeps its tail estimate, raised to the mean latency if
  it was below.
\<close>
theorem quality_persist_round_trip:
  assumes "store_ok s" "t = quality_import (quality_export s) (quality_store_new (qst_capacity s))"
  shows "(quality_store_get s k = None \<longleftrightarrow> quality_store_get t k = None) \<and>
    (\<forall>v. quality_store_get s k = Some v \<longrightarrow>
      (\<exists>v'. quality_store_get t k = Some v' \<and>
        qs_alpha v' = qs_alpha v \<and> qs_beta v' = qs_beta v \<and> qs_ewma_ms v' = qs_ewma_ms v \<and>
        qs_jitter_ms v' = qs_jitter_ms v \<and> qs_samples v' = qs_samples v \<and>
        qs_successes v' = qs_successes v \<and> qs_generation v' = qs_generation v \<and>
        (0 < qs_ewma_ms v \<longrightarrow> quality_p95_ms v' = max (quality_p95_ms v) (qs_ewma_ms v))))"
proof -
  have get: "quality_store_get t k = map_option (from_persisted \<circ> to_persisted) (quality_store_get s k)"
  proof -
    have "max (qst_capacity s) 1 = qst_capacity s" "distinct (map fst (qst_map s))"
      "length (qst_map s) \<le> qst_capacity s"
      using assms(1) by (simp_all add: store_ok_def)
    then show ?thesis
      unfolding assms(2) quality_store_get_def quality_import_def quality_export_def
        quality_store_new_def by (simp add: import_rows_export)
  qed
  have flds: "qs_alpha (from_persisted (to_persisted v)) = qs_alpha v"
    "qs_beta (from_persisted (to_persisted v)) = qs_beta v"
    "qs_ewma_ms (from_persisted (to_persisted v)) = qs_ewma_ms v"
    "qs_jitter_ms (from_persisted (to_persisted v)) = qs_jitter_ms v"
    "qs_samples (from_persisted (to_persisted v)) = qs_samples v"
    "qs_successes (from_persisted (to_persisted v)) = qs_successes v"
    "qs_generation (from_persisted (to_persisted v)) = qs_generation v"
    "0 < qs_ewma_ms v \<longrightarrow> quality_p95_ms (from_persisted (to_persisted v)) =
       max (quality_p95_ms v) (qs_ewma_ms v)" if "quality_store_get s k = Some v" for v
  proof -
    have "quality_ok v"
      using list_all_map_of [of quality_ok "qst_map s" k v] that assms(1)
      by (simp add: store_ok_def quality_store_get_def)
    then show "qs_alpha (from_persisted (to_persisted v)) = qs_alpha v"
      "qs_beta (from_persisted (to_persisted v)) = qs_beta v"
      "qs_ewma_ms (from_persisted (to_persisted v)) = qs_ewma_ms v"
      "qs_jitter_ms (from_persisted (to_persisted v)) = qs_jitter_ms v"
      "qs_samples (from_persisted (to_persisted v)) = qs_samples v"
      "qs_successes (from_persisted (to_persisted v)) = qs_successes v"
      "qs_generation (from_persisted (to_persisted v)) = qs_generation v"
      by (simp_all add: from_persisted_def to_persisted_def Let_def quality_ok_def prior_defs
          quality_new_def)
    show "0 < qs_ewma_ms v \<longrightarrow> quality_p95_ms (from_persisted (to_persisted v)) =
       max (quality_p95_ms v) (qs_ewma_ms v)"
      using from_persisted_p95 [of "to_persisted v"] by (simp add: to_persisted_def)
  qed
  show ?thesis
    by (cases "quality_store_get s k") (simp_all add: get flds)
qed

section \<open>Network generations\<close>

lemma scale_u32_one [simp]: "scale_u32 x 1 = x"
proof -
  have "nat \<lfloor>real (unat x) * 1\<rfloor> = unat x" by (simp only: mult_1_right floor_of_nat nat_int)
  moreover have "min (unat x) (2 ^ 32 - 1) = unat x" using unat_less_pow [of x] by (simp add: min_def)
  ultimately show ?thesis unfolding scale_u32_def by simp
qed

text \<open>
  The store weakens the evidence of an older network generation by the neutral \<^emph>\<open>cost\<close>, capped at
  one: with any neutral cost of at least a millisecond the old evidence keeps its full weight and
  only the streak of failures is forgotten.
\<close>

lemma demote_by_neutral_cost_keeps_evidence:
  assumes "1 \<le> rk_neutral_cost_ms cfg"
  shows "demote_to_prior g (min (rk_neutral_cost_ms cfg) 1) s =
     s\<lparr>qs_consecutive_failures := 0, qs_generation := g\<rparr>"
  using assms by (simp add: demote_to_prior_def Let_def clamp01_def min_def prior_defs)

lemma default_neutral_cost_keeps_evidence:
  "demote_to_prior g (min (rk_neutral_cost_ms ranking_config_default) 1) s =
     s\<lparr>qs_consecutive_failures := 0, qs_generation := g\<rparr>"
  by (rule demote_by_neutral_cost_keeps_evidence) (simp add: ranking_config_default_def)

section \<open>The service classifier is a least-recently-used table\<close>

text \<open>The distinct names of a history, most recent first.\<close>

fun recent :: "'a list \<Rightarrow> 'a list" where
  "recent [] = []"
| "recent (x # xs) = x # removeAll x (recent xs)"

lemma distinct_recent [simp]: "distinct (recent xs)"
  by (induction xs) (auto simp: distinct_removeAll)

lemma remove1_take:
  "distinct R \<Longrightarrow> x \<in> set (take c R) \<Longrightarrow> remove1 x (take c R) = take (c - 1) (removeAll x R)"
proof (induction R arbitrary: c)
  case (Cons r R)
  then obtain c' where c: "c = Suc c'" by (cases c) auto
  show ?case
  proof (cases "r = x")
    case True
    with Cons.prems c show ?thesis by (auto simp: removeAll_id)
  next
    case False
    with Cons.prems c have x: "x \<in> set (take c' R)" by auto
    then obtain d where d: "c' = Suc d" by (cases c') auto
    show ?thesis using Cons.IH [of c'] Cons.prems x False c d by simp
  qed
qed simp

lemma take_removeAll_notin: "x \<notin> set (take c R) \<Longrightarrow> take c (removeAll x R) = take c R"
proof (induction R arbitrary: c)
  case (Cons r R)
  then show ?case by (cases c) auto
qed simp

lemma lru_step:
  assumes "distinct R" "0 < c"
  shows "(if x \<in> set (take c R) then x # remove1 x (take c R)
          else if c < Suc (length (take c R)) then butlast (x # take c R) else x # take c R) =
    take c (x # removeAll x R)"
proof -
  obtain d where c: "c = Suc d" using assms(2) by (cases c) auto
  show ?thesis
  proof (cases "x \<in> set (take c R)")
    case True
    then show ?thesis using remove1_take [OF assms(1) True] c by simp
  next
    case notin: False
    have "x \<notin> set (take d R)" using notin c by (meson set_take_subset_set_take le_SucI order_refl subsetD)
    then have tr: "take d (removeAll x R) = take d R" by (rule take_removeAll_notin)
    show ?thesis
    proof (cases "c < Suc (length (take c R))")
      case True
      then have "length (take c R) = c" "c \<le> length R" by auto
      then have "butlast (x # take c R) = x # take d R"
        using c by (cases "take c R = []") (auto simp: butlast_take)
      then show ?thesis using notin True tr c by simp
    next
      case False
      then have "length R \<le> d" using c by (simp add: not_less min_def split: if_splits)
      then show ?thesis using notin False tr c by simp
    qed
  qed
qed

text \<open>
  C34. The service classifier refines the specification of a least-recently-used table: after any
  sequence of confirmations it holds exactly the most recently confirmed distinct names, at most
  its capacity many, so a name counts as a web service if and only if it is among them.
\<close>
theorem service_classifier_refines_lru:
  "svc_known (fold note_https names (classifier_new cap)) =
     take (max cap 1) (recent (rev (map service_normalise names))) \<and>
   (is_web_service (fold note_https names (classifier_new cap)) name \<longleftrightarrow>
     service_normalise name \<in> set (take (max cap 1) (recent (rev (map service_normalise names)))))"
proof -
  have inv: "svc_known (fold note_https names (classifier_new cap)) =
      take (max cap 1) (recent (rev (map service_normalise names))) \<and>
      svc_capacity (fold note_https names (classifier_new cap)) = max cap 1"
  proof (induction names rule: rev_induct)
    case Nil
    then show ?case by (simp add: classifier_new_def)
  next
    case (snoc n names)
    define st where "st = fold note_https names (classifier_new cap)"
    define R where "R = recent (rev (map service_normalise names))"
    have st: "svc_known st = take (max cap 1) R" "svc_capacity st = max cap 1"
      using snoc by (simp_all add: st_def R_def)
    have "svc_known (note_https n st) =
        (if service_normalise n \<in> set (svc_known st)
         then service_normalise n # remove1 (service_normalise n) (svc_known st)
         else if svc_capacity st < Suc (length (svc_known st))
         then butlast (service_normalise n # svc_known st) else service_normalise n # svc_known st)"
      by (simp add: note_https_def Let_def)
    also have "\<dots> = take (max cap 1) (service_normalise n # removeAll (service_normalise n) R)"
      unfolding st by (rule lru_step) (simp_all add: R_def)
    finally have "svc_known (note_https n st) =
      take (max cap 1) (service_normalise n # removeAll (service_normalise n) R)" .
    moreover have "svc_capacity (note_https n st) = max cap 1"
      using st(2) by (simp add: note_https_def Let_def)
    ultimately show ?case by (simp add: st_def [symmetric] R_def)
  qed
  then show ?thesis by (simp add: is_web_service_def classify_service_def)
qed

section \<open>Concrete instances\<close>

definition sample_stats :: "real \<Rightarrow> quality_stats" where
  "sample_stats ms = (quality_new 1)\<lparr>qs_ewma_ms := ms, qs_samples := 5, qs_successes := 5\<rparr>"

definition latency_only_config :: ranking_config where
  "latency_only_config =
     ranking_config_default\<lparr>rk_failure_penalty_ms := 0, rk_tail_weight := 0, rk_jitter_weight := 0,
       rk_uncertainty_penalty_ms := 0, rk_exploration_rate := 0\<rparr>"

definition sample_quality_map :: "ipaddr \<rightharpoonup> quality_stats" where
  "sample_quality_map = [V4 1 \<mapsto> sample_stats 50, V4 2 \<mapsto> sample_stats 10]"

theorem quality_store_bounded_witness:
  "quality_len (quality_store_record (probe_key_generic (V4 1) 443) ObsTimeout None 1 0
     ranking_config_default (quality_store_new 0)) \<le> 1"
proof -
  let ?t = "quality_store_record (probe_key_generic (V4 1) 443) ObsTimeout None 1 0
     ranking_config_default (quality_store_new 0)"
  have "quality_step\<^sup>*\<^sup>* (quality_store_new 0) ?t" by (intro r_into_rtranclp quality_step.intros(1))
  then have "quality_len ?t \<le> qst_capacity ?t" using quality_store_bounded by blast
  then show ?thesis by (simp add: quality_store_record_def quality_store_new_def Let_def)
qed

theorem quality_evict_least_sampled_witness:
  "qs_samples (quality_new 1) \<le> qs_samples (sample_stats 1)"
proof -
  let ?a = "probe_key_generic (V4 1) 443" and ?b = "probe_key_generic (V4 2) 443"
  let ?m = "[(?a, quality_new 1), (?b, sample_stats 1)]"
  have "quality_evict 1 ?m = [(?b, sample_stats 1)]"
    by (simp add: quality_evict_def sample_stats_def quality_new_def probe_key_generic_def)
  then show ?thesis
    using quality_evict_least_sampled [of ?m ?a "quality_new 1" 1 ?b "sample_stats 1"]
    by (simp add: probe_key_generic_def)
qed

lemma sample_order:
  "ord_addresses (order_addresses [V4 1, V4 2] sample_quality_map latency_only_config 0 0) = [V4 2, V4 1]"
  by (simp add: order_addresses_def score_addresses_def any_evidence_def sample_quality_map_def
      latency_only_config_def ranking_config_default_def sample_stats_def quality_new_def
      has_applicable_evidence_def expected_cost_def Let_def quality_confidence_def less_eq_prod_def)

theorem order_addresses_sound_witness:
  "leader_earned latency_only_config 0 sample_quality_map (V4 1) (V4 2)"
  using order_addresses_sound [of "[V4 1, V4 2]" sample_quality_map latency_only_config 0 0]
  by (simp add: sample_order)

theorem quality_persist_round_trip_witness:
  "\<exists>v'. quality_store_get (quality_import (quality_export
       \<lparr>qst_map = [(probe_key_generic (V4 1) 443, sample_stats 50)], qst_capacity = 4\<rparr>)
       (quality_store_new 4)) (probe_key_generic (V4 1) 443) = Some v' \<and> qs_ewma_ms v' = 50"
proof -
  let ?s = "\<lparr>qst_map = [(probe_key_generic (V4 1) 443, sample_stats 50)], qst_capacity = 4\<rparr>"
  have "store_ok ?s" using quality_ok_new [of 1] by (simp add: store_ok_def quality_ok_def sample_stats_def)
  then show ?thesis
    using quality_persist_round_trip [of ?s, OF _ refl, of "probe_key_generic (V4 1) 443"]
    by (auto simp: quality_store_get_def sample_stats_def)
qed

end
