(* ===== verification/Prefixes.thy ===== *)
theory Prefixes
  imports Config Bytes
begin

unbundle bit_operations_syntax

text \<open>
  Official prefix snapshots (\<^verbatim>\<open>cloudflare/prefixes.rs\<close>): building a snapshot, the masked membership
  test, the strict parsing of prefix lists and the sanity checks a new snapshot must pass.

  Parsing a CIDR text, the network address, the netmask and the order of networks are the \<^verbatim>\<open>ipnet\<close>
  crate's and the argument \<open>N :: cidr_lib\<close>; \<open>cidr_law N\<close> states what network address and netmask
  are and that sorting permutes. JSON decoding is serde's, so the API response enters as the
  decoded envelope.
\<close>

section \<open>Definitions\<close>

record cidr_lib =
  parse_cidr4 :: "string \<Rightarrow> ipv4net option"
  parse_cidr6 :: "string \<Rightarrow> ipv6net option"
  network4 :: "ipv4net \<Rightarrow> ipv4"
  network6 :: "ipv6net \<Rightarrow> ipv6"
  netmask4 :: "ipv4net \<Rightarrow> ipv4"
  netmask6 :: "ipv6net \<Rightarrow> ipv6"
  cidr_text4 :: "ipv4net \<Rightarrow> string"
  cidr_text6 :: "ipv6net \<Rightarrow> string"
  sort_nets4 :: "ipv4net list \<Rightarrow> ipv4net list"
  sort_nets6 :: "ipv6net list \<Rightarrow> ipv6net list"

definition cidr_law :: "cidr_lib \<Rightarrow> bool" where
  "cidr_law N \<longleftrightarrow>
     (\<forall>a l. l \<le> 32 \<longrightarrow>
        netmask4 N (a, l) = push_bit (32 - l) (mask l) \<and> network4 N (a, l) = a AND push_bit (32 - l) (mask l)) \<and>
     (\<forall>a l. l \<le> 128 \<longrightarrow>
        netmask6 N (a, l) = push_bit (128 - l) (mask l) \<and> network6 N (a, l) = a AND push_bit (128 - l) (mask l)) \<and>
     (\<forall>xs. mset (sort_nets4 N xs) = mset xs) \<and> (\<forall>xs. mset (sort_nets6 N xs) = mset xs)"

datatype prefix_source = SrcApi | SrcTextLists | SrcLocalCache | SrcBuiltin

fun prefix_source_label :: "prefix_source \<Rightarrow> string" where
  "prefix_source_label SrcApi = ''api''"
| "prefix_source_label SrcTextLists = ''text_lists''"
| "prefix_source_label SrcLocalCache = ''local_cache''"
| "prefix_source_label SrcBuiltin = ''builtin''"

record prefix_snapshot =
  ps_v4 :: "ipv4net list"
  ps_v6 :: "ipv6net list"
  ps_v4_masks :: "(ipv4 \<times> ipv4) list"
  ps_v6_masks :: "(ipv6 \<times> ipv6) list"
  ps_etag :: "string option"
  ps_fetched_unix :: u64
  ps_source :: prefix_source

record stored_snapshot =
  st_ipv4_cidrs :: "string list"
  st_ipv6_cidrs :: "string list"
  st_etag :: "string option"
  st_fetched_unix :: u64

datatype cloudflare_error = CfFetch string | CfParse string | CfTooLarge nat nat
  | CfSnapshotRejected string

definition snapshot_new ::
  "cidr_lib \<Rightarrow> ipv4net list \<Rightarrow> ipv6net list \<Rightarrow> string option \<Rightarrow> u64 \<Rightarrow> prefix_source \<Rightarrow>
     prefix_snapshot" where
  "snapshot_new N v4_0 v6_0 etag fetched src =
     (let v4 = remdups_adj (sort_nets4 N v4_0); v6 = remdups_adj (sort_nets6 N v6_0)
      in \<lparr>ps_v4 = v4, ps_v6 = v6,
          ps_v4_masks = map (\<lambda>n. (network4 N n, netmask4 N n)) v4,
          ps_v6_masks = map (\<lambda>n. (network6 N n, netmask6 N n)) v6,
          ps_etag = etag, ps_fetched_unix = fetched, ps_source = src\<rparr>)"

definition builtin_v4 :: "ipv4net list" where
  "builtin_v4 =
     [(ipv4_new 173 245 48 0, 20), (ipv4_new 103 21 244 0, 22), (ipv4_new 103 22 200 0, 22),
      (ipv4_new 103 31 4 0, 22), (ipv4_new 141 101 64 0, 18), (ipv4_new 108 162 192 0, 18),
      (ipv4_new 190 93 240 0, 20), (ipv4_new 188 114 96 0, 20), (ipv4_new 197 234 240 0, 22),
      (ipv4_new 198 41 128 0, 17), (ipv4_new 162 158 0 0, 15), (ipv4_new 104 16 0 0, 13),
      (ipv4_new 104 24 0 0, 14), (ipv4_new 172 64 0 0, 13), (ipv4_new 131 0 72 0, 22)]"

definition builtin_v6 :: "ipv6net list" where
  "builtin_v6 =
     [(0x2400cb00000000000000000000000000, 32), (0x26064700000000000000000000000000, 32),
      (0x2803f800000000000000000000000000, 32), (0x2405b500000000000000000000000000, 32),
      (0x24058100000000000000000000000000, 32), (0x2a0698c0000000000000000000000000, 29),
      (0x2c0ff248000000000000000000000000, 32)]"

definition snapshot_builtin :: "cidr_lib \<Rightarrow> prefix_snapshot" where
  "snapshot_builtin N = snapshot_new N builtin_v4 builtin_v6 None 0 SrcBuiltin"

definition snapshot_len :: "prefix_snapshot \<Rightarrow> nat" where
  "snapshot_len s = length (ps_v4 s) + length (ps_v6 s)"

fun snapshot_contains :: "prefix_snapshot \<Rightarrow> ipaddr \<Rightarrow> bool" where
  "snapshot_contains s (V4 a) = list_ex (\<lambda>(net, msk). a AND msk = net) (ps_v4_masks s)"
| "snapshot_contains s (V6 a) =
     (case to_ipv4_mapped a of
        Some _ \<Rightarrow> False
      | None \<Rightarrow> list_ex (\<lambda>(net, msk). a AND msk = net) (ps_v6_masks s))"

definition to_stored :: "cidr_lib \<Rightarrow> prefix_snapshot \<Rightarrow> stored_snapshot" where
  "to_stored N s =
     \<lparr>st_ipv4_cidrs = map (cidr_text4 N) (ps_v4 s), st_ipv6_cidrs = map (cidr_text6 N) (ps_v6 s),
      st_etag = ps_etag s, st_fetched_unix = ps_fetched_unix s\<rparr>"

text \<open>
  \<^verbatim>\<open>str::trim\<close> on ASCII text, and the common body of the two list parsers, which differ in the
  family and the range of prefix lengths. The texts of the errors leave the offending value out.
\<close>

definition ascii_space :: "char \<Rightarrow> bool" where
  "ascii_space c \<longleftrightarrow> c = CHR '' '' \<or> (9 \<le> (of_char c :: nat) \<and> (of_char c :: nat) \<le> 13)"

definition str_trim :: "string \<Rightarrow> string" where
  "str_trim s = rev (dropWhile ascii_space (rev (dropWhile ascii_space s)))"

fun parse_cidr_list ::
  "(string \<Rightarrow> ('a \<times> nat) option) \<Rightarrow> ('a \<times> nat \<Rightarrow> 'a) \<Rightarrow> ('a \<Rightarrow> special_use option) \<Rightarrow> nat \<Rightarrow> nat \<Rightarrow>
     string list \<Rightarrow> cloudflare_error + ('a \<times> nat) list" where
  "parse_cidr_list parse network cls lo hi [] = Inr []"
| "parse_cidr_list parse network cls lo hi (item # items) =
     (case parse (str_trim item) of
        None \<Rightarrow> Inl (CfParse ''invalid CIDR'')
      | Some net \<Rightarrow>
          if snd net < lo \<or> hi < snd net
          then Inl (CfParse ''prefix length outside the plausible range'')
          else if cls (network net) \<noteq> None
          then Inl (CfParse ''prefix is special-use and cannot belong to Cloudflare'')
          else
            (case parse_cidr_list parse network cls lo hi items of
               Inl e \<Rightarrow> Inl e
             | Inr out \<Rightarrow> Inr ((network net, snd net) # out)))"

definition parse_cidr_list_v4 ::
  "ipnet_lib \<Rightarrow> cidr_lib \<Rightarrow> string list \<Rightarrow> cloudflare_error + ipv4net list" where
  "parse_cidr_list_v4 L N items =
     parse_cidr_list (parse_cidr4 N) (network4 N) (classify_v4 L) 8 24 items"

definition parse_cidr_list_v6 ::
  "ipnet_lib \<Rightarrow> cidr_lib \<Rightarrow> string list \<Rightarrow> cloudflare_error + ipv6net list" where
  "parse_cidr_list_v6 L N items =
     parse_cidr_list (parse_cidr6 N) (network6 N) (classify_v6 L) 16 64 items"

definition from_stored ::
  "ipnet_lib \<Rightarrow> cidr_lib \<Rightarrow> stored_snapshot \<Rightarrow> prefix_source \<Rightarrow> cloudflare_error + prefix_snapshot" where
  "from_stored L N stored src =
     (case parse_cidr_list_v4 L N (st_ipv4_cidrs stored) of
        Inl e \<Rightarrow> Inl e
      | Inr v4 \<Rightarrow>
          (case parse_cidr_list_v6 L N (st_ipv6_cidrs stored) of
             Inl e \<Rightarrow> Inl e
           | Inr v6 \<Rightarrow> Inr (snapshot_new N v4 v6 (st_etag stored) (st_fetched_unix stored) src)))"

definition same_prefixes :: "prefix_snapshot \<Rightarrow> prefix_snapshot \<Rightarrow> bool" where
  "same_prefixes a b \<longleftrightarrow> ps_v4 a = ps_v4 b \<and> ps_v6 a = ps_v6 b"

record api_result =
  ar_ipv4_cidrs :: "string list"
  ar_ipv6_cidrs :: "string list"
  ar_etag :: "string option"

record api_envelope =
  ae_result :: "api_result option"
  ae_success :: "bool option"

definition parse_api_envelope ::
  "ipnet_lib \<Rightarrow> cidr_lib \<Rightarrow> api_envelope \<Rightarrow> u64 \<Rightarrow> cloudflare_error + prefix_snapshot" where
  "parse_api_envelope L N envelope fetched =
     (if ae_success envelope = Some False then Inl (CfParse ''API reported success=false'')
      else case ae_result envelope of
        None \<Rightarrow> Inl (CfParse ''API response had no result object'')
      | Some result \<Rightarrow>
          (case parse_cidr_list_v4 L N (ar_ipv4_cidrs result) of
             Inl e \<Rightarrow> Inl e
           | Inr v4 \<Rightarrow>
               (case parse_cidr_list_v6 L N (ar_ipv6_cidrs result) of
                  Inl e \<Rightarrow> Inl e
                | Inr v6 \<Rightarrow> Inr (snapshot_new N v4 v6 (ar_etag result) fetched SrcApi))))"

definition validate_snapshot ::
  "prefix_snapshot \<Rightarrow> prefix_snapshot option \<Rightarrow> nat \<Rightarrow> nat \<Rightarrow> cloudflare_error + unit" where
  "validate_snapshot candidate previous min_v4 min_v6 =
     (if length (ps_v4 candidate) < min_v4
      then Inl (CfSnapshotRejected ''too few IPv4 prefixes to be a plausible Cloudflare snapshot'')
      else if length (ps_v6 candidate) < min_v6
      then Inl (CfSnapshotRejected ''too few IPv6 prefixes to be a plausible Cloudflare snapshot'')
      else case previous of
        None \<Rightarrow> Inr ()
      | Some prev \<Rightarrow>
          if length (ps_v4 candidate) * 2 < length (ps_v4 prev)
          then Inl (CfSnapshotRejected ''IPv4 prefix count more than halved compared to the last valid snapshot'')
          else if ps_v6 prev \<noteq> [] \<and> length (ps_v6 candidate) * 2 < length (ps_v6 prev)
          then Inl (CfSnapshotRejected ''IPv6 prefix count more than halved compared to the last valid snapshot'')
          else Inr ())"

datatype cross_note = TextHas4 ipv4net | ApiHas4 ipv4net | TextHas6 ipv6net | ApiHas6 ipv6net

definition cross_check :: "prefix_snapshot \<Rightarrow> ipv4net list \<Rightarrow> ipv6net list \<Rightarrow> cross_note list" where
  "cross_check api text_v4 text_v6 =
     take 16
       (map TextHas4 (filter (\<lambda>n. n \<notin> set (ps_v4 api)) text_v4) @
        map ApiHas4 (filter (\<lambda>n. n \<notin> set text_v4) (ps_v4 api)) @
        map TextHas6 (filter (\<lambda>n. n \<notin> set (ps_v6 api)) text_v6) @
        map ApiHas6 (filter (\<lambda>n. n \<notin> set text_v6) (ps_v6 api)))"

definition is_cloudflare :: "prefix_snapshot option \<Rightarrow> ipaddr \<Rightarrow> bool" where
  "is_cloudflare snapshot addr = (case snapshot of Some s \<Rightarrow> snapshot_contains s addr | None \<Rightarrow> False)"

definition ipv4_address_space :: "prefix_snapshot \<Rightarrow> u64" where
  "ipv4_address_space s = sum_list (map (\<lambda>n. push_bit (32 - snd n) 1) (ps_v4 s))"

section \<open>The masked test is membership\<close>

lemma and_prefix_mask_eq_iff:
  fixes a p :: "'a::len word"
  assumes "l \<le> LENGTH('a)"
  shows "a AND push_bit (LENGTH('a) - l) (mask l) = p AND push_bit (LENGTH('a) - l) (mask l) \<longleftrightarrow>
    drop_bit (LENGTH('a) - l) a = drop_bit (LENGTH('a) - l) p"
proof -
  have m: "bit (push_bit (LENGTH('a) - l) (mask l) :: 'a word) n \<longleftrightarrow> LENGTH('a) - l \<le> n \<and> n < LENGTH('a)" for n
    using assms by (auto simp: bit_simps)
  have "a AND push_bit (LENGTH('a) - l) (mask l) = p AND push_bit (LENGTH('a) - l) (mask l) \<longleftrightarrow>
     (\<forall>n. LENGTH('a) - l \<le> n \<and> n < LENGTH('a) \<longrightarrow> (bit a n \<longleftrightarrow> bit p n))"
    by (auto simp: bit_eq_iff bit_and_iff m)
  also have "\<dots> \<longleftrightarrow> drop_bit (LENGTH('a) - l) a = drop_bit (LENGTH('a) - l) p"
  proof
    assume h: "\<forall>n. LENGTH('a) - l \<le> n \<and> n < LENGTH('a) \<longrightarrow> (bit a n \<longleftrightarrow> bit p n)"
    show "drop_bit (LENGTH('a) - l) a = drop_bit (LENGTH('a) - l) p"
    proof (rule bit_eqI)
      fix n
      show "bit (drop_bit (LENGTH('a) - l) a) n \<longleftrightarrow> bit (drop_bit (LENGTH('a) - l) p) n"
        using h [rule_format, of "LENGTH('a) - l + n"] bit_imp_le_length [of a] bit_imp_le_length [of p]
        by (auto simp: bit_drop_bit_eq)
    qed
  next
    assume "drop_bit (LENGTH('a) - l) a = drop_bit (LENGTH('a) - l) p"
    then show "\<forall>n. LENGTH('a) - l \<le> n \<and> n < LENGTH('a) \<longrightarrow> (bit a n \<longleftrightarrow> bit p n)"
      by (metis bit_drop_bit_eq comp_apply le_add_diff_inverse)
  qed
  finally show ?thesis .
qed

lemma cidr_lawD:
  assumes "cidr_law N"
  shows "l \<le> 32 \<Longrightarrow> netmask4 N (a, l) = push_bit (32 - l) (mask l)"
    "l \<le> 32 \<Longrightarrow> network4 N (a, l) = a AND push_bit (32 - l) (mask l)"
    "m \<le> 128 \<Longrightarrow> netmask6 N (b, m) = push_bit (128 - m) (mask m)"
    "m \<le> 128 \<Longrightarrow> network6 N (b, m) = b AND push_bit (128 - m) (mask m)"
    "set (sort_nets4 N xs) = set xs" "set (sort_nets6 N ys) = set ys"
proof -
  show "l \<le> 32 \<Longrightarrow> netmask4 N (a, l) = push_bit (32 - l) (mask l)"
    "l \<le> 32 \<Longrightarrow> network4 N (a, l) = a AND push_bit (32 - l) (mask l)"
    "m \<le> 128 \<Longrightarrow> netmask6 N (b, m) = push_bit (128 - m) (mask m)"
    "m \<le> 128 \<Longrightarrow> network6 N (b, m) = b AND push_bit (128 - m) (mask m)"
    using assms by (simp_all add: cidr_law_def)
  have m: "mset (sort_nets4 N xs) = mset xs" "mset (sort_nets6 N ys) = mset ys"
    using assms by (simp_all add: cidr_law_def)
  show "set (sort_nets4 N xs) = set xs" by (rule mset_eq_setD [OF m(1)])
  show "set (sort_nets6 N ys) = set ys" by (rule mset_eq_setD [OF m(2)])
qed

lemma list_ex_masks:
  "list_ex (\<lambda>(net, msk). a AND msk = net) (map (\<lambda>n. (f n, g n)) ns) \<longleftrightarrow> (\<exists>n\<in>set ns. a AND g n = f n)"
  by (auto simp: list_ex_iff)

text \<open>
  The precomputed masks decide membership: a snapshot contains an IPv4 address exactly when one
  of the networks it was built from does, and an IPv6 address exactly when one of its networks
  does and the address is not an IPv4-mapped one.
\<close>
theorem snapshot_contains_networks:
  assumes "cidr_law N" "ipnet_law L"
    and "\<forall>n\<in>set v4. snd n \<le> 32" "\<forall>n\<in>set v6. snd n \<le> 128"
  shows "(snapshot_contains (snapshot_new N v4 v6 etag fetched src) (V4 a) \<longleftrightarrow>
      (\<exists>n\<in>set v4. contains4 L n a)) \<and>
    (snapshot_contains (snapshot_new N v4 v6 etag fetched src) (V6 b) \<longleftrightarrow>
      to_ipv4_mapped b = None \<and> (\<exists>n\<in>set v6. contains6 L n b))"
proof -
  have 4: "a AND netmask4 N n = network4 N n \<longleftrightarrow> contains4 L n a" if "n \<in> set v4" for n
  proof -
    obtain p l where n: "n = (p, l)" by (cases n) auto
    then have "l \<le> 32" using that assms(3,4) by auto
    then show ?thesis
      using assms(1,2) and_prefix_mask_eq_iff [of l a p] by (simp add: n cidr_lawD contains4_law)
  qed
  have 6: "b AND netmask6 N n = network6 N n \<longleftrightarrow> contains6 L n b" if "n \<in> set v6" for n
  proof -
    obtain p l where n: "n = (p, l)" by (cases n) auto
    then have "l \<le> 128" using that assms(3,4) by auto
    then show ?thesis
      using assms(1,2) and_prefix_mask_eq_iff [of l b p] by (simp add: n cidr_lawD contains6_law)
  qed
  have "snapshot_contains (snapshot_new N v4 v6 etag fetched src) (V4 a) \<longleftrightarrow>
      (\<exists>n\<in>set v4. a AND netmask4 N n = network4 N n)"
    by (simp add: snapshot_new_def Let_def list_ex_masks cidr_lawD(5) [OF assms(1)])
  moreover have "snapshot_contains (snapshot_new N v4 v6 etag fetched src) (V6 b) \<longleftrightarrow>
      to_ipv4_mapped b = None \<and> (\<exists>n\<in>set v6. b AND netmask6 N n = network6 N n)"
    by (simp add: snapshot_new_def Let_def list_ex_masks cidr_lawD(6) [OF assms(1)] split: option.split)
  ultimately show ?thesis using 4 6 by auto
qed

section \<open>Parsing and sanity checks\<close>

lemma parse_cidr_list_accepts:
  "parse_cidr_list parse network cls lo hi items = Inr out \<Longrightarrow>
   length out = length items \<and> list_all (\<lambda>n. lo \<le> snd n \<and> snd n \<le> hi \<and> cls (fst n) = None) out"
proof (induction items arbitrary: out)
  case (Cons item items)
  then show ?case by (auto split: option.splits if_splits sum.splits)
qed simp

lemma parse_cidr_list_all_or_nothing:
  "parse_cidr_list parse network cls lo hi items = Inr out \<Longrightarrow> item \<in> set items \<Longrightarrow>
   \<exists>net. parse (str_trim item) = Some net \<and> (network net, snd net) \<in> set out"
proof (induction items arbitrary: out)
  case (Cons i items)
  then show ?case by (auto split: option.splits if_splits sum.splits)
qed simp

text \<open>
  A prefix list is taken whole or not at all: when a snapshot is accepted from the API, every
  listed CIDR is in it, with a plausible prefix length and an ordinary global network address; and
  a snapshot that passes the sanity check keeps the configured minimum and at least half of the
  prefixes of the one before.
\<close>
theorem accepted_snapshot_plausible:
  assumes "parse_api_envelope L N envelope fetched = Inr snap" "cidr_law N"
    and "validate_snapshot snap (Some prev) min_v4 min_v6 = Inr ()"
  shows "(\<exists>result. ae_result envelope = Some result \<and>
      (\<forall>item\<in>set (ar_ipv4_cidrs result). \<exists>net. parse_cidr4 N (str_trim item) = Some net \<and>
        (network4 N net, snd net) \<in> set (ps_v4 snap))) \<and>
    (\<forall>n\<in>set (ps_v4 snap). 8 \<le> snd n \<and> snd n \<le> 24 \<and> classify_v4 L (fst n) = None) \<and>
    (\<forall>n\<in>set (ps_v6 snap). 16 \<le> snd n \<and> snd n \<le> 64 \<and> classify_v6 L (fst n) = None) \<and>
    min_v4 \<le> length (ps_v4 snap) \<and> min_v6 \<le> length (ps_v6 snap) \<and>
    length (ps_v4 prev) \<le> 2 * length (ps_v4 snap) \<and> length (ps_v6 prev) \<le> 2 * length (ps_v6 snap)"
proof -
  obtain r v4 v6 where r: "ae_result envelope = Some r"
    "parse_cidr_list_v4 L N (ar_ipv4_cidrs r) = Inr v4"
    "parse_cidr_list_v6 L N (ar_ipv6_cidrs r) = Inr v6"
    "snap = snapshot_new N v4 v6 (ar_etag r) fetched SrcApi"
    using assms(1) by (auto simp: parse_api_envelope_def split: if_splits option.splits sum.splits)
  have sets: "set (ps_v4 snap) = set v4" "set (ps_v6 snap) = set v6"
    by (simp_all add: r(4) snapshot_new_def Let_def cidr_lawD(5,6) [OF assms(2)])
  have "\<forall>n\<in>set v4. 8 \<le> snd n \<and> snd n \<le> 24 \<and> classify_v4 L (fst n) = None"
    using parse_cidr_list_accepts [OF r(2) [unfolded parse_cidr_list_v4_def]] by (simp add: list_all_iff)
  moreover have "\<forall>n\<in>set v6. 16 \<le> snd n \<and> snd n \<le> 64 \<and> classify_v6 L (fst n) = None"
    using parse_cidr_list_accepts [OF r(3) [unfolded parse_cidr_list_v6_def]] by (simp add: list_all_iff)
  moreover have "\<forall>item\<in>set (ar_ipv4_cidrs r). \<exists>net. parse_cidr4 N (str_trim item) = Some net \<and>
      (network4 N net, snd net) \<in> set v4"
    using parse_cidr_list_all_or_nothing [OF r(2) [unfolded parse_cidr_list_v4_def]] by blast
  moreover have "min_v4 \<le> length (ps_v4 snap)" "min_v6 \<le> length (ps_v6 snap)"
    "length (ps_v4 prev) \<le> 2 * length (ps_v4 snap)" "length (ps_v6 prev) \<le> 2 * length (ps_v6 snap)"
    using assms(3) by (auto simp: validate_snapshot_def split: if_splits)
  ultimately show ?thesis using r(1) unfolding sets by simp
qed

section \<open>Concrete instances\<close>

definition sample_cidr :: cidr_lib where
  "sample_cidr =
     \<lparr>parse_cidr4 = (\<lambda>s. if s = ''104.16.0.0/13'' then Some (ipv4_new 104 16 0 0, 13) else None),
      parse_cidr6 = (\<lambda>_. None),
      network4 = (\<lambda>(a, l). a AND push_bit (32 - l) (mask l)),
      network6 = (\<lambda>(a, l). a AND push_bit (128 - l) (mask l)),
      netmask4 = (\<lambda>(a, l). push_bit (32 - l) (mask l)),
      netmask6 = (\<lambda>(a, l). push_bit (128 - l) (mask l)),
      cidr_text4 = (\<lambda>_. ''104.16.0.0/13''), cidr_text6 = (\<lambda>_. []),
      sort_nets4 = (\<lambda>xs. xs), sort_nets6 = (\<lambda>xs. xs)\<rparr>"

lemma cidr_law_sample: "cidr_law sample_cidr"
  by (simp add: cidr_law_def sample_cidr_def)

theorem snapshot_contains_networks_witness:
  "snapshot_contains (snapshot_builtin sample_cidr) (V4 (ipv4_new 104 20 1 2))"
proof -
  have "\<forall>n\<in>set builtin_v4. snd n \<le> 32" "\<forall>n\<in>set builtin_v6. snd n \<le> 128"
    by (simp_all add: builtin_v4_def builtin_v6_def)
  moreover have "\<exists>n\<in>set builtin_v4. contains4 prefix_lib n (ipv4_new 104 20 1 2)"
    by (simp add: builtin_v4_def prefix_lib_def ipv4_new_def)
  ultimately show ?thesis
    unfolding snapshot_builtin_def
    using snapshot_contains_networks [OF cidr_law_sample ipnet_law_prefix_lib] by blast
qed

definition sample_envelope :: api_envelope where
  "sample_envelope =
     \<lparr>ae_result = Some \<lparr>ar_ipv4_cidrs = ['' 104.16.0.0/13''], ar_ipv6_cidrs = [], ar_etag = None\<rparr>,
      ae_success = Some True\<rparr>"

definition sample_snapshot :: prefix_snapshot where
  "sample_snapshot = snapshot_new sample_cidr [(ipv4_new 104 16 0 0, 13)] [] None 7 SrcApi"

lemma sample_snapshot_parsed: "parse_api_envelope prefix_lib sample_cidr sample_envelope 7 = Inr sample_snapshot"
proof -
  have "str_trim '' 104.16.0.0/13'' = ''104.16.0.0/13''" by code_simp
  moreover have "ipv4_new 104 16 0 0 AND push_bit 19 (mask 13) = ipv4_new 104 16 0 0"
    by (simp add: ipv4_new_def mask_eq_exp_minus_1 push_bit_eq_mult)
  moreover have "classify_v4 prefix_lib (ipv4_new 104 16 0 0) = None"
    by (simp add: classify_v4_def METADATA_V4_def V4_TABLE_def prefix_lib_def ipv4_new_def)
  ultimately show ?thesis
    by (simp add: parse_api_envelope_def sample_envelope_def parse_cidr_list_v4_def
        parse_cidr_list_v6_def sample_snapshot_def sample_cidr_def)
qed

theorem accepted_snapshot_plausible_witness:
  "list_all (\<lambda>n. snd n \<le> 24) (ps_v4 sample_snapshot)"
proof -
  have "validate_snapshot sample_snapshot (Some sample_snapshot) 1 0 = Inr ()"
    by (simp add: validate_snapshot_def sample_snapshot_def snapshot_new_def sample_cidr_def)
  from accepted_snapshot_plausible [OF sample_snapshot_parsed cidr_law_sample this]
  show ?thesis unfolding list_all_iff by blast
qed

end
