(* ===== verification/AnswerPolicy.thy ===== *)
theory AnswerPolicy
  imports Quality Prefixes ClientTtl Validation
begin

text \<open>
  Answer policy: the eligibility rules of \<^verbatim>\<open>policy/cloudflare.rs\<close> and the application of policy to a
  complete response in \<^verbatim>\<open>policy/answer.rs\<close>.

  Names of records are compared by the \<^verbatim>\<open>hickory\<close> crate's equality, which is the argument
  \<open>name_eq\<close>; nothing is assumed about it. A record for an added address is built by that crate's
  \<^verbatim>\<open>Record::from_rdata\<close>, a field of \<open>P :: proto_lib\<close>.
\<close>

section \<open>Eligibility (\<^verbatim>\<open>policy/cloudflare.rs\<close>)\<close>

datatype cloudflare_mode = CfModeOff | CfModePreserve | CfModeVerifiedAugment

datatype eligibility = EligOff | EligPreserve | EligAugment

datatype fallback_reason = FbDisabled | FbNotCloudflare | FbRecordType | FbDomainExcluded
  | FbDnssecSecure | FbDnssecUnknown | FbEchUnvalidatable | FbNoBaseline | FbNoVerifiedCandidate
  | FbComplexAnswer | FbModeIsPreserve

fun fallback_label :: "fallback_reason \<Rightarrow> string" where
  "fallback_label FbDisabled = ''disabled''"
| "fallback_label FbNotCloudflare = ''not_cloudflare''"
| "fallback_label FbRecordType = ''record_type''"
| "fallback_label FbDomainExcluded = ''domain_excluded''"
| "fallback_label FbDnssecSecure = ''dnssec_secure''"
| "fallback_label FbDnssecUnknown = ''dnssec_unknown''"
| "fallback_label FbEchUnvalidatable = ''ech_unvalidatable''"
| "fallback_label FbNoBaseline = ''no_baseline''"
| "fallback_label FbNoVerifiedCandidate = ''no_verified_candidate''"
| "fallback_label FbComplexAnswer = ''complex_answer''"
| "fallback_label FbModeIsPreserve = ''mode_is_preserve''"

record eligibility_inputs =
  ei_mode :: cloudflare_mode
  ei_enabled :: bool
  ei_qtype :: rtype
  ei_dnssec :: dnssec_status
  ei_snapshot :: "prefix_snapshot option"
  ei_original :: "ipaddr list"
  ei_single_rrset :: bool
  ei_excluded :: bool
  ei_publishes_ech :: bool
  ei_can_validate_ech :: bool
  ei_baseline_validated :: bool
  ei_has_verified_candidate :: bool

definition evaluate_eligibility :: "eligibility_inputs \<Rightarrow> eligibility \<times> fallback_reason option" where
  "evaluate_eligibility i =
     (if \<not> ei_enabled i \<or> ei_mode i = CfModeOff then (EligOff, Some FbDisabled)
      else if ei_qtype i \<noteq> RT_A \<and> ei_qtype i \<noteq> RT_AAAA then (EligOff, Some FbRecordType)
      else if ei_excluded i then (EligOff, Some FbDomainExcluded)
      else case ei_snapshot i of
        None \<Rightarrow> (EligOff, Some FbNotCloudflare)
      | Some snapshot \<Rightarrow>
          if \<not> list_ex (snapshot_contains snapshot) (ei_original i) then (EligOff, Some FbNotCloudflare)
          else if ei_mode i = CfModePreserve then (EligPreserve, Some FbModeIsPreserve)
          else if \<not> ei_single_rrset i then (EligPreserve, Some FbComplexAnswer)
          else if ei_dnssec i = Secure then (EligPreserve, Some FbDnssecSecure)
          else if ei_dnssec i = Indeterminate \<or> ei_dnssec i = Bogus then (EligPreserve, Some FbDnssecUnknown)
          else if ei_publishes_ech i \<and> \<not> ei_can_validate_ech i then (EligPreserve, Some FbEchUnvalidatable)
          else if \<not> ei_baseline_validated i then (EligPreserve, Some FbNoBaseline)
          else if \<not> ei_has_verified_candidate i then (EligPreserve, Some FbNoVerifiedCandidate)
          else (EligAugment, None))"

definition ECH_KEY :: u16 where "ECH_KEY = 5"

definition publishes_ech :: "message \<Rightarrow> bool" where
  "publishes_ech msg =
     list_ex (\<lambda>r. case rr_data r of RdSvc _ params _ \<Rightarrow> ECH_KEY \<in> set params | _ \<Rightarrow> False)
       (m_answers msg @ m_additionals msg @ m_authorities msg)"

definition matches_domain :: "string \<Rightarrow> string \<Rightarrow> bool" where
  "matches_domain name pattern =
     (let p = to_ascii_lowercase (trim_end_matches CHR ''.'' pattern)
      in if p = [] then False
         else if hd p = CHR ''.''
         then name = tl p \<or> ends_with name (''.'' @ tl p)
         else name = p)"

definition is_excluded :: "string \<Rightarrow> string list \<Rightarrow> string list \<Rightarrow> bool" where
  "is_excluded name allow deny =
     (let n = to_ascii_lowercase (trim_end_matches CHR ''.'' name)
      in if list_ex (matches_domain n) deny then True
         else if allow = [] then False
         else \<not> list_ex (matches_domain n) allow)"

section \<open>Record groups (\<^verbatim>\<open>policy/answer.rs\<close>)\<close>

record verified_candidate =
  vc_addr :: ipaddr
  vc_successes :: u32
  vc_cost_ms :: real
  vc_samples :: u32
  vc_fresh :: bool

record answer_context =
  ac_qtype :: rtype
  ac_dnssec :: dnssec_status
  ac_cloudflare_enabled :: bool
  ac_cloudflare_mode :: cloudflare_mode
  ac_snapshot :: "prefix_snapshot option"
  ac_domain_excluded :: bool
  ac_baseline_validated :: bool
  ac_verified :: "verified_candidate list"
  ac_can_validate_ech :: bool
  ac_quality :: "ipaddr \<rightharpoonup> quality_stats"
  ac_ranking :: ranking_config
  ac_augment :: augment_config
  ac_ttl :: ttl_config
  ac_remaining_authoritative :: u32
  ac_remaining_signature :: "u32 option"
  ac_is_stale :: bool
  ac_recent_network_change :: bool
  ac_now :: instant
  ac_explore_seed :: u64

record answer_outcome =
  ao_cloudflare_applied :: eligibility
  ao_fallback :: "fallback_reason option"
  ao_order :: order_decision
  ao_added :: nat
  ao_client_ttl :: u32
  ao_ttl_reason :: ttl_reason
  ao_modified :: bool

definition record_address :: "rr \<Rightarrow> ipaddr option" where
  "record_address r = (case rr_data r of RdA a \<Rightarrow> Some (V4 a) | RdAAAA a \<Rightarrow> Some (V6 a) | _ \<Rightarrow> None)"

fun add_to_group ::
  "(string \<Rightarrow> string \<Rightarrow> bool) \<Rightarrow> string \<Rightarrow> nat \<Rightarrow> (string \<times> nat list) list \<Rightarrow> (string \<times> nat list) list" where
  "add_to_group name_eq name i [] = [(name, [i])]"
| "add_to_group name_eq name i ((n, idx) # gs) =
     (if name_eq n name then (n, idx @ [i]) # gs else (n, idx) # add_to_group name_eq name i gs)"

definition rrset_groups ::
  "(string \<Rightarrow> string \<Rightarrow> bool) \<Rightarrow> rr list \<Rightarrow> rtype \<Rightarrow> (string \<times> nat list) list" where
  "rrset_groups name_eq answers rtype =
     fold (\<lambda>(i, r) gs. if record_type r \<noteq> rtype then gs else add_to_group name_eq (rr_name r) i gs)
       (enumerate 0 answers) []"

text \<open>\<^verbatim>\<open>Vec::get\<close>.\<close>

definition vec_get :: "'a list \<Rightarrow> nat \<Rightarrow> 'a option" where
  "vec_get xs i = (if i < length xs then Some (xs ! i) else None)"

definition addresses_of :: "rr list \<Rightarrow> nat list \<Rightarrow> ipaddr list" where
  "addresses_of answers indices =
     List.map_filter record_address (List.map_filter (vec_get answers) indices)"

definition group_ttl :: "rr list \<Rightarrow> nat list \<Rightarrow> u32" where
  "group_ttl answers indices =
     (case map rr_ttl (List.map_filter (vec_get answers) indices) of
        [] \<Rightarrow> 0
      | t # ts \<Rightarrow> fold min ts t)"

text \<open>Take the first slot whose record has the wanted address, leaving \<open>None\<close> behind.\<close>

fun take_slot :: "ipaddr \<Rightarrow> rr option list \<Rightarrow> rr option \<times> rr option list" where
  "take_slot want [] = (None, [])"
| "take_slot want (slot # slots) =
     (if (case slot of Some r \<Rightarrow> record_address r = Some want | None \<Rightarrow> False)
      then (slot, None # slots)
      else (let (r, rest) = take_slot want slots in (r, slot # rest)))"

fun somes :: "'a option list \<Rightarrow> 'a list" where
  "somes [] = []"
| "somes (Some x # xs) = x # somes xs"
| "somes (None # xs) = somes xs"

fun place_desired :: "ipaddr list \<Rightarrow> rr option list \<Rightarrow> rr list \<Rightarrow> rr list" where
  "place_desired [] taken placed = placed @ somes taken"
| "place_desired (want # desired) taken placed =
     (case take_slot want taken of
        (Some rec, taken') \<Rightarrow> place_desired desired taken' (placed @ [rec])
      | (None, taken') \<Rightarrow> place_desired desired taken' placed)"

definition write_at :: "nat list \<Rightarrow> 'a list \<Rightarrow> 'a list \<Rightarrow> 'a list" where
  "write_at indices placed answers = fold (\<lambda>(pos, rec) as. as[pos := rec]) (zip indices placed) answers"

definition reorder_in_place :: "rr list \<Rightarrow> nat list \<Rightarrow> ipaddr list \<Rightarrow> rr list" where
  "reorder_in_place answers indices desired =
     write_at indices (place_desired desired (map (vec_get answers) indices) []) answers"

definition insert_at :: "nat \<Rightarrow> 'a \<Rightarrow> 'a list \<Rightarrow> 'a list" where
  "insert_at i x xs = take i xs @ x # drop i xs"

fun address_rdata :: "ipaddr \<Rightarrow> rtype \<Rightarrow> rdata option" where
  "address_rdata (V4 a) t = (if t = RT_A then Some (RdA a) else None)"
| "address_rdata (V6 a) t = (if t = RT_AAAA then Some (RdAAAA a) else None)"

definition prepend_addresses ::
  "proto_lib \<Rightarrow> rr list \<Rightarrow> nat list \<Rightarrow> string \<Rightarrow> u32 \<Rightarrow> ipaddr list \<Rightarrow> rtype \<Rightarrow> rr list" where
  "prepend_addresses P answers indices owner ttl addrs rtype =
     (case indices of
        [] \<Rightarrow> answers
      | first # _ \<Rightarrow>
          (let new_records =
             List.map_filter (\<lambda>a. map_option (from_rdata P owner ttl) (address_rdata a rtype)) addrs
           in fold (\<lambda>(offset, rec) as. insert_at (first + offset) rec as) (enumerate 0 new_records) answers))"

section \<open>Applying the policy\<close>

definition finish_ttl ::
  "message \<Rightarrow> answer_context \<Rightarrow> answer_outcome \<Rightarrow> bool \<Rightarrow> bool \<Rightarrow> bool \<Rightarrow> message \<times> answer_outcome" where
  "finish_ttl msg ctx outcome augmented cf_preserved optimized_multi =
     (let (ttl, reason) =
        effective_client_ttl (ac_ttl ctx)
          \<lparr>ti_remaining_authoritative = ac_remaining_authoritative ctx,
           ti_remaining_signature = ac_remaining_signature ctx,
           ti_is_stale = ac_is_stale ctx,
           ti_recent_network_change = ac_recent_network_change ctx,
           ti_cloudflare_augmented = augmented,
           ti_cloudflare_preserved = cf_preserved,
           ti_optimized_multi = optimized_multi\<rparr>
      in (cap_ttls msg ttl, outcome\<lparr>ao_client_ttl := ttl, ao_ttl_reason := reason\<rparr>))"

text \<open>The ordering loop: answers, whether any set was reordered, and the last decision.\<close>

definition order_groups ::
  "answer_context \<Rightarrow> (string \<times> nat list) list \<Rightarrow> rr list \<Rightarrow> rr list \<times> bool \<times> order_decision" where
  "order_groups ctx groups answers =
     fold (\<lambda>(_, indices) (as, any_reorder, last_decision).
         let original = addresses_of as indices
         in if length original < 2 then (as, any_reorder, last_decision)
            else
              (let ord = order_addresses original (ac_quality ctx) (ac_ranking ctx) (ac_now ctx)
                           (ac_explore_seed ctx)
               in if ord_addresses ord \<noteq> original
                  then (reorder_in_place as indices (ord_addresses ord), True, ord_decision ord)
                  else (as, any_reorder, ord_decision ord)))
       groups (answers, False, OrdDisabled)"

text \<open>\<^verbatim>\<open>fold(f64::INFINITY, f64::min)\<close>; \<open>None\<close> is the infinite cost.\<close>

definition best_original_cost :: "answer_context \<Rightarrow> ipaddr list \<Rightarrow> real option" where
  "best_original_cost ctx existing =
     fold (\<lambda>c best. Some (case best of Some b \<Rightarrow> min b c | None \<Rightarrow> c))
       (map (expected_cost (ac_ranking ctx) (ac_now ctx)) (List.map_filter (ac_quality ctx) existing)) None"

definition candidate_acceptable ::
  "ipnet_lib \<Rightarrow> answer_context \<Rightarrow> rtype \<Rightarrow> ipaddr list \<Rightarrow> verified_candidate \<Rightarrow> bool" where
  "candidate_acceptable L ctx rtype existing c =
     (vc_fresh c \<and> ag_min_validations (ac_augment ctx) \<le> vc_successes c \<and>
      ag_min_samples (ac_augment ctx) \<le> vc_samples c \<and>
      ((case vc_addr c of V4 _ \<Rightarrow> True | V6 _ \<Rightarrow> False) = (rtype = RT_A)) \<and>
      is_cloudflare (ac_snapshot ctx) (vc_addr c) \<and>
      classify L (vc_addr c) = None \<and>
      vc_addr c \<notin> set existing \<and>
      (case best_original_cost ctx existing of
         None \<Rightarrow> True
       | Some best \<Rightarrow> \<not> (best - vc_cost_ms c) / max best 1 < ag_min_advantage (ac_augment ctx)))"

fun select_candidates ::
  "ipnet_lib \<Rightarrow> answer_context \<Rightarrow> rtype \<Rightarrow> ipaddr list \<Rightarrow> verified_candidate list \<Rightarrow> ipaddr list \<Rightarrow>
     ipaddr list" where
  "select_candidates L ctx rtype existing [] to_add = to_add"
| "select_candidates L ctx rtype existing (c # cs) to_add =
     (if ag_max_added (ac_augment ctx) \<le> length to_add then to_add
      else if candidate_acceptable L ctx rtype existing c \<and> vc_addr c \<notin> set to_add
      then select_candidates L ctx rtype existing cs (to_add @ [vc_addr c])
      else select_candidates L ctx rtype existing cs to_add)"

definition apply_answer_policy ::
  "proto_lib \<Rightarrow> ipnet_lib \<Rightarrow> (string \<Rightarrow> string \<Rightarrow> bool) \<Rightarrow> message \<Rightarrow> answer_context \<Rightarrow>
     message \<times> answer_outcome" where
  "apply_answer_policy P L name_eq msg ctx =
     (let outcome0 = \<lparr>ao_cloudflare_applied = EligOff, ao_fallback = None, ao_order = OrdDisabled,
                      ao_added = 0, ao_client_ttl = 0, ao_ttl_reason = ReasonDefault,
                      ao_modified = False\<rparr>;
          rtype = ac_qtype ctx;
          groups = rrset_groups name_eq (m_answers msg) rtype
      in if (rtype \<noteq> RT_A \<and> rtype \<noteq> RT_AAAA) \<or> groups = []
         then finish_ttl msg ctx outcome0 False False False
         else
           (let final = last groups;
                (elig, fallback) = evaluate_eligibility
                  \<lparr>ei_mode = ac_cloudflare_mode ctx, ei_enabled = ac_cloudflare_enabled ctx,
                   ei_qtype = rtype, ei_dnssec = ac_dnssec ctx, ei_snapshot = ac_snapshot ctx,
                   ei_original = addresses_of (m_answers msg) (snd final),
                   ei_single_rrset = (length groups = 1), ei_excluded = ac_domain_excluded ctx,
                   ei_publishes_ech = publishes_ech msg,
                   ei_can_validate_ech = ac_can_validate_ech ctx,
                   ei_baseline_validated = ac_baseline_validated ctx,
                   ei_has_verified_candidate =
                     list_ex (\<lambda>v. vc_fresh v \<and> ag_min_validations (ac_augment ctx) \<le> vc_successes v)
                       (ac_verified ctx)\<rparr>;
                (answers1, any_reorder, last_decision) = order_groups ctx groups (m_answers msg);
                to_add = (if elig = EligAugment
                          then select_candidates L ctx rtype (addresses_of answers1 (snd final))
                                 (ac_verified ctx) []
                          else []);
                augmented = (to_add \<noteq> []);
                answers2 = (if augmented
                            then prepend_addresses P answers1 (snd final) (fst final)
                                   (group_ttl answers1 (snd final)) to_add rtype
                            else answers1);
                applied = (if elig = EligAugment \<and> \<not> augmented then EligPreserve else elig);
                fallback' = (if elig = EligAugment \<and> \<not> augmented then Some FbNoVerifiedCandidate
                             else fallback);
                cloudflare_touched = ((applied = EligPreserve \<or> applied = EligAugment) \<and>
                                      (any_reorder \<or> augmented));
                outcome1 = outcome0\<lparr>ao_cloudflare_applied := applied, ao_fallback := fallback',
                                     ao_order := last_decision, ao_added := length to_add,
                                     ao_modified := augmented\<rparr>
            in finish_ttl (msg\<lparr>m_answers := answers2\<rparr>) ctx outcome1 augmented
                 (cloudflare_touched \<and> \<not> augmented) (any_reorder \<and> \<not> cloudflare_touched)))"

section \<open>Reordering permutes\<close>

lemma somes_Cons: "somes (x # xs) = (case x of Some y \<Rightarrow> y # somes xs | None \<Rightarrow> somes xs)"
  by (cases x) simp_all

lemma somes_map_Some: "somes (map (\<lambda>x. Some (f x)) xs) = map f xs"
  by (induction xs) simp_all

lemma take_slot_mset:
  "mset (somes taken) =
     (case fst (take_slot want taken) of Some x \<Rightarrow> {#x#} | None \<Rightarrow> {#}) +
     mset (somes (snd (take_slot want taken)))"
proof (induction taken)
  case (Cons slot slots)
  show ?case
  proof (cases "case slot of Some r \<Rightarrow> record_address r = Some want | None \<Rightarrow> False")
    case True
    then obtain r where "slot = Some r" by (cases slot) simp_all
    with True show ?thesis by (simp add: somes_Cons)
  next
    case False
    then have "take_slot want (slot # slots) = (fst (take_slot want slots), slot # snd (take_slot want slots))"
      by (simp add: split_def Let_def)
    then show ?thesis using Cons by (simp add: somes_Cons split: option.split)
  qed
qed simp

lemma place_desired_mset: "mset (place_desired desired taken placed) = mset placed + mset (somes taken)"
proof (induction desired arbitrary: taken placed)
  case (Cons want desired)
  show ?case
    using take_slot_mset [of taken want]
    by (cases "take_slot want taken"; cases "fst (take_slot want taken)")
      (simp_all add: Cons.IH)
qed simp

lemma length_write_at [simp]: "length (write_at is ps as) = length as"
  unfolding write_at_def
proof (induction "is" arbitrary: ps as)
  case (Cons i "is")
  then show ?case by (cases ps) simp_all
qed simp

lemma write_at_Cons [simp]: "write_at (i # is) (p # ps) as = write_at is ps (as[i := p])"
  by (simp add: write_at_def)

lemma write_at_other: "j \<notin> set is \<Longrightarrow> write_at is ps as ! j = as ! j"
proof (induction "is" arbitrary: ps as)
  case (Cons i "is")
  then show ?case by (cases ps) (simp_all add: write_at_def)
qed (simp add: write_at_def)

lemma write_at_inside:
  "distinct is \<Longrightarrow> length ps = length is \<Longrightarrow> j \<in> set is \<Longrightarrow> \<forall>i\<in>set is. i < length as \<Longrightarrow>
   write_at is ps as ! j \<in> set ps"
proof (induction "is" arbitrary: ps as)
  case (Cons i "is")
  then obtain p qs where ps: "ps = p # qs" by (cases ps) auto
  show ?case
  proof (cases "j = i")
    case True
    then show ?thesis using Cons.prems by (simp add: ps write_at_other)
  next
    case False
    then show ?thesis using Cons.IH [of qs "as[i := p]"] Cons.prems by (simp add: ps)
  qed
qed simp

lemma write_at_mset:
  "distinct is \<Longrightarrow> length ps = length is \<Longrightarrow> \<forall>i\<in>set is. i < length as \<Longrightarrow>
   mset (write_at is ps as) + mset (map ((!) as) is) = mset as + mset ps"
proof (induction "is" arbitrary: ps as)
  case Nil
  then show ?case by (simp add: write_at_def)
next
  case (Cons i "is")
  then obtain p qs where ps: "ps = p # qs" by (cases ps) auto
  have e: "map ((!) (as[i := p])) is = map ((!) as) is"
    using Cons.prems(1) by (auto intro!: nth_list_update_neq)
  have "mset (write_at is qs (as[i := p])) + mset (map ((!) (as[i := p])) is) = mset (as[i := p]) + mset qs"
    by (rule Cons.IH) (use Cons.prems ps in simp_all)
  then have "mset (write_at is qs (as[i := p])) + mset (map ((!) as) is) = mset (as[i := p]) + mset qs"
    unfolding e .
  moreover have "mset (as[i := p]) + {#as ! i#} = mset as + {#p#}"
    using Cons.prems(3) by (simp add: mset_update)
  ultimately show ?case
    by (simp add: ps)
qed

text \<open>
  What a change of the answer section in preserve mode may do: the records are permuted, every
  position keeps its record type, and a record of another type does not move.
\<close>

definition preserved :: "rtype \<Rightarrow> rr list \<Rightarrow> rr list \<Rightarrow> bool" where
  "preserved t old new \<longleftrightarrow>
     length new = length old \<and> mset new = mset old \<and>
     (\<forall>i<length old. record_type (new ! i) = record_type (old ! i) \<and>
        (record_type (old ! i) \<noteq> t \<longrightarrow> new ! i = old ! i))"

lemma preserved_refl [simp]: "preserved t as as"
  by (simp add: preserved_def)

lemma preserved_trans: "preserved t as bs \<Longrightarrow> preserved t bs cs \<Longrightarrow> preserved t as cs"
  by (simp add: preserved_def)

definition indices_ok :: "rtype \<Rightarrow> rr list \<Rightarrow> nat list \<Rightarrow> bool" where
  "indices_ok t as is \<longleftrightarrow> distinct is \<and> (\<forall>i\<in>set is. i < length as \<and> record_type (as ! i) = t)"

lemma preserved_indices_ok: "preserved t as bs \<Longrightarrow> indices_ok t as is \<Longrightarrow> indices_ok t bs is"
  by (simp add: preserved_def indices_ok_def)

lemma reorder_in_place_preserved:
  assumes "indices_ok t as is" shows "preserved t as (reorder_in_place as is desired)"
proof -
  define ps where "ps = place_desired desired (map (vec_get as) is) []"
  have d: "distinct is" and lt: "\<forall>i\<in>set is. i < length as" and ty: "\<forall>i\<in>set is. record_type (as ! i) = t"
    using assms by (simp_all add: indices_ok_def)
  have eq: "map (vec_get as) is = map (\<lambda>i. Some (as ! i)) is"
    using lt by (simp add: vec_get_def)
  have m: "mset ps = mset (map ((!) as) is)"
    unfolding ps_def place_desired_mset eq somes_map_Some by simp
  then have len: "length ps = length is" by (metis length_map mset_eq_length)
  have set_ps: "set ps = (!) as ` set is" using mset_eq_setD [OF m] by simp
  have r: "reorder_in_place as is desired = write_at is ps as"
    by (simp only: reorder_in_place_def ps_def)
  have "mset (write_at is ps as) = mset as" using write_at_mset [OF d len lt] m by simp
  moreover have "record_type (write_at is ps as ! i) = record_type (as ! i) \<and>
      (record_type (as ! i) \<noteq> t \<longrightarrow> write_at is ps as ! i = as ! i)" for i
  proof (cases "i \<in> set is")
    case True
    then have "write_at is ps as ! i \<in> (!) as ` set is"
      using write_at_inside [OF d len True lt] set_ps by simp
    then have "record_type (write_at is ps as ! i) = t" using ty by auto
    then show ?thesis using ty True by simp
  next
    case False
    then show ?thesis by (simp add: write_at_other)
  qed
  ultimately show ?thesis unfolding r preserved_def by simp
qed

lemma add_to_group_mset:
  "mset (concat (map snd (add_to_group e n i gs))) = add_mset i (mset (concat (map snd gs)))"
  by (induction gs) auto

lemma rrset_groups_indices:
  "distinct (concat (map snd (rrset_groups e as t))) \<and>
   (\<forall>i\<in>set (concat (map snd (rrset_groups e as t))). i < length as \<and> record_type (as ! i) = t)"
proof (induction as rule: rev_induct)
  case (snoc r as)
  define gs where "gs = rrset_groups e as t"
  have IH: "distinct (concat (map snd gs))"
    "\<forall>i\<in>set (concat (map snd gs)). i < length as \<and> record_type (as ! i) = t"
    using snoc [folded gs_def] by (rule conjunct1, rule conjunct2)
  have step: "rrset_groups e (as @ [r]) t =
      (if record_type r \<noteq> t then gs else add_to_group e (rr_name r) (length as) gs)"
    by (simp add: rrset_groups_def gs_def enumerate_append_eq)
  show ?case
  proof (cases "record_type r = t")
    case True
    define c where "c = concat (map snd (add_to_group e (rr_name r) (length as) gs))"
    have m: "mset c = mset (length as # concat (map snd gs))"
      by (simp add: c_def add_to_group_mset)
    have "length as \<notin> set (concat (map snd gs))" using IH(2) by blast
    then have "distinct c" using IH(1) m by (metis distinct.simps(2) mset_eq_imp_distinct_iff)
    moreover have "set c = insert (length as) (set (concat (map snd gs)))"
      using mset_eq_setD [OF m] by simp
    ultimately show ?thesis
      using IH(2) True by (simp add: step c_def [symmetric] nth_append) (blast intro: less_SucI)
  next
    case False
    then show ?thesis using IH by (simp add: step nth_append less_SucI)
  qed
qed (simp add: rrset_groups_def)

lemma distinct_concat_member: "distinct (concat xss) \<Longrightarrow> xs \<in> set xss \<Longrightarrow> distinct xs"
  by (induction xss) auto

lemma rrset_groups_ok:
  assumes "(n, is) \<in> set (rrset_groups e as t)" shows "indices_ok t as is"
proof -
  have "is \<in> set (map snd (rrset_groups e as t))" using assms by force
  then show ?thesis
    using rrset_groups_indices [of e as t] distinct_concat_member [of "map snd (rrset_groups e as t)" "is"]
    by (auto simp: indices_ok_def)
qed

section \<open>Ordering every group\<close>

lemma order_groups_fold:
  "\<forall>(n, is)\<in>set gs. indices_ok t as0 is \<Longrightarrow> preserved t as0 as \<Longrightarrow>
   preserved t as0 (fst (fold (\<lambda>(_, indices) (as, any_reorder, last_decision).
         let original = addresses_of as indices
         in if length original < 2 then (as, any_reorder, last_decision)
            else
              (let ord = order_addresses original (ac_quality ctx) (ac_ranking ctx) (ac_now ctx)
                           (ac_explore_seed ctx)
               in if ord_addresses ord \<noteq> original
                  then (reorder_in_place as indices (ord_addresses ord), True, ord_decision ord)
                  else (as, any_reorder, ord_decision ord))) gs (as, b, d)))"
proof (induction gs arbitrary: as b d)
  case (Cons g gs)
  obtain n "is" where g: "g = (n, is)" by (cases g)
  have "indices_ok t as is" using Cons.prems g by (auto intro: preserved_indices_ok)
  then have p: "preserved t as0 (reorder_in_place as is desired)" for desired
    using preserved_trans [OF Cons.prems(2)] reorder_in_place_preserved by blast
  have rest: "\<forall>(n, is)\<in>set gs. indices_ok t as0 is" using Cons.prems(1) by simp
  show ?case
    using Cons.IH [OF rest Cons.prems(2)] Cons.IH [OF rest p]
    by (simp add: g Let_def)
qed simp

lemma order_groups_preserved:
  assumes "order_groups ctx (rrset_groups e as t) as = (as', r, d)"
  shows "preserved t as as'"
proof -
  have "\<forall>(n, is)\<in>set (rrset_groups e as t). indices_ok t as is" by (auto intro: rrset_groups_ok)
  from order_groups_fold [OF this preserved_refl, of ctx False OrdDisabled]
  show ?thesis using assms by (simp only: order_groups_def fst_conv)
qed

section \<open>Adding addresses\<close>

lemma insert_at_fold:
  assumes "first \<le> length as"
  shows "fold (\<lambda>(offset, rec) as. insert_at (first + offset) rec as) (enumerate 0 xs) as =
    take first as @ xs @ drop first as"
proof (induction xs rule: rev_induct)
  case (snoc x xs)
  have "insert_at (first + length xs) x (take first as @ xs @ drop first as) =
      take first as @ (xs @ [x]) @ drop first as"
    using assms by (simp add: insert_at_def)
  then show ?case by (simp add: enumerate_append_eq snoc)
qed simp

definition acceptable_addresses ::
  "ipnet_lib \<Rightarrow> answer_context \<Rightarrow> rtype \<Rightarrow> ipaddr list \<Rightarrow> verified_candidate list \<Rightarrow> ipaddr set" where
  "acceptable_addresses L ctx t ex cs =
     vc_addr ` set (filter (candidate_acceptable L ctx t ex) cs)"

lemma select_candidates_props:
  "distinct to_add \<Longrightarrow>
   distinct (select_candidates L ctx t ex cs to_add) \<and>
   length (select_candidates L ctx t ex cs to_add) \<le> max (length to_add) (ag_max_added (ac_augment ctx)) \<and>
   set (select_candidates L ctx t ex cs to_add) \<subseteq> set to_add \<union> acceptable_addresses L ctx t ex cs"
proof (induction cs arbitrary: to_add)
  case (Cons c cs)
  have sub: "acceptable_addresses L ctx t ex cs \<subseteq> acceptable_addresses L ctx t ex (c # cs)"
    and new: "candidate_acceptable L ctx t ex c \<Longrightarrow> vc_addr c \<in> acceptable_addresses L ctx t ex (c # cs)"
    by (auto simp: acceptable_addresses_def)
  define A where "A = acceptable_addresses L ctx t ex (c # cs)"
  show ?case
  proof (cases "ag_max_added (ac_augment ctx) \<le> length to_add")
    case True
    then show ?thesis using Cons.prems by simp
  next
    case room: False
    show ?thesis
    proof (cases "candidate_acceptable L ctx t ex c \<and> vc_addr c \<notin> set to_add")
      case True
      then have "distinct (to_add @ [vc_addr c])" "vc_addr c \<in> A" using Cons.prems new by (simp_all add: A_def)
      from Cons.IH [OF this(1)] this(2) sub True room show ?thesis
        unfolding A_def [symmetric] by auto
    next
      case False
      then show ?thesis
        using Cons.IH [OF Cons.prems] sub room unfolding A_def [symmetric] by auto
    qed
  qed
qed simp

lemma acceptable_address_facts:
  assumes "a \<in> acceptable_addresses L ctx t ex cs"
  shows "is_cloudflare (ac_snapshot ctx) a" "classify L a = None" "a \<notin> set ex"
    "t = RT_A \<or> t = RT_AAAA \<Longrightarrow> \<exists>d. address_rdata a t = Some d"
proof -
  obtain c where "a = vc_addr c" "c \<in> set (filter (candidate_acceptable L ctx t ex) cs)"
    using assms unfolding acceptable_addresses_def by (rule imageE)
  then have c: "candidate_acceptable L ctx t ex c" "vc_addr c = a" by simp_all
  then show "is_cloudflare (ac_snapshot ctx) a" "classify L a = None" "a \<notin> set ex"
    by (simp_all add: candidate_acceptable_def)
  show "\<exists>d. address_rdata a t = Some d" if "t = RT_A \<or> t = RT_AAAA"
    using c that by (cases a) (auto simp: candidate_acceptable_def rtype_defs)
qed

lemma map_filter_all_Some:
  "(\<And>x. x \<in> set xs \<Longrightarrow> f x \<noteq> None) \<Longrightarrow> List.map_filter f xs = map (the \<circ> f) xs"
  by (induction xs) (auto simp: List.map_filter_simps split: option.splits)

lemma evaluate_augment:
  "fst (evaluate_eligibility i) = EligAugment \<Longrightarrow>
   ei_dnssec i = Insecure \<and> ei_mode i = CfModeVerifiedAugment \<and> ei_enabled i \<and> \<not> ei_excluded i \<and>
   ei_single_rrset i \<and> ei_baseline_validated i \<and> (ei_publishes_ech i \<longrightarrow> ei_can_validate_ech i) \<and>
   (ei_qtype i = RT_A \<or> ei_qtype i = RT_AAAA)"
  by (cases "ei_mode i"; cases "ei_dnssec i"; cases "ei_snapshot i")
    (simp_all add: evaluate_eligibility_def split: if_splits)

lemma finish_ttl_fields:
  "fst (finish_ttl msg ctx out b c d) = cap_ttls msg (ao_client_ttl (snd (finish_ttl msg ctx out b c d)))"
  "ao_added (snd (finish_ttl msg ctx out b c d)) = ao_added out"
  "ao_modified (snd (finish_ttl msg ctx out b c d)) = ao_modified out"
  by (simp_all add: finish_ttl_def split_def Let_def)

section \<open>What the policy may do\<close>

text \<open>The candidates the policy adds, and the section it adds them to.\<close>

definition policy_additions ::
  "ipnet_lib \<Rightarrow> (string \<Rightarrow> string \<Rightarrow> bool) \<Rightarrow> message \<Rightarrow> answer_context \<Rightarrow> rr list \<Rightarrow> ipaddr list" where
  "policy_additions L name_eq msg ctx answers1 =
     (let groups = rrset_groups name_eq (m_answers msg) (ac_qtype ctx);
          final = last groups
      in if fst (evaluate_eligibility
                  \<lparr>ei_mode = ac_cloudflare_mode ctx, ei_enabled = ac_cloudflare_enabled ctx,
                   ei_qtype = ac_qtype ctx, ei_dnssec = ac_dnssec ctx, ei_snapshot = ac_snapshot ctx,
                   ei_original = addresses_of (m_answers msg) (snd final),
                   ei_single_rrset = (length groups = 1), ei_excluded = ac_domain_excluded ctx,
                   ei_publishes_ech = publishes_ech msg,
                   ei_can_validate_ech = ac_can_validate_ech ctx,
                   ei_baseline_validated = ac_baseline_validated ctx,
                   ei_has_verified_candidate =
                     list_ex (\<lambda>v. vc_fresh v \<and> ag_min_validations (ac_augment ctx) \<le> vc_successes v)
                       (ac_verified ctx)\<rparr>) = EligAugment
         then select_candidates L ctx (ac_qtype ctx) (addresses_of answers1 (snd final)) (ac_verified ctx) []
         else [])"

lemma apply_answer_policy_shape:
  fixes msg ctx e L P
  defines "gs \<equiv> rrset_groups e (m_answers msg) (ac_qtype ctx)"
  defines "as \<equiv> fst (order_groups ctx gs (m_answers msg))"
  defines "add \<equiv> policy_additions L e msg ctx as"
  assumes "apply_answer_policy P L e msg ctx = (msg', out)"
  shows "(ac_qtype ctx \<noteq> RT_A \<and> ac_qtype ctx \<noteq> RT_AAAA \<or> gs = []) \<and>
      msg' = cap_ttls msg (ao_client_ttl out) \<and> ao_added out = 0 \<and> \<not> ao_modified out \<or>
    (ac_qtype ctx = RT_A \<or> ac_qtype ctx = RT_AAAA) \<and> gs \<noteq> [] \<and>
      msg' = cap_ttls (msg\<lparr>m_answers :=
        if add = [] then as
        else prepend_addresses P as (snd (last gs)) (fst (last gs)) (group_ttl as (snd (last gs))) add
               (ac_qtype ctx)\<rparr>) (ao_client_ttl out) \<and>
      ao_added out = length add \<and> (ao_modified out \<longleftrightarrow> add \<noteq> [])"
proof -
  have m: "msg' = fst (apply_answer_policy P L e msg ctx)" "out = snd (apply_answer_policy P L e msg ctx)"
    using assms(4) by simp_all
  show ?thesis
  proof (cases "(ac_qtype ctx \<noteq> RT_A \<and> ac_qtype ctx \<noteq> RT_AAAA) \<or> gs = []")
    case True
    then have "apply_answer_policy P L e msg ctx =
        finish_ttl msg ctx \<lparr>ao_cloudflare_applied = EligOff, ao_fallback = None, ao_order = OrdDisabled,
          ao_added = 0, ao_client_ttl = 0, ao_ttl_reason = ReasonDefault, ao_modified = False\<rparr> False False False"
      by (simp only: apply_answer_policy_def Let_def gs_def if_True)
    with True show ?thesis unfolding m by (simp add: finish_ttl_fields)
  next
    case False
    then show ?thesis
      unfolding m apply_answer_policy_def Let_def gs_def [symmetric]
      by (simp add: finish_ttl_fields split_def policy_additions_def Let_def as_def add_def gs_def)
  qed
qed

lemma fst_order_groups_preserved:
  "preserved t as (fst (order_groups ctx (rrset_groups e as t) as))"
  by (cases "order_groups ctx (rrset_groups e as t) as") (auto intro: order_groups_preserved)

text \<open>
  C17. Preserve mode only permutes: when the policy adds no address, the response is the upstream
  response with the records of its answer section permuted and TTLs capped, nothing else. Every
  position keeps its record type, records of other types keep their place, and the other sections
  keep their records.
\<close>
theorem preserve_mode_permutes:
  assumes "apply_answer_policy P L e msg ctx = (msg', out)" "ao_added out = 0"
  shows "\<exists>as. preserved (ac_qtype ctx) (m_answers msg) as \<and>
    msg' = cap_ttls (msg\<lparr>m_answers := as\<rparr>) (ao_client_ttl out) \<and> \<not> ao_modified out"
proof -
  define gs where "gs = rrset_groups e (m_answers msg) (ac_qtype ctx)"
  define as where "as = fst (order_groups ctx gs (m_answers msg))"
  define add where "add = policy_additions L e msg ctx as"
  consider "msg' = cap_ttls msg (ao_client_ttl out)" "\<not> ao_modified out"
    | "msg' = cap_ttls (msg\<lparr>m_answers := as\<rparr>) (ao_client_ttl out)" "\<not> ao_modified out"
    using apply_answer_policy_shape [OF assms(1), folded gs_def, folded as_def, folded add_def] assms(2)
    by auto
  then show ?thesis
  proof cases
    case 1
    then show ?thesis by (intro exI [of _ "m_answers msg"]) simp
  next
    case 2
    have "preserved (ac_qtype ctx) (m_answers msg) as"
      unfolding as_def gs_def by (rule fst_order_groups_preserved)
    with 2 show ?thesis by blast
  qed
qed

lemma policy_additions_cases:
  assumes "policy_additions L e msg ctx as \<noteq> []"
  shows "ac_dnssec ctx = Insecure" "ac_cloudflare_mode ctx = CfModeVerifiedAugment"
    "length (rrset_groups e (m_answers msg) (ac_qtype ctx)) = 1"
    "policy_additions L e msg ctx as = select_candidates L ctx (ac_qtype ctx)
       (addresses_of as (snd (last (rrset_groups e (m_answers msg) (ac_qtype ctx))))) (ac_verified ctx) []"
proof -
  let ?gs = "rrset_groups e (m_answers msg) (ac_qtype ctx)"
  define i where "i =
                  \<lparr>ei_mode = ac_cloudflare_mode ctx, ei_enabled = ac_cloudflare_enabled ctx,
                   ei_qtype = ac_qtype ctx, ei_dnssec = ac_dnssec ctx, ei_snapshot = ac_snapshot ctx,
                   ei_original = addresses_of (m_answers msg) (snd (last ?gs)),
                   ei_single_rrset = (length ?gs = 1), ei_excluded = ac_domain_excluded ctx,
                   ei_publishes_ech = publishes_ech msg,
                   ei_can_validate_ech = ac_can_validate_ech ctx,
                   ei_baseline_validated = ac_baseline_validated ctx,
                   ei_has_verified_candidate =
                     list_ex (\<lambda>v. vc_fresh v \<and> ag_min_validations (ac_augment ctx) \<le> vc_successes v)
                       (ac_verified ctx)\<rparr>"
  have pa: "policy_additions L e msg ctx as =
     (if fst (evaluate_eligibility i) = EligAugment
      then select_candidates L ctx (ac_qtype ctx) (addresses_of as (snd (last ?gs))) (ac_verified ctx) []
      else [])"
    by (simp only: policy_additions_def Let_def i_def)
  have aug: "fst (evaluate_eligibility i) = EligAugment" using assms pa by presburger
  from evaluate_augment [OF this]
  show "ac_dnssec ctx = Insecure" "ac_cloudflare_mode ctx = CfModeVerifiedAugment" "length ?gs = 1"
    by (simp_all add: i_def)
  show "policy_additions L e msg ctx as = select_candidates L ctx (ac_qtype ctx)
       (addresses_of as (snd (last ?gs))) (ac_verified ctx) []"
    using pa aug by presburger
qed

lemma add_to_group_nonempty:
  "\<forall>g\<in>set gs. snd g \<noteq> [] \<Longrightarrow> \<forall>g\<in>set (add_to_group e n i gs). snd g \<noteq> []"
proof (induction gs)
  case (Cons g gs)
  then show ?case by (cases g; cases "e (fst g) n") simp_all
qed simp

lemma rrset_groups_nonempty: "\<forall>g\<in>set (rrset_groups e as t). snd g \<noteq> []"
proof (induction as rule: rev_induct)
  case (snoc r as)
  then show ?case by (simp add: rrset_groups_def enumerate_append_eq add_to_group_nonempty)
qed (simp add: rrset_groups_def)

lemma prepend_addresses_at:
  assumes "first < length as" "\<And>a. a \<in> set add \<Longrightarrow> \<exists>d. address_rdata a t = Some d"
  shows "prepend_addresses P as (first # is) owner ttl add t =
    take first as @ map (\<lambda>a. from_rdata P owner ttl (the (address_rdata a t))) add @ drop first as"
proof -
  have "List.map_filter (\<lambda>a. map_option (from_rdata P owner ttl) (address_rdata a t)) add =
      map (the \<circ> (\<lambda>a. map_option (from_rdata P owner ttl) (address_rdata a t))) add"
    using assms(2) by (intro map_filter_all_Some) auto
  also have "\<dots> = map (\<lambda>a. from_rdata P owner ttl (the (address_rdata a t))) add"
    using assms(2) by (intro map_cong refl) fastforce
  finally show ?thesis
    using insert_at_fold [of first as] assms(1) by (simp add: prepend_addresses_def Let_def)
qed


section \<open>Concrete instances\<close>

definition cf_answer :: message where
  "cf_answer =
     empty_message\<lparr>m_answers :=
       [\<lparr>rr_name = ''a.test.'', rr_class = CLASS_IN, rr_ttl = 60, rr_data = RdCNAME ''b.test.'',
         rr_proof = ProofInsecure\<rparr>,
        \<lparr>rr_name = ''b.test.'', rr_class = CLASS_IN, rr_ttl = 60, rr_data = RdA (ipv4_new 104 16 0 2),
         rr_proof = ProofInsecure\<rparr>]\<rparr>"

definition cf_context :: "cloudflare_mode \<Rightarrow> answer_context" where
  "cf_context mode =
     \<lparr>ac_qtype = RT_A, ac_dnssec = Insecure, ac_cloudflare_enabled = True, ac_cloudflare_mode = mode,
      ac_snapshot = Some (snapshot_new sample_cidr [(ipv4_new 104 16 0 0, 13)] [] None 7 SrcApi),
      ac_domain_excluded = False, ac_baseline_validated = True,
      ac_verified = [\<lparr>vc_addr = V4 (ipv4_new 104 16 0 9), vc_successes = 5, vc_cost_ms = 10,
                      vc_samples = 9, vc_fresh = True\<rparr>],
      ac_can_validate_ech = False, ac_quality = Map.empty, ac_ranking = ranking_config_default,
      ac_augment = augment_config_default, ac_ttl = ttl_config_default,
      ac_remaining_authoritative = 60, ac_remaining_signature = None, ac_is_stale = False,
      ac_recent_network_change = False, ac_now = 0, ac_explore_seed = 0\<rparr>"

lemma cf_groups: "rrset_groups (=) (m_answers cf_answer) RT_A = [(''b.test.'', [Suc 0])]"
  by (simp add: rrset_groups_def cf_answer_def rtype_defs)

lemma cf_addresses: "addresses_of (m_answers cf_answer) [Suc 0] = [V4 (ipv4_new 104 16 0 2)]"
  by (simp add: addresses_of_def cf_answer_def vec_get_def record_address_def List.map_filter_simps)

lemma cf_order: "fst (order_groups (cf_context mode) [(''b.test.'', [Suc 0])] (m_answers cf_answer)) = m_answers cf_answer"
  by (simp add: order_groups_def cf_addresses Let_def)

lemma cf_snapshot:
  "snapshot_contains (snapshot_new sample_cidr [(ipv4_new 104 16 0 0, 13)] [] None 7 SrcApi) (V4 (ipv4_new 104 16 0 2))"
  "snapshot_contains (snapshot_new sample_cidr [(ipv4_new 104 16 0 0, 13)] [] None 7 SrcApi) (V4 (ipv4_new 104 16 0 9))"
  by (simp_all add: snapshot_new_def sample_cidr_def ipv4_new_def mask_eq_exp_minus_1 push_bit_eq_mult)

lemma cf_candidate_class: "classify prefix_lib (V4 (ipv4_new 104 16 0 9)) = None"
  by (simp add: classify_v4_def METADATA_V4_def V4_TABLE_def prefix_lib_def ipv4_new_def)

lemma cf_addresses_differ: "ipv4_new 104 16 0 9 \<noteq> ipv4_new 104 16 0 2"
  by (simp add: ipv4_new_def)

lemma cf_additions:
  "policy_additions prefix_lib (=) cf_answer (cf_context CfModeVerifiedAugment) (m_answers cf_answer) =
     [V4 (ipv4_new 104 16 0 9)]"
  "policy_additions prefix_lib (=) cf_answer (cf_context CfModePreserve) (m_answers cf_answer) = []"
proof -
  have ctx: "ac_qtype (cf_context m) = RT_A" for m by (simp add: cf_context_def)
  have ech: "\<not> publishes_ech cf_answer"
    by (simp add: publishes_ech_def cf_answer_def empty_message_def)
  show "policy_additions prefix_lib (=) cf_answer (cf_context CfModeVerifiedAugment) (m_answers cf_answer) =
     [V4 (ipv4_new 104 16 0 9)]"
    unfolding policy_additions_def ctx cf_groups Let_def
    by (simp add: cf_addresses cf_context_def evaluate_eligibility_def cf_snapshot ech
        candidate_acceptable_def augment_config_default_def is_cloudflare_def cf_candidate_class
        cf_addresses_differ best_original_cost_def List.map_filter_simps del: classify.simps snapshot_contains.simps)
  show "policy_additions prefix_lib (=) cf_answer (cf_context CfModePreserve) (m_answers cf_answer) = []"
    unfolding policy_additions_def ctx cf_groups Let_def
    by (simp add: cf_addresses cf_context_def evaluate_eligibility_def cf_snapshot ech
        del: snapshot_contains.simps)
qed

lemma cf_added:
  assumes "apply_answer_policy P prefix_lib (=) cf_answer (cf_context mode) = (msg', out)"
  shows "ao_added out =
    length (policy_additions prefix_lib (=) cf_answer (cf_context mode) (m_answers cf_answer))"
proof -
  have q: "ac_qtype (cf_context mode) = RT_A" by (simp add: cf_context_def)
  show ?thesis
    using apply_answer_policy_shape [OF assms] unfolding q cf_groups cf_order by auto
qed

theorem preserve_mode_permutes_witness:
  "\<exists>as. preserved RT_A (m_answers cf_answer) as \<and>
    fst (apply_answer_policy list_proto prefix_lib (=) cf_answer (cf_context CfModePreserve)) =
      cap_ttls (cf_answer\<lparr>m_answers := as\<rparr>)
        (ao_client_ttl (snd (apply_answer_policy list_proto prefix_lib (=) cf_answer (cf_context CfModePreserve))))"
proof -
  obtain msg' out where
    a: "apply_answer_policy list_proto prefix_lib (=) cf_answer (cf_context CfModePreserve) = (msg', out)"
    by (cases "apply_answer_policy list_proto prefix_lib (=) cf_answer (cf_context CfModePreserve)")
  have z: "ao_added out = 0" using cf_added [OF a] cf_additions(2) by simp
  have q: "ac_qtype (cf_context CfModePreserve) = RT_A" by (simp add: cf_context_def)
  show ?thesis using preserve_mode_permutes [OF a z] unfolding a q by auto
qed


end
