(* ===== verification/Health.thy ===== *)
theory Health
  imports Quality
begin

text \<open>
  Route health and circuit breaking (\<^verbatim>\<open>upstream/health.rs\<close>): decayed outcome counters, latency
  estimates and the circuit of one route. Counters and latencies are reals, the array of recent
  samples is a list of fixed length.
\<close>

section \<open>Definitions\<close>

definition HEALTH_WINDOW :: nat where "HEALTH_WINDOW = 32"
definition HALF_LIFE :: duration where "HALF_LIFE = from_secs 120"

datatype circuit_state = Closed | Suspect | Open | HalfOpen

fun circuit_label :: "circuit_state \<Rightarrow> string" where
  "circuit_label Closed = ''closed''"
| "circuit_label Suspect = ''suspect''"
| "circuit_label Open = ''open''"
| "circuit_label HalfOpen = ''half_open''"

fun circuit_gauge :: "circuit_state \<Rightarrow> real" where
  "circuit_gauge Closed = 0"
| "circuit_gauge Suspect = 1"
| "circuit_gauge Open = 2"
| "circuit_gauge HalfOpen = 3"

datatype attempt_outcome = AoSuccess | AoTimeout | AoServerFailure | AoMalformed | AoTransportError

fun attempt_label :: "attempt_outcome \<Rightarrow> string" where
  "attempt_label AoSuccess = ''success''"
| "attempt_label AoTimeout = ''timeout''"
| "attempt_label AoServerFailure = ''server_failure''"
| "attempt_label AoMalformed = ''malformed''"
| "attempt_label AoTransportError = ''transport_error''"

definition is_failure :: "attempt_outcome \<Rightarrow> bool" where
  "is_failure o' \<longleftrightarrow> o' \<noteq> AoSuccess"

record route_health =
  rh_success :: real
  rh_timeout :: real
  rh_server_failure :: real
  rh_malformed :: real
  rh_transport_error :: real
  rh_ewma_ms :: real
  rh_jitter_ms :: real
  rh_window :: "real list"
  rh_window_len :: nat
  rh_window_pos :: nat
  rh_connect_cost_ms :: real
  rh_consecutive_failures :: u32
  rh_samples :: u64
  rh_last_update :: "instant option"
  rh_last_success :: "instant option"
  rh_circuit :: circuit_state
  rh_circuit_changed_at :: "instant option"
  rh_half_open_successes :: u32
  rh_half_open_inflight :: u32

definition health_new :: route_health where
  "health_new =
     \<lparr>rh_success = 0, rh_timeout = 0, rh_server_failure = 0, rh_malformed = 0, rh_transport_error = 0,
      rh_ewma_ms = 0, rh_jitter_ms = 0, rh_window = replicate HEALTH_WINDOW 0, rh_window_len = 0,
      rh_window_pos = 0, rh_connect_cost_ms = 0, rh_consecutive_failures = 0, rh_samples = 0,
      rh_last_update = None, rh_last_success = None, rh_circuit = Closed,
      rh_circuit_changed_at = None, rh_half_open_successes = 0, rh_half_open_inflight = 0\<rparr>"

definition health_decay :: "instant \<Rightarrow> route_health \<Rightarrow> route_health" where
  "health_decay now h =
     (case rh_last_update h of
        None \<Rightarrow> h
      | Some last_at \<Rightarrow>
          (let elapsed = as_secs_f64 (now - last_at)
           in if elapsed \<le> 0 then h
              else
                (let factor = (1 / 2) powr (elapsed / as_secs_f64 HALF_LIFE)
                 in h\<lparr>rh_success := rh_success h * factor, rh_timeout := rh_timeout h * factor,
                      rh_server_failure := rh_server_failure h * factor,
                      rh_malformed := rh_malformed h * factor,
                      rh_transport_error := rh_transport_error h * factor\<rparr>)))"

definition record_connect :: "duration \<Rightarrow> route_health \<Rightarrow> route_health" where
  "record_connect cost h =
     (let ms = as_secs_f64 cost * 1000
      in h\<lparr>rh_connect_cost_ms :=
             (if rh_connect_cost_ms h = 0 then ms else 7 / 10 * rh_connect_cost_ms h + 3 / 10 * ms)\<rparr>)"

definition record_latency :: "duration \<Rightarrow> route_health \<Rightarrow> route_health" where
  "record_latency d h =
     (let ms = as_secs_f64 d * 1000;
          h1 = (if rh_window_len h = 0 then h\<lparr>rh_ewma_ms := ms\<rparr>
                else h\<lparr>rh_jitter_ms := 3 / 4 * rh_jitter_ms h + 1 / 4 * \<bar>ms - rh_ewma_ms h\<bar>,
                       rh_ewma_ms := 3 / 4 * rh_ewma_ms h + 1 / 4 * ms\<rparr>)
      in h1\<lparr>rh_window := (rh_window h1)[rh_window_pos h1 := ms],
            rh_window_pos := (rh_window_pos h1 + 1) mod HEALTH_WINDOW,
            rh_window_len := min (rh_window_len h1 + 1) HEALTH_WINDOW\<rparr>)"

definition count_failure :: "route_health \<Rightarrow> route_health" where
  "count_failure h = h\<lparr>rh_consecutive_failures := sat_add (rh_consecutive_failures h) 1\<rparr>"

fun count_outcome :: "attempt_outcome \<Rightarrow> duration option \<Rightarrow> instant \<Rightarrow> route_health \<Rightarrow> route_health" where
  "count_outcome AoSuccess latency now h =
     (let h1 = h\<lparr>rh_success := rh_success h + 1, rh_consecutive_failures := 0,
                 rh_last_success := Some now\<rparr>
      in case latency of Some d \<Rightarrow> record_latency d h1 | None \<Rightarrow> h1)"
| "count_outcome AoTimeout latency now h = count_failure (h\<lparr>rh_timeout := rh_timeout h + 1\<rparr>)"
| "count_outcome AoServerFailure latency now h =
     count_failure (h\<lparr>rh_server_failure := rh_server_failure h + 1\<rparr>)"
| "count_outcome AoMalformed latency now h = count_failure (h\<lparr>rh_malformed := rh_malformed h + 1\<rparr>)"
| "count_outcome AoTransportError latency now h =
     count_failure (h\<lparr>rh_transport_error := rh_transport_error h + 1\<rparr>)"

definition update_circuit ::
  "attempt_outcome \<Rightarrow> instant \<Rightarrow> scheduler_config \<Rightarrow> route_health \<Rightarrow> route_health" where
  "update_circuit o' now cfg h =
     (case rh_circuit h of
        Open \<Rightarrow> h
      | HalfOpen \<Rightarrow>
          if is_failure o'
          then h\<lparr>rh_circuit := Open, rh_circuit_changed_at := Some now, rh_half_open_successes := 0\<rparr>
          else
            (let h1 = h\<lparr>rh_half_open_successes := sat_add (rh_half_open_successes h) 1\<rparr>
             in if sc_circuit_half_open_successes cfg \<le> rh_half_open_successes h1
                then h1\<lparr>rh_circuit := Closed, rh_circuit_changed_at := Some now,
                        rh_consecutive_failures := 0\<rparr>
                else h1)
      | _ \<Rightarrow>
          if is_failure o'
          then if sc_circuit_failure_threshold cfg \<le> rh_consecutive_failures h
               then h\<lparr>rh_circuit := Open, rh_circuit_changed_at := Some now,
                      rh_half_open_successes := 0, rh_half_open_inflight := 0\<rparr>
               else if 0 < rh_consecutive_failures h then h\<lparr>rh_circuit := Suspect\<rparr> else h
          else h\<lparr>rh_circuit := Closed\<rparr>)"

definition health_record ::
  "attempt_outcome \<Rightarrow> duration option \<Rightarrow> instant \<Rightarrow> scheduler_config \<Rightarrow> route_health \<Rightarrow> route_health" where
  "health_record o' latency now cfg h =
     (let h1 = health_decay now h;
          h2 = h1\<lparr>rh_samples := sat_add (rh_samples h1) 1\<rparr>;
          h3 = (count_outcome o' latency now h2)\<lparr>rh_last_update := Some now\<rparr>
      in update_circuit o' now cfg h3)"

text \<open>\<^verbatim>\<open>Duration::mul_f64\<close>, rounded to the nearest nanosecond.\<close>

definition mul_f64 :: "duration \<Rightarrow> real \<Rightarrow> duration" where
  "mul_f64 d f = nat (round (real d * f))"

definition open_wait :: "scheduler_config \<Rightarrow> u64 \<Rightarrow> duration" where
  "open_wait cfg seed =
     max (mul_f64 (sc_circuit_open_duration cfg) (1 + unit_from_seed seed * (1 / 2))) (from_millis 100)"

definition health_tick :: "instant \<Rightarrow> scheduler_config \<Rightarrow> u64 \<Rightarrow> route_health \<Rightarrow> route_health" where
  "health_tick now cfg seed h =
     (if rh_circuit h \<noteq> Open then h
      else case rh_circuit_changed_at h of
        None \<Rightarrow> h\<lparr>rh_circuit_changed_at := Some now\<rparr>
      | Some changed \<Rightarrow>
          if open_wait cfg seed \<le> now - changed
          then h\<lparr>rh_circuit := HalfOpen, rh_circuit_changed_at := Some now,
                 rh_half_open_successes := 0, rh_half_open_inflight := 0\<rparr>
          else h)"

definition is_usable :: "route_health \<Rightarrow> bool" where
  "is_usable h =
     (case rh_circuit h of
        HalfOpen \<Rightarrow> rh_half_open_inflight h = 0
      | Open \<Rightarrow> False
      | _ \<Rightarrow> True)"

definition begin_attempt :: "route_health \<Rightarrow> bool \<times> route_health" where
  "begin_attempt h =
     (if rh_circuit h = HalfOpen
      then (True, h\<lparr>rh_half_open_inflight := sat_add (rh_half_open_inflight h) 1\<rparr>)
      else (False, h))"

definition release_attempt :: "route_health \<Rightarrow> route_health" where
  "release_attempt h = h\<lparr>rh_half_open_inflight := sat_sub (rh_half_open_inflight h) 1\<rparr>"

definition health_total :: "route_health \<Rightarrow> real" where
  "health_total h =
     rh_success h + rh_timeout h + rh_server_failure h + rh_malformed h + rh_transport_error h"

definition success_probability :: "route_health \<Rightarrow> real" where
  "success_probability h =
     (let n = health_total h in if n \<le> 0 then 1 / 2 else (rh_success h + 1) / (n + 2))"

definition timeout_probability :: "route_health \<Rightarrow> real" where
  "timeout_probability h = (let n = health_total h in if n \<le> 0 then 0 else rh_timeout h / n)"

definition server_failure_probability :: "route_health \<Rightarrow> real" where
  "server_failure_probability h =
     (let n = health_total h in if n \<le> 0 then 0 else rh_server_failure h / n)"

definition malformed_probability :: "route_health \<Rightarrow> real" where
  "malformed_probability h = (let n = health_total h in if n \<le> 0 then 0 else rh_malformed h / n)"

definition health_uncertainty :: "route_health \<Rightarrow> real" where
  "health_uncertainty h =
     (let n = health_total h + 2; p = success_probability h in sqrt ((p * (1 - p)) / n))"

definition health_percentile :: "route_health \<Rightarrow> real \<Rightarrow> real" where
  "health_percentile h q = window_percentile (rh_window h) (rh_window_len h) q"

definition health_p50_ms :: "route_health \<Rightarrow> real" where
  "health_p50_ms h = health_percentile h (1 / 2)"

definition health_p95_ms :: "route_health \<Rightarrow> real" where
  "health_p95_ms h = health_percentile h (95 / 100)"

definition health_p99_ms :: "route_health \<Rightarrow> real" where
  "health_p99_ms h = health_percentile h (99 / 100)"

definition is_measured :: "route_health \<Rightarrow> bool" where
  "is_measured h \<longleftrightarrow> 0 < rh_window_len h"

definition weight_bias :: "u32 \<Rightarrow> real" where
  "weight_bias weight = 100 / real (unat (max weight 1))"

definition health_score :: "route_health \<Rightarrow> u32 \<Rightarrow> real" where
  "health_score h weight =
     (let base = (if rh_window_len h = 0 then 50 else rh_ewma_ms h);
          tail = 3 / 10 * health_p95_ms h;
          jitter = 2 / 10 * rh_jitter_ms h;
          failure = (1 - success_probability h) * 600;
          streak = (if rh_consecutive_failures h = 0 then 0
                    else 50 * real (unat (min (rh_consecutive_failures h) 8)) powr (16 / 10));
          uncertainty = health_uncertainty h * 40;
          connect = (if rh_window_len h = 0 then rh_connect_cost_ms h * (1 / 2) else 0);
          bias = 100 / real (unat (max weight 1))
      in base + tail + jitter + failure + streak + uncertainty + connect + bias)"

definition hedge_delay :: "scheduler_config \<Rightarrow> route_health \<Rightarrow> duration" where
  "hedge_delay cfg h =
     (let lo = as_secs_f64 (sc_hedge_min_delay cfg) * 1000;
          hi = as_secs_f64 (sc_hedge_max_delay cfg) * 1000;
          target = (if rh_window_len h = 0 then lo else health_percentile h (sc_hedge_percentile cfg));
          ms = min (max target lo) hi
      in from_millis (nat (max (round ms) 1)))"

section \<open>Well-formed health\<close>

definition health_ok :: "route_health \<Rightarrow> bool" where
  "health_ok h \<longleftrightarrow>
     0 \<le> rh_success h \<and> 0 \<le> rh_timeout h \<and> 0 \<le> rh_server_failure h \<and> 0 \<le> rh_malformed h \<and>
     0 \<le> rh_transport_error h \<and> 0 \<le> rh_ewma_ms h \<and> 0 \<le> rh_jitter_ms h \<and> 0 \<le> rh_connect_cost_ms h \<and>
     length (rh_window h) = HEALTH_WINDOW \<and> (\<forall>x\<in>set (rh_window h). 0 \<le> x) \<and>
     rh_window_len h \<le> HEALTH_WINDOW \<and> rh_window_pos h < HEALTH_WINDOW \<and>
     (rh_window_len h < HEALTH_WINDOW \<longrightarrow> rh_window_pos h = rh_window_len h)"

text \<open>The circuit is consistent with the streak of failures, for the thresholds in force.\<close>

definition circuit_ok :: "scheduler_config \<Rightarrow> route_health \<Rightarrow> bool" where
  "circuit_ok cfg h \<longleftrightarrow>
     (rh_circuit h = Closed \<longrightarrow> rh_consecutive_failures h = 0) \<and>
     (rh_circuit h = Suspect \<longrightarrow> 0 < rh_consecutive_failures h \<and>
        rh_consecutive_failures h < sc_circuit_failure_threshold cfg) \<and>
     (rh_circuit h = Open \<longrightarrow> rh_circuit_changed_at h \<noteq> None) \<and>
     (rh_circuit h = HalfOpen \<longrightarrow> rh_half_open_successes h = 0 \<or>
        rh_half_open_successes h < sc_circuit_half_open_successes cfg)"

inductive health_step :: "scheduler_config \<Rightarrow> route_health \<Rightarrow> route_health \<Rightarrow> bool" for cfg where
  step_record: "health_step cfg h (health_record o' latency now cfg h)"
| step_connect: "health_step cfg h (record_connect cost h)"
| step_tick: "health_step cfg h (health_tick now cfg seed h)"
| step_begin: "health_step cfg h (snd (begin_attempt h))"
| step_release: "health_step cfg h (release_attempt h)"

inductive_cases health_stepE: "health_step cfg h h'"

lemma health_ok_new: "health_ok health_new"
  by (simp add: health_ok_def health_new_def HEALTH_WINDOW_def)

lemma health_ok_decay: "health_ok h \<Longrightarrow> health_ok (health_decay now h)"
  by (cases "rh_last_update h") (simp_all add: health_decay_def Let_def health_ok_def)

lemma health_ok_latency:
  assumes "health_ok h" shows "health_ok (record_latency d h)"
proof -
  have ring: "rh_window_len h \<le> HEALTH_WINDOW" "rh_window_pos h < HEALTH_WINDOW"
    "rh_window_len h < HEALTH_WINDOW \<longrightarrow> rh_window_pos h = rh_window_len h"
    using assms by (simp_all add: health_ok_def)
  have w: "\<forall>x\<in>set ((rh_window h)[rh_window_pos h := as_secs_f64 d * 1000]). 0 \<le> x"
    by (rule update_nonneg) (use assms in \<open>simp_all add: health_ok_def\<close>)
  show ?thesis
    unfolding record_latency_def Let_def using assms w ring_step [OF ring] by (simp add: health_ok_def)
qed

lemma health_ok_count:
  assumes "health_ok h" shows "health_ok (count_outcome o' latency now h)"
proof (cases o')
  case AoSuccess
  have "health_ok (h\<lparr>rh_success := rh_success h + 1, rh_consecutive_failures := 0, rh_last_success := Some now\<rparr>)"
    using assms by (simp add: health_ok_def)
  then show ?thesis by (cases latency) (simp_all add: AoSuccess health_ok_latency)
qed (use assms in \<open>simp_all add: count_failure_def health_ok_def\<close>)

lemma health_ok_circuit: "health_ok h \<Longrightarrow> health_ok (update_circuit o' now cfg h)"
  by (cases "rh_circuit h") (simp_all add: update_circuit_def Let_def health_ok_def)

lemma health_ok_record:
  assumes "health_ok h" shows "health_ok (health_record o' latency now cfg h)"
proof -
  define h2 where "h2 = (health_decay now h)\<lparr>rh_samples := sat_add (rh_samples (health_decay now h)) 1\<rparr>"
  have "health_ok h2" using health_ok_decay [OF assms, of now] by (simp add: h2_def health_ok_def)
  then have "health_ok ((count_outcome o' latency now h2)\<lparr>rh_last_update := Some now\<rparr>)"
    using health_ok_count [of h2 o' latency now] by (simp add: health_ok_def)
  then show ?thesis unfolding health_record_def Let_def h2_def [symmetric] by (rule health_ok_circuit)
qed

section \<open>The circuit\<close>

lemma sat_add_one_pos [simp]: "0 < sat_add (x :: 'a::len word) 1"
proof -
  have "1 \<le> (2::nat) ^ LENGTH('a) - 1"
    using power_increasing [of 1 "LENGTH('a)" "2::nat"] by (simp add: Suc_le_eq)
  then have "0 < unat (sat_add x 1)" by (simp add: sat_simps)
  then show ?thesis by (simp add: word_less_nat_alt)
qed

lemma decay_fields [simp]:
  "rh_circuit (health_decay now h) = rh_circuit h"
  "rh_circuit_changed_at (health_decay now h) = rh_circuit_changed_at h"
  "rh_half_open_successes (health_decay now h) = rh_half_open_successes h"
  "rh_half_open_inflight (health_decay now h) = rh_half_open_inflight h"
  "rh_consecutive_failures (health_decay now h) = rh_consecutive_failures h"
  by (simp_all add: health_decay_def Let_def split: option.split)

lemma latency_fields [simp]:
  "rh_circuit (record_latency d h) = rh_circuit h"
  "rh_circuit_changed_at (record_latency d h) = rh_circuit_changed_at h"
  "rh_half_open_successes (record_latency d h) = rh_half_open_successes h"
  "rh_half_open_inflight (record_latency d h) = rh_half_open_inflight h"
  "rh_consecutive_failures (record_latency d h) = rh_consecutive_failures h"
  by (simp_all add: record_latency_def Let_def)

lemma count_fields [simp]:
  "rh_circuit (count_outcome o' l now h) = rh_circuit h"
  "rh_circuit_changed_at (count_outcome o' l now h) = rh_circuit_changed_at h"
  "rh_half_open_successes (count_outcome o' l now h) = rh_half_open_successes h"
  "rh_half_open_inflight (count_outcome o' l now h) = rh_half_open_inflight h"
  "rh_consecutive_failures (count_outcome o' l now h) =
     (if is_failure o' then sat_add (rh_consecutive_failures h) 1 else 0)"
  by (cases o'; cases l; simp add: Let_def count_failure_def is_failure_def)+

text \<open>The circuit after an attempt, read off the circuit before it.\<close>

lemma record_circuit:
  "rh_circuit (health_record o' l now cfg h) =
     (case rh_circuit h of
        Open \<Rightarrow> Open
      | HalfOpen \<Rightarrow> if is_failure o' then Open
          else if sc_circuit_half_open_successes cfg \<le> sat_add (rh_half_open_successes h) 1
          then Closed else HalfOpen
      | _ \<Rightarrow> if \<not> is_failure o' then Closed
          else if sc_circuit_failure_threshold cfg \<le> sat_add (rh_consecutive_failures h) 1
          then Open else Suspect)"
  by (cases "rh_circuit h") (simp_all add: health_record_def update_circuit_def Let_def)

lemma record_failures:
  "rh_consecutive_failures (health_record o' l now cfg h) =
     (if is_failure o' then sat_add (rh_consecutive_failures h) 1 else 0)"
  by (cases "rh_circuit h") (simp_all add: health_record_def update_circuit_def Let_def)

lemma record_successes:
  "rh_half_open_successes (health_record o' l now cfg h) =
     (case rh_circuit h of
        Open \<Rightarrow> rh_half_open_successes h
      | HalfOpen \<Rightarrow> if is_failure o' then 0 else sat_add (rh_half_open_successes h) 1
      | _ \<Rightarrow> if is_failure o' \<and> sc_circuit_failure_threshold cfg \<le> sat_add (rh_consecutive_failures h) 1
             then 0 else rh_half_open_successes h)"
  by (cases "rh_circuit h") (simp_all add: health_record_def update_circuit_def Let_def)

lemma record_changed_at:
  "rh_circuit (health_record o' l now cfg h) = Open \<Longrightarrow>
   rh_circuit_changed_at (health_record o' l now cfg h) =
     (if rh_circuit h = Open then rh_circuit_changed_at h else Some now)"
  by (cases "rh_circuit h") (auto simp: health_record_def update_circuit_def Let_def split: if_splits)

lemma circuit_ok_record: "circuit_ok cfg h \<Longrightarrow> circuit_ok cfg (health_record o' l now cfg h)"
  unfolding circuit_ok_def
  by (cases "rh_circuit h")
    (simp_all add: record_circuit record_failures record_successes record_changed_at not_le)

lemma circuit_ok_tick: "circuit_ok cfg h \<Longrightarrow> circuit_ok cfg (health_tick now cfg seed h)"
  by (cases "rh_circuit_changed_at h") (simp_all add: circuit_ok_def health_tick_def)

lemma health_ok_tick: "health_ok h \<Longrightarrow> health_ok (health_tick now cfg seed h)"
  by (cases "rh_circuit_changed_at h") (simp_all add: health_ok_def health_tick_def)

lemma health_inv_step:
  "health_step cfg h h' \<Longrightarrow> health_ok h \<and> circuit_ok cfg h \<Longrightarrow> health_ok h' \<and> circuit_ok cfg h'"
proof (erule health_stepE, goal_cases)
  case (1 o' latency now)
  then show ?case by (simp add: health_ok_record circuit_ok_record)
next
  case (2 cost)
  then show ?case by (simp add: record_connect_def Let_def health_ok_def circuit_ok_def)
next
  case (3 now seed)
  then show ?case by (simp add: health_ok_tick circuit_ok_tick)
next
  case 4
  then show ?case by (simp add: begin_attempt_def health_ok_def circuit_ok_def)
next
  case 5
  then show ?case by (simp add: release_attempt_def health_ok_def circuit_ok_def)
qed

interpretation health_sys: invariant_system "\<lambda>h. h = health_new" "health_step cfg"
  "\<lambda>h. health_ok h \<and> circuit_ok cfg h" for cfg
proof unfold_locales
  show "health_ok h \<and> circuit_ok cfg h" if "h = health_new" for h
    using that health_ok_new by (simp add: circuit_ok_def health_new_def)
  show "health_ok h' \<and> circuit_ok cfg h'" if "health_ok h \<and> circuit_ok cfg h" "health_step cfg h h'" for h h'
    using health_inv_step [OF that(2,1)] .
qed

lemma probability_bounds:
  assumes "health_ok h"
  shows "0 < success_probability h \<and> success_probability h < 1 \<and>
    0 \<le> timeout_probability h \<and> timeout_probability h \<le> 1 \<and>
    0 \<le> server_failure_probability h \<and> server_failure_probability h \<le> 1 \<and>
    0 \<le> malformed_probability h \<and> malformed_probability h \<le> 1"
proof -
  have nn: "0 \<le> rh_success h" "0 \<le> rh_timeout h" "0 \<le> rh_server_failure h" "0 \<le> rh_malformed h"
    "0 \<le> rh_transport_error h" using assms by (simp_all add: health_ok_def)
  then show ?thesis
    by (simp add: success_probability_def timeout_probability_def server_failure_probability_def
        malformed_probability_def Let_def health_total_def divide_less_eq_1 divide_le_eq_1)
qed

text \<open>
  C26. In every state a route can reach, its health is well typed: counters, latencies and costs are
  not negative, the ring of recent samples is consistent, the estimated probabilities are
  probabilities, and the circuit agrees with the failures seen: closed only without a streak of
  failures, suspect only below the threshold, open only with a recorded time.
\<close>
theorem health_well_formed:
  assumes "(health_step cfg)\<^sup>*\<^sup>* health_new h"
  shows "health_ok h \<and> circuit_ok cfg h \<and>
    0 < success_probability h \<and> success_probability h < 1 \<and>
    0 \<le> timeout_probability h \<and> timeout_probability h \<le> 1"
  using health_sys.reachable_inv [OF refl assms] probability_bounds [of h] by simp

section \<open>Transitions\<close>

lemma connect_fields [simp]:
  "rh_circuit (record_connect c h) = rh_circuit h" "rh_circuit (release_attempt h) = rh_circuit h"
  "rh_circuit (snd (begin_attempt h)) = rh_circuit h"
  by (simp_all add: record_connect_def release_attempt_def begin_attempt_def Let_def)

lemma tick_circuit:
  "rh_circuit (health_tick now cfg seed h) =
     (if rh_circuit h = Open \<and>
         (case rh_circuit_changed_at h of Some c \<Rightarrow> open_wait cfg seed \<le> now - c | None \<Rightarrow> False)
      then HalfOpen else rh_circuit h)"
  by (simp add: health_tick_def split: option.split)

lemma unit_from_seed_bounds: "0 \<le> unit_from_seed seed \<and> unit_from_seed seed < 1"
proof -
  define m where "m = fnv1a64 (u64_to_le_bytes seed)"
  have "unat (drop_bit 11 m) = unat m div 2 ^ 11" by (rule unat_drop_bit_div)
  moreover have "unat m < 2 ^ 64" using unat_less_pow [of m] by simp
  ultimately have lt: "unat (drop_bit 11 m) < 2 ^ 53" by (simp add: div_less_iff_less_mult)
  have frac: "0 \<le> real n / real d \<and> real n / real d < 1" if "n < d" for n d :: nat
    using that by simp
  show ?thesis
    unfolding unit_from_seed_def Let_def m_def [symmetric] by (rule frac [OF lt])
qed

lemma open_wait_bounds: "sc_circuit_open_duration cfg \<le> open_wait cfg seed" "from_millis 100 \<le> open_wait cfg seed"
proof -
  let ?d = "sc_circuit_open_duration cfg"
  have "real ?d * 1 \<le> real ?d * (1 + unit_from_seed seed * (1 / 2))"
    using unit_from_seed_bounds [of seed] by (intro mult_left_mono) simp_all
  then have "int ?d \<le> round (real ?d * (1 + unit_from_seed seed * (1 / 2)))"
    using round_mono [of "real ?d"] by (simp add: round_of_nat)
  then have "?d \<le> mul_f64 ?d (1 + unit_from_seed seed * (1 / 2))" by (simp add: mul_f64_def)
  then show "?d \<le> open_wait cfg seed" by (simp add: open_wait_def le_max_iff_disj)
  show "from_millis 100 \<le> open_wait cfg seed" by (simp add: open_wait_def)
qed


section \<open>Opening and recovery\<close>

definition record_all ::
  "scheduler_config \<Rightarrow> (attempt_outcome \<times> instant) list \<Rightarrow> route_health \<Rightarrow> route_health" where
  "record_all cfg evs h = fold (\<lambda>(o', now). health_record o' None now cfg) evs h"

lemma unat_sat_add_one: "unat (sat_add (x :: u32) 1) = min (unat x + 1) (2 ^ 32 - 1)"
  by (simp add: sat_simps)

lemma failures_until_open:
  assumes "\<forall>e\<in>set evs. is_failure (fst e)" "0 < sc_circuit_failure_threshold cfg"
  shows "unat (rh_consecutive_failures (record_all cfg evs health_new)) = min (length evs) (2 ^ 32 - 1) \<and>
    rh_circuit (record_all cfg evs health_new) =
      (if unat (sc_circuit_failure_threshold cfg) \<le> length evs then Open
       else if evs = [] then Closed else Suspect)"
  using assms(1)
proof (induction evs rule: rev_induct)
  case Nil
  then show ?case using assms(2) by (simp add: record_all_def health_new_def word_less_nat_alt)
next
  case (snoc e evs)
  define h where "h = record_all cfg evs health_new"
  have IH: "unat (rh_consecutive_failures h) = min (length evs) (2 ^ 32 - 1)"
    "rh_circuit h = (if unat (sc_circuit_failure_threshold cfg) \<le> length evs then Open
       else if evs = [] then Closed else Suspect)"
    using snoc by (simp_all add: h_def)
  have e: "is_failure (fst e)" using snoc.prems by simp
  have step: "record_all cfg (evs @ [e]) health_new = health_record (fst e) None (snd e) cfg h"
    by (simp add: record_all_def h_def split_def)
  have thr: "unat (sc_circuit_failure_threshold cfg) \<le> 2 ^ 32 - 1"
    using unat_less_pow [of "sc_circuit_failure_threshold cfg"] by simp
  have u: "unat (sat_add (rh_consecutive_failures h) 1) = min (length evs + 1) (2 ^ 32 - 1)"
    unfolding unat_sat_add_one IH(1) by simp
  have "sc_circuit_failure_threshold cfg \<le> sat_add (rh_consecutive_failures h) 1 \<longleftrightarrow>
      unat (sc_circuit_failure_threshold cfg) \<le> Suc (length evs)"
    unfolding word_le_nat_alt u using thr by auto
  then show ?case
    using e IH(2) u by (simp add: step record_circuit record_failures)
qed

text \<open>
  A fresh route's circuit opens on exactly the configured number of failures in a row: after
  any sequence of failed attempts it is open if and only if the sequence is at least that long,
  and merely suspect before.
\<close>
theorem circuit_opens_at_threshold:
  assumes "\<forall>e\<in>set evs. is_failure (fst e)" "0 < sc_circuit_failure_threshold cfg"
  shows "rh_circuit (record_all cfg evs health_new) =
      (if unat (sc_circuit_failure_threshold cfg) \<le> length evs then Open
       else if evs = [] then Closed else Suspect)"
  using failures_until_open [OF assms] by simp

lemma successes_close:
  assumes "\<forall>e\<in>set evs. \<not> is_failure (fst e)" "rh_circuit h = HalfOpen" "rh_half_open_successes h = 0"
  shows "rh_circuit (record_all cfg evs h) = Closed \<or>
    rh_circuit (record_all cfg evs h) = HalfOpen \<and>
      unat (rh_half_open_successes (record_all cfg evs h)) = min (length evs) (2 ^ 32 - 1) \<and>
      (evs \<noteq> [] \<longrightarrow> unat (rh_half_open_successes (record_all cfg evs h)) < unat (sc_circuit_half_open_successes cfg))"
  using assms(1)
proof (induction evs rule: rev_induct)
  case Nil
  then show ?case using assms(2,3) by (simp add: record_all_def)
next
  case (snoc e evs)
  define g where "g = record_all cfg evs h"
  have e: "\<not> is_failure (fst e)" using snoc.prems by simp
  have step: "record_all cfg (evs @ [e]) h = health_record (fst e) None (snd e) cfg g"
    by (simp add: record_all_def g_def split_def)
  have IH: "rh_circuit g = Closed \<or>
      rh_circuit g = HalfOpen \<and> unat (rh_half_open_successes g) = min (length evs) (2 ^ 32 - 1)"
    using snoc by (auto simp: g_def)
  then show ?case
  proof
    assume "rh_circuit g = Closed"
    then show ?thesis using e by (simp add: step record_circuit)
  next
    assume a: "rh_circuit g = HalfOpen \<and> unat (rh_half_open_successes g) = min (length evs) (2 ^ 32 - 1)"
    then have "unat (sat_add (rh_half_open_successes g) 1) = min (length (evs @ [e])) (2 ^ 32 - 1)"
      unfolding unat_sat_add_one by simp
    then show ?thesis
      using a e by (simp add: step record_circuit record_successes word_le_nat_alt not_le)
  qed
qed

text \<open>
  C28. A route recovers: once its open circuit has waited out the longest jittered open period, one
  health check makes the route usable again as half-open, and from there the configured number of
  successful attempts, at least one, closes the circuit.
\<close>
theorem circuit_recovers:
  assumes "rh_circuit h = Open" "rh_circuit_changed_at h = Some changed"
    and "open_wait cfg seed \<le> now - changed"
    and "\<forall>e\<in>set evs. \<not> is_failure (fst e)"
    and "length evs = max 1 (unat (sc_circuit_half_open_successes cfg))"
  shows "is_usable (health_tick now cfg seed h) \<and>
    rh_circuit (record_all cfg evs (health_tick now cfg seed h)) = Closed"
proof -
  define g where "g = health_tick now cfg seed h"
  have g: "rh_circuit g = HalfOpen" "rh_half_open_successes g = 0" "rh_half_open_inflight g = 0"
    using assms(1-3) by (simp_all add: g_def health_tick_def)
  have n: "unat (sc_circuit_half_open_successes cfg) \<le> 2 ^ 32 - 1"
    using unat_less_pow [of "sc_circuit_half_open_successes cfg"] by simp
  have "evs \<noteq> []" using assms(5) by auto
  then have "rh_circuit (record_all cfg evs g) = Closed"
    using successes_close [OF assms(4) g(1,2), of cfg] assms(5) n by (auto simp: min_def max_def split: if_splits)
  then show ?thesis using g by (simp add: g_def [symmetric] is_usable_def)
qed

section \<open>Hedge delay\<close>

lemma millis_f64: "as_secs_f64 (from_millis n) * 1000 = real n"
  by (simp add: as_secs_f64_def from_millis_def)

text \<open>
  The delay before a hedge is always within the configured bounds, whatever latencies were
  measured, for bounds of whole milliseconds with a positive lower one.
\<close>
theorem hedge_delay_bounds:
  assumes "sc_hedge_min_delay cfg = from_millis lo" "sc_hedge_max_delay cfg = from_millis hi"
    and "1 \<le> lo" "lo \<le> hi"
  shows "sc_hedge_min_delay cfg \<le> hedge_delay cfg h \<and> hedge_delay cfg h \<le> sc_hedge_max_delay cfg"
proof -
  define t where "t = (if rh_window_len h = 0 then real lo else health_percentile h (sc_hedge_percentile cfg))"
  define ms where "ms = min (max t (real lo)) (real hi)"
  have hd: "hedge_delay cfg h = from_millis (nat (max (round ms) 1))"
    by (simp add: hedge_delay_def Let_def assms(1,2) millis_f64 ms_def t_def)
  have "real lo \<le> ms" "ms \<le> real hi" using assms(4) by (auto simp: ms_def)
  then have "int lo \<le> round ms" "round ms \<le> int hi"
    using round_mono [of "real lo" ms] round_mono [of ms "real hi"] by (simp_all add: round_of_nat)
  then have "lo \<le> nat (max (round ms) 1)" "nat (max (round ms) 1) \<le> hi" using assms(3,4) by auto
  then show ?thesis by (simp add: hd assms(1,2) from_millis_def)
qed

section \<open>Overlapping probes\<close>

text \<open>
  A half-open circuit admits one probe at a time, but only as long as it stays half-open: when the
  failure of an earlier attempt reopens it, the next half-open period starts with an empty count,
  so a second probe is admitted while the first one is still under way, and the release of the
  first one then frees the slot of the second.
\<close>

lemma half_open_probes_overlap:
  fixes h t cfg seed
  assumes "rh_circuit h = HalfOpen" "rh_half_open_inflight h = 0"
  defines "h1 \<equiv> snd (begin_attempt h)"
  defines "h2 \<equiv> health_tick (t + open_wait cfg seed) cfg seed (health_record AoTimeout None t cfg h1)"
  defines "h3 \<equiv> snd (begin_attempt h2)"
  shows "fst (begin_attempt h)" "\<not> is_usable h1" "is_usable h2" "fst (begin_attempt h2)"
    "is_usable (release_attempt h3)"
proof -
  have one: "sat_sub (sat_add 0 1) 1 = (0 :: u32)" by (simp add: sat_sub_def sat_add_def)
  have r: "rh_circuit (health_record AoTimeout None t cfg h1) = Open"
    "rh_circuit_changed_at (health_record AoTimeout None t cfg h1) = Some t"
    using assms(1) record_changed_at [of AoTimeout None t cfg h1]
    by (simp_all add: record_circuit h1_def begin_attempt_def is_failure_def)
  then have h2: "rh_circuit h2 = HalfOpen" "rh_half_open_inflight h2 = 0"
    by (simp_all add: h2_def health_tick_def)
  show "fst (begin_attempt h)" "fst (begin_attempt h2)" "is_usable h2"
    using assms(1) h2 by (simp_all add: begin_attempt_def is_usable_def)
  show "\<not> is_usable h1"
    using assms(1,2) by (simp add: h1_def begin_attempt_def is_usable_def sat_add_def)
  show "is_usable (release_attempt h3)"
    using h2 one by (simp add: h3_def begin_attempt_def release_attempt_def is_usable_def)
qed

section \<open>Concrete instances\<close>

definition failed_once :: route_health where
  "failed_once = health_record AoTimeout None 7 scheduler_config_default health_new"

theorem health_well_formed_witness: "success_probability failed_once < 1"
proof -
  have "(health_step scheduler_config_default)\<^sup>*\<^sup>* health_new failed_once"
    unfolding failed_once_def by (intro r_into_rtranclp health_step.intros)
  from health_well_formed [OF this] show ?thesis by simp
qed


definition five_timeouts :: "(attempt_outcome \<times> instant) list" where
  "five_timeouts = [(AoTimeout, 1), (AoMalformed, 2), (AoTimeout, 3), (AoTimeout, 4), (AoTimeout, 5)]"

theorem circuit_opens_at_threshold_witness:
  "rh_circuit (record_all scheduler_config_default five_timeouts health_new) = Open"
  using circuit_opens_at_threshold [of five_timeouts scheduler_config_default]
  by (simp add: five_timeouts_def is_failure_def scheduler_config_default_def)

theorem circuit_recovers_witness:
  "rh_circuit (record_all scheduler_config_default [(AoSuccess, 8), (AoSuccess, 9)]
     (health_tick (3 + open_wait scheduler_config_default 0) scheduler_config_default 0
        (health_new\<lparr>rh_circuit := Open, rh_circuit_changed_at := Some 3\<rparr>))) = Closed"
  using circuit_recovers [of "health_new\<lparr>rh_circuit := Open, rh_circuit_changed_at := Some 3\<rparr>" 3
      scheduler_config_default 0 "3 + open_wait scheduler_config_default 0" "[(AoSuccess, 8), (AoSuccess, 9)]"]
  by (simp add: is_failure_def scheduler_config_default_def)

theorem hedge_delay_bounds_witness:
  "from_millis 20 \<le> hedge_delay scheduler_config_default failed_once \<and>
   hedge_delay scheduler_config_default failed_once \<le> from_millis 400"
  using hedge_delay_bounds [of scheduler_config_default 20 400 failed_once]
  by (simp add: scheduler_config_default_def)

end
