(* ===== verification/AddrText.thy ===== *)
theory AddrText
  imports SpecialUse
begin

text \<open>
  The standard library's text forms of addresses: \<^verbatim>\<open>Display\<close> and \<^verbatim>\<open>FromStr\<close> of
  \<^verbatim>\<open>Ipv4Addr\<close>, \<^verbatim>\<open>Ipv6Addr\<close>, \<^verbatim>\<open>IpAddr\<close> and \<^verbatim>\<open>SocketAddr\<close>, which fingerprints, route names and
  the configuration parsers use.
\<close>

section \<open>Text of addresses\<close>

definition octet :: "nat \<Rightarrow> ipv4 \<Rightarrow> nat" where
  "octet i a = unat a div 256 ^ (3 - i) mod 256"

definition ipv4_text :: "ipv4 \<Rightarrow> string" where
  "ipv4_text a =
     dec (octet 0 a) @ ''.'' @ dec (octet 1 a) @ ''.'' @ dec (octet 2 a) @ ''.'' @ dec (octet 3 a)"

definition segment :: "nat \<Rightarrow> ipv6 \<Rightarrow> nat" where
  "segment i a = unat a div 65536 ^ (7 - i) mod 65536"

definition segments :: "ipv6 \<Rightarrow> nat list" where
  "segments a = map (\<lambda>i. segment i a) [0..<8]"

fun hex_text :: "nat \<Rightarrow> string" where
  "hex_text n = (if n < 16 then [hex_digit n] else hex_text (n div 16) @ [hex_digit (n mod 16)])"

declare hex_text.simps [simp del]

fun join_with :: "string \<Rightarrow> string list \<Rightarrow> string" where
  "join_with sep [] = []"
| "join_with sep [x] = x"
| "join_with sep (x # y # ys) = x @ sep @ join_with sep (y # ys)"

text \<open>
  The longest run of zero segments, the first of several: the start and the length of the best
  run, and of the run that ends at the current position.
\<close>

fun zero_run :: "nat \<Rightarrow> nat list \<Rightarrow> nat \<times> nat \<Rightarrow> nat \<times> nat \<Rightarrow> nat \<times> nat" where
  "zero_run i [] cur best = best"
| "zero_run i (s # ss) cur best =
     (if s = 0
      then (let cur' = (if snd cur = 0 then (i, 1) else (fst cur, snd cur + 1))
            in zero_run (i + 1) ss cur' (if snd best < snd cur' then cur' else best))
      else zero_run (i + 1) ss (0, 0) best)"

definition ipv6_text :: "ipv6 \<Rightarrow> string" where
  "ipv6_text a =
     (case to_ipv4_mapped a of
        Some v4 \<Rightarrow> ''::ffff:'' @ ipv4_text v4
      | None \<Rightarrow>
          (let segs = segments a; (start, len) = zero_run 0 segs (0, 0) (0, 0);
               hex = (\<lambda>ss. join_with '':'' (map hex_text ss))
           in if 1 < len then hex (take start segs) @ ''::'' @ hex (drop (start + len) segs)
              else hex segs))"

fun ip_text :: "ipaddr \<Rightarrow> string" where
  "ip_text (V4 a) = ipv4_text a"
| "ip_text (V6 a) = ipv6_text a"

fun socket_text :: "ipaddr \<Rightarrow> u16 \<Rightarrow> string" where
  "socket_text (V4 a) port = ipv4_text a @ '':'' @ dec (unat port)"
| "socket_text (V6 a) port = ''['' @ ipv6_text a @ '']:'' @ dec (unat port)"

section \<open>Parsing of addresses\<close>

definition is_digit :: "char \<Rightarrow> bool" where
  "is_digit c \<longleftrightarrow> 48 \<le> (of_char c :: nat) \<and> (of_char c :: nat) \<le> 57"

definition hex_value :: "char \<Rightarrow> nat option" where
  "hex_value c =
     (let n = of_char c :: nat in
      if 48 \<le> n \<and> n \<le> 57 then Some (n - 48)
      else if 97 \<le> n \<and> n \<le> 102 then Some (n - 87)
      else if 65 \<le> n \<and> n \<le> 70 then Some (n - 55) else None)"

text \<open>A decimal octet has no superfluous leading zero.\<close>

definition parse_octet :: "string \<Rightarrow> nat option" where
  "parse_octet s =
     (if s \<noteq> [] \<and> length s \<le> 3 \<and> list_all is_digit s \<and> (length s = 1 \<or> hd s \<noteq> CHR ''0'') \<and>
         dec_value s \<le> 255
      then Some (dec_value s) else None)"

definition ipv4_parse :: "string \<Rightarrow> ipv4 option" where
  "ipv4_parse s =
     (case map parse_octet (split_on CHR ''.'' s) of
        [Some a, Some b, Some c, Some d] \<Rightarrow> Some (ipv4_new a b c d)
      | _ \<Rightarrow> None)"

definition parse_group :: "string \<Rightarrow> nat option" where
  "parse_group s =
     (if s \<noteq> [] \<and> length s \<le> 4 \<and> list_all (\<lambda>c. hex_value c \<noteq> None) s
      then Some (foldl (\<lambda>v c. v * 16 + the (hex_value c)) 0 s) else None)"

fun group_list :: "bool \<Rightarrow> string list \<Rightarrow> nat list option" where
  "group_list v4 [] = Some []"
| "group_list v4 [s] =
     (case parse_group s of
        Some g \<Rightarrow> Some [g]
      | None \<Rightarrow>
          if v4 then map_option (\<lambda>a. [unat a div 65536, unat a mod 65536]) (ipv4_parse s) else None)"
| "group_list v4 (s # t # ts) =
     (case (parse_group s, group_list v4 (t # ts)) of
        (Some g, Some gs) \<Rightarrow> Some (g # gs)
      | _ \<Rightarrow> None)"

definition parse_groups :: "bool \<Rightarrow> string \<Rightarrow> nat list option" where
  "parse_groups v4 s = (if s = [] then Some [] else group_list v4 (split_on CHR '':'' s))"

fun split_double_colon :: "string \<Rightarrow> (string \<times> string) option" where
  "split_double_colon (a # b # s) =
     (if a = CHR '':'' \<and> b = CHR '':'' then Some ([], s)
      else map_option (\<lambda>(h, t). (a # h, t)) (split_double_colon (b # s)))"
| "split_double_colon _ = None"

definition of_segments :: "nat list \<Rightarrow> ipv6" where
  "of_segments gs = of_nat (foldl (\<lambda>v g. v * 65536 + g) 0 gs)"

definition ipv6_parse :: "string \<Rightarrow> ipv6 option" where
  "ipv6_parse s =
     (case split_double_colon s of
        None \<Rightarrow>
          (case parse_groups True s of
             Some gs \<Rightarrow> if length gs = 8 then Some (of_segments gs) else None
           | None \<Rightarrow> None)
      | Some (h, t) \<Rightarrow>
          (case (parse_groups False h, parse_groups True t) of
             (Some hs, Some ts) \<Rightarrow>
               if length hs + length ts \<le> 7
               then Some (of_segments (hs @ replicate (8 - length hs - length ts) 0 @ ts)) else None
           | _ \<Rightarrow> None))"

definition ip_parse :: "string \<Rightarrow> ipaddr option" where
  "ip_parse s =
     (case ipv4_parse s of
        Some a \<Rightarrow> Some (V4 a)
      | None \<Rightarrow> map_option V6 (ipv6_parse s))"

definition parse_port :: "string \<Rightarrow> u16 option" where
  "parse_port s =
     (if s \<noteq> [] \<and> list_all is_digit s \<and> dec_value s < 65536 then Some (of_nat (dec_value s)) else None)"

text \<open>The scope of an IPv6 socket address, which the program does not read.\<close>

definition strip_scope :: "string \<Rightarrow> string option" where
  "strip_scope s =
     (case split_on CHR ''%'' s of
        [a] \<Rightarrow> Some a
      | [a, scope] \<Rightarrow>
          if scope \<noteq> [] \<and> list_all is_digit scope \<and> dec_value scope < 2 ^ 32 then Some a else None
      | _ \<Rightarrow> None)"

definition socket_parse :: "string \<Rightarrow> (ipaddr \<times> u16) option" where
  "socket_parse s =
     (if s \<noteq> [] \<and> hd s = CHR ''[''
      then case split_on CHR '']'' (tl s) of
             [h, t] \<Rightarrow>
               (if t \<noteq> [] \<and> hd t = CHR '':''
                then case (Option.bind (strip_scope h) ipv6_parse, parse_port (tl t)) of
                       (Some a, Some p) \<Rightarrow> Some (V6 a, p)
                     | _ \<Rightarrow> None
                else None)
           | _ \<Rightarrow> None
      else case split_on CHR '':'' s of
             [h, t] \<Rightarrow>
               (case (ipv4_parse h, parse_port t) of
                  (Some a, Some p) \<Rightarrow> Some (V4 a, p)
                | _ \<Rightarrow> None)
           | _ \<Rightarrow> None)"

section \<open>Round trip of IPv4 addresses\<close>

lemma digit_char_digit: "k < 10 \<Longrightarrow> is_digit (digit_char k)"
  by (simp add: is_digit_def digit_char_facts)

lemma digit_char_0: "k < 10 \<Longrightarrow> digit_char k = CHR ''0'' \<longleftrightarrow> k = 0"
  using digit_char_facts(1) [of k] by (auto simp: digit_char_def)

lemma dec_digits: "list_all is_digit (dec n)"
  using dec_chars by (fastforce simp: list_all_iff is_digit_def)

lemma dec_step: "10 \<le> n \<Longrightarrow> dec n = dec (n div 10) @ [digit_char (n mod 10)]"
  by (subst dec.simps) simp

lemma dec_small:
  "n < 10 \<Longrightarrow> dec n = [digit_char n]"
  "10 \<le> n \<Longrightarrow> n < 100 \<Longrightarrow> dec n = [digit_char (n div 10), digit_char (n mod 10)]"
  "100 \<le> n \<Longrightarrow> n < 1000 \<Longrightarrow>
     dec n = [digit_char (n div 100), digit_char (n div 10 mod 10), digit_char (n mod 10)]"
proof -
  show one: "n < 10 \<Longrightarrow> dec n = [digit_char n]" for n by (subst dec.simps) simp
  show two: "10 \<le> n \<Longrightarrow> n < 100 \<Longrightarrow> dec n = [digit_char (n div 10), digit_char (n mod 10)]" for n
    using dec_step [of n] one [of "n div 10"] by auto
  show "dec n = [digit_char (n div 100), digit_char (n div 10 mod 10), digit_char (n mod 10)]"
    if "100 \<le> n" "n < 1000"
  proof -
    have "10 \<le> n div 10" "n div 10 < 100" "n div 10 div 10 = n div 100"
      using that by (auto simp: div_mult2_eq [symmetric])
    then show ?thesis using that dec_step [of n] two [of "n div 10"] by simp
  qed
qed

lemma parse_octet_dec:
  assumes "n < 256"
  shows "parse_octet (dec n) = Some n"
proof -
  have "dec n \<noteq> [] \<and> length (dec n) \<le> 3 \<and> (length (dec n) = 1 \<or> hd (dec n) \<noteq> CHR ''0'')"
  proof (cases "n < 10")
    case False
    then show ?thesis
      using assms by (cases "n < 100") (auto simp: dec_small digit_char_0)
  qed (simp add: dec_small)
  then show ?thesis using assms by (simp add: parse_octet_def dec_digits dec_value_dec)
qed

lemma digits_256:
  assumes "n < 4294967296"
  shows "((n div 16777216 mod 256 * 256 + n div 65536 mod 256) * 256 + n div 256 mod 256) * 256 + n mod 256 = (n::nat)"
proof -
  have d: "n div 65536 = n div 256 div 256" "n div 16777216 = n div 256 div 256 div 256"
    by (simp_all add: div_mult2_eq [symmetric])
  have small: "n div 256 div 256 div 256 mod 256 = n div 256 div 256 div 256"
    using assms by (simp add: div_mult2_eq [symmetric])
  show ?thesis unfolding d small div_mult_mod_eq ..
qed

lemma octets_of_ipv4: "ipv4_new (octet 0 a) (octet (Suc 0) a) (octet 2 a) (octet 3 a) = a"
proof -
  have "unat a < 4294967296" using unsigned_less [of a, where 'a = nat] by simp
  then have "((octet 0 a * 256 + octet (Suc 0) a) * 256 + octet 2 a) * 256 + octet 3 a = unat a"
    using digits_256 [of "unat a"] by (simp add: octet_def)
  then show ?thesis unfolding ipv4_new_def by simp
qed

lemma ipv4_parse_text: "ipv4_parse (ipv4_text a) = Some a"
proof -
  have "octet i a < 256" for i by (simp add: octet_def)
  then show ?thesis
    by (simp add: ipv4_parse_def ipv4_text_def split_on_dec split_on_no_sep dec_no_dot parse_octet_dec
        octets_of_ipv4)
qed

lemma ipv4_text_inj: "ipv4_text a = ipv4_text b \<longleftrightarrow> a = b"
  using ipv4_parse_text by (metis option.inject)

end
