(* ===== verification/Network.thy ===== *)
theory Network
  imports AddrText
begin

unbundle bit_operations_syntax

text \<open>
  Network state and generations (\<^verbatim>\<open>network/mod.rs\<close>).

  A published snapshot is derived from a raw observation of the host; its generation advances
  exactly when the fingerprint of the observation changes. The observation itself comes from the
  operating system and is an argument.
\<close>

section \<open>Family state and snapshots\<close>

datatype family_state = FamUnknown | FamUsable | FamUnusable

fun family_label :: "family_state \<Rightarrow> string" where
  "family_label FamUnknown = ''unknown''"
| "family_label FamUsable = ''usable''"
| "family_label FamUnusable = ''unusable''"

fun family_gauge :: "family_state \<Rightarrow> real" where
  "family_gauge FamUnknown = 0"
| "family_gauge FamUsable = 1"
| "family_gauge FamUnusable = 2"

record raw_network_state =
  rn_default_iface_v4 :: "string option"
  rn_gateway_v4 :: "ipv4 option"
  rn_default_iface_v6 :: "string option"
  rn_gateway_v6 :: "ipv6 option"
  rn_source_v4 :: "ipv4 option"
  rn_source_v6 :: "ipv6 option"
  rn_global_addresses :: "string list"

definition raw_default :: raw_network_state where
  "raw_default =
     \<lparr>rn_default_iface_v4 = None, rn_gateway_v4 = None, rn_default_iface_v6 = None,
      rn_gateway_v6 = None, rn_source_v4 = None, rn_source_v6 = None, rn_global_addresses = []\<rparr>"

definition fingerprint_fields :: "raw_network_state \<Rightarrow> string list" where
  "fingerprint_fields raw =
     [case rn_default_iface_v4 raw of Some i \<Rightarrow> i | None \<Rightarrow> ''-'',
      case rn_gateway_v4 raw of Some g \<Rightarrow> ipv4_text g | None \<Rightarrow> [],
      case rn_default_iface_v6 raw of Some i \<Rightarrow> i | None \<Rightarrow> ''-'',
      case rn_gateway_v6 raw of Some g \<Rightarrow> ipv6_text g | None \<Rightarrow> [],
      case rn_source_v4 raw of Some a \<Rightarrow> ipv4_text a | None \<Rightarrow> [],
      case rn_source_v6 raw of Some a \<Rightarrow> ipv6_text a | None \<Rightarrow> []] @ rn_global_addresses raw"

definition fingerprint_buffer :: "raw_network_state \<Rightarrow> bytes" where
  "fingerprint_buffer raw = concat (map (\<lambda>s. ascii_bytes s @ [0x1f]) (fingerprint_fields raw))"

definition raw_fingerprint :: "raw_network_state \<Rightarrow> u64" where
  "raw_fingerprint raw = fnv1a64 (fingerprint_buffer raw)"

definition is_link_local_v6 :: "ipv6 \<Rightarrow> bool" where
  "is_link_local_v6 a \<longleftrightarrow> (of_nat (segment 0 a) :: u16) AND 0xffc0 = 0xfe80"

definition v4_state :: "raw_network_state \<Rightarrow> family_state" where
  "v4_state raw =
     (case (rn_default_iface_v4 raw, rn_source_v4 raw) of
        (Some _, Some addr) \<Rightarrow>
          if \<not> ip_is_loopback (V4 addr) \<and> \<not> ip_is_unspecified (V4 addr) then FamUsable else FamUnusable
      | _ \<Rightarrow> FamUnusable)"

definition v6_state :: "raw_network_state \<Rightarrow> family_state" where
  "v6_state raw =
     (case (rn_default_iface_v6 raw, rn_source_v6 raw) of
        (Some _, Some addr) \<Rightarrow>
          if \<not> ip_is_loopback (V6 addr) \<and> \<not> ip_is_unspecified (V6 addr) \<and> \<not> is_link_local_v6 addr
          then FamUsable else FamUnusable
      | _ \<Rightarrow> FamUnusable)"

record network_snapshot =
  ns_generation :: u64
  ns_v4 :: family_state
  ns_v6 :: family_state
  ns_raw :: raw_network_state
  ns_published_unix :: u64

definition snapshot_unknown :: network_snapshot where
  "snapshot_unknown =
     \<lparr>ns_generation = 1, ns_v4 = FamUnknown, ns_v6 = FamUnknown, ns_raw = raw_default,
      ns_published_unix = 0\<rparr>"

definition any_usable :: "network_snapshot \<Rightarrow> bool" where
  "any_usable s \<longleftrightarrow> ns_v4 s = FamUsable \<or> ns_v4 s = FamUnknown \<or> ns_v6 s = FamUsable \<or> ns_v6 s = FamUnknown"

definition publish_network :: "raw_network_state \<Rightarrow> u64 \<Rightarrow> network_snapshot \<Rightarrow> bool \<times> network_snapshot" where
  "publish_network raw now_unix previous =
     (let changed = (raw_fingerprint (ns_raw previous) \<noteq> raw_fingerprint raw);
          generation = (if changed then sat_add (ns_generation previous) 1 else ns_generation previous)
      in (changed,
          \<lparr>ns_generation = generation, ns_v4 = v4_state raw, ns_v6 = v6_state raw, ns_raw = raw,
           ns_published_unix = (if changed then now_unix else ns_published_unix previous)\<rparr>))"

definition in_relearn_window :: "network_snapshot \<Rightarrow> u64 \<Rightarrow> u64 \<Rightarrow> bool" where
  "in_relearn_window s now_unix window_secs \<longleftrightarrow>
     0 < ns_published_unix s \<and> sat_sub now_unix (ns_published_unix s) < window_secs"

text \<open>Every observation of a run of the detector, published in turn.\<close>

definition publish_all :: "(raw_network_state \<times> u64) list \<Rightarrow> network_snapshot" where
  "publish_all obs = fold (\<lambda>(raw, now) s. snd (publish_network raw now s)) obs snapshot_unknown"

section \<open>The fingerprint\<close>

text \<open>The number of positions of a list where the fingerprint differs from the one before.\<close>

fun path_changes :: "raw_network_state \<Rightarrow> raw_network_state list \<Rightarrow> nat" where
  "path_changes prev [] = 0"
| "path_changes prev (raw # raws) =
     (if raw_fingerprint prev \<noteq> raw_fingerprint raw then 1 else 0) + path_changes raw raws"

lemma separated_inj:
  assumes "concat (map (\<lambda>s. s @ [x]) xs) = concat (map (\<lambda>s. s @ [x]) ys)"
    and "\<forall>s\<in>set xs. x \<notin> set s" "\<forall>s\<in>set ys. x \<notin> set s"
  shows "xs = ys"
  using assms
proof (induction xs arbitrary: ys)
  case Nil
  then show ?case by (cases ys) auto
next
  case (Cons s xs)
  then obtain t ts where ys: "ys = t # ts" by (cases ys) auto
  have eq: "s @ x # concat (map (\<lambda>s. s @ [x]) xs) = t @ x # concat (map (\<lambda>s. s @ [x]) ts)"
    using Cons.prems(1) ys by simp
  have "x \<notin> set s" "x \<notin> set t" using Cons.prems ys by auto
  with eq have "s = t"
    by (auto simp: append_eq_append_conv2 Cons_eq_append_conv append_eq_Cons_conv)
  with eq have rest: "concat (map (\<lambda>s. s @ [x]) xs) = concat (map (\<lambda>s. s @ [x]) ts)" by simp
  have "xs = ts" by (rule Cons.IH [OF rest]) (use Cons.prems ys in auto)
  then show ?case using \<open>s = t\<close> ys by simp
qed

lemma ascii_bytes_inj: "ascii_bytes s = ascii_bytes t \<Longrightarrow> s = t"
proof -
  have inj: "inj (of_char :: char \<Rightarrow> u8)"
  proof (rule injI)
    fix c d :: char assume "(of_char c :: u8) = of_char d"
    then have "unat (of_char c :: u8) = unat (of_char d :: u8)" by simp
    moreover have "unat (of_char e :: u8) = of_char e" for e :: char
    proof -
      have "(of_char e :: nat) < 256" by (rule nat_of_char_less_256)
      then have "unat (of_nat (of_char e) :: u8) = of_char e" by (simp add: unat_of_nat)
      moreover have "(of_nat (of_char e) :: u8) = of_char e" by (cases e) simp
      ultimately show ?thesis by simp
    qed
    ultimately have "(of_char c :: nat) = of_char d" by simp
    then show "c = d" by simp
  qed
  assume "ascii_bytes s = ascii_bytes t"
  then show "s = t" unfolding ascii_bytes_def by (rule map_injective [OF _ inj])
qed

text \<open>
  The fingerprinted buffer separates observations: two observations with the same buffer have the
  same fields, so the same interfaces, the same texts of gateways and source addresses and the
  same global addresses, provided no field contains the separator byte.
\<close>

theorem fingerprint_buffer_separates:
  assumes "fingerprint_buffer a = fingerprint_buffer b"
    and "\<forall>s\<in>set (fingerprint_fields a) \<union> set (fingerprint_fields b). 0x1f \<notin> set (ascii_bytes s)"
  shows "fingerprint_fields a = fingerprint_fields b \<and> rn_global_addresses a = rn_global_addresses b"
proof -
  have buf: "fingerprint_buffer r = concat (map (\<lambda>s. s @ [0x1f]) (map ascii_bytes (fingerprint_fields r)))" for r
    by (simp add: fingerprint_buffer_def comp_def)
  have "map ascii_bytes (fingerprint_fields a) = map ascii_bytes (fingerprint_fields b)"
    by (rule separated_inj [OF assms(1) [unfolded buf]]) (use assms(2) in auto)
  then have "fingerprint_fields a = fingerprint_fields b"
    by (rule map_injective) (rule injI, erule ascii_bytes_inj)
  then show ?thesis by (simp add: fingerprint_fields_def)
qed

section \<open>Generations\<close>

lemma publish_network_generation:
  "unat (ns_generation (snd (publish_network raw now s))) =
     min (unat (ns_generation s) + (if raw_fingerprint (ns_raw s) \<noteq> raw_fingerprint raw then 1 else 0)) (2 ^ 64 - 1)"
  using unsigned_less [of "ns_generation s", where 'a = nat] by (simp add: publish_network_def Let_def sat_simps)

lemma publish_fold_generation:
  "unat (ns_generation (fold (\<lambda>(raw, now) s. snd (publish_network raw now s)) obs s)) =
     min (unat (ns_generation s) + path_changes (ns_raw s) (map fst obs)) (2 ^ 64 - 1)"
proof (induction obs arbitrary: s)
  case Nil
  then show ?case using unsigned_less [of "ns_generation s", where 'a = nat] by simp
next
  case (Cons ob obs)
  obtain raw now where ob: "ob = (raw, now)" by (cases ob)
  have raw: "ns_raw (snd (publish_network raw now s)) = raw" by (simp add: publish_network_def Let_def)
  show ?case
    using Cons.IH [of "snd (publish_network raw now s)"] publish_network_generation [of raw now s]
    by (simp add: ob raw)
qed

lemma publish_all_last:
  assumes "obs \<noteq> []"
  shows "ns_raw (publish_all obs) = fst (last obs)"
    and "ns_v4 (publish_all obs) = v4_state (fst (last obs))"
    and "ns_v6 (publish_all obs) = v6_state (fst (last obs))"
  using assms
  by (induction obs rule: rev_induct)
    (simp_all add: publish_all_def publish_network_def Let_def split_def)

text \<open>
  However often the network is observed, the generation is one more than the number of
  observations whose fingerprint differs from the one before (up to saturation at 64 bits), and
  the published families are those of the latest observation; republishing the observation that
  is already current changes neither generation nor publication time.
\<close>

theorem generation_counts_path_changes:
  assumes "obs \<noteq> []"
  shows "unat (ns_generation (publish_all obs)) =
           min (1 + path_changes raw_default (map fst obs)) (2 ^ 64 - 1) \<and>
         ns_v4 (publish_all obs) = v4_state (fst (last obs)) \<and>
         ns_v6 (publish_all obs) = v6_state (fst (last obs)) \<and>
         publish_network (fst (last obs)) now (publish_all obs) = (False, publish_all obs)"
proof (intro conjI)
  show "unat (ns_generation (publish_all obs)) =
      min (1 + path_changes raw_default (map fst obs)) (2 ^ 64 - 1)"
    using publish_fold_generation [of obs snapshot_unknown]
    by (simp add: publish_all_def snapshot_unknown_def)
  show "publish_network (fst (last obs)) now (publish_all obs) = (False, publish_all obs)"
    using publish_all_last [OF assms] by (simp add: publish_network_def Let_def)
qed (use publish_all_last [OF assms] in simp_all)

theorem generation_counts_path_changes_witness:
  "unat (ns_generation (publish_all [(raw_default, 5), (raw_default, 9)])) = 1"
  using generation_counts_path_changes [of "[(raw_default, 5), (raw_default, 9)]" 10] by simp

end
