(* ===== verification/Endpoints.thy ===== *)
theory Endpoints
  imports Network Prefixes
begin

text \<open>
  From the \<^verbatim>\<open>upstreams\<close> and \<^verbatim>\<open>proxies\<close> lists of the configuration to server definitions: the
  upstream section of \<^verbatim>\<open>config/mod.rs\<close> and \<^verbatim>\<open>config/defaults.rs\<close>, the proxy parser of
  \<^verbatim>\<open>config/proxy.rs\<close>, the catalog of public resolvers of \<^verbatim>\<open>config/builtins.rs\<close>, the endpoint
  parser of \<^verbatim>\<open>config/endpoint.rs\<close> and the expansion of \<^verbatim>\<open>auto\<close> in \<^verbatim>\<open>config/auto.rs\<close>.

  URIs are parsed by the \<^verbatim>\<open>url\<close> crate: the argument \<open>U\<close> of the parsers gives its result, a
  \<open>url\<close> of the components the program reads, or nothing. Error texts are constructors of
  \<open>entry_error\<close>. The free-text fields of the catalog (notes, source, date) are left out.
\<close>

section \<open>Server definitions\<close>

record ecs_scope =
  es_ipv4 :: "ipv4net option"
  es_ipv6 :: "ipv6net option"

record upstream_server_config =
  us_name :: string
  us_role :: resolver_role
  us_transport :: transport_kind
  us_addresses :: "ipaddr list"
  us_port :: "u16 option"
  us_server_name :: "string option"
  us_path :: "string option"
  us_bind_addr :: "socket_addr option"
  us_weight :: u32
  us_enabled :: bool
  us_enable_cookies :: "bool option"
  us_trust_ad :: bool
  us_ecs :: "ecs_scope option"

definition upstream_server_default :: upstream_server_config where
  "upstream_server_default =
     \<lparr>us_name = [], us_role = RoleAuthority, us_transport = Udp, us_addresses = [], us_port = None,
      us_server_name = None, us_path = None, us_bind_addr = None, us_weight = 100, us_enabled = True,
      us_enable_cookies = None, us_trust_ad = False, us_ecs = None\<rparr>"

definition effective_port :: "upstream_server_config \<Rightarrow> u16" where
  "effective_port s = (case us_port s of Some p \<Rightarrow> p | None \<Rightarrow> default_port (us_transport s))"

definition cookies_effective :: "upstream_server_config \<Rightarrow> bool" where
  "cookies_effective s =
     ((case us_enable_cookies s of Some b \<Rightarrow> b | None \<Rightarrow> True) \<and> \<not> is_encrypted (us_transport s))"

record upstream_tls_config =
  ut_use_system_roots :: bool
  ut_extra_ca_files :: "string list"
  ut_session_resumption :: bool
  ut_quic_zero_rtt :: bool

definition upstream_tls_default :: upstream_tls_config where
  "upstream_tls_default =
     \<lparr>ut_use_system_roots = True, ut_extra_ca_files = [], ut_session_resumption = True,
      ut_quic_zero_rtt = False\<rparr>"

record upstream_group_config =
  ug_name :: string
  ug_servers :: "upstream_server_config list"
  ug_scheduler :: scheduler_config

definition default_upstreams :: "upstream_server_config list" where
  "default_upstreams =
     [upstream_server_default\<lparr>us_name := ''cloudflare-dot'', us_transport := Dot,
        us_addresses := [V4 (ipv4_new 1 1 1 1), V4 (ipv4_new 1 0 0 1)],
        us_server_name := Some ''cloudflare-dns.com''\<rparr>,
      upstream_server_default\<lparr>us_name := ''quad9-dot'', us_transport := Dot,
        us_addresses := [V4 (ipv4_new 9 9 9 9), V4 (ipv4_new 149 112 112 112)],
        us_server_name := Some ''dns.quad9.net''\<rparr>]"

definition upstream_group_default :: upstream_group_config where
  "upstream_group_default =
     \<lparr>ug_name = ''default'', ug_servers = default_upstreams, ug_scheduler = scheduler_config_default\<rparr>"

record upstream_config =
  uc_default_group :: string
  uc_groups :: "upstream_group_config list"
  uc_tls :: upstream_tls_config

definition upstream_config_default :: upstream_config where
  "upstream_config_default =
     \<lparr>uc_default_group = ''default'', uc_groups = [upstream_group_default],
      uc_tls = upstream_tls_default\<rparr>"

section \<open>Text helpers of the standard library\<close>

definition starts_with :: "string \<Rightarrow> string \<Rightarrow> bool" where
  "starts_with s t \<longleftrightarrow> take (length t) s = t"

definition trim_start_matches :: "char \<Rightarrow> string \<Rightarrow> string" where
  "trim_start_matches c s = dropWhile (\<lambda>x. x = c) s"

text \<open>\<^verbatim>\<open>trim_start_matches\<close> with a string pattern, which here is never empty.\<close>

function trim_start_str :: "string \<Rightarrow> string \<Rightarrow> string" where
  "trim_start_str t s =
     (if t \<noteq> [] \<and> starts_with s t then trim_start_str t (drop (length t) s) else s)"
  by pat_completeness auto
termination
proof (relation "measure (\<lambda>(t, s). length s)", simp_all)
  fix t s :: string
  assume "t \<noteq> [] \<and> starts_with s t"
  then have "0 < length t" "length t \<le> length s"
    by (auto simp: starts_with_def dest: arg_cong [where f = length])
  then show "length s - length t < length s"
    using diff_less [of "length t" "length s"] by linarith
qed

declare trim_start_str.simps [simp del]

definition contains_str :: "string \<Rightarrow> string \<Rightarrow> bool" where
  "contains_str s t = list_ex (\<lambda>i. starts_with (drop i s) t) [0..<length s + 1]"

section \<open>Proxies (\<^verbatim>\<open>config/proxy.rs\<close>)\<close>

datatype entry_error =
    EmptyEntry | NotUri | UnsupportedScheme | NoHost | HasPath | DuplicateProxy | UnknownEntry
  | BadAddrHint | UnsupportedParameter | PlaintextHttp | UnknownProfile | NoIdentity | NoUpstreams

record url =
  url_scheme :: string
  url_host_str :: "string option"
  url_port :: "u16 option"
  url_path :: string
  url_username :: string
  url_password :: "string option"
  url_query_pairs :: "(string \<times> string) list"

datatype proxy_kind = Socks5 | Socks5Hostname | HttpConnect | HttpsConnect

fun proxy_kind_label :: "proxy_kind \<Rightarrow> string" where
  "proxy_kind_label Socks5 = ''socks5''"
| "proxy_kind_label Socks5Hostname = ''socks5h''"
| "proxy_kind_label HttpConnect = ''http''"
| "proxy_kind_label HttpsConnect = ''https''"

definition resolves_target_names :: "proxy_kind \<Rightarrow> bool" where
  "resolves_target_names k \<longleftrightarrow> k = Socks5Hostname \<or> k = HttpConnect \<or> k = HttpsConnect"

definition kind_carries_tcp :: "proxy_kind \<Rightarrow> bool" where
  "kind_carries_tcp k = True"

definition kind_carries_udp :: "proxy_kind \<Rightarrow> bool" where
  "kind_carries_udp k = False"

record proxy_credentials =
  pc_username :: bytes
  pc_password :: bytes

record proxy_endpoint =
  px_kind :: proxy_kind
  px_host :: string
  px_port :: u16
  px_credentials :: "proxy_credentials option"

definition proxy_id :: "proxy_endpoint \<Rightarrow> string" where
  "proxy_id p = proxy_kind_label (px_kind p) @ ''://'' @ px_host p @ '':'' @ dec (unat (px_port p))"

definition proxy_authority :: "proxy_endpoint \<Rightarrow> string" where
  "proxy_authority p =
     (if CHR '':'' \<in> set (px_host p) \<and> \<not> starts_with (px_host p) ''[''
      then ''['' @ px_host p @ '']:'' @ dec (unat (px_port p))
      else px_host p @ '':'' @ dec (unat (px_port p)))"

text \<open>
  \<^verbatim>\<open>u8::from_str_radix\<close> on the two bytes after a percent sign: two hexadecimal digits, or, as the
  standard parser accepts a sign, a plus and one digit.
\<close>

definition hex_byte :: "u8 \<Rightarrow> u8 \<Rightarrow> u8 option" where
  "hex_byte a b =
     (case (hex_value (char_of (unat a)), hex_value (char_of (unat b))) of
        (Some x, Some y) \<Rightarrow> Some (of_nat (16 * x + y))
      | (None, Some y) \<Rightarrow> if a = 0x2b then Some (of_nat y) else None
      | _ \<Rightarrow> None)"

fun percent_bytes :: "bytes \<Rightarrow> bytes" where
  "percent_bytes (b # x # y # rest) =
     (if b = 0x25
      then case hex_byte x y of
             Some v \<Rightarrow> v # percent_bytes rest
           | None \<Rightarrow> b # percent_bytes (x # y # rest)
      else b # percent_bytes (x # y # rest))"
| "percent_bytes (b # rest) = b # percent_bytes rest"
| "percent_bytes [] = []"

definition percent_decode :: "string \<Rightarrow> bytes" where
  "percent_decode input = utf8_lossy (percent_bytes (ascii_bytes input))"

definition proxy_scheme :: "string \<Rightarrow> proxy_kind option" where
  "proxy_scheme s =
     (if s = ''socks5'' then Some Socks5
      else if s = ''socks5h'' then Some Socks5Hostname
      else if s = ''http'' then Some HttpConnect
      else if s = ''https'' then Some HttpsConnect else None)"

fun proxy_default_port :: "proxy_kind \<Rightarrow> u16" where
  "proxy_default_port Socks5 = 1080"
| "proxy_default_port Socks5Hostname = 1080"
| "proxy_default_port HttpConnect = 8080"
| "proxy_default_port HttpsConnect = 8443"

definition proxy_parse :: "(string \<Rightarrow> url option) \<Rightarrow> string \<Rightarrow> entry_error + proxy_endpoint" where
  "proxy_parse U raw =
     (let entry = str_trim raw in
      if entry = [] then Inl EmptyEntry
      else case U entry of
        None \<Rightarrow> Inl NotUri
      | Some u \<Rightarrow>
          (case proxy_scheme (url_scheme u) of
             None \<Rightarrow> Inl UnsupportedScheme
           | Some kind \<Rightarrow>
               (case url_host_str u of
                  None \<Rightarrow> Inl NoHost
                | Some h \<Rightarrow>
                    if url_path u \<noteq> [] \<and> url_path u \<noteq> ''/'' then Inl HasPath
                    else Inr
                      \<lparr>px_kind = kind,
                       px_host = trim_end_matches CHR '']'' (trim_start_matches CHR ''['' h),
                       px_port = (case url_port u of Some p \<Rightarrow> p | None \<Rightarrow> proxy_default_port kind),
                       px_credentials =
                         (if url_username u = [] then None
                          else Some \<lparr>pc_username = percent_decode (url_username u),
                                     pc_password = percent_decode
                                       (case url_password u of Some p \<Rightarrow> p | None \<Rightarrow> [])\<rparr>)\<rparr>)))"

fun proxy_parse_from ::
  "(string \<Rightarrow> url option) \<Rightarrow> string list \<Rightarrow> proxy_endpoint list \<Rightarrow> entry_error + proxy_endpoint list" where
  "proxy_parse_from U [] out = Inr out"
| "proxy_parse_from U (entry # entries) out =
     (case proxy_parse U entry of
        Inl e \<Rightarrow> Inl e
      | Inr p \<Rightarrow>
          if list_ex (\<lambda>q. proxy_id q = proxy_id p) out then Inl DuplicateProxy
          else proxy_parse_from U entries (out @ [p]))"

definition proxy_parse_all :: "(string \<Rightarrow> url option) \<Rightarrow> string list \<Rightarrow> entry_error + proxy_endpoint list" where
  "proxy_parse_all U entries = proxy_parse_from U entries []"

section \<open>The catalog (\<^verbatim>\<open>config/builtins.rs\<close>)\<close>

datatype filtering_policy = Unfiltered | SecurityFiltered | AdBlocking

record provider =
  pv_id :: string
  pv_operator :: string
  pv_aliases :: "string list"
  pv_addresses :: "string list"
  pv_doh :: "string option"
  pv_dot :: "string option"
  pv_doq :: "string option"
  pv_filtering :: filtering_policy

definition CATALOG :: "provider list" where
  "CATALOG =
     [\<lparr>pv_id = ''cloudflare'', pv_operator = ''Cloudflare'',
       pv_aliases = [''cloudflare'', ''cloudflare-dns.com'', ''one.one.one.one''],
       pv_addresses = [''1.1.1.1'', ''1.0.0.1'', ''2606:4700:4700::1111'', ''2606:4700:4700::1001''],
       pv_doh = Some ''https://cloudflare-dns.com/dns-query'',
       pv_dot = Some ''cloudflare-dns.com'', pv_doq = None,
       pv_filtering = Unfiltered\<rparr>,
      \<lparr>pv_id = ''google'', pv_operator = ''Google'',
       pv_aliases = [''google'', ''dns.google''],
       pv_addresses = [''8.8.8.8'', ''8.8.4.4'', ''2001:4860:4860::8888'', ''2001:4860:4860::8844''],
       pv_doh = Some ''https://dns.google/dns-query'',
       pv_dot = Some ''dns.google'', pv_doq = None,
       pv_filtering = Unfiltered\<rparr>,
      \<lparr>pv_id = ''quad9'', pv_operator = ''Quad9 Foundation'',
       pv_aliases = [''quad9'', ''dns.quad9.net''],
       pv_addresses = [''9.9.9.9'', ''149.112.112.112'', ''2620:fe::fe'', ''2620:fe::9''],
       pv_doh = Some ''https://dns.quad9.net/dns-query'',
       pv_dot = Some ''dns.quad9.net'', pv_doq = None,
       pv_filtering = SecurityFiltered\<rparr>,
      \<lparr>pv_id = ''quad9-unfiltered'', pv_operator = ''Quad9 Foundation'',
       pv_aliases = [''quad9-unfiltered'', ''dns10.quad9.net''],
       pv_addresses = [''9.9.9.10'', ''149.112.112.10'', ''2620:fe::10'', ''2620:fe::fe:10''],
       pv_doh = Some ''https://dns10.quad9.net/dns-query'',
       pv_dot = Some ''dns10.quad9.net'', pv_doq = None,
       pv_filtering = Unfiltered\<rparr>,
      \<lparr>pv_id = ''dnssb'', pv_operator = ''DNS.SB'',
       pv_aliases = [''dnssb'', ''dns.sb'', ''doh.dns.sb''],
       pv_addresses = [''185.222.222.222'', ''45.11.45.11'', ''2a09::'', ''2a11::''],
       pv_doh = Some ''https://doh.dns.sb/dns-query'',
       pv_dot = Some ''dot.sb'', pv_doq = None,
       pv_filtering = Unfiltered\<rparr>,
      \<lparr>pv_id = ''mullvad'', pv_operator = ''Mullvad VPN AB'',
       pv_aliases = [''mullvad'', ''dns.mullvad.net''],
       pv_addresses = [''194.242.2.2'', ''2a07:e340::2''],
       pv_doh = Some ''https://dns.mullvad.net/dns-query'',
       pv_dot = Some ''dns.mullvad.net'', pv_doq = None,
       pv_filtering = Unfiltered\<rparr>,
      \<lparr>pv_id = ''dns0'', pv_operator = ''DNS0.eu'',
       pv_aliases = [''dns0'', ''dns0.eu''],
       pv_addresses = [''193.110.81.0'', ''185.253.5.0'', ''2a0f:fc80::'', ''2a0f:fc81::''],
       pv_doh = Some ''https://dns0.eu/'',
       pv_dot = Some ''dns0.eu'', pv_doq = None,
       pv_filtering = SecurityFiltered\<rparr>,
      \<lparr>pv_id = ''dns0-open'', pv_operator = ''DNS0.eu'',
       pv_aliases = [''dns0-open'', ''open.dns0.eu''],
       pv_addresses = [''193.110.81.9'', ''185.253.5.9'', ''2a0f:fc80::9'', ''2a0f:fc81::9''],
       pv_doh = Some ''https://open.dns0.eu/'',
       pv_dot = Some ''open.dns0.eu'', pv_doq = None,
       pv_filtering = Unfiltered\<rparr>,
      \<lparr>pv_id = ''adguard'', pv_operator = ''AdGuard'',
       pv_aliases = [''adguard'', ''dns.adguard-dns.com''],
       pv_addresses = [''94.140.14.14'', ''94.140.15.15'', ''2a10:50c0::ad1:ff'', ''2a10:50c0::ad2:ff''],
       pv_doh = Some ''https://dns.adguard-dns.com/dns-query'',
       pv_dot = Some ''dns.adguard-dns.com'', pv_doq = Some ''dns.adguard-dns.com'',
       pv_filtering = AdBlocking\<rparr>,
      \<lparr>pv_id = ''adguard-unfiltered'', pv_operator = ''AdGuard'',
       pv_aliases = [''adguard-unfiltered'', ''unfiltered.adguard-dns.com''],
       pv_addresses = [''94.140.14.140'', ''94.140.14.141'', ''2a10:50c0::1:ff'', ''2a10:50c0::2:ff''],
       pv_doh = Some ''https://unfiltered.adguard-dns.com/dns-query'',
       pv_dot = Some ''unfiltered.adguard-dns.com'', pv_doq = Some ''unfiltered.adguard-dns.com'',
       pv_filtering = Unfiltered\<rparr>,
      \<lparr>pv_id = ''opendns'', pv_operator = ''Cisco OpenDNS'',
       pv_aliases = [''opendns'', ''dns.opendns.com''],
       pv_addresses = [''208.67.222.222'', ''208.67.220.220'', ''2620:119:35::35'', ''2620:119:53::53''],
       pv_doh = Some ''https://doh.opendns.com/dns-query'',
       pv_dot = None, pv_doq = None,
       pv_filtering = SecurityFiltered\<rparr>,
      \<lparr>pv_id = ''alidns'', pv_operator = ''Alibaba Cloud'',
       pv_aliases = [''alidns'', ''dns.alidns.com''],
       pv_addresses = [''223.5.5.5'', ''223.6.6.6'', ''2400:3200::1'', ''2400:3200:baba::1''],
       pv_doh = Some ''https://dns.alidns.com/dns-query'',
       pv_dot = Some ''dns.alidns.com'', pv_doq = None,
       pv_filtering = Unfiltered\<rparr>,
      \<lparr>pv_id = ''dnspod'', pv_operator = ''Tencent DNSPod'',
       pv_aliases = [''dnspod'', ''doh.pub''],
       pv_addresses = [''119.29.29.29'', ''119.28.28.28''],
       pv_doh = Some ''https://doh.pub/dns-query'',
       pv_dot = Some ''dot.pub'', pv_doq = None,
       pv_filtering = Unfiltered\<rparr>]"

record profile =
  pf_name :: string
  pf_members :: "string list"

definition PROFILES :: "profile list" where
  "PROFILES =
     [\<lparr>pf_name = ''recommended'',
       pf_members = [''cloudflare'', ''google'', ''quad9-unfiltered'', ''dnssb'', ''mullvad'']\<rparr>,
      \<lparr>pf_name = ''global'',
       pf_members = [''cloudflare'', ''google'', ''quad9-unfiltered'', ''dnssb'', ''mullvad'', ''dns0-open'', ''adguard-unfiltered'']\<rparr>,
      \<lparr>pf_name = ''china'',
       pf_members = [''alidns'', ''dnspod'', ''cloudflare'']\<rparr>,
      \<lparr>pf_name = ''privacy'',
       pf_members = [''mullvad'', ''dnssb'', ''quad9-unfiltered'', ''dns0-open'']\<rparr>,
      \<lparr>pf_name = ''security-filtered'',
       pf_members = [''quad9'', ''dns0'', ''cloudflare'']\<rparr>,
      \<lparr>pf_name = ''ad-blocking'',
       pf_members = [''adguard'', ''mullvad'']\<rparr>]"

definition doh_host :: "string \<Rightarrow> string" where
  "doh_host d = hd (split_on CHR ''/'' (trim_start_str ''https://'' d))"

definition endpoint_hosts :: "provider \<Rightarrow> string list" where
  "endpoint_hosts p =
     List.map_filter id [map_option doh_host (pv_doh p), pv_dot p, pv_doq p]"

definition name_key :: "string \<Rightarrow> string" where
  "name_key name = to_ascii_lowercase (trim_end_matches CHR ''.'' name)"

definition find_provider :: "string \<Rightarrow> provider option" where
  "find_provider name =
     (let key = name_key name in
      List.find (\<lambda>p. pv_id p = key \<or> key \<in> set (pv_aliases p) \<or> key \<in> set (pv_addresses p) \<or>
                     list_ex (\<lambda>h. eq_ignore_ascii_case h key) (endpoint_hosts p)) CATALOG)"

definition is_bare_alias :: "string \<Rightarrow> bool" where
  "is_bare_alias name =
     (let key = name_key name in
      case find_provider key of
        None \<Rightarrow> False
      | Some p \<Rightarrow>
          \<not> list_ex (\<lambda>h. eq_ignore_ascii_case h key) (endpoint_hosts p) \<and>
          (pv_id p = key \<or> key \<in> set (pv_aliases p)))"

datatype alias_transport = AtDoh | AtDot | AtDoq

fun or_else :: "'a option \<Rightarrow> 'a option \<Rightarrow> 'a option" where
  "or_else (Some x) _ = Some x"
| "or_else None y = y"

definition alias_endpoint_host :: "string \<Rightarrow> alias_transport \<Rightarrow> string option" where
  "alias_endpoint_host name transport =
     (case find_provider name of
        None \<Rightarrow> None
      | Some p \<Rightarrow>
          (let doh = map_option doh_host (pv_doh p) in
           case transport of
             AtDoh \<Rightarrow> or_else (or_else doh (pv_dot p)) (pv_doq p)
           | AtDot \<Rightarrow> or_else (or_else (pv_dot p) doh) (pv_doq p)
           | AtDoq \<Rightarrow> or_else (or_else (pv_doq p) (pv_dot p)) doh))"

definition find_profile :: "string \<Rightarrow> profile option" where
  "find_profile name =
     (let key = to_ascii_lowercase (str_trim name) in List.find (\<lambda>p. pf_name p = key) PROFILES)"

definition provider_entries :: "provider \<Rightarrow> string list" where
  "provider_entries p =
     take 1 (pv_addresses p) @
     (case pv_doh p of
        Some doh \<Rightarrow> [doh]
      | None \<Rightarrow> (case pv_dot p of Some dot \<Rightarrow> [''tls://'' @ dot] | None \<Rightarrow> []))"

definition expand_profile :: "string \<Rightarrow> string list option" where
  "expand_profile name =
     map_option (\<lambda>profile. concat (map (\<lambda>i.
         case find_provider i of Some p \<Rightarrow> provider_entries p | None \<Rightarrow> []) (pf_members profile)))
       (find_profile name)"

definition profile_names :: "string list" where
  "profile_names = map pf_name PROFILES"

definition authority_for :: "string \<Rightarrow> string option" where
  "authority_for host = map_option pv_id (find_provider (name_key host))"

section \<open>Expansion of \<^verbatim>\<open>auto\<close> (\<^verbatim>\<open>config/auto.rs\<close>)\<close>

datatype region = RegionChina | RegionGlobal

definition region_endpoints :: "region \<Rightarrow> string list" where
  "region_endpoints r =
     (case r of
        RegionChina \<Rightarrow>
          [''223.5.5.5'', ''223.6.6.6'', ''119.29.29.29'',
           ''https://dns.alidns.com/dns-query?addr=223.5.5.5&addr=223.6.6.6'',
           ''https://doh.pub/dns-query?addr=1.12.12.21&addr=120.53.53.53'',
           ''https://cloudflare-dns.com/dns-query?addr=1.1.1.1&addr=1.0.0.1'']
      | RegionGlobal \<Rightarrow>
          [''1.1.1.1'', ''8.8.8.8'', ''9.9.9.10'',
           ''https://cloudflare-dns.com/dns-query?addr=1.1.1.1&addr=1.0.0.1'',
           ''https://dns.google/dns-query?addr=8.8.8.8&addr=8.8.4.4'',
           ''https://dns10.quad9.net/dns-query?addr=9.9.9.10&addr=149.112.112.10''])"

definition auto_expand :: "gateway_probe \<Rightarrow> region \<Rightarrow> string list" where
  "auto_expand gateway r =
     (case gateway_address gateway of Some addr \<Rightarrow> [ip_text addr] | None \<Rightarrow> []) @ region_endpoints r"

definition role_of :: "string \<Rightarrow> gateway_probe \<Rightarrow> resolver_role" where
  "role_of entry gateway =
     (case gateway_address gateway of
        Some addr \<Rightarrow> if entry = ip_text addr then RoleLocalForwarder else RoleAuthority
      | None \<Rightarrow> RoleAuthority)"

section \<open>Endpoints (\<^verbatim>\<open>config/endpoint.rs\<close>)\<close>

datatype endpoint_host = HostAddr ipaddr | HostName string

record endpoint =
  en_transport :: transport_kind
  en_host :: endpoint_host
  en_port :: u16
  en_path :: "string option"
  en_hints :: "ipaddr list"

definition bootstrap_addresses :: "string \<Rightarrow> ipaddr list option" where
  "bootstrap_addresses host =
     map_option (\<lambda>p. List.map_filter ip_parse (pv_addresses p)) (find_provider host)"

definition doh_candidates :: "endpoint_host \<Rightarrow> u16 \<Rightarrow> string \<Rightarrow> ipaddr list \<Rightarrow> endpoint list" where
  "doh_candidates host port path hints =
     [\<lparr>en_transport = Doh3, en_host = host, en_port = port, en_path = Some path, en_hints = hints\<rparr>,
      \<lparr>en_transport = Doh2, en_host = host, en_port = port, en_path = Some path, en_hints = hints\<rparr>]"

definition bare_endpoint :: "ipaddr \<Rightarrow> u16 \<Rightarrow> endpoint" where
  "bare_endpoint addr port =
     \<lparr>en_transport = Udp, en_host = HostAddr addr, en_port = port, en_path = None, en_hints = []\<rparr>"

definition parse_bare :: "string \<Rightarrow> endpoint option" where
  "parse_bare entry =
     (if contains_str entry ''://'' then None
      else case ip_parse entry of
        Some addr \<Rightarrow> Some (bare_endpoint addr 53)
      | None \<Rightarrow>
          (case socket_parse entry of
             Some (addr, port) \<Rightarrow> Some (bare_endpoint addr port)
           | None \<Rightarrow>
               if starts_with entry ''['' \<and> ends_with (drop 1 entry) '']''
               then map_option (\<lambda>addr. bare_endpoint addr 53) (ip_parse (butlast (drop 1 entry)))
               else None))"

fun addr_hints :: "(string \<times> string) list \<Rightarrow> entry_error + ipaddr list" where
  "addr_hints [] = Inr []"
| "addr_hints ((key, value) # pairs) =
     (if key = ''addr''
      then case ip_parse value of
             None \<Rightarrow> Inl BadAddrHint
           | Some addr \<Rightarrow> (case addr_hints pairs of Inl e \<Rightarrow> Inl e | Inr hs \<Rightarrow> Inr (addr # hs))
      else Inl UnsupportedParameter)"

text \<open>The path of a catalog entry's DoH endpoint, \<^verbatim>\<open>/dns-query\<close> where it has none.\<close>

definition provider_path :: "provider \<Rightarrow> string" where
  "provider_path p =
     (case pv_doh p of
        Some d \<Rightarrow>
          (let rest = dropWhile (\<lambda>c. c \<noteq> CHR ''/'') (trim_start_str ''https://'' d)
           in if rest = [] then ''/dns-query'' else rest)
      | None \<Rightarrow> ''/dns-query'')"

definition alias_transport_of :: "string \<Rightarrow> alias_transport" where
  "alias_transport_of scheme =
     (if scheme = ''tls'' then AtDot else if scheme = ''quic'' then AtDoq else AtDoh)"

definition uri_host :: "string \<Rightarrow> string \<Rightarrow> endpoint_host" where
  "uri_host scheme host_str =
     (case ip_parse host_str of
        Some addr \<Rightarrow> HostAddr addr
      | None \<Rightarrow>
          if is_bare_alias host_str
          then HostName (case alias_endpoint_host host_str (alias_transport_of scheme) of
                           Some h \<Rightarrow> h | None \<Rightarrow> host_str)
          else HostName (name_key host_str))"

definition uri_endpoints :: "url \<Rightarrow> endpoint_host \<Rightarrow> ipaddr list \<Rightarrow> entry_error + endpoint list" where
  "uri_endpoints u host hints =
     (let port = (\<lambda>p. case url_port u of Some q \<Rightarrow> q | None \<Rightarrow> p);
          one = (\<lambda>t p. Inr [\<lparr>en_transport = t, en_host = host, en_port = port p, en_path = None,
                             en_hints = hints\<rparr>])
      in if url_scheme u = ''https''
         then Inr (doh_candidates host (port 443)
                (if url_path u = [] \<or> url_path u = ''/'' then ''/dns-query'' else url_path u) hints)
         else if url_scheme u = ''tls'' then one Dot 853
         else if url_scheme u = ''quic'' then one Doq 853
         else if url_scheme u = ''udp'' \<or> url_scheme u = ''dns'' then one Udp 53
         else if url_scheme u = ''tcp'' then one Tcp 53
         else if url_scheme u = ''http'' then Inl PlaintextHttp
         else Inl UnsupportedScheme)"

definition endpoint_parse :: "(string \<Rightarrow> url option) \<Rightarrow> string \<Rightarrow> entry_error + endpoint list" where
  "endpoint_parse U raw =
     (let entry = str_trim raw in
      if entry = [] then Inl EmptyEntry
      else case parse_bare entry of
        Some e \<Rightarrow> Inr [e]
      | None \<Rightarrow>
          if \<not> contains_str entry ''://''
          then case find_provider entry of
                 Some p \<Rightarrow>
                   Inr (doh_candidates
                     (HostName (case alias_endpoint_host entry AtDoh of Some h \<Rightarrow> h | None \<Rightarrow> pv_id p))
                     443 (provider_path p) [])
               | None \<Rightarrow> Inl UnknownEntry
          else case U entry of
                 None \<Rightarrow> Inl NotUri
               | Some u \<Rightarrow>
                   (case addr_hints (url_query_pairs u) of
                      Inl e \<Rightarrow> Inl e
                    | Inr hints \<Rightarrow>
                        (case url_host_str u of
                           None \<Rightarrow> Inl NoHost
                         | Some h \<Rightarrow>
                             uri_endpoints u
                               (uri_host (url_scheme u)
                                  (trim_end_matches CHR '']'' (trim_start_matches CHR ''['' h)))
                               hints)))"

fun expand_entries :: "string list \<Rightarrow> entry_error + string list" where
  "expand_entries [] = Inr []"
| "expand_entries (entry # entries) =
     (case
        (if str_trim entry = ''auto'' then Inr (auto_expand (GwRejected NoGateway) RegionGlobal)
         else if starts_with (str_trim entry) ''builtin:''
         then case expand_profile (drop 8 (str_trim entry)) of
                Some uris \<Rightarrow> Inr uris
              | None \<Rightarrow> Inl UnknownProfile
         else Inr [entry])
      of
        Inl e \<Rightarrow> Inl e
      | Inr es \<Rightarrow> (case expand_entries entries of Inl e \<Rightarrow> Inl e | Inr fs \<Rightarrow> Inr (es @ fs)))"

definition server_of :: "nat \<Rightarrow> endpoint \<Rightarrow> entry_error + upstream_server_config" where
  "server_of index c =
     (let server = (\<lambda>addresses server_name.
        upstream_server_default
          \<lparr>us_name := ''u'' @ dec index @ ''-'' @ transport_label (en_transport c),
           us_transport := en_transport c, us_addresses := addresses,
           us_server_name := server_name, us_port := Some (en_port c), us_path := en_path c\<rparr>)
      in case en_host c of
           HostAddr addr \<Rightarrow>
             if is_encrypted (en_transport c) then Inl NoIdentity else Inr (server [addr] None)
         | HostName name \<Rightarrow>
             Inr (server
               (if en_hints c = []
                then (case bootstrap_addresses name of Some as \<Rightarrow> as | None \<Rightarrow> [])
                else en_hints c)
               (Some name)))"

fun servers_of :: "nat \<Rightarrow> endpoint list \<Rightarrow> entry_error + upstream_server_config list" where
  "servers_of index [] = Inr []"
| "servers_of index (c # cs) =
     (case server_of index c of
        Inl e \<Rightarrow> Inl e
      | Inr s \<Rightarrow> (case servers_of index cs of Inl e \<Rightarrow> Inl e | Inr ss \<Rightarrow> Inr (s # ss)))"

fun desugar_from ::
  "(string \<Rightarrow> url option) \<Rightarrow> nat \<Rightarrow> string list \<Rightarrow> entry_error + upstream_server_config list" where
  "desugar_from U index [] = Inr []"
| "desugar_from U index (entry # entries) =
     (case endpoint_parse U entry of
        Inl e \<Rightarrow> Inl e
      | Inr cs \<Rightarrow>
          (case servers_of index cs of
             Inl e \<Rightarrow> Inl e
           | Inr ss \<Rightarrow>
               (case desugar_from U (index + 1) entries of
                  Inl e \<Rightarrow> Inl e
                | Inr rest \<Rightarrow> Inr (ss @ rest))))"

definition desugar :: "(string \<Rightarrow> url option) \<Rightarrow> string list \<Rightarrow> entry_error + upstream_server_config list" where
  "desugar U upstreams =
     (case expand_entries upstreams of
        Inl e \<Rightarrow> Inl e
      | Inr expanded \<Rightarrow>
          (case desugar_from U 0 expanded of
             Inl e \<Rightarrow> Inl e
           | Inr out \<Rightarrow> if out = [] then Inl NoUpstreams else Inr out))"

definition build_upstreams :: "(string \<Rightarrow> url option) \<Rightarrow> string list \<Rightarrow> entry_error + upstream_config" where
  "build_upstreams U upstreams =
     (case desugar U upstreams of
        Inl e \<Rightarrow> Inl e
      | Inr servers \<Rightarrow>
          Inr \<lparr>uc_default_group = ''default'',
               uc_groups = [\<lparr>ug_name = ''default'', ug_servers = servers,
                             ug_scheduler = scheduler_config_default\<rparr>],
               uc_tls = upstream_tls_default\<rparr>)"

section \<open>Percent-decoding\<close>

text \<open>The encodings of a byte string: each byte as it is, or as a percent sign and two digits.\<close>

definition percent_escape :: "u8 \<Rightarrow> bytes" where
  "percent_escape b = 0x25 # ascii_bytes [hex_digit (unat b div 16), hex_digit (unat b mod 16)]"

definition percent_encode :: "(u8 \<Rightarrow> bool) \<Rightarrow> bytes \<Rightarrow> bytes" where
  "percent_encode keep bs = concat (map (\<lambda>b. if keep b then [b] else percent_escape b) bs)"

lemma percent_bytes_plain: "b \<noteq> 0x25 \<Longrightarrow> percent_bytes (b # w) = b # percent_bytes w"
  by (cases w rule: percent_bytes.cases) auto

lemma hex_value_digit:
  assumes "n < 16"
  shows "hex_value (char_of (unat (of_char (hex_digit n) :: u8))) = Some n"
proof -
  have "list_all (\<lambda>n. hex_value (char_of (unat (of_char (hex_digit n) :: u8))) = Some n) [0..<16]"
    by (simp add: upt_rec hex_digit_def hex_value_def)
  then show ?thesis using assms by (simp add: list_all_iff)
qed

lemma percent_bytes_escape: "percent_bytes (percent_escape b @ w) = b # percent_bytes w"
proof -
  have "unat b < 256" using unsigned_less [of b, where 'a = nat] by simp
  then have "unat b div 16 < 16" "unat b mod 16 < 16" by auto
  then have "hex_byte (of_char (hex_digit (unat b div 16))) (of_char (hex_digit (unat b mod 16))) =
      Some (of_nat (16 * (unat b div 16) + unat b mod 16))"
    by (simp add: hex_byte_def hex_value_digit)
  then show ?thesis by (simp add: percent_escape_def ascii_bytes_def)
qed

text \<open>
  Percent-decoding recovers the text: whatever set of bytes an URI writer escapes, as long as
  the percent sign is among them, decoding the userinfo gives back the (well-formed) text.
\<close>

theorem percent_decode_round_trip:
  assumes "\<not> keep 0x25" "list_all is_scalar txt" "ascii_bytes input = percent_encode keep (utf8_encode txt)"
  shows "percent_decode input = utf8_encode txt"
proof -
  have "percent_bytes (percent_encode keep bs) = bs" for bs
  proof (induction bs)
    case (Cons b bs)
    have "percent_encode keep (b # bs) = (if keep b then [b] else percent_escape b) @ percent_encode keep bs"
      by (simp add: percent_encode_def)
    moreover have "keep b \<Longrightarrow> b \<noteq> 0x25" using assms(1) by metis
    ultimately show ?case
      using Cons by (cases "keep b") (simp_all add: percent_bytes_plain percent_bytes_escape)
  qed (simp add: percent_encode_def)
  then show ?thesis using assms(2,3) by (simp add: percent_decode_def utf8_lossy_encode)
qed

theorem percent_decode_round_trip_witness:
  "percent_decode ''p%40ss%25'' = utf8_encode [112, 64, 115, 115, 37]"
proof -
  have "ascii_bytes ''p%40ss%25'' =
      percent_encode (\<lambda>b. b \<noteq> 0x25 \<and> b \<noteq> 0x40) (utf8_encode [112, 64, 115, 115, 37])"
    by (simp add: ascii_bytes_def percent_encode_def percent_escape_def utf8_encode_def utf8_char_def hex_digit_def)
  from percent_decode_round_trip [OF _ _ this] show ?thesis by (simp add: is_scalar_def)
qed

section \<open>Server definitions from entries\<close>

lemma endpoint_parse_transports:
  "endpoint_parse U e = Inr cs \<Longrightarrow> distinct (map en_transport cs)"
  by (auto simp: endpoint_parse_def uri_endpoints_def doh_candidates_def Let_def
      split: if_splits option.splits sum.splits)

text \<open>What every generated server definition satisfies.\<close>

definition server_def_ok :: "upstream_server_config \<Rightarrow> bool" where
  "server_def_ok s \<longleftrightarrow>
     us_enabled s \<and> us_weight s = 100 \<and> us_role s = RoleAuthority \<and> \<not> us_trust_ad s \<and>
     us_enable_cookies s = None \<and> us_port s \<noteq> None \<and>
     (us_server_name s = None \<longrightarrow> \<not> is_encrypted (us_transport s) \<and> length (us_addresses s) = 1)"

definition server_name_for :: "nat \<Rightarrow> transport_kind \<Rightarrow> string" where
  "server_name_for index t = ''u'' @ dec index @ ''-'' @ transport_label t"

lemma server_of_facts:
  assumes "server_of index c = Inr s"
  shows "server_def_ok s" "us_name s = server_name_for index (en_transport c)"
  using assms
  by (auto simp: server_of_def server_def_ok_def server_name_for_def upstream_server_default_def Let_def
      split: endpoint_host.splits if_splits)

lemma servers_of_facts:
  "servers_of index cs = Inr ss \<Longrightarrow>
   list_all server_def_ok ss \<and> map us_name ss = map (\<lambda>c. server_name_for index (en_transport c)) cs"
proof (induction cs arbitrary: ss)
  case (Cons c cs)
  then show ?case by (auto split: sum.splits simp: server_of_facts)
qed simp

lemma transport_label_inj: "transport_label t = transport_label t' \<longleftrightarrow> t = t'"
  by (cases t; cases t'; simp)

lemma dec_no_dash: "CHR ''-'' \<notin> set (dec n)"
  using dec_chars [of "CHR ''-''" n] by auto

lemma server_name_for_inj:
  "server_name_for i t = server_name_for j t' \<longleftrightarrow> i = j \<and> t = t'"
proof
  assume "server_name_for i t = server_name_for j t'"
  then have "split_on CHR ''-'' (dec i @ CHR ''-'' # transport_label t) =
      split_on CHR ''-'' (dec j @ CHR ''-'' # transport_label t')"
    by (simp add: server_name_for_def)
  moreover have "CHR ''-'' \<notin> set (transport_label u)" for u by (cases u) simp_all
  ultimately have "dec i = dec j" "transport_label t = transport_label t'"
    by (simp_all add: split_on_append split_on_no_sep dec_no_dash)
  then show "i = j \<and> t = t'" by (simp add: dec_inj transport_label_inj)
qed simp

lemma desugar_from_facts:
  "desugar_from U index entries = Inr ss \<Longrightarrow>
   list_all server_def_ok ss \<and> distinct (map us_name ss) \<and>
   set (map us_name ss) \<subseteq> {server_name_for i t | i t. index \<le> i}"
proof (induction entries arbitrary: index ss)
  case (Cons e es)
  from Cons.prems obtain cs as bs where
    p: "endpoint_parse U e = Inr cs" "servers_of index cs = Inr as"
      "desugar_from U (index + 1) es = Inr bs" "ss = as @ bs"
    by (auto split: sum.splits)
  note IH = Cons.IH [OF p(3)]
  note h = servers_of_facts [OF p(2)]
  have "distinct (map us_name as)"
    using endpoint_parse_transports [OF p(1)] h
    by (simp add: distinct_map inj_on_def server_name_for_inj)
  moreover have "set (map us_name as) \<inter> set (map us_name bs) = {}"
    using IH h by (auto simp: server_name_for_inj)
  moreover have "set (map us_name as) \<subseteq> {server_name_for i t | i t. index \<le> i}" using h by auto
  moreover have "set (map us_name bs) \<subseteq> {server_name_for i t | i t. index \<le> i}"
    by (rule subset_trans [OF conjunct2 [OF conjunct2 [OF IH]]]) auto
  ultimately show ?case using IH h p(4) by simp
qed simp

text \<open>
  The generated server definitions are usable as they stand: there is at least one, their
  names are distinct, each is enabled with a positive weight and a port, and an encrypted
  transport always has a name to authenticate; a server without a name has an address. So a
  literal address is never used with an encrypted transport.
\<close>

theorem desugar_sound:
  assumes "desugar U upstreams = Inr ss"
  shows "ss \<noteq> [] \<and> distinct (map us_name ss) \<and>
    list_all (\<lambda>s. us_enabled s \<and> 0 < us_weight s \<and> us_port s \<noteq> None \<and>
      (is_encrypted (us_transport s) \<longrightarrow> us_server_name s \<noteq> None) \<and>
      (us_server_name s = None \<longrightarrow> us_addresses s \<noteq> [])) ss"
proof -
  obtain expanded where e: "desugar_from U 0 expanded = Inr ss" "ss \<noteq> []"
    using assms by (auto simp: desugar_def split: sum.splits if_splits)
  have "list_all server_def_ok ss" "distinct (map us_name ss)"
    using desugar_from_facts [OF e(1)] by simp_all
  moreover have "us_enabled s \<and> 0 < us_weight s \<and> us_port s \<noteq> None \<and>
      (is_encrypted (us_transport s) \<longrightarrow> us_server_name s \<noteq> None) \<and>
      (us_server_name s = None \<longrightarrow> us_addresses s \<noteq> [])" if "server_def_ok s" for s
    using that unfolding server_def_ok_def by (elim conjE) (auto simp: length_Suc_conv)
  ultimately show ?thesis using e(2) by (simp add: list_all_iff)
qed

definition two_addresses :: "upstream_server_config list" where
  "two_addresses =
     [upstream_server_default\<lparr>us_name := ''u0-udp'', us_addresses := [V4 (ipv4_new 1 1 1 1)],
        us_port := Some 53\<rparr>,
      upstream_server_default\<lparr>us_name := ''u1-udp'', us_addresses := [V4 (ipv4_new 9 9 9 9)],
        us_port := Some 53\<rparr>]"

lemma desugar_two_addresses:
  "desugar (\<lambda>_. None) [''1.1.1.1'', '' 9.9.9.9''] = Inr two_addresses"
  by (simp add: desugar_def endpoint_parse_def str_trim_def ascii_space_def starts_with_def parse_bare_def
      contains_str_def upt_rec ip_parse_def ipv4_parse_def parse_octet_def is_digit_def dec_value_def
      bare_endpoint_def server_of_def is_encrypted_def dec_small digit_char_def two_addresses_def
      upstream_server_default_def Let_def)

theorem desugar_sound_witness:
  "two_addresses \<noteq> [] \<and> distinct (map us_name two_addresses)"
  using desugar_sound [OF desugar_two_addresses] by simp

section \<open>The catalog\<close>

lemmas catalog_eval =
  find_provider_def CATALOG_def name_key_def trim_end_matches_def to_ascii_lowercase_def
  to_ascii_lower_char_def endpoint_hosts_def map_filter_simps doh_host_def trim_start_str.simps
  starts_with_def eq_ignore_ascii_case_def Let_def

definition policy_of :: "string \<Rightarrow> (string \<times> filtering_policy) option" where
  "policy_of i = map_option (\<lambda>p. (pv_operator p, pv_filtering p)) (find_provider i)"

lemma member_policies:
  "policy_of ''cloudflare'' = Some (''Cloudflare'', Unfiltered)"
  "policy_of ''google'' = Some (''Google'', Unfiltered)"
  "policy_of ''quad9-unfiltered'' = Some (''Quad9 Foundation'', Unfiltered)"
  "policy_of ''dnssb'' = Some (''DNS.SB'', Unfiltered)"
  "policy_of ''mullvad'' = Some (''Mullvad VPN AB'', Unfiltered)"
  "policy_of ''dns0-open'' = Some (''DNS0.eu'', Unfiltered)"
  "policy_of ''adguard-unfiltered'' = Some (''AdGuard'', Unfiltered)"
  "policy_of ''alidns'' = Some (''Alibaba Cloud'', Unfiltered)"
  "policy_of ''dnspod'' = Some (''Tencent DNSPod'', Unfiltered)"
  "policy_of ''quad9'' = Some (''Quad9 Foundation'', SecurityFiltered)"
  "policy_of ''dns0'' = Some (''DNS0.eu'', SecurityFiltered)"
  "policy_of ''adguard'' = Some (''AdGuard'', AdBlocking)"
  by (simp_all add: policy_of_def catalog_eval)

lemma catalog_addresses:
  "list_all (\<lambda>p. list_all (\<lambda>a. ip_parse a \<noteq> None) (pv_addresses p)) CATALOG"
  by (simp add: CATALOG_def ip_parse_def ipv4_parse_def ipv6_parse_def parse_groups_def parse_group_def hex_value_def parse_octet_def is_digit_def dec_value_def)

definition profile_policies :: "profile \<Rightarrow> (string \<times> filtering_policy) option list" where
  "profile_policies pf = map policy_of (pf_members pf)"

text \<open>
  The built-in profiles: every member is in the catalog, no operator appears twice in a
  profile, and the recommended, global, china and privacy profiles
  contain unfiltered resolvers only; every
  address of the catalog parses, so that no bootstrap address is lost.
\<close>

theorem profiles_independent_operators:
  "list_all (\<lambda>pf. None \<notin> set (profile_policies pf) \<and>
      distinct (map (\<lambda>x. fst (the x)) (profile_policies pf))) PROFILES \<and>
   list_all (\<lambda>pf. list_all (\<lambda>x. snd (the x) = Unfiltered) (profile_policies pf))
      (filter (\<lambda>pf. pf_name pf \<in> {''recommended'', ''global'', ''china'', ''privacy''}) PROFILES) \<and>
   list_all (\<lambda>p. list_all (\<lambda>a. ip_parse a \<noteq> None) (pv_addresses p)) CATALOG"
  using catalog_addresses by (simp add: PROFILES_def profile_policies_def member_policies)

text \<open>The two filtering profiles each contain a resolver that does not filter.\<close>

lemma filtering_profiles_mix:
  "list_all (\<lambda>pf. \<exists>op. Some (op, Unfiltered) \<in> set (profile_policies pf))
     (filter (\<lambda>pf. pf_name pf \<in> {''security-filtered'', ''ad-blocking''}) PROFILES)"
  by (simp add: PROFILES_def profile_policies_def member_policies)

end
