(* ===== verification/Egress.thy ===== *)
theory Egress
  imports Endpoints
begin

unbundle bit_operations_syntax

text \<open>
  Egress paths and the proxy handshakes (\<^verbatim>\<open>upstream/egress.rs\<close>): the SOCKS5 greeting, RFC 1929
  authentication and \<^verbatim>\<open>CONNECT\<close>, the HTTP \<^verbatim>\<open>CONNECT\<close> request, and the base64 of its
  credentials.

  A byte stream is the bytes the peer sends (\<open>st_in\<close>) and the bytes written so far (\<open>st_out\<close>);
  reading past the end of the input is the peer closing the connection. An operation returns an
  error or a value together with the stream. White space in the HTTP status line is ASCII white
  space. Opening sockets and the TLS layer to the proxy are the runtime's.
\<close>

section \<open>Paths\<close>

datatype egress_path = Direct | Proxy proxy_endpoint

fun path_id :: "egress_path \<Rightarrow> string" where
  "path_id Direct = ''direct''"
| "path_id (Proxy p) = proxy_id p"

fun path_carries_udp :: "egress_path \<Rightarrow> bool" where
  "path_carries_udp Direct = True"
| "path_carries_udp (Proxy p) = kind_carries_udp (px_kind p)"

text \<open>
  \<^verbatim>\<open>resolve_proxy\<close>: a literal is dialled as it is, a name is looked up by the system, whose answer
  is the argument \<open>lookup_host\<close>.
\<close>

definition resolve_proxy ::
  "(string \<Rightarrow> (ipaddr \<times> u16) list option) \<Rightarrow> proxy_endpoint \<Rightarrow> (ipaddr \<times> u16) option" where
  "resolve_proxy lookup_host p =
     (case ip_parse (px_host p) of
        Some ip \<Rightarrow> Some (ip, px_port p)
      | None \<Rightarrow>
          (case lookup_host (px_host p @ '':'' @ dec (unat (px_port p))) of
             Some (a # _) \<Rightarrow> Some a
           | _ \<Rightarrow> None))"

section \<open>Streams\<close>

datatype io_error =
    UnexpectedEof
  | BadSocksVersion u8 | CredentialsMissing | CredentialsTooLong | CredentialsRejected
  | NoAcceptableMethod | BadSocksMethod u8 | SocksRefused string | BadAddressType u8
  | ClosedMidResponse | OversizedHeader | NoStatusLine | HttpRefused u16

record stream =
  st_in :: bytes
  st_out :: bytes

definition write_all :: "bytes \<Rightarrow> stream \<Rightarrow> stream" where
  "write_all bs s = s\<lparr>st_out := st_out s @ bs\<rparr>"

definition read_exact :: "nat \<Rightarrow> stream \<Rightarrow> (io_error + bytes) \<times> stream" where
  "read_exact n s =
     (if length (st_in s) < n then (Inl UnexpectedEof, s\<lparr>st_in := []\<rparr>)
      else (Inr (take n (st_in s)), s\<lparr>st_in := drop n (st_in s)\<rparr>))"

definition io_bind ::
  "('e + 'a) \<times> 's \<Rightarrow> ('a \<Rightarrow> 's \<Rightarrow> ('e + 'b) \<times> 's) \<Rightarrow> ('e + 'b) \<times> 's" where
  "io_bind r k = (case r of (Inl e, s) \<Rightarrow> (Inl e, s) | (Inr x, s) \<Rightarrow> k x s)"

section \<open>SOCKS5\<close>

definition ipv4_octets :: "ipv4 \<Rightarrow> bytes" where
  "ipv4_octets a = map (\<lambda>i. of_nat (octet i a)) [0..<4]"

definition ipv6_octets :: "ipv6 \<Rightarrow> bytes" where
  "ipv6_octets a = map (\<lambda>i. of_nat (unat a div 256 ^ (15 - i) mod 256)) [0..<16]"

definition socks5_reply_text :: "u8 \<Rightarrow> string" where
  "socks5_reply_text code =
     (if code = 1 then ''general SOCKS server failure''
      else if code = 2 then ''connection not allowed by ruleset''
      else if code = 3 then ''network unreachable''
      else if code = 4 then ''host unreachable''
      else if code = 5 then ''connection refused''
      else if code = 6 then ''TTL expired''
      else if code = 7 then ''command not supported''
      else if code = 8 then ''address type not supported''
      else ''unknown failure'')"

definition socks5_greeting :: "proxy_endpoint \<Rightarrow> bytes" where
  "socks5_greeting p =
     (let methods = (if px_credentials p \<noteq> None then [0, 2] else [0])
      in [5, of_nat (length methods)] @ methods)"

definition socks5_auth_request :: "proxy_credentials \<Rightarrow> bytes" where
  "socks5_auth_request c =
     [1, of_nat (length (pc_username c))] @ pc_username c @
     [of_nat (length (pc_password c))] @ pc_password c"

definition socks5_auth :: "proxy_endpoint \<Rightarrow> stream \<Rightarrow> (io_error + unit) \<times> stream" where
  "socks5_auth p s =
     (case px_credentials p of
        None \<Rightarrow> (Inl CredentialsMissing, s)
      | Some c \<Rightarrow>
          if 255 < length (pc_username c) \<or> 255 < length (pc_password c)
          then (Inl CredentialsTooLong, s)
          else io_bind (read_exact 2 (write_all (socks5_auth_request c) s))
                 (\<lambda>reply s. if reply ! 1 \<noteq> 0 then (Inl CredentialsRejected, s) else (Inr (), s)))"

definition socks5_select :: "proxy_endpoint \<Rightarrow> bytes \<Rightarrow> stream \<Rightarrow> (io_error + unit) \<times> stream" where
  "socks5_select p reply s =
     (if reply ! 0 \<noteq> 5 then (Inl (BadSocksVersion (reply ! 0)), s)
      else if reply ! 1 = 0 then (Inr (), s)
      else if reply ! 1 = 2 then socks5_auth p s
      else if reply ! 1 = 0xff then (Inl NoAcceptableMethod, s)
      else (Inl (BadSocksMethod (reply ! 1)), s))"

definition socks5_request :: "ipaddr \<Rightarrow> u16 \<Rightarrow> bytes" where
  "socks5_request ip port =
     [5, 1, 0] @
     (case ip of V4 a \<Rightarrow> 1 # ipv4_octets a | V6 a \<Rightarrow> 4 # ipv6_octets a) @ u16_to_be_bytes port"

text \<open>The bound address in the reply is read and dropped.\<close>

definition socks5_drain :: "u8 \<Rightarrow> stream \<Rightarrow> (io_error + unit) \<times> stream" where
  "socks5_drain atyp s =
     (if atyp = 1 then io_bind (read_exact 6 s) (\<lambda>_ s. (Inr (), s))
      else if atyp = 4 then io_bind (read_exact 18 s) (\<lambda>_ s. (Inr (), s))
      else if atyp = 3
      then io_bind (read_exact 1 s)
             (\<lambda>len s. io_bind (read_exact (unat (len ! 0) + 2) s) (\<lambda>_ s. (Inr (), s)))
      else (Inl (BadAddressType atyp), s))"

definition socks5_connect :: "ipaddr \<Rightarrow> u16 \<Rightarrow> stream \<Rightarrow> (io_error + unit) \<times> stream" where
  "socks5_connect ip port s =
     io_bind (read_exact 4 (write_all (socks5_request ip port) s))
       (\<lambda>head s.
          if head ! 1 \<noteq> 0 then (Inl (SocksRefused (socks5_reply_text (head ! 1))), s)
          else socks5_drain (head ! 3) s)"

definition socks5_handshake ::
  "proxy_endpoint \<Rightarrow> ipaddr \<Rightarrow> u16 \<Rightarrow> stream \<Rightarrow> (io_error + unit) \<times> stream" where
  "socks5_handshake p ip port s =
     io_bind
       (io_bind (read_exact 2 (write_all (socks5_greeting p) s)) (socks5_select p))
       (\<lambda>_. socks5_connect ip port)"

section \<open>HTTP \<^verbatim>\<open>CONNECT\<close>\<close>

definition base64_alphabet :: string where
  "base64_alphabet = ''ABCDEFGHIJKLMNOPQRSTUVWXYZabcdefghijklmnopqrstuvwxyz0123456789+/''"

definition base64_digit :: "u32 \<Rightarrow> nat \<Rightarrow> char" where
  "base64_digit n shift = base64_alphabet ! unat (drop_bit shift n AND 63)"

definition base64_group :: "u8 \<Rightarrow> u8 \<Rightarrow> u8 \<Rightarrow> u32" where
  "base64_group a b c = push_bit 16 (ucast a) OR push_bit 8 (ucast b) OR ucast c"

fun base64 :: "bytes \<Rightarrow> string" where
  "base64 [] = []"
| "base64 [a] =
     (let n = base64_group a 0 0 in [base64_digit n 18, base64_digit n 12, CHR ''='', CHR ''=''])"
| "base64 [a, b] =
     (let n = base64_group a b 0
      in [base64_digit n 18, base64_digit n 12, base64_digit n 6, CHR ''=''])"
| "base64 (a # b # c # rest) =
     (let n = base64_group a b c
      in [base64_digit n 18, base64_digit n 12, base64_digit n 6, base64_digit n 0] @ base64 rest)"

definition CRLF :: bytes where "CRLF = [13, 10]"

definition connect_request :: "proxy_endpoint \<Rightarrow> ipaddr \<Rightarrow> u16 \<Rightarrow> bytes" where
  "connect_request p ip port =
     (let authority = ascii_bytes (socket_text ip port) in
      ascii_bytes ''CONNECT '' @ authority @ ascii_bytes '' HTTP/1.1'' @ CRLF @
      ascii_bytes ''Host: '' @ authority @ CRLF @
      ascii_bytes ''Proxy-Connection: keep-alive'' @ CRLF @
      (case px_credentials p of
         None \<Rightarrow> []
       | Some c \<Rightarrow>
           ascii_bytes ''Proxy-Authorization: Basic '' @
           ascii_bytes (base64 (pc_username c @ ascii_bytes '':'' @ pc_password c)) @ CRLF) @
      CRLF)"

text \<open>The bytes of the header, read one at a time, and the input that follows them.\<close>

fun read_header :: "bytes \<Rightarrow> bytes \<Rightarrow> (io_error + bytes) \<times> bytes" where
  "read_header buf [] = (Inl ClosedMidResponse, [])"
| "read_header buf (b # rest) =
     (let buf' = buf @ [b] in
      if 8192 < length buf' then (Inl OversizedHeader, rest)
      else if ends_with buf' (CRLF @ CRLF) then (Inr buf', rest)
      else read_header buf' rest)"

definition byte_text :: "bytes \<Rightarrow> string" where
  "byte_text bs = map (\<lambda>b. char_of (unat b)) bs"

definition first_line :: "string \<Rightarrow> string" where
  "first_line s =
     (let l = takeWhile (\<lambda>c. of_char c \<noteq> (10::nat)) s
      in if l \<noteq> [] \<and> of_char (last l) = (13::nat) then butlast l else l)"

text \<open>\<^verbatim>\<open>split_whitespace\<close>.\<close>

fun words_from :: "string \<Rightarrow> string \<Rightarrow> string list" where
  "words_from cur [] = (if cur = [] then [] else [cur])"
| "words_from cur (c # s) =
     (if ascii_space c then (if cur = [] then [] else [cur]) @ words_from [] s
      else words_from (cur @ [c]) s)"

definition parse_u16 :: "string \<Rightarrow> u16 option" where
  "parse_u16 s = parse_port (if starts_with s ''+'' then drop 1 s else s)"

definition http_status :: "bytes \<Rightarrow> u16 option" where
  "http_status head =
     (case words_from [] (first_line (byte_text (utf8_lossy head))) of
        _ # code # _ \<Rightarrow> parse_u16 code
      | _ \<Rightarrow> None)"

definition http_connect ::
  "proxy_endpoint \<Rightarrow> ipaddr \<Rightarrow> u16 \<Rightarrow> stream \<Rightarrow> (io_error + unit) \<times> stream" where
  "http_connect p ip port s =
     (let s1 = write_all (connect_request p ip port) s;
          (r, rest) = read_header [] (st_in s1);
          s2 = s1\<lparr>st_in := rest\<rparr>
      in case r of
           Inl e \<Rightarrow> (Inl e, s2)
         | Inr head \<Rightarrow>
             (case http_status head of
                None \<Rightarrow> (Inl NoStatusLine, s2)
              | Some status \<Rightarrow>
                  if 200 \<le> status \<and> status < 300 then (Inr (), s2) else (Inl (HttpRefused status), s2)))"

section \<open>base64\<close>

text \<open>The decoder of RFC 4648 that the encoding is compared with.\<close>

fun index_of :: "'a \<Rightarrow> 'a list \<Rightarrow> nat" where
  "index_of x [] = 0"
| "index_of x (y # ys) = (if x = y then 0 else Suc (index_of x ys))"

definition base64_value :: "char \<Rightarrow> nat" where
  "base64_value c = index_of c base64_alphabet"

fun base64_decode :: "string \<Rightarrow> bytes" where
  "base64_decode (c1 # c2 # c3 # c4 # rest) =
     (let n = ((base64_value c1 * 64 + base64_value c2) * 64 + base64_value c3 mod 64) * 64 +
              base64_value c4 mod 64
      in of_nat (n div 65536) #
         (if c3 = CHR ''='' then [] else of_nat (n div 256) # (if c4 = CHR ''='' then [] else [of_nat n]))
         @ base64_decode rest)"
| "base64_decode _ = []"

lemma index_of_nth: "distinct xs \<Longrightarrow> k < length xs \<Longrightarrow> index_of (xs ! k) xs = k"
proof (induction xs arbitrary: k)
  case (Cons x xs)
  then show ?case by (cases k) auto
qed simp

lemma base64_alphabet_facts: "length base64_alphabet = 64" "distinct base64_alphabet"
  "CHR ''='' \<notin> set base64_alphabet"
  by (simp_all add: base64_alphabet_def)

lemma base64_value_nth: "k < 64 \<Longrightarrow> base64_value (base64_alphabet ! k) = k"
  by (simp add: base64_value_def index_of_nth base64_alphabet_facts)

lemma base64_pad [simp]: "base64_value CHR ''='' = 64"
  by (simp add: base64_value_def base64_alphabet_def)

lemma unat_and_63: "unat (n AND 63 :: u32) = unat n mod 64"
proof -
  have "unat (n AND mask 6) = unat n mod 2 ^ 6"
    by (simp only: take_bit_eq_mask [symmetric] unsigned_take_bit_eq) (simp add: take_bit_eq_mod)
  then show ?thesis by (simp add: mask_eq_exp_minus_1)
qed

lemma base64_digit_nth: "base64_digit n k = base64_alphabet ! (unat n div 2 ^ k mod 64)"
  unfolding base64_digit_def unat_and_63 unat_drop_bit_div ..

lemma base64_digit_value: "base64_value (base64_digit n k) = unat n div 2 ^ k mod 64"
  by (simp add: base64_digit_nth base64_value_nth)

lemma base64_digit_not_pad [simp]: "base64_digit n k \<noteq> CHR ''=''"
proof
  assume "base64_digit n k = CHR ''=''"
  moreover have "base64_digit n k \<in> set base64_alphabet"
    unfolding base64_digit_nth by (rule nth_mem) (simp add: base64_alphabet_facts)
  ultimately show False using base64_alphabet_facts(3) by simp
qed

lemma unat_base64_group: "unat (base64_group a b c) = unat a * 65536 + unat b * 256 + unat c"
proof -
  have hi: "16 \<le> n" if "bit (push_bit 16 (ucast a :: u32)) n" for n
    using that by (simp add: bit_simps)
  have mid: "8 \<le> n \<and> n < 16" if "bit (push_bit 8 (ucast b :: u32)) n" for n
    using that by (auto simp: bit_simps dest: bit_imp_le_length)
  have lo: "n < 8" if "bit (ucast c :: u32) n" for n
    using that by (auto simp: bit_simps dest: bit_imp_le_length)
  have "push_bit 8 (ucast b) OR ucast c = push_bit 8 (ucast b) + (ucast c :: u32)"
    by (rule disjunctive_add [symmetric]) (use mid lo in force)
  moreover have "push_bit 16 (ucast a) OR (push_bit 8 (ucast b) OR ucast c) =
      push_bit 16 (ucast a) + (push_bit 8 (ucast b) OR (ucast c :: u32))"
    by (rule disjunctive_add [symmetric]) (use hi mid lo in \<open>force simp: bit_or_iff\<close>)
  ultimately have "base64_group a b c = push_bit 16 (ucast a) + (push_bit 8 (ucast b) + ucast c)"
    by (simp add: base64_group_def)
  then have eq: "base64_group a b c = of_nat (unat a * 65536 + unat b * 256 + unat c)"
    by (simp add: push_bit_eq_mult unsigned_ucast_eq mult.commute)
  have "unat a < 256" "unat b < 256" "unat c < 256"
    using unat_less_pow [of a] unat_less_pow [of b] unat_less_pow [of c] by simp_all
  then have "unat a * 65536 + unat b * 256 + unat c < 2 ^ LENGTH(32)" by simp
  then show ?thesis unfolding eq unat_of_nat by (rule mod_less)
qed

lemma base64_group_digits:
  assumes "n < 16777216"
  shows "((n div 2 ^ 18 mod 64 * 64 + n div 2 ^ 12 mod 64) * 64 + n div 2 ^ 6 mod 64) * 64 + n mod 64 = (n::nat)"
proof -
  have d: "n div 2 ^ 6 = n div 64" "n div 2 ^ 12 = n div 64 div 64" "n div 2 ^ 18 = n div 64 div 64 div 64"
    by (simp_all add: div_mult2_eq [symmetric])
  have small: "n div 64 div 64 div 64 mod 64 = n div 64 div 64 div 64"
    using assms by (simp add: div_mult2_eq [symmetric])
  show ?thesis unfolding d small div_mult_mod_eq ..
qed

lemma base64_group_bytes:
  fixes a b c :: u8
  shows "(of_nat ((unat a * 65536 + unat b * 256 + unat c) div 65536) :: u8) = a"
    "(of_nat ((unat a * 65536 + unat b * 256 + unat c) div 256) :: u8) = b"
    "(of_nat (unat a * 65536 + unat b * 256 + unat c) :: u8) = c"
proof -
  have lt: "unat a < 256" "unat b < 256" "unat c < 256"
    using unat_less_pow [of a] unat_less_pow [of b] unat_less_pow [of c] by simp_all
  have "(unat a * 65536 + unat b * 256 + unat c) div 65536 = unat a"
    using lt by (simp add: div_eq_dividend_iff add.assoc)
  then show "(of_nat ((unat a * 65536 + unat b * 256 + unat c) div 65536) :: u8) = a" by simp
  have "(unat a * 65536 + unat b * 256 + unat c) div 256 = unat a * 256 + unat b" using lt by simp
  then have "(of_nat ((unat a * 65536 + unat b * 256 + unat c) div 256) :: u8) = of_nat (unat a) * 256 + b"
    by simp
  moreover have "(256 :: u8) = 0" by simp
  ultimately show "(of_nat ((unat a * 65536 + unat b * 256 + unat c) div 256) :: u8) = b" by simp
  have z: "(256 :: u8) = 0" "(65536 :: u8) = 0" by simp_all
  have "(of_nat (unat a * 65536 + unat b * 256 + unat c) :: u8) = a * 65536 + b * 256 + c" by simp
  also have "\<dots> = c" by (simp only: z mult_zero_right add_0_left)
  finally show "(of_nat (unat a * 65536 + unat b * 256 + unat c) :: u8) = c" .
qed

lemma base64_group_round:
  fixes a b c :: u8
  defines "n \<equiv> base64_group a b c"
  shows "((base64_value (base64_digit n 18) * 64 + base64_value (base64_digit n 12)) * 64 +
      base64_value (base64_digit n 6)) * 64 + base64_value (base64_digit n 0) =
      unat a * 65536 + unat b * 256 + unat c"
proof -
  have "unat n < 16777216"
    unfolding n_def unat_base64_group
    using unat_less_pow [of a] unat_less_pow [of b] unat_less_pow [of c] by simp
  from base64_group_digits [OF this] show ?thesis
    by (simp only: base64_digit_value power_0 div_by_1) (simp only: n_def unat_base64_group)
qed

lemma base64_value_mod [simp]: "base64_value (base64_digit n k) mod 64 = base64_value (base64_digit n k)"
  by (simp add: base64_digit_value)

text \<open>The digits that padding replaces are zero.\<close>

lemma base64_padding_zero:
  "base64_value (base64_digit (base64_group a b 0) 0) = 0"
  "base64_value (base64_digit (base64_group a 0 0) 6) = 0"
  by (simp_all add: base64_digit_value unat_base64_group)

text \<open>
  The base64 of the proxy credentials is the encoding of RFC 4648: decoding it gives back the
  bytes, and its length is four characters for every started group of three bytes.
\<close>

theorem base64_round_trip:
  "base64_decode (base64 bs) = bs \<and> length (base64 bs) = 4 * ((length bs + 2) div 3)"
proof (induction bs rule: base64.induct)
  case (2 a)
  show ?case using base64_group_round [of a 0 0] base64_padding_zero base64_group_bytes [of a 0 0]
    by (simp add: Let_def)
next
  case (3 a b)
  show ?case using base64_group_round [of a b 0] base64_padding_zero(1) base64_group_bytes [of a b 0]
    by (simp add: Let_def)
next
  case (4 a b c rest)
  have "(5 + l) div 3 = Suc (Suc (Suc l) div 3)" for l :: nat by presburger
  with 4 show ?case using base64_group_round [of a b c] base64_group_bytes [of a b c]
    by (simp add: Let_def)
qed simp

section \<open>The SOCKS5 handshake\<close>

lemma io_bind_simps [simp]: "io_bind (Inl e, s) k = (Inl e, s)" "io_bind (Inr x, s) k = k x s"
  by (simp_all add: io_bind_def)

lemma read_exact_append:
  "length a = n \<Longrightarrow> st_in s = a @ rest \<Longrightarrow> read_exact n s = (Inr a, s\<lparr>st_in := rest\<rparr>)"
  by (simp add: read_exact_def)

lemma st_in_write [simp]: "st_in (write_all bs s) = st_in s"
  "st_out (write_all bs s) = st_out s @ bs"
  by (simp_all add: write_all_def)

text \<open>A bound address as it appears in a reply.\<close>

definition bound_address :: "u8 \<Rightarrow> bytes \<Rightarrow> bool" where
  "bound_address atyp bs \<longleftrightarrow>
     atyp = 1 \<and> length bs = 6 \<or> atyp = 4 \<and> length bs = 18 \<or>
     atyp = 3 \<and> bs \<noteq> [] \<and> length bs = unat (hd bs) + 3"

lemma socks5_drain_bound:
  assumes "bound_address atyp bound" "st_in s = bound @ tunnel"
  shows "socks5_drain atyp s = (Inr (), s\<lparr>st_in := tunnel\<rparr>)"
proof (cases "atyp = 3")
  case True
  then obtain n b where b: "bound = n # b" "length b = unat n + 2"
    using assms(1) by (cases bound) (auto simp: bound_address_def)
  have "read_exact 1 s = (Inr [n], s\<lparr>st_in := b @ tunnel\<rparr>)"
    by (rule read_exact_append) (simp_all add: assms(2) b(1))
  moreover have "read_exact (unat n + 2) (s\<lparr>st_in := b @ tunnel\<rparr>) = (Inr b, s\<lparr>st_in := tunnel\<rparr>)"
    by (subst read_exact_append [of b]) (simp_all add: b(2))
  ultimately show ?thesis by (simp add: socks5_drain_def True)
next
  case False
  then have "read_exact (length bound) s = (Inr bound, s\<lparr>st_in := tunnel\<rparr>)"
    by (simp add: read_exact_append assms(2))
  then show ?thesis using False assms(1) by (auto simp: socks5_drain_def bound_address_def)
qed

lemma socks5_connect_accepted:
  assumes "bound_address atyp bound" "st_in s = [v, 0, r, atyp] @ bound @ tunnel"
  shows "socks5_connect ip port s =
      (Inr (), s\<lparr>st_in := tunnel, st_out := st_out s @ socks5_request ip port\<rparr>)"
proof -
  have "read_exact 4 (write_all (socks5_request ip port) s) =
      (Inr [v, 0, r, atyp], (write_all (socks5_request ip port) s)\<lparr>st_in := bound @ tunnel\<rparr>)"
    by (rule read_exact_append) (simp_all add: assms(2))
  then show ?thesis
    using socks5_drain_bound [OF assms(1), of "(write_all (socks5_request ip port) s)\<lparr>st_in := bound @ tunnel\<rparr>" tunnel]
    by (simp add: socks5_connect_def write_all_def)
qed

lemma read_exact_out [simp]: "st_out (snd (read_exact n s)) = st_out s"
  by (simp add: read_exact_def)

lemma socks5_drain_out [simp]: "st_out (snd (socks5_drain atyp s)) = st_out s"
  by (auto simp: socks5_drain_def io_bind_def read_exact_def split: sum.split)

lemma socks5_connect_out:
  "st_out (snd (socks5_connect ip port s)) = st_out s @ socks5_request ip port"
  by (auto simp: socks5_connect_def io_bind_def read_exact_def)

lemma socks5_select_out:
  "st_out (snd (socks5_select p reply s)) = st_out s \<or>
   reply ! 0 = 5 \<and> reply ! 1 = 2 \<and>
     (\<exists>c. px_credentials p = Some c \<and> st_out (snd (socks5_select p reply s)) = st_out s @ socks5_auth_request c)"
  by (auto simp: socks5_select_def socks5_auth_def io_bind_def read_exact_def split: option.split)

lemma pair_if_out: "snd (if b then (Inl e, s) else (Inr (), s)) = s"
  by simp



text \<open>
  Whatever a proxy sends, the handshake writes the greeting and then only the request or the
  credentials followed by the request; the credentials are written only when the proxy selected
  username/password authentication and credentials are configured.
\<close>

theorem socks5_credentials_on_demand:
  "\<exists>written. st_out (snd (socks5_handshake p ip port s)) = st_out s @ socks5_greeting p @ written \<and>
     (written = [] \<or> written = socks5_request ip port \<or>
      take 2 (st_in s) = [5, 2] \<and>
      (\<exists>c. px_credentials p = Some c \<and>
         (written = socks5_auth_request c \<or> written = socks5_auth_request c @ socks5_request ip port)))"
proof (cases "length (st_in s) < 2")
  case True
  then show ?thesis by (simp add: socks5_handshake_def read_exact_def io_bind_def)
next
  case False
  then obtain a b rest where ab: "st_in s = a # b # rest"
    by (cases "st_in s"; cases "tl (st_in s)") auto
  define s1 where "s1 = (write_all (socks5_greeting p) s)\<lparr>st_in := rest\<rparr>"
  have "read_exact 2 (write_all (socks5_greeting p) s) = (Inr [a, b], s1)"
    by (subst read_exact_append [of "[a, b]"]) (simp_all add: ab s1_def)
  then have h: "socks5_handshake p ip port s = io_bind (socks5_select p [a, b] s1) (\<lambda>_. socks5_connect ip port)"
    by (simp add: socks5_handshake_def)
  obtain r s2 where r: "socks5_select p [a, b] s1 = (r, s2)" by (cases "socks5_select p [a, b] s1")
  have "st_out s2 = st_out s1 \<or> a = 5 \<and> b = 2 \<and>
      (\<exists>c. px_credentials p = Some c \<and> st_out s2 = st_out s1 @ socks5_auth_request c)"
    using socks5_select_out [of p "[a, b]" s1] r by simp
  moreover have "st_out s1 = st_out s @ socks5_greeting p" by (simp add: s1_def)
  moreover have "st_out (snd (socks5_handshake p ip port s)) =
      st_out s2 @ (case r of Inl _ \<Rightarrow> [] | Inr _ \<Rightarrow> socks5_request ip port)"
    by (simp add: h r io_bind_def socks5_connect_out split: sum.split)
  ultimately show ?thesis by (cases r) (auto simp: ab)
qed

section \<open>The HTTP handshake\<close>

text \<open>The header that ends the response: it ends in a blank line and no shorter prefix does.\<close>

definition header_at :: "bytes \<Rightarrow> bytes \<Rightarrow> bool" where
  "header_at buf h \<longleftrightarrow> h \<noteq> [] \<and> ends_with (buf @ h) (CRLF @ CRLF) \<and>
     (\<forall>k. 0 < k \<and> k < length h \<longrightarrow> \<not> ends_with (buf @ take k h) (CRLF @ CRLF))"

lemma header_at_Cons:
  assumes "header_at buf (b # h)" "h \<noteq> []"
  shows "\<not> ends_with (buf @ [b]) (CRLF @ CRLF)" "header_at (buf @ [b]) h"
proof -
  have all: "\<not> ends_with (buf @ take k (b # h)) (CRLF @ CRLF)" if "0 < k" "k < length (b # h)" for k
    using assms(1) that unfolding header_at_def by blast
  show "\<not> ends_with (buf @ [b]) (CRLF @ CRLF)" using all [of 1] assms(2) by simp
  show "header_at (buf @ [b]) h"
    using assms all [of "Suc k" for k] by (auto simp: header_at_def)
qed

lemma read_header_exact:
  "header_at buf h \<Longrightarrow> length (buf @ h) \<le> 8192 \<Longrightarrow> read_header buf (h @ tunnel) = (Inr (buf @ h), tunnel)"
proof (induction h arbitrary: buf)
  case Nil
  then show ?case by (simp add: header_at_def)
next
  case (Cons b h)
  show ?case
  proof (cases "h = []")
    case True
    then show ?thesis using Cons.prems by (simp add: header_at_def Let_def)
  next
    case False
    then show ?thesis
      using header_at_Cons [OF Cons.prems(1) False] Cons.IH [of "buf @ [b]"] Cons.prems(2)
      by (simp add: Let_def)
  qed
qed

lemma read_header_consumes:
  assumes "length buf \<le> 8192"
  shows "\<exists>h. inp = h @ snd (read_header buf inp) \<and> length (buf @ h) \<le> 8193"
  using assms
proof (induction inp arbitrary: buf)
  case (Cons b rest)
  show ?case
  proof (cases "8192 < length (buf @ [b]) \<or> ends_with (buf @ [b]) (CRLF @ CRLF)")
    case True
    then have "snd (read_header buf (b # rest)) = rest" by (auto simp: Let_def)
    then show ?thesis using Cons.prems by (intro exI [of _ "[b]"]) simp
  next
    case False
    then obtain h where "rest = h @ snd (read_header (buf @ [b]) rest)" "length (buf @ [b] @ h) \<le> 8193"
      using Cons.IH [of "buf @ [b]"] by auto
    moreover have "read_header buf (b # rest) = read_header (buf @ [b]) rest"
      using False by (simp add: Let_def)
    ultimately show ?thesis by (intro exI [of _ "b # h"]) simp
  qed
qed simp

text \<open>
  The HTTP handshake reads the header and nothing beyond it: after a response whose header
  ends at the first blank line, within 8192 bytes, the stream is at the first tunnelled byte, and
  the tunnel is accepted exactly for a status between 200 and 299.
\<close>

theorem http_connect_exact:
  assumes "st_in s = h @ tunnel" "header_at [] h" "length h \<le> 8192" "http_status h = Some status"
  shows "http_connect p ip port s =
      ((if 200 \<le> status \<and> status < 300 then Inr () else Inl (HttpRefused status)),
       s\<lparr>st_in := tunnel, st_out := st_out s @ connect_request p ip port\<rparr>)"
  using read_header_exact [of "[]" h tunnel] assms
  by (cases s) (simp add: http_connect_def write_all_def Let_def)

definition ok_response :: bytes where
  "ok_response = ascii_bytes ''HTTP/1.1 200 OK'' @ CRLF @ CRLF"

lemma http_status_ok: "http_status ok_response = Some 200"
proof -
  let ?txt = "[72, 84, 84, 80, 47, 49, 46, 49, 32, 50, 48, 48, 32, 79, 75, 13, 10, 13, 10]"
  have ok: "ok_response = utf8_encode ?txt"
    by (simp add: ok_response_def ascii_bytes_def CRLF_def utf8_encode_def utf8_char_def)
  have "utf8_lossy (utf8_encode ?txt) = utf8_encode ?txt"
    by (rule utf8_lossy_encode) (simp add: is_scalar_def)
  then have lossy: "utf8_lossy ok_response = ok_response" unfolding ok .
  have "first_line (byte_text ok_response) = ''HTTP/1.1 200 OK''"
    by (simp add: ok_response_def ascii_bytes_def CRLF_def byte_text_def first_line_def char_of_def bit_0)
  then show ?thesis
    unfolding http_status_def lossy
    by (simp add: ascii_space_def parse_u16_def starts_with_def parse_port_def is_digit_def dec_value_def)
qed

lemma header_at_ok: "header_at [] ok_response"
proof -
  have "list_all (\<lambda>k. \<not> ends_with (take k ok_response) (CRLF @ CRLF)) [0..<19]"
    by (simp add: ok_response_def ascii_bytes_def CRLF_def ends_with_def upt_rec)
  moreover have "ends_with ok_response (CRLF @ CRLF)" "length ok_response = 19" "ok_response \<noteq> []"
    by (simp_all add: ok_response_def ascii_bytes_def CRLF_def ends_with_def)
  ultimately show ?thesis by (auto simp: header_at_def list_all_iff)
qed

theorem http_connect_exact_witness:
  "fst (http_connect \<lparr>px_kind = HttpConnect, px_host = ''p'', px_port = 8080, px_credentials = None\<rparr>
      (V4 1) 53 \<lparr>st_in = ok_response @ [42], st_out = []\<rparr>) = Inr ()"
proof -
  from http_connect_exact [OF _ header_at_ok _ http_status_ok,
      of "\<lparr>st_in = ok_response @ [42], st_out = []\<rparr>" "[42]"
        "\<lparr>px_kind = HttpConnect, px_host = ''p'', px_port = 8080, px_credentials = None\<rparr>" "V4 1" 53]
  show ?thesis by (simp add: ok_response_def ascii_bytes_def CRLF_def)
qed

text \<open>
  The header loop ends: whatever the proxy sends, and however much of it, at most 8193 bytes
  are taken from the stream.
\<close>

theorem http_connect_reads_bounded:
  "\<exists>h. st_in s = h @ st_in (snd (http_connect p ip port s)) \<and> length h \<le> 8193"
proof -
  obtain h where "st_in s = h @ snd (read_header [] (st_in s))" "length h \<le> 8193"
    using read_header_consumes [of "[]" "st_in s"] by auto
  moreover have "st_in (snd (http_connect p ip port s)) = snd (read_header [] (st_in s))"
    by (auto simp: http_connect_def Let_def split_def split: sum.split option.split)
  ultimately show ?thesis by auto
qed

end
