(* ===== verification/Pool.thy ===== *)
theory Pool
  imports Egress Health Validation
begin

text \<open>
  Upstream routes (\<^verbatim>\<open>upstream/pool.rs\<close>).

  A route is a server, a transport, an address and an egress path, with its own health, cookie
  and pooled connection; of a connection only its presence is modelled. SHA-256 and the random
  numbers are arguments (\<open>sha\<close>, \<open>rnd\<close>: the number drawn for the i-th route of a group), as are
  the results of opening connections, sending requests and looking names up. The map of groups
  is an association list.
\<close>

section \<open>Routes\<close>

record route_key =
  rk_server :: string
  rk_transport :: transport_kind
  rk_addr :: ipaddr
  rk_path :: string
  rk_role :: resolver_role
  rk_authority :: string

definition route_key_text :: "route_key \<Rightarrow> string" where
  "route_key_text k =
     rk_server k @ ''/'' @ transport_label (rk_transport k) @ ''/'' @ ip_text (rk_addr k) @ ''/'' @ rk_path k"

record cookie_state =
  ck_client :: bytes
  ck_server :: "bytes option"

definition cookie_new :: "(bytes \<Rightarrow> bytes) \<Rightarrow> u64 \<Rightarrow> route_key \<Rightarrow> cookie_state" where
  "cookie_new sha random key =
     \<lparr>ck_client = map2 (XOR) (take 8 (sha (ascii_bytes (route_key_text key)))) (u64_to_le_bytes random),
      ck_server = None\<rparr>"

datatype protocol_config =
    PcUdp | PcTcp | PcTls string | PcHttps string string | PcQuic string | PcH3 string string

record connection_config =
  cn_protocol :: protocol_config
  cn_port :: u16
  cn_bind_addr :: "socket_addr option"

record route =
  rt_key :: route_key
  rt_weight :: u32
  rt_ecs :: "ecs_scope option"
  rt_cookies_enabled :: bool
  rt_trust_ad :: bool
  rt_egress :: egress_path
  rt_stream_companion :: bool
  rt_connection_config :: connection_config
  rt_connection :: bool
  rt_health :: route_health
  rt_cookie :: cookie_state

definition with_health :: "(route_health \<Rightarrow> route_health) \<Rightarrow> route \<Rightarrow> route" where
  "with_health f r = r\<lparr>rt_health := f (rt_health r)\<rparr>"

definition set_server_cookie :: "bytes option \<Rightarrow> route \<Rightarrow> route" where
  "set_server_cookie server r = r\<lparr>rt_cookie := (rt_cookie r)\<lparr>ck_server := server\<rparr>\<rparr>"

definition reset_connection :: "route \<Rightarrow> route" where
  "reset_connection r = r\<lparr>rt_connection := False\<rparr>"

text \<open>
  Obtaining a connection: the pooled one, or a new one whose result \<open>conn\<close> is the provider's error
  text or the time it took.
\<close>

definition route_connection :: "ustring + duration \<Rightarrow> route \<Rightarrow> (ustring + unit) \<times> route" where
  "route_connection conn r =
     (if rt_connection r then (Inr (), r)
      else case conn of
        Inl e \<Rightarrow> (Inl (bounded e 160), r)
      | Inr elapsed \<Rightarrow> (Inr (), (with_health (record_connect elapsed) r)\<lparr>rt_connection := True\<rparr>))"

text \<open>What the wire does with a request: no answer in time, an error, or an answer and its latency.\<close>

datatype wire_result = WireTimeout | WireError ustring | WireAnswer message duration

definition ascii_text :: "string \<Rightarrow> ustring" where
  "ascii_text s = map of_char s"

definition drop_stream_connection :: "route \<Rightarrow> route" where
  "drop_stream_connection r = (if is_stream (rk_transport (rt_key r)) then reset_connection r else r)"

definition route_send ::
  "ustring + duration \<Rightarrow> wire_result \<Rightarrow> route \<Rightarrow>
     (attempt_outcome \<times> ustring + message \<times> duration) \<times> route" where
  "route_send conn wire r =
     (case route_connection conn r of
        (Inl e, r1) \<Rightarrow> (Inl (AoTransportError, e), r1)
      | (Inr _, r1) \<Rightarrow>
          (case wire of
             WireTimeout \<Rightarrow> (Inl (AoTimeout, ascii_text ''upstream timeout''), drop_stream_connection r1)
           | WireError e \<Rightarrow> (Inl (AoTransportError, bounded e 160), drop_stream_connection r1)
           | WireAnswer m latency \<Rightarrow> (Inr (m, latency), r1)))"

section \<open>Groups and the registry\<close>

record upstream_group =
  gr_name :: string
  gr_routes :: "route list"
  gr_scheduler :: scheduler_config

definition stream_routes :: "upstream_group \<Rightarrow> route list" where
  "stream_routes g = filter (\<lambda>r. is_stream (rk_transport (rt_key r))) (gr_routes g)"

record upstream_registry =
  rg_groups :: "(string \<times> upstream_group) list"
  rg_default_group :: string

definition authority_of :: "upstream_server_config \<Rightarrow> ipaddr \<Rightarrow> string" where
  "authority_of s addr =
     (case us_server_name s of
        Some name \<Rightarrow> to_ascii_lowercase (trim_end_matches CHR ''.'' name)
      | None \<Rightarrow> socket_text addr (effective_port s))"

definition path_supports :: "egress_path \<Rightarrow> transport_kind \<Rightarrow> bool" where
  "path_supports path transport = (if is_stream transport then True else path_carries_udp path)"

definition require_name :: "upstream_server_config \<Rightarrow> resolve_error + string" where
  "require_name s = (case us_server_name s of Some n \<Rightarrow> Inr n | None \<Rightarrow> Inl (NoRoute (us_name s)))"

definition doh_path :: "upstream_server_config \<Rightarrow> string" where
  "doh_path s = (case us_path s of Some p \<Rightarrow> p | None \<Rightarrow> ''/dns-query'')"

definition protocol_for :: "upstream_server_config \<Rightarrow> resolve_error + protocol_config" where
  "protocol_for s =
     (case us_transport s of
        Udp \<Rightarrow> Inr PcUdp
      | Tcp \<Rightarrow> Inr PcTcp
      | Dot \<Rightarrow> map_sum id PcTls (require_name s)
      | Doh2 \<Rightarrow> map_sum id (\<lambda>n. PcHttps n (doh_path s)) (require_name s)
      | Doq \<Rightarrow> map_sum id PcQuic (require_name s)
      | Doh3 \<Rightarrow> map_sum id (\<lambda>n. PcH3 n (doh_path s)) (require_name s))"

definition connection_config_for :: "upstream_server_config \<Rightarrow> resolve_error + connection_config" where
  "connection_config_for s =
     map_sum id (\<lambda>p. \<lparr>cn_protocol = p, cn_port = effective_port s, cn_bind_addr = us_bind_addr s\<rparr>)
       (protocol_for s)"

text \<open>A route to be created: everything but its cookie.\<close>

definition make_route ::
  "upstream_server_config \<Rightarrow> ipaddr \<Rightarrow> egress_path \<Rightarrow> transport_kind \<Rightarrow> connection_config \<Rightarrow> bool \<Rightarrow>
     cookie_state \<Rightarrow> route" where
  "make_route s addr path transport conn companion cookie =
     \<lparr>rt_key = \<lparr>rk_server = us_name s, rk_transport = transport, rk_addr = addr, rk_path = path_id path,
               rk_role = us_role s, rk_authority = authority_of s addr\<rparr>,
      rt_weight = us_weight s, rt_ecs = us_ecs s, rt_cookies_enabled = cookies_effective s,
      rt_trust_ad = us_trust_ad s, rt_egress = path, rt_stream_companion = companion,
      rt_connection_config = conn, rt_connection = False, rt_health = health_new, rt_cookie = cookie\<rparr>"

definition companion_routes ::
  "egress_path list \<Rightarrow> upstream_server_config \<Rightarrow> ipaddr \<Rightarrow> (cookie_state \<Rightarrow> route) list" where
  "companion_routes paths s addr =
     map (\<lambda>path. make_route s addr path Tcp
            \<lparr>cn_protocol = PcTcp, cn_port = effective_port s, cn_bind_addr = us_bind_addr s\<rparr> True) paths"

fun path_routes ::
  "egress_path list \<Rightarrow> upstream_server_config \<Rightarrow> ipaddr \<Rightarrow> egress_path list \<Rightarrow>
     resolve_error + (cookie_state \<Rightarrow> route) list" where
  "path_routes paths s addr [] = Inr []"
| "path_routes paths s addr (path # rest) =
     (if \<not> path_supports path (us_transport s) then path_routes paths s addr rest
      else case connection_config_for s of
        Inl e \<Rightarrow> Inl e
      | Inr conn \<Rightarrow>
          (let r = make_route s addr path (us_transport s) conn False in
           if us_transport s = Udp then Inr (r # companion_routes paths s addr)
           else case path_routes paths s addr rest of
                  Inl e \<Rightarrow> Inl e
                | Inr rs \<Rightarrow> Inr (r # rs)))"

fun collect_routes :: "('a \<Rightarrow> 'e + 'b list) \<Rightarrow> 'a list \<Rightarrow> 'e + 'b list" where
  "collect_routes f [] = Inr []"
| "collect_routes f (x # xs) =
     (case f x of
        Inl e \<Rightarrow> Inl e
      | Inr ys \<Rightarrow> (case collect_routes f xs of Inl e \<Rightarrow> Inl e | Inr zs \<Rightarrow> Inr (ys @ zs)))"

definition server_routes ::
  "egress_path list \<Rightarrow> upstream_server_config \<Rightarrow> resolve_error + (cookie_state \<Rightarrow> route) list" where
  "server_routes paths s = collect_routes (\<lambda>addr. path_routes paths s addr paths) (us_addresses s)"

definition egress_paths :: "proxy_endpoint list \<Rightarrow> egress_path list" where
  "egress_paths proxies = Direct # map Proxy proxies"

definition with_cookie :: "(bytes \<Rightarrow> bytes) \<Rightarrow> u64 \<Rightarrow> (cookie_state \<Rightarrow> route) \<Rightarrow> route" where
  "with_cookie sha random mk =
     mk (cookie_new sha random (rt_key (mk \<lparr>ck_client = [], ck_server = None\<rparr>)))"

definition build_group ::
  "(bytes \<Rightarrow> bytes) \<Rightarrow> (nat \<Rightarrow> u64) \<Rightarrow> proxy_endpoint list \<Rightarrow> upstream_group_config \<Rightarrow>
     resolve_error + upstream_group" where
  "build_group sha rnd proxies g =
     (case collect_routes (server_routes (egress_paths proxies)) (filter us_enabled (ug_servers g)) of
        Inl e \<Rightarrow> Inl e
      | Inr mks \<Rightarrow>
          Inr \<lparr>gr_name = ug_name g,
               gr_routes = map (\<lambda>(i, mk). with_cookie sha (rnd i) mk) (enumerate 0 mks),
               gr_scheduler = ug_scheduler g\<rparr>)"

fun build_groups ::
  "(upstream_group_config \<Rightarrow> resolve_error + upstream_group) \<Rightarrow> upstream_group_config list \<Rightarrow>
     (string \<times> upstream_group) list \<Rightarrow> resolve_error + (string \<times> upstream_group) list" where
  "build_groups build [] groups = Inr groups"
| "build_groups build (g # gs) groups =
     (case build g of
        Inl e \<Rightarrow> Inl e
      | Inr grp \<Rightarrow> build_groups build gs (AList.update (ug_name g) grp groups))"

definition registry_build ::
  "(bytes \<Rightarrow> bytes) \<Rightarrow> (nat \<Rightarrow> u64) \<Rightarrow> upstream_config \<Rightarrow> proxy_endpoint list \<Rightarrow>
     resolve_error + upstream_registry" where
  "registry_build sha rnd cfg proxies =
     map_sum id (\<lambda>groups. \<lparr>rg_groups = groups, rg_default_group = uc_default_group cfg\<rparr>)
       (build_groups (build_group sha rnd proxies) (uc_groups cfg) [])"

definition registry_default_group :: "upstream_registry \<Rightarrow> upstream_group option" where
  "registry_default_group r = map_of (rg_groups r) (rg_default_group r)"

definition registry_group :: "upstream_registry \<Rightarrow> string \<Rightarrow> upstream_group option" where
  "registry_group r name =
     (case map_of (rg_groups r) name of Some g \<Rightarrow> Some g | None \<Rightarrow> registry_default_group r)"

definition all_routes :: "upstream_registry \<Rightarrow> route list" where
  "all_routes r = concat (map (gr_routes \<circ> snd) (rg_groups r))"

definition registry_drain :: "upstream_registry \<Rightarrow> upstream_registry" where
  "registry_drain r =
     r\<lparr>rg_groups := map (\<lambda>(n, g). (n, g\<lparr>gr_routes := map reset_connection (gr_routes g)\<rparr>)) (rg_groups r)\<rparr>"

section \<open>What a registry contains\<close>

lemma collect_routes_set:
  "collect_routes f xs = Inr ys \<Longrightarrow> set ys = (\<Union>x\<in>set xs. \<Union>zs\<in>{zs. f x = Inr zs}. set zs)"
proof (induction xs arbitrary: ys)
  case (Cons x xs)
  then show ?case by (auto split: sum.splits)
qed simp

lemma collect_routes_elem:
  "collect_routes f xs = Inr ys \<Longrightarrow> y \<in> set ys \<Longrightarrow> \<exists>x zs. x \<in> set xs \<and> f x = Inr zs \<and> y \<in> set zs"
  using collect_routes_set [of f xs ys] by auto

lemma collect_routes_defined:
  "collect_routes f xs = Inr ys \<Longrightarrow> x \<in> set xs \<Longrightarrow> \<exists>zs. f x = Inr zs"
proof (induction xs arbitrary: ys)
  case (Cons a xs)
  then show ?case by (auto split: sum.splits)
qed simp

text \<open>The two kinds of route a server and an address give rise to.\<close>

definition main_route ::
  "egress_path list \<Rightarrow> upstream_server_config \<Rightarrow> ipaddr \<Rightarrow> (cookie_state \<Rightarrow> route) \<Rightarrow> bool" where
  "main_route paths s addr mk \<longleftrightarrow>
     (\<exists>path conn. path \<in> set paths \<and> path_supports path (us_transport s) \<and>
        connection_config_for s = Inr conn \<and> mk = make_route s addr path (us_transport s) conn False)"

definition companion_route ::
  "egress_path list \<Rightarrow> upstream_server_config \<Rightarrow> ipaddr \<Rightarrow> (cookie_state \<Rightarrow> route) \<Rightarrow> bool" where
  "companion_route paths s addr mk \<longleftrightarrow> us_transport s = Udp \<and> mk \<in> set (companion_routes paths s addr)"

lemma path_routes_sound:
  assumes "path_routes paths s addr rest = Inr mks" "mk \<in> set mks"
  shows "main_route rest s addr mk \<or> companion_route paths s addr mk"
  using assms
proof (induction rest arbitrary: mks)
  case (Cons p rest)
  have mono: "main_route rest s addr mk \<Longrightarrow> main_route (p # rest) s addr mk"
    unfolding main_route_def by auto
  show ?case
  proof (cases "path_supports p (us_transport s)")
    case False
    then show ?thesis using Cons mono by auto
  next
    case True
    with Cons.prems obtain conn where conn: "connection_config_for s = Inr conn"
      by (auto split: sum.splits)
    have "main_route (p # rest) s addr (make_route s addr p (us_transport s) conn False)"
      unfolding main_route_def using True conn by auto
    with True conn Cons mono show ?thesis
      by (auto simp: companion_route_def Let_def split: if_splits sum.splits)
  qed
qed simp

lemma path_routes_stream_complete:
  assumes "path_routes paths s addr rest = Inr mks" "us_transport s \<noteq> Udp" "path \<in> set rest"
  shows "\<exists>conn. connection_config_for s = Inr conn \<and>
      make_route s addr path (us_transport s) conn False \<in> set mks"
  using assms
proof (induction rest arbitrary: mks)
  case (Cons p rest)
  then have "path_supports p (us_transport s)" by (simp add: path_supports_def is_stream_def)
  with Cons show ?case by (auto simp: Let_def split: sum.splits)
qed simp

lemma path_routes_udp_complete:
  assumes "path_routes (egress_paths proxies) s addr (egress_paths proxies) = Inr mks" "us_transport s = Udp"
  shows "\<exists>conn. connection_config_for s = Inr conn \<and>
      mks = make_route s addr Direct Udp conn False # companion_routes (egress_paths proxies) s addr"
  using assms
  by (auto simp: egress_paths_def path_supports_def is_stream_def Let_def split: sum.splits)

definition group_makers ::
  "proxy_endpoint list \<Rightarrow> upstream_group_config \<Rightarrow> resolve_error + (cookie_state \<Rightarrow> route) list" where
  "group_makers proxies g =
     collect_routes (server_routes (egress_paths proxies)) (filter us_enabled (ug_servers g))"

lemma build_group_routes:
  assumes "build_group sha rnd proxies g = Inr grp"
  shows "\<exists>mks. group_makers proxies g = Inr mks \<and>
      set (gr_routes grp) = {with_cookie sha (rnd i) (mks ! i) | i. i < length mks}"
proof -
  obtain mks where m: "group_makers proxies g = Inr mks"
    "gr_routes grp = map (\<lambda>(i, mk). with_cookie sha (rnd i) mk) (enumerate 0 mks)"
    using assms by (auto simp: build_group_def group_makers_def split: sum.splits)
  have "set (gr_routes grp) = {with_cookie sha (rnd i) (mks ! i) | i. i < length mks}"
    unfolding m(2) by (force simp: in_set_enumerate_eq image_iff)
  with m(1) show ?thesis by blast
qed

lemma group_maker_cases:
  assumes "group_makers proxies g = Inr mks" "mk \<in> set mks"
  obtains s addr where "s \<in> set (ug_servers g)" "us_enabled s" "addr \<in> set (us_addresses s)"
    "main_route (egress_paths proxies) s addr mk \<or> companion_route (egress_paths proxies) s addr mk"
proof -
  obtain s zs where s: "s \<in> set (ug_servers g)" "us_enabled s"
    "server_routes (egress_paths proxies) s = Inr zs" "mk \<in> set zs"
    using collect_routes_elem [OF assms(1) [unfolded group_makers_def] assms(2)] by auto
  obtain addr ws where a: "addr \<in> set (us_addresses s)"
    "path_routes (egress_paths proxies) s addr (egress_paths proxies) = Inr ws" "mk \<in> set ws"
    using collect_routes_elem [OF s(3) [unfolded server_routes_def] s(4)] by auto
  show thesis by (rule that [OF s(1,2) a(1) path_routes_sound [OF a(2,3)]])
qed

lemma group_maker_complete:
  assumes "group_makers proxies g = Inr mks" "s \<in> set (ug_servers g)" "us_enabled s"
    "addr \<in> set (us_addresses s)"
  obtains ws where "path_routes (egress_paths proxies) s addr (egress_paths proxies) = Inr ws" "set ws \<subseteq> set mks"
proof -
  obtain zs where z: "server_routes (egress_paths proxies) s = Inr zs"
    using collect_routes_defined [OF assms(1) [unfolded group_makers_def], of s] assms(2,3) by auto
  then have zm: "set zs \<subseteq> set mks"
    using collect_routes_set [OF assms(1) [unfolded group_makers_def]] assms(2,3) by auto
  obtain ws where w: "path_routes (egress_paths proxies) s addr (egress_paths proxies) = Inr ws"
    using collect_routes_defined [OF z [unfolded server_routes_def] assms(4)] by auto
  moreover have "set ws \<subseteq> set zs"
    using collect_routes_set [OF z [unfolded server_routes_def]] assms(4) w by auto
  ultimately show thesis using that zm by blast
qed

lemma build_groups_sound:
  "build_groups build gs groups = Inr out \<Longrightarrow> (n, grp) \<in> set out \<Longrightarrow>
   (n, grp) \<in> set groups \<or> (\<exists>g\<in>set gs. build g = Inr grp \<and> ug_name g = n)"
proof (induction gs arbitrary: groups)
  case (Cons g gs)
  then obtain x where x: "build g = Inr x" "build_groups build gs (AList.update (ug_name g) x groups) = Inr out"
    by (auto split: sum.splits)
  have "(n, grp) \<in> set (AList.update (ug_name g) x groups) \<Longrightarrow> (n, grp) \<in> set groups \<or> n = ug_name g \<and> grp = x"
    by (induction groups) (auto split: if_splits)
  with Cons.IH [OF x(2) Cons.prems(2)] x(1) show ?case by auto
qed simp

lemma build_groups_complete:
  "build_groups build gs groups = Inr out \<Longrightarrow> distinct (map ug_name gs) \<Longrightarrow>
   (\<forall>g\<in>set gs. \<exists>grp. build g = Inr grp \<and> map_of out (ug_name g) = Some grp) \<and>
   (\<forall>n. n \<notin> ug_name ` set gs \<longrightarrow> map_of out n = map_of groups n)"
proof (induction gs arbitrary: groups)
  case (Cons g gs)
  then obtain x where x: "build g = Inr x" "build_groups build gs (AList.update (ug_name g) x groups) = Inr out"
    by (auto split: sum.splits)
  have "map_of out (ug_name g) = Some x"
    using Cons.IH [OF x(2)] Cons.prems(2) by (simp add: update_conv')
  then show ?case using Cons.IH [OF x(2)] Cons.prems(2) x(1) by (auto simp: update_conv')
qed simp

lemma registry_routes:
  assumes "registry_build sha rnd cfg proxies = Inr reg" "r \<in> set (all_routes reg)"
  obtains g s addr mk random where "g \<in> set (uc_groups cfg)" "s \<in> set (ug_servers g)" "us_enabled s"
    "addr \<in> set (us_addresses s)" "r = with_cookie sha random mk"
    "main_route (egress_paths proxies) s addr mk \<or> companion_route (egress_paths proxies) s addr mk"
proof -
  obtain n grp where ng: "(n, grp) \<in> set (rg_groups reg)" "r \<in> set (gr_routes grp)"
    using assms(2) by (auto simp: all_routes_def)
  obtain out where out: "build_groups (build_group sha rnd proxies) (uc_groups cfg) [] = Inr out"
    "rg_groups reg = out"
    using assms(1) by (auto simp: registry_build_def map_sum_def split: sum.splits)
  then obtain g where g: "g \<in> set (uc_groups cfg)" "build_group sha rnd proxies g = Inr grp"
    using build_groups_sound [OF out(1)] ng(1) by auto
  obtain mks i where "group_makers proxies g = Inr mks" "i < length mks" "r = with_cookie sha (rnd i) (mks ! i)"
    using build_group_routes [OF g(2)] ng(2) by auto
  with g(1) show thesis using that group_maker_cases nth_mem by metis
qed

lemma registry_group_makers:
  assumes "registry_build sha rnd cfg proxies = Inr reg" "distinct (map ug_name (uc_groups cfg))"
    "g \<in> set (uc_groups cfg)"
  obtains grp mks where "registry_group reg (ug_name g) = Some grp" "group_makers proxies g = Inr mks"
    "\<And>mk. mk \<in> set mks \<Longrightarrow> \<exists>random. with_cookie sha random mk \<in> set (gr_routes grp)"
proof -
  obtain out where out: "build_groups (build_group sha rnd proxies) (uc_groups cfg) [] = Inr out"
    "rg_groups reg = out"
    using assms(1) by (auto simp: registry_build_def map_sum_def split: sum.splits)
  obtain grp where grp: "build_group sha rnd proxies g = Inr grp" "map_of out (ug_name g) = Some grp"
    using build_groups_complete [OF out(1) assms(2)] assms(3) by auto
  obtain mks where mks: "group_makers proxies g = Inr mks"
    "set (gr_routes grp) = {with_cookie sha (rnd i) (mks ! i) | i. i < length mks}"
    using build_group_routes [OF grp(1)] by auto
  have "\<exists>random. with_cookie sha random mk \<in> set (gr_routes grp)" if "mk \<in> set mks" for mk
    using that unfolding mks(2) in_set_conv_nth by blast
  with grp(2) out(2) mks(1) show thesis by (intro that) (simp_all add: registry_group_def)
qed

lemma with_cookie_make_route:
  "\<exists>cookie. with_cookie sha random (make_route s addr path t conn cmp) =
     make_route s addr path t conn cmp cookie"
  unfolding with_cookie_def by blast

lemma make_route_fields [simp]:
  "rt_key (make_route s addr path t conn cmp ck) =
     \<lparr>rk_server = us_name s, rk_transport = t, rk_addr = addr, rk_path = path_id path,
      rk_role = us_role s, rk_authority = authority_of s addr\<rparr>"
  "rt_egress (make_route s addr path t conn cmp ck) = path"
  "rt_stream_companion (make_route s addr path t conn cmp ck) = cmp"
  "rt_cookies_enabled (make_route s addr path t conn cmp ck) = cookies_effective s"
  "rt_connection_config (make_route s addr path t conn cmp ck) = conn"
  "rt_health (make_route s addr path t conn cmp ck) = health_new"
  by (simp_all add: make_route_def)

lemma connection_config_named:
  "connection_config_for s = Inr conn \<Longrightarrow>
   cn_port conn = effective_port s \<and> (is_encrypted (us_transport s) \<longrightarrow> us_server_name s \<noteq> None)"
  by (cases "us_transport s"; cases "us_server_name s")
    (auto simp: connection_config_for_def protocol_for_def require_name_def is_encrypted_def)

text \<open>What holds of a route made for a server and an address.\<close>

definition route_for :: "upstream_server_config \<Rightarrow> ipaddr \<Rightarrow> route \<Rightarrow> bool" where
  "route_for s addr r \<longleftrightarrow>
     rk_server (rt_key r) = us_name s \<and> rk_addr (rt_key r) = addr \<and> rk_role (rt_key r) = us_role s \<and>
     rk_authority (rt_key r) = authority_of s addr \<and>
     rk_transport (rt_key r) = (if rt_stream_companion r then Tcp else us_transport s) \<and>
     (rt_stream_companion r \<longrightarrow> us_transport s = Udp) \<and>
     (rk_transport (rt_key r) = Udp \<longrightarrow> rt_egress r = Direct) \<and>
     (rt_cookies_enabled r \<longrightarrow> \<not> is_encrypted (rk_transport (rt_key r))) \<and>
     (is_encrypted (rk_transport (rt_key r)) \<longrightarrow> us_server_name s \<noteq> None) \<and>
     cn_port (rt_connection_config r) = effective_port s"

lemma main_route_for:
  assumes "main_route (egress_paths proxies) s addr mk"
  shows "route_for s addr (with_cookie sha random mk)"
proof -
  obtain path conn where p: "path \<in> set (egress_paths proxies)" "path_supports path (us_transport s)"
    "connection_config_for s = Inr conn" "mk = make_route s addr path (us_transport s) conn False"
    using assms by (auto simp: main_route_def)
  obtain ck where ck: "with_cookie sha random mk = make_route s addr path (us_transport s) conn False ck"
    using with_cookie_make_route p(4) by blast
  have "us_transport s = Udp \<Longrightarrow> path = Direct"
    using p(1,2) by (auto simp: path_supports_def is_stream_def egress_paths_def kind_carries_udp_def)
  then show ?thesis
    using connection_config_named [OF p(3)] unfolding ck route_for_def by (simp add: cookies_effective_def)
qed

lemma companion_route_for:
  assumes "companion_route paths s addr mk"
  shows "route_for s addr (with_cookie sha random mk)"
proof -
  let ?conn = "\<lparr>cn_protocol = PcTcp, cn_port = effective_port s, cn_bind_addr = us_bind_addr s\<rparr>"
  obtain path where p: "us_transport s = Udp" "mk = make_route s addr path Tcp ?conn True"
    using assms by (auto simp: companion_route_def companion_routes_def)
  obtain ck where ck: "with_cookie sha random mk = make_route s addr path Tcp ?conn True ck"
    using with_cookie_make_route p(2) by blast
  show ?thesis
    unfolding ck route_for_def using p(1) by (simp add: is_encrypted_def)
qed


text \<open>
  Every address of an enabled UDP server has its UDP route and a TCP companion to the same
  address and port with the same authority, so a truncated answer can be retried over a stream.
\<close>

theorem udp_server_has_companion:
  assumes "registry_build sha rnd cfg proxies = Inr reg" "distinct (map ug_name (uc_groups cfg))"
    "g \<in> set (uc_groups cfg)" "s \<in> set (ug_servers g)" "us_enabled s" "us_transport s = Udp"
    "addr \<in> set (us_addresses s)"
  shows "\<exists>grp r c. registry_group reg (ug_name g) = Some grp \<and> r \<in> set (gr_routes grp) \<and> c \<in> set (gr_routes grp) \<and>
    rk_transport (rt_key r) = Udp \<and> \<not> rt_stream_companion r \<and> rt_egress r = Direct \<and>
    rk_transport (rt_key c) = Tcp \<and> rt_stream_companion c \<and> rt_egress c = Direct \<and>
    rk_addr (rt_key r) = addr \<and> rk_addr (rt_key c) = addr \<and>
    rk_authority (rt_key c) = rk_authority (rt_key r) \<and>
    cn_port (rt_connection_config c) = cn_port (rt_connection_config r)"
proof -
  let ?tcp = "\<lparr>cn_protocol = PcTcp, cn_port = effective_port s, cn_bind_addr = us_bind_addr s\<rparr>"
  obtain grp mks where grp: "registry_group reg (ug_name g) = Some grp" "group_makers proxies g = Inr mks"
    and in_grp: "\<And>mk. mk \<in> set mks \<Longrightarrow> \<exists>random. with_cookie sha random mk \<in> set (gr_routes grp)"
    using registry_group_makers [OF assms(1,2,3)] by blast
  obtain ws where ws: "path_routes (egress_paths proxies) s addr (egress_paths proxies) = Inr ws" "set ws \<subseteq> set mks"
    using group_maker_complete [OF grp(2) assms(4,5,7)] by blast
  obtain conn where conn: "connection_config_for s = Inr conn"
    "ws = make_route s addr Direct Udp conn False # companion_routes (egress_paths proxies) s addr"
    using path_routes_udp_complete [OF ws(1) assms(6)] by blast
  have mem: "make_route s addr Direct Udp conn False \<in> set mks" "make_route s addr Direct Tcp ?tcp True \<in> set mks"
    using ws(2) unfolding conn(2) by (auto simp: companion_routes_def egress_paths_def)
  obtain ck1 where r: "make_route s addr Direct Udp conn False ck1 \<in> set (gr_routes grp)"
    using in_grp [OF mem(1)] with_cookie_make_route by metis
  obtain ck2 where c: "make_route s addr Direct Tcp ?tcp True ck2 \<in> set (gr_routes grp)"
    using in_grp [OF mem(2)] with_cookie_make_route by metis
  show ?thesis
    by (intro exI conjI, rule grp(1), rule r, rule c) (use connection_config_named [OF conn(1)] in simp_all)
qed

text \<open>
  The datagram transports DoQ and DoH3 are offered on proxied paths, which carry no datagrams:
  for every proxy, address and enabled server of such a transport the registry holds a route
  through the proxy.
\<close>

theorem proxied_quic_routes:
  assumes "registry_build sha rnd cfg proxies = Inr reg" "distinct (map ug_name (uc_groups cfg))"
    "g \<in> set (uc_groups cfg)" "s \<in> set (ug_servers g)" "us_enabled s" "us_transport s \<in> {Doq, Doh3}"
    "addr \<in> set (us_addresses s)" "p \<in> set proxies"
  shows "\<exists>grp r. registry_group reg (ug_name g) = Some grp \<and> r \<in> set (gr_routes grp) \<and>
    rk_transport (rt_key r) = us_transport s \<and> rk_addr (rt_key r) = addr \<and> rt_egress r = Proxy p \<and>
    \<not> path_carries_udp (rt_egress r)"
proof -
  obtain grp mks where grp: "registry_group reg (ug_name g) = Some grp" "group_makers proxies g = Inr mks"
    and in_grp: "\<And>mk. mk \<in> set mks \<Longrightarrow> \<exists>random. with_cookie sha random mk \<in> set (gr_routes grp)"
    using registry_group_makers [OF assms(1,2,3)] by blast
  obtain ws where ws: "path_routes (egress_paths proxies) s addr (egress_paths proxies) = Inr ws" "set ws \<subseteq> set mks"
    using group_maker_complete [OF grp(2) assms(4,5,7)] by blast
  obtain conn where conn: "make_route s addr (Proxy p) (us_transport s) conn False \<in> set ws"
    using path_routes_stream_complete [OF ws(1), of "Proxy p"] assms(6,8) by (auto simp: egress_paths_def)
  then obtain ck where r: "make_route s addr (Proxy p) (us_transport s) conn False ck \<in> set (gr_routes grp)"
    using in_grp ws(2) with_cookie_make_route by (metis subsetD)
  show ?thesis by (intro exI conjI, rule grp(1), rule r) (simp_all add: kind_carries_udp_def)
qed

section \<open>A concrete registry\<close>

definition sample_udp :: upstream_server_config where
  "sample_udp =
     upstream_server_default\<lparr>us_name := ''u0-udp'', us_addresses := [V4 (ipv4_new 1 1 1 1)],
       us_port := Some 53\<rparr>"

definition sample_doq :: upstream_server_config where
  "sample_doq =
     upstream_server_default\<lparr>us_name := ''u1-doq'', us_transport := Doq,
       us_addresses := [V4 (ipv4_new 94 140 14 14)], us_server_name := Some ''dns.adguard-dns.com'',
       us_port := Some 853\<rparr>"

definition sample_group :: upstream_group_config where
  "sample_group =
     \<lparr>ug_name = ''default'', ug_servers = [sample_udp, sample_doq], ug_scheduler = scheduler_config_default\<rparr>"

definition sample_upstreams :: upstream_config where
  "sample_upstreams =
     \<lparr>uc_default_group = ''default'', uc_groups = [sample_group], uc_tls = upstream_tls_default\<rparr>"

definition sample_proxy :: proxy_endpoint where
  "sample_proxy = \<lparr>px_kind = Socks5, px_host = ''192.0.2.1'', px_port = 1080, px_credentials = None\<rparr>"

definition sample_registry :: upstream_registry where
  "sample_registry = projr (registry_build (\<lambda>_. replicate 32 0) (\<lambda>_. 0) sample_upstreams [sample_proxy])"

lemmas sample_registry_defs =
  sample_upstreams_def sample_group_def sample_udp_def sample_doq_def upstream_server_default_def

lemma sample_registry_built:
  "registry_build (\<lambda>_. replicate 32 0) (\<lambda>_. 0) sample_upstreams [sample_proxy] = Inr sample_registry"
  "all_routes sample_registry \<noteq> []"
  by (simp_all add: sample_registry_def registry_build_def sample_registry_defs build_group_def
      server_routes_def egress_paths_def path_supports_def is_stream_def connection_config_for_def
      protocol_for_def require_name_def companion_routes_def all_routes_def Let_def)


theorem udp_server_has_companion_witness:
  "\<exists>grp c. registry_group sample_registry ''default'' = Some grp \<and> c \<in> set (gr_routes grp) \<and>
    rk_transport (rt_key c) = Tcp \<and> rt_stream_companion c"
proof -
  have g: "distinct (map ug_name (uc_groups sample_upstreams))" "sample_group \<in> set (uc_groups sample_upstreams)"
    "sample_udp \<in> set (ug_servers sample_group)" "us_enabled sample_udp" "us_transport sample_udp = Udp"
    "V4 (ipv4_new 1 1 1 1) \<in> set (us_addresses sample_udp)" "ug_name sample_group = ''default''"
    by (simp_all add: sample_registry_defs)
  from udp_server_has_companion [OF sample_registry_built(1) g(1-6)] g(7) show ?thesis by auto
qed

theorem proxied_quic_routes_witness:
  "\<exists>grp r. registry_group sample_registry ''default'' = Some grp \<and> r \<in> set (gr_routes grp) \<and>
    rk_transport (rt_key r) = Doq \<and> rt_egress r = Proxy sample_proxy"
proof -
  have g: "distinct (map ug_name (uc_groups sample_upstreams))" "sample_group \<in> set (uc_groups sample_upstreams)"
    "sample_doq \<in> set (ug_servers sample_group)" "us_enabled sample_doq" "us_transport sample_doq \<in> {Doq, Doh3}"
    "V4 (ipv4_new 94 140 14 14) \<in> set (us_addresses sample_doq)" "sample_proxy \<in> set [sample_proxy]"
    and t: "us_transport sample_doq = Doq" "ug_name sample_group = ''default''"
    by (simp_all add: sample_registry_defs)
  from proxied_quic_routes [OF sample_registry_built(1) g] t show ?thesis by auto
qed

text \<open>
  An operator's plain and encrypted endpoints are two authorities although the catalog knows them
  as one, and a plaintext server given by a name is identified by that unproven name.
\<close>

lemma operator_counts_twice:
  "authority_of sample_udp (V4 (ipv4_new 1 1 1 1)) = ''1.1.1.1:53''"
  "authority_of (hd default_upstreams) (V4 (ipv4_new 1 1 1 1)) = ''cloudflare-dns.com''"
  "authority_for ''1.1.1.1'' = authority_for ''cloudflare-dns.com''"
proof -
  show "authority_of sample_udp (V4 (ipv4_new 1 1 1 1)) = ''1.1.1.1:53''"
    by (simp add: authority_of_def sample_udp_def upstream_server_default_def effective_port_def
        ipv4_text_def octet_def ipv4_new_def dec_small digit_char_def)
  show "authority_of (hd default_upstreams) (V4 (ipv4_new 1 1 1 1)) = ''cloudflare-dns.com''"
    by (simp add: authority_of_def default_upstreams_def upstream_server_default_def trim_end_matches_def
        to_ascii_lowercase_def to_ascii_lower_char_def)
  show "authority_for ''1.1.1.1'' = authority_for ''cloudflare-dns.com''"
    by (simp add: authority_for_def catalog_eval)
qed

lemma plaintext_name_is_authority:
  "us_server_name s = Some name \<Longrightarrow> us_transport s = Udp \<Longrightarrow> authority_of s addr = authority_of s addr'"
  by (simp add: authority_of_def)

end
