(* ===== verification/Scheduler.thy ===== *)
theory Scheduler
  imports Pool
begin

unbundle bit_operations_syntax

text \<open>
  Upstream scheduling (\<^verbatim>\<open>upstream/scheduler.rs\<close>): ranking, hedging, the attempts of one
  resolution, the truncation retry, corroboration and the ceiling on concurrent exchanges.

  The routes of a group are a list and an \<^verbatim>\<open>Arc<Route>\<close> is a position in it. An asynchronous
  call is a function of what it waits for: \<open>attempt_env\<close> gives the instants at which an attempt
  continues, whether and when its permit is granted, and what the connection and the wire do. A
  resolution is a state that is stepped by wake-ups of its loop, in any order of completion.
  Details of failures are values of \<open>attempt_detail\<close>; their text is the argument \<open>render\<close>.
\<close>

section \<open>Hedge budget\<close>

record hedge_budget =
  hb_queries :: u64
  hb_hedges :: u64

definition hedge_budget_default :: hedge_budget where
  "hedge_budget_default = \<lparr>hb_queries = 0, hb_hedges = 0\<rparr>"

definition record_query :: "hedge_budget \<Rightarrow> hedge_budget" where
  "record_query b = b\<lparr>hb_queries := hb_queries b + 1\<rparr>"

definition hedge_rate :: "hedge_budget \<Rightarrow> real" where
  "hedge_rate b = real (unat (hb_hedges b)) / real (unat (max (hb_queries b) 1))"

definition hedge_allows :: "hedge_budget \<Rightarrow> real \<Rightarrow> bool" where
  "hedge_allows b fraction =
     (if fraction \<le> 0 then False
      else if 1 \<le> fraction then True
      else real (unat (hb_hedges b)) / real (unat (max (hb_queries b) 1)) < fraction)"

definition record_hedge :: "hedge_budget \<Rightarrow> hedge_budget" where
  "record_hedge b = b\<lparr>hb_hedges := hb_hedges b + 1\<rparr>"

section \<open>Ranking\<close>

definition PROXY_PATH_PENALTY_MS :: real where "PROXY_PATH_PENALTY_MS = 120"
definition RELEARN_EXPLORE_MULTIPLIER :: real where "RELEARN_EXPLORE_MULTIPLIER = 5"
definition MAX_EXPLORE_RATE :: real where "MAX_EXPLORE_RATE = 20 / 100"

fun path_penalty :: "egress_path \<Rightarrow> real" where
  "path_penalty Direct = 0"
| "path_penalty (Proxy _) = PROXY_PATH_PENALTY_MS"

definition proxy_penalty :: "route \<Rightarrow> real" where
  "proxy_penalty r = path_penalty (rt_egress r)"

datatype bucket = Ready | Degraded | FamilyExcluded

record candidate =
  ca_score :: real
  ca_idx :: nat
  ca_weight :: u32
  ca_measured :: bool
  ca_bucket :: bucket

fun family_ok :: "network_snapshot \<Rightarrow> ipaddr \<Rightarrow> bool" where
  "family_ok net (V4 _) = (ns_v4 net \<noteq> FamUnusable)"
| "family_ok net (V6 _) = (ns_v6 net \<noteq> FamUnusable)"

definition considered :: "bool \<Rightarrow> route \<Rightarrow> bool" where
  "considered include_companions r \<longleftrightarrow> \<not> (rt_stream_companion r \<and> \<not> include_companions)"

definition tick_route :: "instant \<Rightarrow> scheduler_config \<Rightarrow> u64 \<Rightarrow> bool \<Rightarrow> nat \<Rightarrow> route \<Rightarrow> route" where
  "tick_route now cfg seed include_companions idx r =
     (if considered include_companions r
      then with_health (health_tick now cfg (seed XOR of_nat idx)) r else r)"

definition tick_routes :: "instant \<Rightarrow> scheduler_config \<Rightarrow> u64 \<Rightarrow> bool \<Rightarrow> route list \<Rightarrow> route list" where
  "tick_routes now cfg seed include_companions routes =
     map (\<lambda>(idx, r). tick_route now cfg seed include_companions idx r) (enumerate 0 routes)"

text \<open>The candidate of a ticked route.\<close>

definition candidate_of :: "network_snapshot \<Rightarrow> nat \<times> route \<Rightarrow> candidate" where
  "candidate_of net = (\<lambda>(idx, r).
     \<lparr>ca_score = health_score (rt_health r) (rt_weight r) + proxy_penalty r, ca_idx = idx,
      ca_weight = rt_weight r, ca_measured = is_measured (rt_health r),
      ca_bucket =
        (if \<not> family_ok net (rk_addr (rt_key r)) then FamilyExcluded
         else if is_usable (rt_health r) then Ready else Degraded)\<rparr>)"

definition candidates :: "network_snapshot \<Rightarrow> bool \<Rightarrow> route list \<Rightarrow> candidate list" where
  "candidates net include_companions ticked =
     map (candidate_of net)
       (filter (\<lambda>(idx, r). considered include_companions r) (enumerate 0 ticked))"

definition reprice :: "candidate list \<Rightarrow> candidate list" where
  "reprice cs =
     (let measured_scores = sort (map ca_score (filter ca_measured cs)) in
      if measured_scores = [] then cs
      else
        (let median = measured_scores ! (length measured_scores div 2)
         in map (\<lambda>c. if ca_measured c then c else c\<lparr>ca_score := median + weight_bias (ca_weight c)\<rparr>) cs))"

definition bucket_entries :: "bucket \<Rightarrow> candidate list \<Rightarrow> (real \<times> nat) list" where
  "bucket_entries b cs = map (\<lambda>c. (ca_score c, ca_idx c)) (filter (\<lambda>c. ca_bucket c = b) cs)"

definition offered :: "candidate list \<Rightarrow> (real \<times> nat) list" where
  "offered cs =
     (let scored = bucket_entries Ready cs;
          fallback = bucket_entries Degraded cs;
          family_excluded = bucket_entries FamilyExcluded cs;
          scored1 = (if scored = [] \<and> fallback \<noteq> [] then fallback else scored)
      in if scored1 = [] \<and> family_excluded \<noteq> [] then family_excluded else scored1)"

definition swap_first :: "'a list \<Rightarrow> 'a list" where
  "swap_first xs = (case xs of a # b # rest \<Rightarrow> b # a # rest | _ \<Rightarrow> xs)"

definition explore_rate :: "network_snapshot \<Rightarrow> u64 \<Rightarrow> duration \<Rightarrow> scheduler_config \<Rightarrow> real" where
  "explore_rate net unix relearn_window cfg =
     (if relearn_window \<noteq> 0 \<and> in_relearn_window net unix (of_nat (as_secs relearn_window))
      then min (sc_explore_rate cfg * RELEARN_EXPLORE_MULTIPLIER) MAX_EXPLORE_RATE
      else sc_explore_rate cfg)"

text \<open>What a scheduler reads: the network snapshot, the clocks and its relearning window.\<close>

record sched_env =
  se_net :: network_snapshot
  se_now :: instant
  se_unix :: u64
  se_relearn_window :: duration

definition rank_inner ::
  "sched_env \<Rightarrow> scheduler_config \<Rightarrow> u64 \<Rightarrow> bool \<Rightarrow> route list \<Rightarrow> nat list \<times> route list" where
  "rank_inner env cfg seed include_companions routes =
     (let ticked = tick_routes (se_now env) cfg seed include_companions routes;
          cs = reprice (candidates (se_net env) include_companions ticked);
          ranked = map snd (sort (offered cs));
          rate = explore_rate (se_net env) (se_unix env) (se_relearn_window env) cfg
      in (if 1 < length ranked \<and> 0 < rate \<and> unit_from_seed seed < rate then swap_first ranked else ranked,
          ticked))"

definition rank :: "sched_env \<Rightarrow> scheduler_config \<Rightarrow> u64 \<Rightarrow> route list \<Rightarrow> nat list \<times> route list" where
  "rank env cfg seed routes = rank_inner env cfg seed False routes"

section \<open>Responses\<close>

datatype attempt_detail =
    DtNone | DtNoAttempt | DtShed | DtTransport ustring | DtQuestionMismatch "query list" "query list"
  | DtNotReply | DtOpcode | DtCookie | DtUpstreamRcode rcode | DtEdnsVersion

definition validate_response ::
  "proto_lib \<Rightarrow> message \<Rightarrow> message \<Rightarrow> bool \<Rightarrow> bytes \<Rightarrow> attempt_outcome \<times> attempt_detail + unit" where
  "validate_response P request response cookies_enabled client_cookie =
     (if \<not> question_matches request response
      then Inl (AoMalformed, DtQuestionMismatch (m_queries request) (m_queries response))
      else if md_type (m_meta response) \<noteq> MtResponse then Inl (AoMalformed, DtNotReply)
      else if md_op (m_meta response) \<noteq> md_op (m_meta request) then Inl (AoMalformed, DtOpcode)
      else if cookies_enabled \<and>
              (case m_edns response of
                 None \<Rightarrow> False
               | Some e \<Rightarrow> opt_get P COOKIE_OPTION_CODE (ed_options e) \<noteq> None) \<and>
              extract_server_cookie P response client_cookie = None
      then Inl (AoMalformed, DtCookie)
      else case md_rcode (m_meta response) of
             NoError \<Rightarrow> Inr ()
           | NXDomain \<Rightarrow> Inr ()
           | BADVERS \<Rightarrow> Inl (AoServerFailure, DtEdnsVersion)
           | other \<Rightarrow> Inl (AoServerFailure, DtUpstreamRcode other))"

section \<open>One attempt\<close>

definition remaining :: "instant \<Rightarrow> instant \<Rightarrow> duration" where
  "remaining deadline now = deadline - now"

definition CANCELLED_EXCHANGE_GRACE :: duration where
  "CANCELLED_EXCHANGE_GRACE = from_millis 100"

datatype permit_policy = PpQueue | PpShed

record attempt_result =
  ar_route :: nat
  ar_outcome :: "attempt_outcome option"
  ar_latency :: "duration option"
  ar_message :: "message option"
  ar_detail :: attempt_detail

definition shed :: "nat \<Rightarrow> attempt_result" where
  "shed idx =
     \<lparr>ar_route = idx, ar_outcome = None, ar_latency = None, ar_message = None, ar_detail = DtShed\<rparr>"

record attempt_env =
  ae_start :: instant
  ae_woken :: instant
  ae_permit :: "instant option"
  ae_connect :: "ustring + duration"
  ae_wire :: wire_result

record attempt_plan =
  ap_deadline :: instant
  ap_cap :: duration
  ap_delay :: duration
  ap_policy :: permit_policy

text \<open>
  How far an attempt gets before it sends: it is shed when the delay would outlast the deadline,
  when no time is left, when the permit is not granted, or when waiting for it used up the time.
\<close>

definition attempt_admitted :: "attempt_plan \<Rightarrow> attempt_env \<Rightarrow> instant option" where
  "attempt_admitted plan env =
     (if ap_delay plan \<noteq> 0 \<and> remaining (ap_deadline plan) (ae_start env) \<le> ap_delay plan then None
      else if min (ap_cap plan) (remaining (ap_deadline plan) (ae_woken env)) = 0 then None
      else case ae_permit env of
             None \<Rightarrow> None
           | Some t \<Rightarrow>
               if min (ap_cap plan) (remaining (ap_deadline plan) t) = 0 then None else Some t)"

definition outgoing_message :: "proto_lib \<Rightarrow> route \<Rightarrow> message \<Rightarrow> message" where
  "outgoing_message P r message =
     (if rt_cookies_enabled r
      then update_options
             (opt_insert P
               (case ck_server (rt_cookie r) of
                  Some server \<Rightarrow>
                    if server \<noteq> [] then encode_full_cookie (ck_client (rt_cookie r)) server
                    else encode_client_cookie (ck_client (rt_cookie r))
                | None \<Rightarrow> encode_client_cookie (ck_client (rt_cookie r)))) message
      else message)"

text \<open>Reserving the half-open slot of the route and giving it back.\<close>

definition reserve_slot :: "route \<Rightarrow> bool \<times> route" where
  "reserve_slot r = (let (taken, h) = begin_attempt (rt_health r) in (taken, r\<lparr>rt_health := h\<rparr>))"

definition drop_slot :: "bool \<Rightarrow> route \<Rightarrow> route" where
  "drop_slot taken r = (if taken then with_health release_attempt r else r)"

text \<open>The exchange after admission: the result and the route with its cookie, connection and slot.\<close>

definition exchange ::
  "proto_lib \<Rightarrow> message \<Rightarrow> attempt_env \<Rightarrow> nat \<Rightarrow> route \<Rightarrow> attempt_result \<times> route" where
  "exchange P message env idx r =
     (let (taken, r1) = reserve_slot r;
          client = ck_client (rt_cookie r1);
          sent = outgoing_message P r1 message;
          (sent_result, r2) = route_send (ae_connect env) (ae_wire env) r1
      in case sent_result of
           Inl (outcome, detail) \<Rightarrow>
             (\<lparr>ar_route = idx, ar_outcome = Some outcome, ar_latency = None, ar_message = None,
               ar_detail = DtTransport detail\<rparr>, drop_slot taken r2)
         | Inr (msg, latency) \<Rightarrow>
             (case validate_response P sent msg (rt_cookies_enabled r1) client of
                Inr _ \<Rightarrow>
                  (let server = extract_server_cookie P msg client;
                       r3 = (if rt_cookies_enabled r2 \<and> server \<noteq> None
                             then set_server_cookie server r2 else r2)
                   in (\<lparr>ar_route = idx, ar_outcome = Some AoSuccess, ar_latency = Some latency,
                        ar_message = Some msg, ar_detail = DtNone\<rparr>, drop_slot taken r3))
              | Inl (outcome, detail) \<Rightarrow>
                  (\<lparr>ar_route = idx, ar_outcome = Some outcome, ar_latency = Some latency,
                    ar_message = None, ar_detail = detail\<rparr>, drop_slot taken r2)))"

definition attempt ::
  "proto_lib \<Rightarrow> message \<Rightarrow> attempt_plan \<Rightarrow> attempt_env \<Rightarrow> nat \<Rightarrow> route list \<Rightarrow>
     attempt_result \<times> route list" where
  "attempt P message plan env idx routes =
     (case attempt_admitted plan env of
        None \<Rightarrow> (shed idx, routes)
      | Some _ \<Rightarrow>
          (let (result, r) = exchange P message env idx (routes ! idx) in (result, routes[idx := r])))"

text \<open>Recording an outcome with the route's health, which the callers of an attempt do.\<close>

definition record_result ::
  "scheduler_config \<Rightarrow> instant \<Rightarrow> attempt_result \<Rightarrow> route list \<Rightarrow> route list" where
  "record_result cfg now result routes =
     (case ar_outcome result of
        None \<Rightarrow> routes
      | Some outcome \<Rightarrow>
          routes[ar_route result :=
            with_health (health_record outcome (ar_latency result) now cfg) (routes ! ar_route result)])"

record upstream_answer =
  ua_message :: message
  ua_route :: route_key
  ua_latency :: duration
  ua_stream_retry :: bool
  ua_trust_ad :: bool

definition answer_of :: "bool \<Rightarrow> route list \<Rightarrow> attempt_result \<Rightarrow> upstream_answer option" where
  "answer_of retry routes result =
     (if ar_outcome result = Some AoSuccess
      then map_option (\<lambda>m.
             \<lparr>ua_message = m, ua_route = rt_key (routes ! ar_route result),
              ua_latency = (case ar_latency result of Some l \<Rightarrow> l | None \<Rightarrow> 0),
              ua_stream_retry = retry, ua_trust_ad = rt_trust_ad (routes ! ar_route result)\<rparr>)
           (ar_message result)
      else None)"

section \<open>Second opinions\<close>

definition independent_of :: "string \<Rightarrow> route \<Rightarrow> bool" where
  "independent_of authority r \<longleftrightarrow>
     rk_authority (rt_key r) \<noteq> authority \<and> is_independent (rk_role (rt_key r))"

definition plain_plan :: "scheduler_config \<Rightarrow> instant \<Rightarrow> permit_policy \<Rightarrow> attempt_plan" where
  "plain_plan cfg deadline policy =
     \<lparr>ap_deadline = deadline, ap_cap = sc_query_timeout cfg, ap_delay = 0, ap_policy = policy\<rparr>"

text \<open>
  \<^verbatim>\<open>run\<close> of \<^verbatim>\<open>resolve_pair\<close> and the body of \<^verbatim>\<open>corroborate\<close>: one attempt, its outcome recorded at
  \<open>finished\<close>.
\<close>

definition single_attempt ::
  "proto_lib \<Rightarrow> message \<Rightarrow> scheduler_config \<Rightarrow> instant \<Rightarrow> attempt_env \<Rightarrow> instant \<Rightarrow> nat \<Rightarrow> route list \<Rightarrow>
     upstream_answer option \<times> route list" where
  "single_attempt P message cfg deadline env finished idx routes =
     (let (result, routes1) = attempt P message (plain_plan cfg deadline PpShed) env idx routes
      in case ar_outcome result of
           None \<Rightarrow> (None, routes1)
         | Some _ \<Rightarrow>
             (let routes2 = record_result cfg finished result routes1
              in (answer_of False routes2 result, routes2)))"

definition pair_routes :: "route list \<Rightarrow> nat list \<Rightarrow> (nat \<times> nat) option" where
  "pair_routes routes ranked =
     (case ranked of
        [] \<Rightarrow> None
      | first # _ \<Rightarrow>
          map_option (\<lambda>second. (first, second))
            (List.find (\<lambda>i. independent_of (rk_authority (rt_key (routes ! first))) (routes ! i)) ranked))"

definition resolve_pair ::
  "proto_lib \<Rightarrow> sched_env \<Rightarrow> scheduler_config \<Rightarrow> message \<Rightarrow> duration \<Rightarrow> u64 \<Rightarrow>
     (nat \<Rightarrow> attempt_env) \<Rightarrow> (nat \<Rightarrow> instant) \<Rightarrow> route list \<Rightarrow>
     (upstream_answer \<times> upstream_answer) option \<times> route list" where
  "resolve_pair P env cfg message budget seed envs finished routes =
     (if budget = 0 then (None, routes)
      else
        (let deadline = se_now env + budget;
             (ranked, routes1) = rank env cfg seed routes
         in case pair_routes routes1 ranked of
              None \<Rightarrow> (None, routes1)
            | Some (first, second) \<Rightarrow>
                (let (a, routes2) = single_attempt P message cfg deadline (envs first) (finished first) first routes1;
                     (b, routes3) = single_attempt P message cfg deadline (envs second) (finished second) second routes2
                 in (case (a, b) of (Some x, Some y) \<Rightarrow> Some (x, y) | _ \<Rightarrow> None, routes3))))"

definition corroborate ::
  "proto_lib \<Rightarrow> sched_env \<Rightarrow> scheduler_config \<Rightarrow> message \<Rightarrow> duration \<Rightarrow> u64 \<Rightarrow> string \<Rightarrow>
     (nat \<Rightarrow> attempt_env) \<Rightarrow> (nat \<Rightarrow> instant) \<Rightarrow> route list \<Rightarrow> upstream_answer option \<times> route list" where
  "corroborate P env cfg message budget seed exclude envs finished routes =
     (if budget = 0 then (None, routes)
      else
        (let deadline = se_now env + budget;
             (ranked, routes1) = rank env cfg seed routes
         in case List.find (\<lambda>i. independent_of exclude (routes1 ! i)) ranked of
              None \<Rightarrow> (None, routes1)
            | Some i \<Rightarrow> single_attempt P message cfg deadline (envs i) (finished i) i routes1))"

section \<open>The truncation retry\<close>

text \<open>The candidates are tried in turn; \<open>nows\<close> gives the time before the i-th.\<close>

fun try_streams ::
  "proto_lib \<Rightarrow> message \<Rightarrow> scheduler_config \<Rightarrow> instant \<Rightarrow> (nat \<Rightarrow> instant) \<Rightarrow> (nat \<Rightarrow> attempt_env) \<Rightarrow>
     (nat \<Rightarrow> instant) \<Rightarrow> nat list \<Rightarrow> route list \<Rightarrow> upstream_answer option \<times> route list" where
  "try_streams P message cfg deadline nows envs finished [] routes = (None, routes)"
| "try_streams P message cfg deadline nows envs finished (idx # rest) routes =
     (if remaining deadline (nows idx) = 0 then (None, routes)
      else
        (let (result, routes1) = attempt P message (plain_plan cfg deadline PpQueue) (envs idx) idx routes
         in case ar_outcome result of
              None \<Rightarrow> try_streams P message cfg deadline nows envs finished rest routes1
            | Some _ \<Rightarrow>
                (let routes2 = record_result cfg (finished idx) result routes1
                 in case answer_of True routes2 result of
                      Some a \<Rightarrow> (Some a, routes2)
                    | None \<Rightarrow> try_streams P message cfg deadline nows envs finished rest routes2)))"

definition stream_candidates :: "route list \<Rightarrow> nat list \<Rightarrow> nat list" where
  "stream_candidates routes ranked =
     take 2 (filter (\<lambda>i. is_stream (rk_transport (rt_key (routes ! i)))) ranked)"

definition stream_retry ::
  "proto_lib \<Rightarrow> sched_env \<Rightarrow> scheduler_config \<Rightarrow> message \<Rightarrow> instant \<Rightarrow> u64 \<Rightarrow>
     (nat \<Rightarrow> instant) \<Rightarrow> (nat \<Rightarrow> attempt_env) \<Rightarrow> (nat \<Rightarrow> instant) \<Rightarrow> route list \<Rightarrow>
     upstream_answer option \<times> route list" where
  "stream_retry P env cfg message deadline seed nows envs finished routes =
     (if remaining deadline (se_now env) = 0 then (None, routes)
      else
        (let (ranked, routes1) = rank_inner env cfg seed True routes
         in try_streams P message cfg deadline nows envs finished (stream_candidates routes1 ranked) routes1))"

section \<open>One resolution\<close>

definition charge_hedge :: "attempt_plan \<Rightarrow> attempt_env \<Rightarrow> hedge_budget \<Rightarrow> hedge_budget" where
  "charge_hedge plan env b = (if attempt_admitted plan env = None then b else record_hedge b)"

text \<open>
  The state of a resolution. A pending attempt is run when it finishes: the attempts of one
  resolution are on different routes, so their steps do not interfere.
\<close>

record pending_attempt =
  pa_route :: nat
  pa_plan :: attempt_plan
  pa_hedge :: bool

record resolution =
  rs_pending :: "pending_attempt list"
  rs_attempted :: "bool list"
  rs_fanned_out :: bool
  rs_any_exchange :: bool
  rs_last_detail :: attempt_detail

record sched_state =
  ss_routes :: "route list"
  ss_budget :: hedge_budget

record resolve_call =
  rc_cfg :: scheduler_config
  rc_message :: message
  rc_start :: instant
  rc_deadline :: instant
  rc_capacity :: nat
  rc_ranked :: "nat list"

text \<open>
  The position of the hedge in the ranking: the best route of another authority, or the second.
  \<open>None\<close> when no hedge is started.
\<close>

definition hedge_index ::
  "scheduler_config \<Rightarrow> hedge_budget \<Rightarrow> duration \<Rightarrow> route list \<Rightarrow> nat list \<Rightarrow> nat option" where
  "hedge_index cfg budget_state budget routes ranked =
     (if sc_hedge_enabled cfg \<and> 1 < length ranked \<and> hedge_allows budget_state (sc_hedge_max_fraction cfg) \<and>
         hedge_delay cfg (rt_health (routes ! (ranked ! 0))) < budget
      then Some (case List.find (\<lambda>k. rk_authority (rt_key (routes ! (ranked ! k))) \<noteq>
                                   rk_authority (rt_key (routes ! (ranked ! 0)))) [0..<length ranked] of
                   Some k \<Rightarrow> k | None \<Rightarrow> 1)
      else None)"

definition queued_attempt :: "resolve_call \<Rightarrow> permit_policy \<Rightarrow> nat \<Rightarrow> pending_attempt" where
  "queued_attempt call policy i =
     \<lparr>pa_route = rc_ranked call ! i, pa_plan = plain_plan (rc_cfg call) (rc_deadline call) policy,
      pa_hedge = False\<rparr>"

definition hedge_attempt :: "resolve_call \<Rightarrow> duration \<Rightarrow> nat \<Rightarrow> pending_attempt" where
  "hedge_attempt call delay i =
     \<lparr>pa_route = rc_ranked call ! i,
      pa_plan = (plain_plan (rc_cfg call) (rc_deadline call) PpShed)\<lparr>ap_delay := delay\<rparr>, pa_hedge = True\<rparr>"

definition resolve_start :: "resolve_call \<Rightarrow> duration \<Rightarrow> sched_state \<Rightarrow> resolution" where
  "resolve_start call budget s =
     (let ranked = rc_ranked call;
          hedge = hedge_index (rc_cfg call) (ss_budget s) budget (ss_routes s) ranked;
          delay = hedge_delay (rc_cfg call) (rt_health (ss_routes s ! (ranked ! 0)));
          started = (case hedge of None \<Rightarrow> [0] | Some k \<Rightarrow> [0, k])
      in \<lparr>rs_pending = queued_attempt call PpQueue 0 #
            (case hedge of None \<Rightarrow> [] | Some k \<Rightarrow> [hedge_attempt call delay k]),
          rs_attempted = map (\<lambda>i. i \<in> set started) [0..<length ranked],
          rs_fanned_out = False, rs_any_exchange = False, rs_last_detail = DtNoAttempt\<rparr>)"

text \<open>A wake-up of the loop: the budget ran out, a pending attempt finished, or none is left.\<close>

datatype wake = WakeElapsed | WakeFinished nat attempt_env | WakeNone

text \<open>Positions the emergency fan-out starts: the first that were never started.\<close>

definition fanout_positions :: "scheduler_config \<Rightarrow> bool list \<Rightarrow> nat list" where
  "fanout_positions cfg attempted =
     take (sc_emergency_fanout_max cfg) (filter (\<lambda>i. \<not> attempted ! i) [0..<length attempted])"

definition elapsed_ms :: "instant \<Rightarrow> instant \<Rightarrow> u64" where
  "elapsed_ms start now = of_nat (as_millis (now - start))"

datatype step_outcome = StepErr resolve_error | StepAnswer upstream_answer | StepRetry | StepMore resolution

definition run_pending ::
  "proto_lib \<Rightarrow> resolve_call \<Rightarrow> attempt_env \<Rightarrow> pending_attempt \<Rightarrow> sched_state \<Rightarrow> attempt_result \<times> sched_state" where
  "run_pending P call env p s =
     (let (result, routes) = attempt P (rc_message call) (pa_plan p) env (pa_route p) (ss_routes s)
      in (result, \<lparr>ss_routes = routes,
                   ss_budget = (if pa_hedge p then charge_hedge (pa_plan p) env (ss_budget s) else ss_budget s)\<rparr>))"

definition on_result ::
  "resolve_call \<Rightarrow> instant \<Rightarrow> attempt_result \<Rightarrow> sched_state \<Rightarrow> resolution \<Rightarrow> step_outcome \<times> sched_state" where
  "on_result call now result s st =
     (case ar_outcome result of
        None \<Rightarrow>
          (if ar_route result = rc_ranked call ! 0
           then (if remaining (rc_deadline call) now = 0
                 then (StepErr (ResolveTimeout (elapsed_ms (rc_start call) now)), s)
                 else (StepErr (Overloaded (rc_capacity call)), s))
           else (StepMore (st\<lparr>rs_last_detail := ar_detail result\<rparr>), s))
      | Some outcome \<Rightarrow>
          (let s1 = s\<lparr>ss_routes := record_result (rc_cfg call) now result (ss_routes s)\<rparr>;
               st1 = st\<lparr>rs_any_exchange := True\<rparr>
           in case answer_of False (ss_routes s1) result of
                Some a \<Rightarrow>
                  (if md_truncation (m_meta (ua_message a)) \<and> \<not> is_stream (rk_transport (ua_route a))
                   then (StepRetry, s1) else (StepAnswer a, s1))
              | None \<Rightarrow> (StepMore (st1\<lparr>rs_last_detail := ar_detail result\<rparr>), s1)))"

definition on_idle :: "(attempt_detail \<Rightarrow> ustring) \<Rightarrow> resolve_call \<Rightarrow> resolution \<Rightarrow> step_outcome" where
  "on_idle render call st =
     (let cfg = rc_cfg call;
          fresh = fanout_positions cfg (rs_attempted st);
          fan = (sc_emergency_fanout cfg \<and> \<not> rs_fanned_out st)
      in if fan \<and> fresh \<noteq> []
         then StepMore (st\<lparr>rs_fanned_out := True,
                rs_pending := rs_pending st @ map (queued_attempt call PpShed) fresh,
                rs_attempted := map (\<lambda>i. rs_attempted st ! i \<or> i \<in> set fresh) [0..<length (rs_attempted st)]\<rparr>)
         else if \<not> rs_any_exchange st then StepErr (Overloaded (rc_capacity call))
         else StepErr (AllFailed (bounded (render (rs_last_detail st)) 160)))"

text \<open>One iteration of the loop, from \<open>t0\<close> to the wake-up at \<open>t1\<close>.\<close>

definition resolve_step ::
  "(attempt_detail \<Rightarrow> ustring) \<Rightarrow> proto_lib \<Rightarrow> resolve_call \<Rightarrow> instant \<Rightarrow> wake \<Rightarrow> instant \<Rightarrow> sched_state \<Rightarrow> resolution \<Rightarrow>
     step_outcome \<times> sched_state" where
  "resolve_step render P call t0 w t1 s st =
     (if remaining (rc_deadline call) t0 = 0
      then (StepErr (ResolveTimeout (elapsed_ms (rc_start call) t0)), s)
      else case w of
             WakeElapsed \<Rightarrow> (StepErr (ResolveTimeout (elapsed_ms (rc_start call) t1)), s)
           | WakeFinished k env \<Rightarrow>
               (let (result, s1) = run_pending P call env (rs_pending st ! k) s
                in on_result call t1 result s1
                     (st\<lparr>rs_pending := take k (rs_pending st) @ drop (Suc k) (rs_pending st)\<rparr>))
           | WakeNone \<Rightarrow> (on_idle render call st, s))"

text \<open>The loop over a sequence of wake-ups; \<open>None\<close> when it ends before the resolution does.\<close>

fun resolve_loop ::
  "(attempt_detail \<Rightarrow> ustring) \<Rightarrow> proto_lib \<Rightarrow> resolve_call \<Rightarrow> instant \<Rightarrow> (wake \<times> instant) list \<Rightarrow> sched_state \<Rightarrow>
     resolution \<Rightarrow> (step_outcome \<times> sched_state) option" where
  "resolve_loop render P call t0 [] s st = None"
| "resolve_loop render P call t0 ((w, t1) # ws) s st =
     (case resolve_step render P call t0 w t1 s st of
        (StepMore st1, s1) \<Rightarrow> resolve_loop render P call t1 ws s1 st1
      | other \<Rightarrow> Some other)"

text \<open>
  A resolution: the group's budget counts the query, the routes are ranked, and the loop runs. A
  truncated datagram answer is replaced by that of the truncation retry or is an error.
\<close>

record retry_env =
  re_env :: sched_env
  re_nows :: "nat \<Rightarrow> instant"
  re_envs :: "nat \<Rightarrow> attempt_env"
  re_finished :: "nat \<Rightarrow> instant"

definition finish_resolution ::
  "proto_lib \<Rightarrow> resolve_call \<Rightarrow> u64 \<Rightarrow> retry_env \<Rightarrow> step_outcome \<times> sched_state \<Rightarrow>
     (resolve_error + upstream_answer) \<times> sched_state" where
  "finish_resolution P call seed re out =
     (case out of
        (StepErr e, s) \<Rightarrow> (Inl e, s)
      | (StepAnswer a, s) \<Rightarrow> (Inr a, s)
      | (StepMore _, s) \<Rightarrow> (Inl (AllFailed []), s)
      | (StepRetry, s) \<Rightarrow>
          (let (retried, routes) =
                 stream_retry P (re_env re) (rc_cfg call) (rc_message call) (rc_deadline call) seed
                   (re_nows re) (re_envs re) (re_finished re) (ss_routes s)
           in (case retried of
                 Some a \<Rightarrow> Inr a
               | None \<Rightarrow> Inl (InvalidResponse
                   ''truncated UDP answer could not be retried over a stream transport''),
               s\<lparr>ss_routes := routes\<rparr>)))"

definition resolve_call_of ::
  "sched_env \<Rightarrow> nat \<Rightarrow> scheduler_config \<Rightarrow> message \<Rightarrow> duration \<Rightarrow> nat list \<Rightarrow> resolve_call" where
  "resolve_call_of env capacity cfg message budget ranked =
     \<lparr>rc_cfg = cfg, rc_message = message, rc_start = se_now env, rc_deadline = se_now env + budget,
      rc_capacity = capacity, rc_ranked = ranked\<rparr>"

definition scheduler_resolve ::
  "(attempt_detail \<Rightarrow> ustring) \<Rightarrow> proto_lib \<Rightarrow> sched_env \<Rightarrow> nat \<Rightarrow> upstream_group \<Rightarrow> message \<Rightarrow> hedge_budget \<Rightarrow>
     duration \<Rightarrow> u64 \<Rightarrow> (wake \<times> instant) list \<Rightarrow> retry_env \<Rightarrow>
     ((resolve_error + upstream_answer) \<times> sched_state) option" where
  "scheduler_resolve render P env capacity grp message budget_state budget seed ws re =
     (let cfg = gr_scheduler grp;
          (ranked, routes) = rank env cfg seed (gr_routes grp);
          s = \<lparr>ss_routes = routes, ss_budget = record_query budget_state\<rparr>;
          call = resolve_call_of env capacity cfg message budget ranked
      in if ranked = [] then Some (Inl (NoRoute (gr_name grp)), s)
         else map_option (finish_resolution P call seed re)
                (resolve_loop render P call (se_now env) ws s (resolve_start call budget s)))"

section \<open>The ceiling on exchanges\<close>

text \<open>
  The semaphore: permits available, exchanges under way with the instant at which each can no
  longer be answered, and permits of cancelled exchanges with the instant of their release.
\<close>

record exchange_slots =
  xs_capacity :: nat
  xs_available :: nat
  xs_running :: "(nat \<times> instant) list"
  xs_retained :: "instant list"

definition slots_new :: "nat \<Rightarrow> exchange_slots" where
  "slots_new n = \<lparr>xs_capacity = n, xs_available = n, xs_running = [], xs_retained = []\<rparr>"

definition slots_inflight :: "exchange_slots \<Rightarrow> nat" where
  "slots_inflight x = xs_capacity x - xs_available x"

definition slot_acquire :: "nat \<Rightarrow> instant \<Rightarrow> exchange_slots \<Rightarrow> exchange_slots option" where
  "slot_acquire i expiry x =
     (if xs_available x = 0 then None
      else Some (x\<lparr>xs_available := xs_available x - 1, xs_running := (i, expiry) # xs_running x\<rparr>))"

definition slot_complete :: "nat \<times> instant \<Rightarrow> exchange_slots \<Rightarrow> exchange_slots" where
  "slot_complete e x =
     x\<lparr>xs_available := xs_available x + 1, xs_running := remove1 e (xs_running x)\<rparr>"

definition guard_wait :: "instant \<Rightarrow> instant \<Rightarrow> duration" where
  "guard_wait expiry now = min (expiry - now) CANCELLED_EXCHANGE_GRACE"

definition slot_cancel :: "nat \<times> instant \<Rightarrow> instant \<Rightarrow> exchange_slots \<Rightarrow> exchange_slots" where
  "slot_cancel e now x =
     (let wait = guard_wait (snd e) now in
      if wait = 0 then slot_complete e x
      else x\<lparr>xs_running := remove1 e (xs_running x), xs_retained := (now + wait) # xs_retained x\<rparr>)"

definition slot_expire :: "instant \<Rightarrow> exchange_slots \<Rightarrow> exchange_slots" where
  "slot_expire t x = x\<lparr>xs_available := xs_available x + 1, xs_retained := remove1 t (xs_retained x)\<rparr>"

inductive slots_step :: "exchange_slots \<Rightarrow> exchange_slots \<Rightarrow> bool" where
  SlotAcquire: "slot_acquire i expiry x = Some x' \<Longrightarrow> slots_step x x'"
| SlotComplete: "e \<in> set (xs_running x) \<Longrightarrow> slots_step x (slot_complete e x)"
| SlotCancel: "e \<in> set (xs_running x) \<Longrightarrow> slots_step x (slot_cancel e now x)"
| SlotExpire: "t \<in> set (xs_retained x) \<Longrightarrow> slots_step x (slot_expire t x)"

section \<open>The ranking\<close>

lemma length_tick_routes [simp]: "length (tick_routes now cfg seed inc routes) = length routes"
  by (simp add: tick_routes_def)

lemma tick_routes_nth:
  "i < length routes \<Longrightarrow> tick_routes now cfg seed inc routes ! i = tick_route now cfg seed inc i (routes ! i)"
  by (simp add: tick_routes_def nth_enumerate_eq)

lemma with_health_fields [simp]:
  "rt_key (with_health f r) = rt_key r" "rt_stream_companion (with_health f r) = rt_stream_companion r"
  "rt_weight (with_health f r) = rt_weight r" "rt_egress (with_health f r) = rt_egress r"
  "rt_health (with_health f r) = f (rt_health r)" "rt_cookie (with_health f r) = rt_cookie r"
  "rt_cookies_enabled (with_health f r) = rt_cookies_enabled r"
  "rt_connection (with_health f r) = rt_connection r"
  by (simp_all add: with_health_def)

lemma tick_route_fields [simp]:
  "rt_key (tick_route now cfg seed inc i r) = rt_key r"
  "considered inc' (tick_route now cfg seed inc i r) = considered inc' r"
  by (simp_all add: tick_route_def considered_def)

lemma reprice_fields:
  "map ca_idx (reprice cs) = map ca_idx cs" "map ca_bucket (reprice cs) = map ca_bucket cs"
  by (simp_all add: reprice_def Let_def)

lemma bucket_entries_idx:
  "map snd (bucket_entries b cs) = map ca_idx (filter (\<lambda>c. ca_bucket c = b) cs)"
  by (simp add: bucket_entries_def)

lemma filter_by_maps:
  assumes "map f xs = map f ys" "map g xs = map g ys"
  shows "map g (filter (\<lambda>x. f x = b) xs) = map g (filter (\<lambda>x. f x = b) ys)"
proof -
  have "map g (filter (\<lambda>x. f x = b) zs) = map snd (filter (\<lambda>p. fst p = b) (zip (map f zs) (map g zs)))" for zs
    by (induction zs) auto
  then show ?thesis using assms by simp
qed

text \<open>The bucket that is offered: the ready routes, or the degraded, or those of unusable families.\<close>

definition offered_bucket :: "candidate list \<Rightarrow> bucket" where
  "offered_bucket cs =
     (if Ready \<in> ca_bucket ` set cs then Ready
      else if Degraded \<in> ca_bucket ` set cs then Degraded else FamilyExcluded)"

lemma bucket_entries_Nil: "bucket_entries b cs = [] \<longleftrightarrow> b \<notin> ca_bucket ` set cs"
  by (auto simp: bucket_entries_def filter_empty_conv)

lemma offered_eq: "offered cs = bucket_entries (offered_bucket cs) cs"
  unfolding offered_def offered_bucket_def Let_def
  using bucket_entries_Nil [of Ready cs] bucket_entries_Nil [of Degraded cs] bucket_entries_Nil [of FamilyExcluded cs]
  by (cases "bucket_entries Ready cs = []"; cases "bucket_entries Degraded cs = []";
      cases "bucket_entries FamilyExcluded cs = []") simp_all

lemma offered_reprice: "map snd (offered (reprice cs)) = map snd (offered cs)"
proof -
  have "ca_bucket ` set (reprice cs) = ca_bucket ` set cs"
    using reprice_fields(2) [of cs] by (metis list.set_map)
  then have "offered_bucket (reprice cs) = offered_bucket cs" by (simp add: offered_bucket_def)
  then show ?thesis
    unfolding offered_eq bucket_entries_idx by (simp add: filter_by_maps [OF reprice_fields(2,1)])
qed

lemma set_swap_first [simp]: "set (swap_first xs) = set xs"
  by (auto simp: swap_first_def split: list.splits)

lemma distinct_swap_first [simp]: "distinct (swap_first xs) = distinct xs"
  by (auto simp: swap_first_def split: list.splits)

lemma swap_first_Nil [simp]: "swap_first xs = [] \<longleftrightarrow> xs = []"
  by (auto simp: swap_first_def split: list.splits)

lemma candidates_idx:
  "map ca_idx (candidates net inc rs) = filter (\<lambda>i. considered inc (rs ! i)) [0..<length rs]"
proof -
  have "enumerate 0 rs = map (\<lambda>i. (i, rs ! i)) [0..<length rs]"
    by (rule nth_equalityI) (simp_all add: nth_enumerate_eq)
  then show ?thesis by (simp add: candidates_def candidate_of_def filter_map comp_def split_def)
qed

lemma candidates_set:
  "set (candidates net inc rs) = {candidate_of net (i, rs ! i) | i. i < length rs \<and> considered inc (rs ! i)}"
proof -
  have e: "enumerate 0 rs = map (\<lambda>i. (i, rs ! i)) [0..<length rs]"
    by (rule nth_equalityI) (simp_all add: nth_enumerate_eq)
  show ?thesis unfolding candidates_def e by (simp add: filter_map comp_def image_image) auto
qed

definition route_ready :: "network_snapshot \<Rightarrow> route \<Rightarrow> bool" where
  "route_ready net r \<longleftrightarrow> family_ok net (rk_addr (rt_key r)) \<and> is_usable (rt_health r)"

lemma candidate_of_fields [simp]:
  "ca_idx (candidate_of net (i, r)) = i"
  "ca_bucket (candidate_of net (i, r)) = Ready \<longleftrightarrow> route_ready net r"
  by (simp_all add: candidate_of_def route_ready_def)

text \<open>The ranking is, up to order, the positions of the offered bucket.\<close>

lemma rank_inner_mset:
  "mset (fst (rank_inner env cfg seed inc routes)) =
     mset (map ca_idx (filter (\<lambda>c. ca_bucket c = offered_bucket cs) cs))"
  if "cs = candidates (se_net env) inc (tick_routes (se_now env) cfg seed inc routes)"
proof -
  have "mset (swap_first xs) = mset xs" for xs :: "nat list"
    by (auto simp: swap_first_def split: list.splits)
  moreover have "mset (map snd (sort (offered (reprice cs)))) = mset (map snd (offered cs))"
    unfolding mset_map mset_sort by (simp only: flip: mset_map) (simp only: offered_reprice)
  ultimately show ?thesis
    unfolding rank_inner_def Let_def that [symmetric]
    by (simp add: offered_eq [of cs] bucket_entries_idx flip: mset_map)
qed

lemma snd_rank_inner [simp]:
  "snd (rank_inner env cfg seed inc routes) = tick_routes (se_now env) cfg seed inc routes"
  by (simp add: rank_inner_def Let_def)

lemma rank_inner_members:
  fixes env cfg seed inc routes
  defines "ticked \<equiv> tick_routes (se_now env) cfg seed inc routes"
  defines "cs \<equiv> candidates (se_net env) inc ticked"
  shows "set (fst (rank_inner env cfg seed inc routes)) = ca_idx ` {c \<in> set cs. ca_bucket c = offered_bucket cs}"
    and "distinct (fst (rank_inner env cfg seed inc routes))"
proof -
  note m = rank_inner_mset [of cs env inc cfg seed routes, OF cs_def [unfolded ticked_def, THEN meta_eq_to_obj_eq]]
  show "set (fst (rank_inner env cfg seed inc routes)) = ca_idx ` {c \<in> set cs. ca_bucket c = offered_bucket cs}"
    using mset_eq_setD [OF m] by simp
  have "distinct (map ca_idx cs)" by (simp add: cs_def candidates_idx)
  then have "distinct (map ca_idx (filter (\<lambda>c. ca_bucket c = offered_bucket cs) cs))"
    by (rule distinct_map_filter)
  then show "distinct (fst (rank_inner env cfg seed inc routes))"
    using mset_eq_imp_distinct_iff [OF m] by simp
qed

lemma offered_bucket_occurs: "c \<in> set cs \<Longrightarrow> offered_bucket cs \<in> ca_bucket ` set cs"
  by (cases "ca_bucket c") (auto simp: offered_bucket_def simp del: image_eqI intro: rev_image_eqI)

lemma candidate_in:
  assumes "j < length routes" "considered inc (routes ! j)"
  shows "candidate_of net (j, tick_routes now cfg seed inc routes ! j) \<in>
    set (candidates net inc (tick_routes now cfg seed inc routes))"
  unfolding candidates_set
  by (intro CollectI exI [of _ j] conjI refl) (use assms in \<open>simp_all add: tick_routes_nth\<close>)

lemma rank_inner_valid:
  assumes "i \<in> set (fst (rank_inner env cfg seed inc routes))"
  shows "i < length routes" "considered inc (routes ! i)"
proof -
  have "i \<in> ca_idx ` set (candidates (se_net env) inc (tick_routes (se_now env) cfg seed inc routes))"
    using assms unfolding rank_inner_members(1) by blast
  then show "i < length routes" "considered inc (routes ! i)"
    by (auto simp: candidates_set tick_routes_nth)
qed

lemma rank_inner_nonempty:
  assumes "j < length routes" "considered inc (routes ! j)"
  shows "fst (rank_inner env cfg seed inc routes) \<noteq> []"
proof -
  let ?ticked = "tick_routes (se_now env) cfg seed inc routes"
  let ?cs = "candidates (se_net env) inc ?ticked"
  obtain c where c: "c \<in> set ?cs" "ca_bucket c = offered_bucket ?cs"
    using offered_bucket_occurs [OF candidate_in [OF assms]] by (metis imageE)
  then have "ca_idx c \<in> set (fst (rank_inner env cfg seed inc routes))"
    unfolding rank_inner_members(1) by blast
  then show ?thesis by auto
qed

lemma rank_inner_ready:
  fixes env cfg seed inc routes
  defines "ticked \<equiv> tick_routes (se_now env) cfg seed inc routes"
  assumes "j < length routes" "considered inc (routes ! j)" "route_ready (se_net env) (ticked ! j)"
    and "i \<in> set (fst (rank_inner env cfg seed inc routes))"
  shows "route_ready (se_net env) (ticked ! i)"
proof -
  let ?cs = "candidates (se_net env) inc ticked"
  have "candidate_of (se_net env) (j, ticked ! j) \<in> set ?cs"
    unfolding ticked_def by (rule candidate_in [OF assms(2,3)])
  moreover have "ca_bucket (candidate_of (se_net env) (j, ticked ! j)) = Ready" using assms(4) by simp
  ultimately have "Ready \<in> ca_bucket ` set ?cs" by (metis imageI)
  then have b: "offered_bucket ?cs = Ready" by (simp add: offered_bucket_def)
  obtain c where c: "c \<in> set ?cs" "ca_bucket c = Ready" "ca_idx c = i"
    using assms(5) unfolding rank_inner_members(1) ticked_def [symmetric] b by blast
  from c(1) obtain k where "c = candidate_of (se_net env) (k, ticked ! k)"
    unfolding candidates_set by blast
  with c(2,3) show ?thesis by simp
qed

text \<open>
  C25. The ranking offers each considered route at most once, and only those (companions only when
  they are asked for); it is never empty while there is a considered route, whatever the circuits
  and address families; and while some route has a usable family and circuit, only such routes are
  offered.
\<close>

theorem rank_inner_sound:
  "distinct (fst (rank_inner env cfg seed inc routes)) \<and>
   list_all (\<lambda>i. i < length routes \<and> considered inc (routes ! i)) (fst (rank_inner env cfg seed inc routes)) \<and>
   (fst (rank_inner env cfg seed inc routes) = [] \<longleftrightarrow> list_all (\<lambda>r. \<not> considered inc r) routes) \<and>
   (\<forall>i j. i \<in> set (fst (rank_inner env cfg seed inc routes)) \<longrightarrow>
      j < length routes \<longrightarrow> considered inc (routes ! j) \<longrightarrow>
      route_ready (se_net env) (snd (rank_inner env cfg seed inc routes) ! j) \<longrightarrow>
      route_ready (se_net env) (snd (rank_inner env cfg seed inc routes) ! i))"
proof (intro conjI allI impI)
  show "distinct (fst (rank_inner env cfg seed inc routes))" by (rule rank_inner_members(2))
  show "list_all (\<lambda>i. i < length routes \<and> considered inc (routes ! i)) (fst (rank_inner env cfg seed inc routes))"
    using rank_inner_valid by (simp add: list_all_iff)
  show "fst (rank_inner env cfg seed inc routes) = [] \<longleftrightarrow> list_all (\<lambda>r. \<not> considered inc r) routes"
  proof
    assume e: "fst (rank_inner env cfg seed inc routes) = []"
    show "list_all (\<lambda>r. \<not> considered inc r) routes"
      unfolding list_all_length using rank_inner_nonempty [of _ routes inc env cfg seed] e by auto
  next
    assume n: "list_all (\<lambda>r. \<not> considered inc r) routes"
    show "fst (rank_inner env cfg seed inc routes) = []"
    proof (rule ccontr)
      assume "fst (rank_inner env cfg seed inc routes) \<noteq> []"
      then have "hd (fst (rank_inner env cfg seed inc routes)) \<in> set (fst (rank_inner env cfg seed inc routes))"
        by simp
      from rank_inner_valid [OF this] n show False by (simp add: list_all_length)
    qed
  qed
  show "route_ready (se_net env) (snd (rank_inner env cfg seed inc routes) ! i)"
    if "i \<in> set (fst (rank_inner env cfg seed inc routes))" "j < length routes" "considered inc (routes ! j)"
      "route_ready (se_net env) (snd (rank_inner env cfg seed inc routes) ! j)" for i j
    using rank_inner_ready [OF that(2,3) _ that(1)] that(4) by simp
qed

definition one_route :: "route list" where
  "one_route = [make_route sample_udp (V4 (ipv4_new 1 1 1 1)) Direct Udp
     \<lparr>cn_protocol = PcUdp, cn_port = 53, cn_bind_addr = None\<rparr> False \<lparr>ck_client = [], ck_server = None\<rparr>]"

definition start_env :: sched_env where
  "start_env = \<lparr>se_net = snapshot_unknown, se_now = 0, se_unix = 0, se_relearn_window = 0\<rparr>"

theorem rank_inner_sound_witness:
  "fst (rank_inner start_env scheduler_config_default 7 False one_route) \<noteq> []"
proof -
  have "\<not> list_all (\<lambda>r. \<not> considered False r) one_route" by (simp add: one_route_def considered_def)
  then show ?thesis
    using rank_inner_sound [of start_env scheduler_config_default 7 False one_route] by blast
qed

section \<open>The exchange ceiling\<close>

definition slots_ok :: "nat \<Rightarrow> exchange_slots \<Rightarrow> bool" where
  "slots_ok n x \<longleftrightarrow>
     xs_capacity x = n \<and> xs_available x + length (xs_running x) + length (xs_retained x) = n"

lemma length_remove1_mem: "e \<in> set xs \<Longrightarrow> Suc (length (remove1 e xs)) = length xs"
  by (induction xs) auto

lemma slots_ok_step:
  assumes "slots_ok n x" "slots_step x x'"
  shows "slots_ok n x'"
  using assms(2)
proof cases
  case (SlotAcquire i expiry)
  then show ?thesis using assms(1) by (auto simp: slots_ok_def slot_acquire_def split: if_splits)
next
  case (SlotComplete e)
  then show ?thesis
    using assms(1) length_remove1_mem [OF SlotComplete(2)] by (simp add: slots_ok_def slot_complete_def)
next
  case (SlotCancel e now)
  then show ?thesis
    using assms(1) length_remove1_mem [OF SlotCancel(2)]
    by (simp add: slots_ok_def slot_cancel_def slot_complete_def Let_def)
next
  case (SlotExpire t)
  then show ?thesis
    using assms(1) length_remove1_mem [OF SlotExpire(2)] by (simp add: slots_ok_def slot_expire_def)
qed

interpretation slots_sys: invariant_system "\<lambda>x. x = slots_new n" slots_step "slots_ok n" for n
proof unfold_locales
  show "slots_ok n x" if "x = slots_new n" for x using that by (simp add: slots_ok_def slots_new_def)
  show "slots_ok n x'" if "slots_ok n x" "slots_step x x'" for x x' using that by (rule slots_ok_step)
qed



section \<open>Attempts\<close>

lemma begin_attempt_cases:
  "begin_attempt h = (True, h') \<Longrightarrow> rh_circuit h = HalfOpen"
  "begin_attempt h = (False, h') \<Longrightarrow> h' = h"
  by (auto simp: begin_attempt_def split: if_splits)

lemma route_send_health:
  "rh_half_open_inflight (rt_health (snd (route_send conn wire r))) = rh_half_open_inflight (rt_health r)"
  by (cases conn; cases wire)
    (simp_all add: route_send_def route_connection_def drop_stream_connection_def reset_connection_def
      record_connect_def Let_def)

lemma route_send_fields [simp]:
  "rt_key (snd (route_send conn wire r)) = rt_key r"
  "rt_cookies_enabled (snd (route_send conn wire r)) = rt_cookies_enabled r"
  "rt_trust_ad (snd (route_send conn wire r)) = rt_trust_ad r"
  by (cases conn; cases wire;
      simp add: route_send_def route_connection_def drop_stream_connection_def reset_connection_def
      with_health_def)+

lemma set_server_cookie_fields [simp]:
  "rt_key (set_server_cookie c r) = rt_key r" "rt_health (set_server_cookie c r) = rt_health r"
  by (simp_all add: set_server_cookie_def)

lemma drop_slot_key [simp]: "rt_key (drop_slot taken r) = rt_key r"
  by (simp add: drop_slot_def)

lemma outgoing_queries [simp]: "m_queries (outgoing_message P r m) = m_queries m"
  "md_op (m_meta (outgoing_message P r m)) = md_op (m_meta m)"
  by (simp_all add: outgoing_message_def update_options_def)

lemma question_matches_outgoing:
  "question_matches (outgoing_message P r m) resp = question_matches m resp"
  by (simp add: question_matches_def)

lemma validate_response_ok:
  assumes "validate_response P req resp ck client = Inr u"
  shows "question_matches req resp" "md_type (m_meta resp) = MtResponse"
    "md_op (m_meta resp) = md_op (m_meta req)" "md_rcode (m_meta resp) \<in> {NoError, NXDomain}"
  using assms by (auto simp: validate_response_def split: if_splits rcode.splits)

lemma validate_response_fails:
  "validate_response P req resp ck client = Inl (oc, d) \<Longrightarrow> oc \<noteq> AoSuccess"
  by (auto simp: validate_response_def split: if_splits rcode.splits)

lemma route_send_fails: "fst (route_send conn wire r) = Inl (oc, d) \<Longrightarrow> oc \<noteq> AoSuccess"
  by (cases conn; cases wire) (auto simp: route_send_def route_connection_def split: if_splits)

lemma route_send_answers:
  "fst (route_send conn wire r) = Inr (m, l) \<Longrightarrow> wire = WireAnswer m l"
  by (cases conn; cases wire) (auto simp: route_send_def route_connection_def split: if_splits)

lemma reserve_slot_fields [simp]:
  "rt_key (snd (reserve_slot r)) = rt_key r" "rt_cookie (snd (reserve_slot r)) = rt_cookie r"
  "rt_cookies_enabled (snd (reserve_slot r)) = rt_cookies_enabled r"
  by (simp_all add: reserve_slot_def split_def Let_def)

text \<open>The three ways an exchange ends.\<close>

lemma exchange_cases:
  obtains oc d where "fst (route_send (ae_connect env) (ae_wire env) (snd (reserve_slot r))) = Inl (oc, d)"
    "exchange P m env idx r =
      (\<lparr>ar_route = idx, ar_outcome = Some oc, ar_latency = None, ar_message = None, ar_detail = DtTransport d\<rparr>,
       drop_slot (fst (reserve_slot r)) (snd (route_send (ae_connect env) (ae_wire env) (snd (reserve_slot r)))))"
  | msg l oc d where "fst (route_send (ae_connect env) (ae_wire env) (snd (reserve_slot r))) = Inr (msg, l)"
    "validate_response P (outgoing_message P (snd (reserve_slot r)) m) msg (rt_cookies_enabled r) (ck_client (rt_cookie r)) = Inl (oc, d)"
    "exchange P m env idx r =
      (\<lparr>ar_route = idx, ar_outcome = Some oc, ar_latency = Some l, ar_message = None, ar_detail = d\<rparr>,
       drop_slot (fst (reserve_slot r)) (snd (route_send (ae_connect env) (ae_wire env) (snd (reserve_slot r)))))"
  | msg l c where "fst (route_send (ae_connect env) (ae_wire env) (snd (reserve_slot r))) = Inr (msg, l)"
    "validate_response P (outgoing_message P (snd (reserve_slot r)) m) msg (rt_cookies_enabled r) (ck_client (rt_cookie r)) = Inr ()"
    "exchange P m env idx r =
      (\<lparr>ar_route = idx, ar_outcome = Some AoSuccess, ar_latency = Some l, ar_message = Some msg, ar_detail = DtNone\<rparr>,
       drop_slot (fst (reserve_slot r))
         (if c then set_server_cookie (extract_server_cookie P msg (ck_client (rt_cookie r)))
                 (snd (route_send (ae_connect env) (ae_wire env) (snd (reserve_slot r))))
          else snd (route_send (ae_connect env) (ae_wire env) (snd (reserve_slot r)))))"
proof (cases "fst (route_send (ae_connect env) (ae_wire env) (snd (reserve_slot r)))")
  case (Inl e)
  then show thesis by (intro that(1) [of "fst e" "snd e"]) (simp_all add: exchange_def split_def Let_def)
next
  case (Inr a)
  show thesis
  proof (cases "validate_response P (outgoing_message P (snd (reserve_slot r)) m) (fst a)
      (rt_cookies_enabled r) (ck_client (rt_cookie r))")
    case (Inl e)
    show thesis
      by (rule that(2) [of "fst a" "snd a" "fst e" "snd e"])
        (simp_all add: exchange_def split_def Let_def Inl \<open>_ = Inr a\<close>)
  next
    case (Inr u)
    show thesis
      by (rule that(3) [of "fst a" "snd a" "rt_cookies_enabled r \<and>
            extract_server_cookie P (fst a) (ck_client (rt_cookie r)) \<noteq> None"])
        (simp_all add: exchange_def split_def Let_def Inr \<open>_ = Inr a\<close>)
  qed
qed

section \<open>What an attempt does\<close>

lemma drop_slot_fields [simp]:
  "rt_trust_ad (drop_slot b r) = rt_trust_ad r"
  by (simp add: drop_slot_def with_health_def)

lemma exchange_key [simp]: "rt_key (snd (exchange P m env idx r)) = rt_key r"
  by (rule exchange_cases [of env r P m idx]) (simp_all add: route_send_fields set_server_cookie_fields)

lemma attempt_eq:
  "attempt_admitted plan env = None \<Longrightarrow> attempt P m plan env idx routes = (shed idx, routes)"
  "attempt_admitted plan env = Some t \<Longrightarrow> attempt P m plan env idx routes =
     (fst (exchange P m env idx (routes ! idx)), routes[idx := snd (exchange P m env idx (routes ! idx))])"
  by (simp_all add: attempt_def split_def Let_def)

lemma keys_update:
  "rt_key r = rt_key (routes ! i) \<Longrightarrow> map rt_key (routes[i := r]) = map rt_key routes"
  by (cases "i < length routes") (simp_all add: map_update list_update_same_conv list_update_beyond)

lemma attempt_keys [simp]: "map rt_key (snd (attempt P m plan env idx routes)) = map rt_key routes"
  by (cases "attempt_admitted plan env") (simp_all add: attempt_eq keys_update)

lemma record_result_keys [simp]: "map rt_key (record_result cfg now result routes) = map rt_key routes"
  by (cases "ar_outcome result") (simp_all add: record_result_def keys_update)

lemma attempt_route [simp]: "ar_route (fst (attempt P m plan env idx routes)) = idx"
proof (cases "attempt_admitted plan env")
  case (Some t)
  have "ar_route (fst (exchange P m env idx r)) = idx" for r
    by (rule exchange_cases [of env r P m idx]) simp_all
  then show ?thesis using Some by (simp add: attempt_eq)
qed (simp add: attempt_eq shed_def)

text \<open>A successful attempt carries an answer to the question that was asked.\<close>

definition answers :: "message \<Rightarrow> message \<Rightarrow> bool" where
  "answers request response \<longleftrightarrow>
     question_matches request response \<and> md_type (m_meta response) = MtResponse \<and>
     md_op (m_meta response) = md_op (m_meta request) \<and>
     (md_rcode (m_meta response) = NoError \<or> md_rcode (m_meta response) = NXDomain)"

lemma exchange_success:
  assumes "ar_outcome (fst (exchange P m env idx r)) = Some AoSuccess"
  shows "\<exists>msg. ar_message (fst (exchange P m env idx r)) = Some msg \<and> answers m msg"
proof (cases rule: exchange_cases [of env r P m idx])
  case (1 oc d)
  then show ?thesis using assms route_send_fails by simp
next
  case (2 msg l oc d)
  then show ?thesis using assms validate_response_fails by simp
next
  case (3 msg l c)
  then show ?thesis
    using validate_response_ok [OF 3(2)] by (auto simp: answers_def question_matches_outgoing)
qed

lemma attempt_success:
  assumes "ar_outcome (fst (attempt P m plan env idx routes)) = Some AoSuccess"
  shows "\<exists>msg. ar_message (fst (attempt P m plan env idx routes)) = Some msg \<and> answers m msg"
proof (cases "attempt_admitted plan env")
  case (Some t)
  then show ?thesis using assms exchange_success by (simp add: attempt_eq)
qed (use assms in \<open>simp add: attempt_eq shed_def\<close>)

lemma nth_keys_eq: "map rt_key xs = map rt_key ys \<Longrightarrow> i < length xs \<Longrightarrow> rt_key (xs ! i) = rt_key (ys ! i)"
  by (metis length_map nth_map)

lemma answer_of_attempt:
  assumes "answer_of b routes' (fst (attempt P m plan env idx routes)) = Some a"
    and "map rt_key routes' = map rt_key routes" "idx < length routes"
  shows "answers m (ua_message a)" "ua_route a = rt_key (routes ! idx)" "ua_stream_retry a = b"
proof -
  have l: "length routes' = length routes" using assms(2) by (metis length_map)
  from assms(1) have s: "ar_outcome (fst (attempt P m plan env idx routes)) = Some AoSuccess"
    by (simp add: answer_of_def split: if_splits)
  from attempt_success [OF this] obtain msg where
    "ar_message (fst (attempt P m plan env idx routes)) = Some msg" "answers m msg" by blast
  with assms(1) s nth_keys_eq [OF assms(2)] assms(3) l
  show "answers m (ua_message a)" "ua_route a = rt_key (routes ! idx)" "ua_stream_retry a = b"
    by (auto simp: answer_of_def)
qed

lemma sat_add_sub: "a \<noteq> - 1 \<Longrightarrow> sat_sub (sat_add a 1) 1 = (a :: u32)"
proof -
  assume "a \<noteq> - 1"
  then have "unat a \<noteq> unat (- 1 :: u32)" by (metis word_unat_eq_iff)
  then have "unat a < 2 ^ 32 - 1" using unat_less_pow [of a]
    by (simp add: unsigned_minus_1_eq_mask mask_eq_exp_minus_1)
  then show ?thesis by (simp add: word_unat_eq_iff sat_simps)
qed

lemma reservation_balanced:
  assumes "rh_half_open_inflight (rt_health r) \<noteq> - 1"
  shows "rh_half_open_inflight (rt_health (snd (exchange P m env idx r))) = rh_half_open_inflight (rt_health r)"
proof -
  have given_back: "rh_half_open_inflight (rt_health (drop_slot (fst (reserve_slot r)) c)) = rh_half_open_inflight (rt_health r)"
    if "rh_half_open_inflight (rt_health c) = rh_half_open_inflight (rt_health (snd (reserve_slot r)))" for c
    using that assms
    by (simp add: drop_slot_def reserve_slot_def begin_attempt_def release_attempt_def split_def Let_def sat_add_sub)
  show ?thesis
    by (cases rule: exchange_cases [of env r P m idx]) (simp_all add: given_back route_send_health)
qed


section \<open>Second opinions are independent\<close>

lemma rank_keys [simp]: "map rt_key (snd (rank env cfg seed routes)) = map rt_key routes"
  "map rt_key (snd (rank_inner env cfg seed inc routes)) = map rt_key routes"
  by (auto simp: rank_def rank_inner_def Let_def intro!: nth_equalityI simp: tick_routes_nth)

lemma single_attempt_answer:
  assumes "fst (single_attempt P m cfg deadline env finished idx routes) = Some a" "idx < length routes"
  shows "answers m (ua_message a)" "ua_route a = rt_key (routes ! idx)"
  using assms answer_of_attempt [where routes' = "record_result cfg finished (fst (attempt P m (plain_plan cfg deadline PpShed) env idx routes))
      (snd (attempt P m (plain_plan cfg deadline PpShed) env idx routes))"]
  by (auto simp: single_attempt_def split_def Let_def split: option.splits)

lemma single_attempt_keys [simp]:
  "map rt_key (snd (single_attempt P m cfg deadline env finished idx routes)) = map rt_key routes"
  by (simp add: single_attempt_def split_def Let_def split: option.splits)

lemma find_SomeD: "List.find p xs = Some x \<Longrightarrow> x \<in> set xs \<and> p x"
  by (induction xs) (auto split: if_splits)

lemma rank_range: "i \<in> set (fst (rank env cfg seed routes)) \<Longrightarrow> i < length routes"
  using rank_inner_valid(1) by (simp add: rank_def)

lemma length_rank [simp]: "length (snd (rank env cfg seed routes)) = length routes"
  by (simp add: rank_def)

lemma rank_key_nth [simp]:
  "i < length routes \<Longrightarrow> rt_key (snd (rank env cfg seed routes) ! i) = rt_key (routes ! i)"
  by (simp add: rank_def tick_routes_nth)

text \<open>
  The answer of \<^verbatim>\<open>corroborate\<close> answers the question and comes from a route of the group whose
  authority is not the excluded one and whose role is independent: never from the resolver that gave
  the first answer, and never from a local forwarder.
\<close>

theorem corroborate_independent:
  assumes "fst (corroborate P env cfg message budget seed exclude envs finished routes) = Some a"
  shows "answers message (ua_message a) \<and> rk_authority (ua_route a) \<noteq> exclude \<and>
    is_independent (rk_role (ua_route a)) \<and> ua_route a \<in> rt_key ` set routes"
proof -
  obtain i where i: "i \<in> set (fst (rank env cfg seed routes))"
    "independent_of exclude (snd (rank env cfg seed routes) ! i)"
    "fst (single_attempt P message cfg (se_now env + budget) (envs i) (finished i) i (snd (rank env cfg seed routes))) = Some a"
    using assms find_SomeD
    by (fastforce simp: corroborate_def split_def Let_def split: if_splits option.splits)
  have r: "i < length routes" using i(1) by (rule rank_range)
  then show ?thesis
    using single_attempt_answer [OF i(3)] i(2) by (simp add: independent_of_def)
qed

lemma pair_routesD:
  assumes "pair_routes routes ranked = Some (i, j)"
  shows "i \<in> set ranked" "j \<in> set ranked"
    "independent_of (rk_authority (rt_key (routes ! i))) (routes ! j)"
proof -
  obtain rest where r: "ranked = i # rest"
    and f: "List.find (\<lambda>k. independent_of (rk_authority (rt_key (routes ! i))) (routes ! k)) ranked = Some j"
    using assms by (cases ranked) (auto simp: pair_routes_def)
  show "i \<in> set ranked" by (simp add: r)
  show "j \<in> set ranked" "independent_of (rk_authority (rt_key (routes ! i))) (routes ! j)"
    using find_SomeD [OF f] by simp_all
qed

text \<open>
  When \<^verbatim>\<open>resolve_pair\<close> returns a pair, both messages answer the question, their authorities differ,
  and the second is independent.
\<close>

theorem resolve_pair_independent:
  assumes "fst (resolve_pair P env cfg message budget seed envs finished routes) = Some (a, b)"
  shows "answers message (ua_message a) \<and> answers message (ua_message b) \<and>
    rk_authority (ua_route a) \<noteq> rk_authority (ua_route b) \<and> is_independent (rk_role (ua_route b))"
proof -
  define rs where "rs = snd (rank env cfg seed routes)"
  define ranked where "ranked = fst (rank env cfg seed routes)"
  have rk: "rank env cfg seed routes = (ranked, rs)" by (simp add: rs_def ranked_def)
  obtain i j where ij: "pair_routes rs ranked = Some (i, j)"
    and a: "fst (single_attempt P message cfg (se_now env + budget) (envs i) (finished i) i rs) = Some a"
    and b: "fst (single_attempt P message cfg (se_now env + budget) (envs j) (finished j) j
      (snd (single_attempt P message cfg (se_now env + budget) (envs i) (finished i) i rs))) = Some b"
  proof (cases "pair_routes rs ranked")
    case None
    then show thesis using assms by (simp add: resolve_pair_def rk split: if_splits)
  next
    case (Some p)
    let ?f = "\<lambda>i rs. single_attempt P message cfg (se_now env + budget) (envs i) (finished i) i rs"
    have "fst (?f (fst p) rs) = Some a \<and> fst (?f (snd p) (snd (?f (fst p) rs))) = Some b"
      using assms by (cases "fst (?f (fst p) rs)"; cases "fst (?f (snd p) (snd (?f (fst p) rs)))")
        (simp_all add: resolve_pair_def rk Some split_def Let_def split: if_splits)
    then show thesis using that [of "fst p" "snd p"] Some by simp
  qed
  note m = pair_routesD [OF ij]
  have r: "i < length rs" "j < length rs" using m(1,2) rank_range by (simp_all add: rs_def ranked_def)
  note k = single_attempt_keys [of P message cfg "se_now env + budget" "envs i" "finished i" i rs]
  have "length (snd (single_attempt P message cfg (se_now env + budget) (envs i) (finished i) i rs)) = length rs"
    using k by (metis length_map)
  then show ?thesis
    using single_attempt_answer [OF a r(1)] single_attempt_answer [OF b] nth_keys_eq [OF k, of j] r(2) m(3)
      m(3) [unfolded independent_of_def, THEN conjunct1, THEN not_sym]
    by (simp add: independent_of_def)
qed

section \<open>The answer of a resolution\<close>

lemma try_streams_answer:
  assumes "fst (try_streams P m cfg deadline nows envs finished idxs routes) = Some a"
    and "\<And>i. i \<in> set idxs \<Longrightarrow> i < length routes \<and> is_stream (rk_transport (rt_key (routes ! i)))"
  shows "answers m (ua_message a) \<and> is_stream (rk_transport (ua_route a)) \<and> ua_route a \<in> rt_key ` set routes"
  using assms
proof (induction idxs arbitrary: routes)
  case (Cons idx rest)
  let ?at = "attempt P m (plain_plan cfg deadline PpQueue) (envs idx) idx routes"
  let ?routes2 = "record_result cfg (finished idx) (fst ?at) (snd ?at)"
  have step: ?case if "fst (try_streams P m cfg deadline nows envs finished rest rs) = Some a"
    "map rt_key rs = map rt_key routes" for rs
  proof -
    have "length rs = length routes" "rt_key ` set rs = rt_key ` set routes"
      using that(2) by (metis length_map, metis list.set_map)
    then show ?thesis using Cons.IH [OF that(1)] Cons.prems(2) nth_keys_eq [OF that(2)] by simp
  qed
  show ?case
  proof (cases "ar_outcome (fst ?at)")
    case None
    then show ?thesis using Cons.prems(1) step [of "snd ?at"]
      by (simp add: split_def Let_def split: if_splits)
  next
    case (Some oc)
    show ?thesis
    proof (cases "answer_of True ?routes2 (fst ?at)")
      case None
      then show ?thesis using Cons.prems(1) Some step [of ?routes2]
        by (simp add: split_def Let_def split: if_splits)
    next
      case (Some a')
      then have "a' = a" using Cons.prems(1) \<open>ar_outcome _ = Some oc\<close>
        by (simp add: split_def Let_def split: if_splits)
      then show ?thesis
        using answer_of_attempt [OF Some] Cons.prems(2) [of idx] by simp
    qed
  qed
qed simp

lemma stream_retry_answer:
  assumes "fst (stream_retry P env cfg m deadline seed nows envs finished routes) = Some a"
  shows "answers m (ua_message a) \<and> is_stream (rk_transport (ua_route a)) \<and> ua_route a \<in> rt_key ` set routes"
proof -
  define rs where "rs = snd (rank_inner env cfg seed True routes)"
  have k: "map rt_key rs = map rt_key routes" by (simp add: rs_def del: snd_rank_inner)
  then have l: "length rs = length routes" "rt_key ` set rs = rt_key ` set routes"
    by (metis length_map, metis list.set_map)
  have c: "i < length rs \<and> is_stream (rk_transport (rt_key (rs ! i)))"
    if "i \<in> set (stream_candidates rs (fst (rank_inner env cfg seed True routes)))" for i
    using that rank_inner_valid(1) set_take_subset by (fastforce simp: stream_candidates_def l)
  have "fst (try_streams P m cfg deadline nows envs finished
      (stream_candidates rs (fst (rank_inner env cfg seed True routes))) rs) = Some a"
    using assms by (simp add: stream_retry_def split_def Let_def rs_def split: if_splits)
  from try_streams_answer [OF this c] show ?thesis by (simp add: l)
qed

text \<open>The routes of a state, by identity: no step of a resolution changes them.\<close>

lemma run_pending_eq:
  "run_pending P call env p s =
     (fst (attempt P (rc_message call) (pa_plan p) env (pa_route p) (ss_routes s)),
      \<lparr>ss_routes = snd (attempt P (rc_message call) (pa_plan p) env (pa_route p) (ss_routes s)),
       ss_budget = (if pa_hedge p then charge_hedge (pa_plan p) env (ss_budget s) else ss_budget s)\<rparr>)"
  by (simp add: run_pending_def split_def Let_def)

lemma on_result_keys: "map rt_key (ss_routes (snd (on_result call now result s st))) = map rt_key (ss_routes s)"
  by (simp add: on_result_def Let_def split: option.splits)

lemma resolve_step_keys:
  "map rt_key (ss_routes (snd (resolve_step render P call t0 w t1 s st))) = map rt_key (ss_routes s)"
  by (cases w) (simp_all add: resolve_step_def split_def Let_def on_result_keys run_pending_eq)

text \<open>A wake-up is possible in a state: a pending attempt finishes, or none is pending.\<close>

definition wake_ok :: "resolution \<Rightarrow> wake \<Rightarrow> bool" where
  "wake_ok st w =
     (case w of
        WakeElapsed \<Rightarrow> True
      | WakeFinished k _ \<Rightarrow> k < length (rs_pending st)
      | WakeNone \<Rightarrow> rs_pending st = [])"

fun wakes_ok ::
  "(attempt_detail \<Rightarrow> ustring) \<Rightarrow> proto_lib \<Rightarrow> resolve_call \<Rightarrow> instant \<Rightarrow> (wake \<times> instant) list \<Rightarrow> sched_state \<Rightarrow>
     resolution \<Rightarrow> bool" where
  "wakes_ok render P call t0 [] s st = True"
| "wakes_ok render P call t0 ((w, t1) # ws) s st =
     (wake_ok st w \<and>
      (case resolve_step render P call t0 w t1 s st of
         (StepMore st1, s1) \<Rightarrow> wakes_ok render P call t1 ws s1 st1
       | _ \<Rightarrow> True))"

text \<open>The invariant of the loop: what is pending was started, once, on a route of the ranking.\<close>

definition resolution_ok :: "resolve_call \<Rightarrow> resolution \<Rightarrow> bool" where
  "resolution_ok call st \<longleftrightarrow>
     length (rs_attempted st) = length (rc_ranked call) \<and>
     distinct (map pa_route (rs_pending st)) \<and>
     (\<forall>p \<in> set (rs_pending st). \<exists>i < length (rc_ranked call). pa_route p = rc_ranked call ! i \<and> rs_attempted st ! i) \<and>
     length (filter id (rs_attempted st)) \<le>
       2 + (if rs_fanned_out st then sc_emergency_fanout_max (rc_cfg call) else 0)"

text \<open>Work left: the pending attempts, and the fan-out with every route never started.\<close>

definition work_left :: "resolution \<Rightarrow> nat" where
  "work_left st = length (rs_pending st) +
     (if rs_fanned_out st then 0 else Suc (length (filter Not (rs_attempted st))))"

lemma on_resultD:
  assumes "on_result call now result s st = (StepMore st1, s1)"
  shows "rs_pending st1 = rs_pending st" "rs_attempted st1 = rs_attempted st" "rs_fanned_out st1 = rs_fanned_out st"
  using assms by (auto simp: on_result_def Let_def split: option.splits if_splits)

lemma on_idleD:
  assumes "on_idle render call st = StepMore st1"
  shows "\<not> rs_fanned_out st" "rs_fanned_out st1"
    "rs_pending st1 = rs_pending st @ map (queued_attempt call PpShed) (fanout_positions (rc_cfg call) (rs_attempted st))"
    "rs_attempted st1 = map (\<lambda>i. rs_attempted st ! i \<or> i \<in> set (fanout_positions (rc_cfg call) (rs_attempted st)))
       [0..<length (rs_attempted st)]"
  using assms by (auto simp: on_idle_def Let_def split: if_splits)

lemma resolve_stepD:
  assumes "resolve_step render P call t0 w t1 s st = (StepMore st1, s1)" "wake_ok st w"
  obtains (finished) k where "k < length (rs_pending st)"
      "rs_pending st1 = take k (rs_pending st) @ drop (Suc k) (rs_pending st)"
      "rs_attempted st1 = rs_attempted st" "rs_fanned_out st1 = rs_fanned_out st"
  | (fan_out) "rs_pending st = []" "on_idle render call st = StepMore st1"
proof (cases w)
  case (WakeFinished k env)
  then have "on_result call t1 (fst (run_pending P call env (rs_pending st ! k) s)) (snd (run_pending P call env (rs_pending st ! k) s))
      (st\<lparr>rs_pending := take k (rs_pending st) @ drop (Suc k) (rs_pending st)\<rparr>) = (StepMore st1, s1)"
    using assms(1) by (simp add: resolve_step_def split_def Let_def split: if_splits)
  from on_resultD [OF this] show thesis using assms(2) WakeFinished
    by (intro that(1) [of k]) (simp_all add: wake_ok_def)
qed (use assms in \<open>simp_all add: resolve_step_def wake_ok_def fan_out split: if_splits\<close>)

lemma length_fanout: "length (fanout_positions cfg att) \<le> length (filter Not att)"
proof -
  have "length (filter (\<lambda>i. \<not> att ! i) [0..<length att]) = length (filter Not att)"
    by (metis (no_types, lifting) comp_def filter_cong length_map map_nth filter_map)
  then show ?thesis by (simp add: fanout_positions_def)
qed

lemma work_left_decreases:
  assumes "resolve_step render P call t0 w t1 s st = (StepMore st1, s1)" "wake_ok st w"
  shows "work_left st1 < work_left st"
  using assms
proof (cases rule: resolve_stepD)
  case (finished k)
  then show ?thesis by (cases "rs_pending st") (simp_all add: work_left_def)
next
  case fan_out
  then show ?thesis using on_idleD [OF fan_out(2)] length_fanout [of "rc_cfg call" "rs_attempted st"]
    by (simp add: work_left_def)
qed

lemma resolve_loop_ends:
  assumes "wakes_ok render P call t0 ws s st" "work_left st < length ws"
  shows "\<exists>out s1. resolve_loop render P call t0 ws s st = Some (out, s1) \<and> (\<nexists>st1. out = StepMore st1)"
  using assms
proof (induction ws arbitrary: t0 s st)
  case (Cons wt ws)
  obtain w t1 where wt: "wt = (w, t1)" by (cases wt)
  obtain out s1 where r: "resolve_step render P call t0 w t1 s st = (out, s1)" by fastforce
  show ?case
  proof (cases out)
    case (StepMore st1)
    then have "work_left st1 < work_left st" using work_left_decreases r Cons.prems(1) by (simp add: wt)
    then show ?thesis using Cons.IH [of t1 s1 st1] Cons.prems r StepMore by (simp add: wt)
  qed (use r in \<open>simp_all add: wt\<close>)
qed simp

lemma nth_in_take_drop: "x \<in> set (take k xs @ drop (Suc k) xs) \<Longrightarrow> x \<in> set xs"
  by (auto dest: in_set_takeD in_set_dropD)

lemma distinct_take_drop:
  assumes "distinct (map f xs)" shows "distinct (map f (take k xs @ drop (Suc k) xs))"
proof (cases "k < length xs")
  case True
  then have "map f xs = map f (take k xs) @ f (xs ! k) # map f (drop (Suc k) xs)"
    by (metis id_take_nth_drop list.simps(9) map_append)
  then show ?thesis using assms by simp
qed (use assms in simp)

lemma fanout_positions_props:
  shows "distinct (fanout_positions cfg att)" "length (fanout_positions cfg att) \<le> sc_emergency_fanout_max cfg"
    "set (fanout_positions cfg att) \<subseteq> {i. i < length att \<and> \<not> att ! i}"
proof -
  show "set (fanout_positions cfg att) \<subseteq> {i. i < length att \<and> \<not> att ! i}"
    unfolding fanout_positions_def by (rule order_trans [OF set_take_subset]) auto
qed (simp_all add: fanout_positions_def)

lemma count_or_le:
  "length (filter id (map (\<lambda>i. att ! i \<or> i \<in> set fresh) [0..<length att])) \<le> length (filter id att) + length fresh"
proof -
  have "{i. i < length att \<and> (att ! i \<or> i \<in> set fresh)} \<subseteq> {i. i < length att \<and> att ! i} \<union> set fresh" by blast
  then have "card {i. i < length att \<and> (att ! i \<or> i \<in> set fresh)} \<le> card ({i. i < length att \<and> att ! i} \<union> set fresh)"
    by (intro card_mono) auto
  also have "\<dots> \<le> card {i. i < length att \<and> att ! i} + length fresh"
    by (rule order_trans [OF card_Un_le]) (simp add: card_length)
  finally show ?thesis by (simp add: length_filter_conv_card cong: conj_cong)
qed

lemma resolution_ok_step:
  assumes "resolution_ok call st" "distinct (rc_ranked call)"
    and "resolve_step render P call t0 w t1 s st = (StepMore st1, s1)" "wake_ok st w"
  shows "resolution_ok call st1"
  using assms(3,4)
proof (cases rule: resolve_stepD)
  case (finished k)
  then show ?thesis using assms(1) nth_in_take_drop [of _ k "rs_pending st"] distinct_take_drop [of pa_route "rs_pending st" k]
    by (simp add: resolution_ok_def del: set_append map_append)
next
  case fan_out
  define fresh where "fresh = fanout_positions (rc_cfg call) (rs_attempted st)"
  have l: "length (rs_attempted st) = length (rc_ranked call)" using assms(1) by (simp add: resolution_ok_def)
  note f = fanout_positions_props(1,2) [of "rc_cfg call" "rs_attempted st", folded fresh_def]
  have f3: "i < length (rc_ranked call)" if "i \<in> set fresh" for i
    using that fanout_positions_props(3) [of "rc_cfg call" "rs_attempted st"] l by (auto simp: fresh_def)
  note d = on_idleD [OF fan_out(2), folded fresh_def]
  have routes: "map pa_route (rs_pending st1) = map ((!) (rc_ranked call)) fresh"
    by (simp add: d fan_out queued_attempt_def)
  have "inj_on ((!) (rc_ranked call)) (set fresh)"
    using f3 assms(2) by (intro inj_onI) (simp add: nth_eq_iff_index_eq)
  then have "distinct (map pa_route (rs_pending st1))" unfolding routes using f(1) by (simp add: distinct_map)
  moreover have "length (filter id (rs_attempted st1)) \<le> 2 + sc_emergency_fanout_max (rc_cfg call)"
    using count_or_le [of "rs_attempted st" fresh] f(2) assms(1) d(1) unfolding d(4) by (simp add: resolution_ok_def)
  moreover have "\<exists>i < length (rc_ranked call). pa_route p = rc_ranked call ! i \<and> rs_attempted st1 ! i"
    if "p \<in> set (rs_pending st1)" for p
  proof -
    obtain x where "x \<in> set fresh" "p = queued_attempt call PpShed x"
      using \<open>p \<in> set (rs_pending st1)\<close> by (auto simp: d(3) fan_out)
    then show ?thesis using f3 [of x] l by (intro exI [of _ x]) (simp add: d(4) queued_attempt_def)
  qed
  ultimately show ?thesis using d(2) l by (simp add: resolution_ok_def d(4))
qed

lemma hedge_index_range:
  assumes "hedge_index cfg b budget routes ranked = Some k" shows "0 < k" "k < length ranked"
proof -
  have "0 < k \<and> k < length ranked"
  proof (cases "List.find (\<lambda>k. rk_authority (rt_key (routes ! (ranked ! k))) \<noteq>
      rk_authority (rt_key (routes ! (ranked ! 0)))) [0..<length ranked]")
    case None
    then show ?thesis using assms by (simp add: hedge_index_def split: if_splits)
  next
    case (Some j)
    then have "j = k" using assms by (simp add: hedge_index_def split: if_splits)
    then show ?thesis using find_SomeD [OF Some] by (cases k) simp_all
  qed
  then show "0 < k" "k < length ranked" by simp_all
qed

lemma resolve_start_ok:
  assumes "rc_ranked call \<noteq> []" "distinct (rc_ranked call)"
  shows "resolution_ok call (resolve_start call budget s)"
    "work_left (resolve_start call budget s) = Suc (length (rc_ranked call))"
proof -
  define n where "n = length (rc_ranked call)"
  have n: "0 < n" using assms(1) by (simp add: n_def)
  have c1: "{i. i < n \<and> i = 0} = {0}" and c2: "{i. i < n \<and> 0 < i} = {1..<n}" using n by auto
  have "resolution_ok call (resolve_start call budget s) \<and> work_left (resolve_start call budget s) = Suc n"
  proof (cases "hedge_index (rc_cfg call) (ss_budget s) budget (ss_routes s) (rc_ranked call)")
    case None
    have "length (filter id (map (\<lambda>i. i = 0) [0..<n])) = 1" "length (filter Not (map (\<lambda>i. i = 0) [0..<n])) = n - 1"
      by (simp_all add: length_filter_conv_card c1 c2 cong: conj_cong)
    then show ?thesis
      using n None by (auto simp: resolution_ok_def resolve_start_def work_left_def queued_attempt_def Let_def n_def [symmetric])
  next
    case (Some k)
    note k = hedge_index_range [OF Some, folded n_def]
    have e: "{i. i < n \<and> (i = 0 \<or> i = k)} = {0, k}" "{i. i < n \<and> 0 < i \<and> i \<noteq> k} = {0..<n} - {0, k}" using n k by auto
    have "card ({0..<n} - {0, k}) = n - 2" using n k by (subst card_Diff_subset) auto
    then have "length (filter id (map (\<lambda>i. i = 0 \<or> i = k) [0..<n])) = 2"
      "length (filter Not (map (\<lambda>i. i = 0 \<or> i = k) [0..<n])) = n - 2"
      using k by (simp_all add: length_filter_conv_card e cong: conj_cong)
    moreover have "rc_ranked call ! 0 \<noteq> rc_ranked call ! k"
      using assms(2) k n by (simp add: nth_eq_iff_index_eq n_def)
    moreover have "\<exists>i<n. rc_ranked call ! j = rc_ranked call ! i \<and> map (\<lambda>i. i = 0 \<or> i = k) [0..<n] ! i" if "j \<in> {0, k}" for j
      using that n k by (intro exI [of _ j]) auto
    ultimately show ?thesis
      using n k Some
      by (simp add: resolution_ok_def resolve_start_def work_left_def queued_attempt_def hedge_attempt_def Let_def n_def [symmetric])
  qed
  then show "resolution_ok call (resolve_start call budget s)"
    "work_left (resolve_start call budget s) = Suc (length (rc_ranked call))" by (simp_all add: n_def)
qed

text \<open>The states a resolution passes through.\<close>

inductive resolution_step ::
  "(attempt_detail \<Rightarrow> ustring) \<Rightarrow> proto_lib \<Rightarrow> resolve_call \<Rightarrow> instant \<times> sched_state \<times> resolution \<Rightarrow>
     instant \<times> sched_state \<times> resolution \<Rightarrow> bool"
  for render P call where
  "wake_ok st w \<Longrightarrow> resolve_step render P call t0 w t1 s st = (StepMore st1, s1) \<Longrightarrow>
     resolution_step render P call (t0, s, st) (t1, s1, st1)"

inductive_cases resolution_stepE: "resolution_step render P call x y"

definition resolution_inv :: "resolve_call \<Rightarrow> instant \<times> sched_state \<times> resolution \<Rightarrow> bool" where
  "resolution_inv call x \<longleftrightarrow> rc_ranked call \<noteq> [] \<and> distinct (rc_ranked call) \<and> resolution_ok call (snd (snd x))"

interpretation resolution_sys: invariant_system
  "\<lambda>x. rc_ranked call \<noteq> [] \<and> distinct (rc_ranked call) \<and> (\<exists>t s. x = (t, s, resolve_start call budget s))"
  "resolution_step render P call" "resolution_inv call" for render P call budget
proof unfold_locales
  show "resolution_inv call x"
    if "rc_ranked call \<noteq> [] \<and> distinct (rc_ranked call) \<and> (\<exists>t s. x = (t, s, resolve_start call budget s))" for x
    using that resolve_start_ok(1) [of call budget] by (elim conjE exE) (simp add: resolution_inv_def)
  show "resolution_inv call y" if "resolution_inv call x" "resolution_step render P call x y" for x y
    using that(2,1) by (elim resolution_stepE) (simp add: resolution_inv_def, blast intro: resolution_ok_step)
qed

text \<open>
  C14. In every state of a resolution the attempts under way are on different routes, all of them
  routes of the ranking marked as started, and at most the primary, one hedge and the configured
  number of emergency attempts were ever started.
\<close>

theorem resolution_attempts_bounded:
  assumes "rc_ranked call \<noteq> []" "distinct (rc_ranked call)"
    and "(resolution_step render P call)\<^sup>*\<^sup>* (t0, s0, resolve_start call budget s0) (t, s, st)"
  shows "distinct (map pa_route (rs_pending st)) \<and> pa_route ` set (rs_pending st) \<subseteq> set (rc_ranked call) \<and>
    length (filter id (rs_attempted st)) \<le> 2 + sc_emergency_fanout_max (rc_cfg call)"
proof -
  have "resolution_inv call (t, s, st)"
    by (rule resolution_sys.reachable_inv [OF _ assms(3)]) (use assms(1,2) in blast)
  then have "resolution_ok call st" by (simp add: resolution_inv_def)
  then show ?thesis by (auto simp: resolution_ok_def split: if_splits)
qed

text \<open>The wake-ups of a call of \<^verbatim>\<open>resolve\<close> are possible ones.\<close>

definition resolve_wakes_ok ::
  "(attempt_detail \<Rightarrow> ustring) \<Rightarrow> proto_lib \<Rightarrow> sched_env \<Rightarrow> nat \<Rightarrow> upstream_group \<Rightarrow> message \<Rightarrow> hedge_budget \<Rightarrow>
     duration \<Rightarrow> u64 \<Rightarrow> (wake \<times> instant) list \<Rightarrow> bool" where
  "resolve_wakes_ok render P env capacity grp message budget_state budget seed ws =
     (let (ranked, routes) = rank env (gr_scheduler grp) seed (gr_routes grp);
          s = \<lparr>ss_routes = routes, ss_budget = record_query budget_state\<rparr>;
          call = resolve_call_of env capacity (gr_scheduler grp) message budget ranked
      in wakes_ok render P call (se_now env) ws s (resolve_start call budget s))"

lemma rank_length: "length (fst (rank env cfg seed routes)) \<le> length routes"
proof -
  have "distinct (fst (rank env cfg seed routes))" using rank_inner_members(2) by (simp add: rank_def)
  moreover have "set (fst (rank env cfg seed routes)) \<subseteq> {0..<length routes}" using rank_range by auto
  ultimately show ?thesis by (metis card_atLeastLessThan card_mono distinct_card finite_atLeastLessThan minus_nat.diff_0)
qed

text \<open>
  \<^verbatim>\<open>resolve\<close> returns: two wake-ups more than the group has routes are enough for any course of the
  attempts, whatever their outcomes and their order.
\<close>

theorem scheduler_resolve_returns:
  assumes "resolve_wakes_ok render P env capacity grp message b budget seed ws" "length (gr_routes grp) + 2 \<le> length ws"
  shows "\<exists>r s. scheduler_resolve render P env capacity grp message b budget seed ws re = Some (r, s)"
proof -
  define ranked where "ranked = fst (rank env (gr_scheduler grp) seed (gr_routes grp))"
  define s where "s = \<lparr>ss_routes = snd (rank env (gr_scheduler grp) seed (gr_routes grp)), ss_budget = record_query b\<rparr>"
  define call where "call = resolve_call_of env capacity (gr_scheduler grp) message budget ranked"
  have rk: "rc_ranked call = ranked" by (simp add: call_def resolve_call_of_def)
  have d: "distinct ranked" using rank_inner_members(2) by (simp add: ranked_def rank_def)
  have w: "wakes_ok render P call (se_now env) ws s (resolve_start call budget s)"
    using assms(1) by (simp add: resolve_wakes_ok_def split_def Let_def ranked_def s_def call_def)
  show ?thesis
  proof (cases "ranked = []")
    case False
    then have "work_left (resolve_start call budget s) < length ws"
      using resolve_start_ok(2) [of call budget s] d rk rank_length [of env "gr_scheduler grp" seed "gr_routes grp"] assms(2)
      by (simp add: ranked_def)
    from resolve_loop_ends [OF w this] False show ?thesis
      by (auto simp: scheduler_resolve_def split_def Let_def simp flip: ranked_def s_def call_def)
  qed (simp add: scheduler_resolve_def split_def Let_def ranked_def)
qed

text \<open>An answer the loop returns, and what a truncated one becomes.\<close>

definition answer_ok :: "message \<Rightarrow> route_key set \<Rightarrow> upstream_answer \<Rightarrow> bool" where
  "answer_ok m keys a \<longleftrightarrow> answers m (ua_message a) \<and> ua_route a \<in> keys \<and>
     (md_truncation (m_meta (ua_message a)) \<longrightarrow> is_stream (rk_transport (ua_route a)))"

lemma on_result_answer:
  assumes "on_result call now result s st = (StepAnswer a, s1)"
  shows "answer_of False (record_result (rc_cfg call) now result (ss_routes s)) result = Some a"
    "md_truncation (m_meta (ua_message a)) \<longrightarrow> is_stream (rk_transport (ua_route a))"
  using assms by (auto simp: on_result_def Let_def split: option.splits if_splits)

lemma resolve_step_answer:
  assumes "resolve_step render P call t0 w t1 s st = (StepAnswer a, s1)" "wake_ok st w"
    and "\<And>p. p \<in> set (rs_pending st) \<Longrightarrow> pa_route p < length (ss_routes s)"
  shows "answer_ok (rc_message call) (rt_key ` set (ss_routes s)) a"
proof (cases w)
  case (WakeFinished k env)
  define p where "p = rs_pending st ! k"
  let ?at = "attempt P (rc_message call) (pa_plan p) env (pa_route p) (ss_routes s)"
  have i: "pa_route p < length (ss_routes s)"
    using assms(2,3) WakeFinished by (simp add: p_def wake_ok_def)
  have "on_result call t1 (fst ?at) (snd (run_pending P call env p s))
      (st\<lparr>rs_pending := take k (rs_pending st) @ drop (Suc k) (rs_pending st)\<rparr>) = (StepAnswer a, s1)"
    using assms(1) WakeFinished by (simp add: resolve_step_def split_def Let_def run_pending_eq p_def split: if_splits)
  note r = on_result_answer [OF this]
  from answer_of_attempt [OF r(1) _ i] r(2) i show ?thesis
    by (simp add: answer_ok_def run_pending_eq)
qed (use assms(1) in \<open>simp_all add: resolve_step_def on_idle_def Let_def split: if_splits\<close>)

lemma keys_eq_length: "map rt_key xs = map rt_key ys \<Longrightarrow> length xs = length ys"
  by (rule map_eq_imp_length_eq)

lemma keys_eq_set: "map rt_key xs = map rt_key ys \<Longrightarrow> rt_key ` set xs = rt_key ` set ys"
  by (metis list.set_map)

lemma resolve_loop_answer:
  assumes "resolve_loop render P call t0 ws s st = Some (out, s1)" "wakes_ok render P call t0 ws s st"
    and "resolution_ok call st" "distinct (rc_ranked call)" "\<forall>i \<in> set (rc_ranked call). i < length (ss_routes s)"
  shows "map rt_key (ss_routes s1) = map rt_key (ss_routes s) \<and>
    (\<forall>a. out = StepAnswer a \<longrightarrow> answer_ok (rc_message call) (rt_key ` set (ss_routes s)) a)"
  using assms
proof (induction ws arbitrary: t0 s st)
  case (Cons wt ws)
  obtain w t1 where wt: "wt = (w, t1)" by (cases wt)
  obtain o1 s2 where r: "resolve_step render P call t0 w t1 s st = (o1, s2)" by fastforce
  have k: "map rt_key (ss_routes s2) = map rt_key (ss_routes s)"
    using resolve_step_keys [of render P call t0 w t1 s st] by (simp add: r)
  have ok: "wake_ok st w" using Cons.prems(2) by (simp add: wt)
  show ?case
  proof (cases "\<exists>st1. o1 = StepMore st1")
    case True
    then obtain st1 where st1: "o1 = StepMore st1" by blast
    have "resolution_ok call st1" using resolution_ok_step [OF Cons.prems(3,4) r [unfolded st1] ok] .
    then show ?thesis
      using Cons.IH [of t1 s2 st1] Cons.prems r st1 keys_eq_length [OF k] keys_eq_set [OF k] k by (simp add: wt)
  next
    case False
    then have e: "out = o1" "s1 = s2" using Cons.prems(1) r by (auto simp: wt split: step_outcome.splits)
    have "answer_ok (rc_message call) (rt_key ` set (ss_routes s)) a" if "o1 = StepAnswer a" for a
    proof (rule resolve_step_answer [OF r [unfolded that] ok])
      show "pa_route p < length (ss_routes s)" if "p \<in> set (rs_pending st)" for p
        using that Cons.prems(3,5) by (auto simp: resolution_ok_def)
    qed
    then show ?thesis using e k by simp
  qed
qed simp

text \<open>
  C8. Every answer \<^verbatim>\<open>resolve\<close> returns, over every order and outcome of the attempts, answers the question
  of the query with a code that is an answer, comes from a route of the group, and is never a
  truncated datagram: a truncated answer was received over a stream transport.
\<close>

theorem scheduler_resolve_sound:
  assumes "scheduler_resolve render P env capacity grp message b budget seed ws re = Some (Inr a, s')"
    and "resolve_wakes_ok render P env capacity grp message b budget seed ws"
  shows "answers message (ua_message a) \<and> ua_route a \<in> rt_key ` set (gr_routes grp) \<and>
    (md_truncation (m_meta (ua_message a)) \<longrightarrow> is_stream (rk_transport (ua_route a)))"
proof -
  define ranked where "ranked = fst (rank env (gr_scheduler grp) seed (gr_routes grp))"
  define s where "s = \<lparr>ss_routes = snd (rank env (gr_scheduler grp) seed (gr_routes grp)), ss_budget = record_query b\<rparr>"
  define call where "call = resolve_call_of env capacity (gr_scheduler grp) message budget ranked"
  have rk: "rc_ranked call = ranked" "rc_message call = message" by (simp_all add: call_def resolve_call_of_def)
  have d: "distinct ranked" using rank_inner_members(2) by (simp add: ranked_def rank_def)
  have w: "wakes_ok render P call (se_now env) ws s (resolve_start call budget s)"
    using assms(2) by (simp add: resolve_wakes_ok_def split_def Let_def ranked_def s_def call_def)
  have ne: "ranked \<noteq> []" and l: "map_option (finish_resolution P call seed re)
      (resolve_loop render P call (se_now env) ws s (resolve_start call budget s)) = Some (Inr a, s')"
    using assms(1) by (simp_all add: scheduler_resolve_def split_def Let_def split: if_splits flip: ranked_def s_def call_def)
  then obtain out s1 where o: "resolve_loop render P call (se_now env) ws s (resolve_start call budget s) = Some (out, s1)"
    "finish_resolution P call seed re (out, s1) = (Inr a, s')" by auto
  have g: "map rt_key (ss_routes s) = map rt_key (gr_routes grp)" by (simp add: s_def)
  have "\<forall>i \<in> set (rc_ranked call). i < length (ss_routes s)"
    using rank_range by (simp add: rk ranked_def s_def)
  note r = resolve_loop_answer [OF o(1) w resolve_start_ok(1) _ this, unfolded rk, OF ne d d]
  have k: "rt_key ` set (ss_routes s1) = rt_key ` set (gr_routes grp)" "rt_key ` set (ss_routes s) = rt_key ` set (gr_routes grp)"
    using keys_eq_set r [THEN conjunct1] g by metis+
  show ?thesis
  proof (cases out)
    case (StepAnswer a')
    then have "a' = a" using o(2) by (simp add: finish_resolution_def)
    then show ?thesis using r StepAnswer by (simp add: answer_ok_def k(2))
  next
    case StepRetry
    then have "fst (stream_retry P (re_env re) (rc_cfg call) message (rc_deadline call) seed
        (re_nows re) (re_envs re) (re_finished re) (ss_routes s1)) = Some a"
      using o(2) by (simp add: finish_resolution_def rk split_def Let_def split: option.splits)
    then show ?thesis using stream_retry_answer k(1) by metis
  qed (use o(2) in \<open>simp_all add: finish_resolution_def\<close>)
qed

section \<open>A group of two resolvers\<close>

definition example_cfg :: scheduler_config where
  "example_cfg = scheduler_config_default\<lparr>sc_explore_rate := 0, sc_hedge_enabled := False\<rparr>"

definition named_route :: "string \<Rightarrow> route" where
  "named_route name = make_route (sample_udp\<lparr>us_server_name := Some name\<rparr>) (V4 (ipv4_new 1 1 1 1)) Direct Udp
     \<lparr>cn_protocol = PcUdp, cn_port = 53, cn_bind_addr = None\<rparr> False \<lparr>ck_client = [], ck_server = None\<rparr>"

definition two_routes :: "route list" where
  "two_routes = [named_route ''a'', named_route ''b'']"

definition example_query :: message where
  "example_query =
     \<lparr>m_meta = \<lparr>md_id = 1, md_type = MtQuery, md_op = OpQuery, md_authoritative = False, md_truncation = False,
        md_recursion_desired = True, md_recursion_available = False, md_authentic_data = False,
        md_checking_disabled = False, md_rcode = NoError\<rparr>,
      m_queries = [\<lparr>q_name = ''a.'', q_type = RT_A, q_class = CLASS_IN\<rparr>],
      m_answers = [], m_authorities = [], m_additionals = [], m_edns = None\<rparr>"

definition example_reply :: message where
  "example_reply = example_query\<lparr>m_meta := (m_meta example_query)\<lparr>md_type := MtResponse\<rparr>\<rparr>"

definition example_env :: attempt_env where
  "example_env = \<lparr>ae_start = 0, ae_woken = 0, ae_permit = Some 0, ae_connect = Inr 0, ae_wire = WireAnswer example_reply 5\<rparr>"

lemma named_route_fields:
  "rt_health (named_route n) = health_new" "rk_addr (rt_key (named_route n)) = V4 (ipv4_new 1 1 1 1)"
  "rt_weight (named_route n) = us_weight sample_udp" "rt_egress (named_route n) = Direct"
  "rt_stream_companion (named_route n) = False"
  "rk_role (rt_key (named_route n)) = us_role sample_udp" "rk_transport (rt_key (named_route n)) = Udp"
  "rk_authority (rt_key (named_route n)) = to_ascii_lowercase (trim_end_matches CHR ''.'' n)"
  by (simp_all add: named_route_def make_route_def authority_of_def)

lemma health_new_idle: "rh_circuit health_new = Closed" "rh_half_open_inflight health_new = 0"
  by (simp_all add: health_new_def)

lemma tick_named: "tick_route now cfg seed inc i (named_route n) = named_route n"
proof -
  have "named_route n\<lparr>rt_health := health_new\<rparr> = named_route n" by (simp add: named_route_def make_route_def)
  then show ?thesis
    by (simp add: tick_route_def with_health_def named_route_fields considered_def health_tick_def health_new_idle)
qed

lemma rank_two: "rank start_env example_cfg seed two_routes = ([0, 1], two_routes)"
  by (simp add: rank_def rank_inner_def tick_routes_def two_routes_def tick_named candidates_def candidate_of_def
      considered_def named_route_fields reprice_def is_measured_def health_new_def offered_def bucket_entries_def Let_def
      start_env_def snapshot_unknown_def is_usable_def explore_rate_def example_cfg_def proxy_penalty_def)

lemma two_routes_independent:
  "independent_of ''a'' (two_routes ! 1)" "\<not> independent_of ''a'' (two_routes ! 0)"
  "rk_authority (rt_key (two_routes ! 0)) = ''a''"
  by (simp_all add: independent_of_def two_routes_def named_route_fields sample_registry_defs
      to_ascii_lowercase_def trim_end_matches_def to_ascii_lower_char_def Let_def)

lemma example_answers: "question_matches example_query example_reply" 
  by (simp add: question_matches_def example_reply_def example_query_def eq_ignore_ascii_case_def)

lemma exchange_named:
  "fst (exchange list_proto example_query example_env i (named_route n)) =
     \<lparr>ar_route = i, ar_outcome = Some AoSuccess, ar_latency = Some 5, ar_message = Some example_reply, ar_detail = DtNone\<rparr>"
proof -
  have "fst (route_send (Inr 0) (WireAnswer example_reply 5) r) = Inr (example_reply, 5)" for r
    by (simp add: route_send_def route_connection_def)
  moreover have "validate_response P (outgoing_message P r example_query) example_reply c k = Inr ()" for P r c k
    using example_answers
    by (simp add: validate_response_def question_matches_outgoing) (simp add: example_reply_def example_query_def)
  ultimately show ?thesis by (simp add: exchange_def example_env_def split_def Let_def)
qed

lemma start_now: "se_now start_env = 0" by (simp add: start_env_def)

lemma example_attempt:
  assumes "rs ! i = named_route n"
  shows "fst (attempt list_proto example_query (plain_plan example_cfg 10 policy) example_env i rs) =
      \<lparr>ar_route = i, ar_outcome = Some AoSuccess, ar_latency = Some 5, ar_message = Some example_reply, ar_detail = DtNone\<rparr>"
    "j \<noteq> i \<Longrightarrow> snd (attempt list_proto example_query (plain_plan example_cfg 10 policy) example_env i rs) ! j = rs ! j"
proof -
  have "attempt_admitted (plain_plan example_cfg 10 policy) example_env = Some 0"
    by (simp add: attempt_admitted_def plain_plan_def example_env_def remaining_def example_cfg_def
      scheduler_config_default_def from_millis_def)
  note e = attempt_eq(2) [OF this]
  show "fst (attempt list_proto example_query (plain_plan example_cfg 10 policy) example_env i rs) =
      \<lparr>ar_route = i, ar_outcome = Some AoSuccess, ar_latency = Some 5, ar_message = Some example_reply, ar_detail = DtNone\<rparr>"
    by (simp add: e assms exchange_named)
  show "j \<noteq> i \<Longrightarrow> snd (attempt list_proto example_query (plain_plan example_cfg 10 policy) example_env i rs) ! j = rs ! j"
    by (simp add: e)
qed

lemma two_routes_named: "\<exists>n. two_routes ! 0 = named_route n" "\<exists>n. two_routes ! 1 = named_route n"
  by (auto simp: two_routes_def)

lemma example_single:
  assumes "rs ! i = named_route n"
  shows "\<exists>a. fst (single_attempt list_proto example_query example_cfg 10 example_env 5 i rs) = Some a"
    "j \<noteq> i \<Longrightarrow> snd (single_attempt list_proto example_query example_cfg 10 example_env 5 i rs) ! j = rs ! j"
  using example_attempt [OF assms, where policy = PpShed]
  by (simp_all add: single_attempt_def split_def Let_def answer_of_def record_result_def)

lemma example_corroborated:
  "\<exists>a. fst (corroborate list_proto start_env example_cfg example_query 10 7 ''a'' (\<lambda>_. example_env) (\<lambda>_. 5) two_routes) = Some a"
proof -
  have "\<exists>a. fst (single_attempt list_proto example_query example_cfg 10 example_env 5 1 two_routes) = Some a"
    using two_routes_named(2) example_single(1) by blast
  then show ?thesis
    using two_routes_independent by (simp add: corroborate_def rank_two start_now)
qed

theorem corroborate_independent_witness:
  "\<exists>a. fst (corroborate list_proto start_env example_cfg example_query 10 7 ''a'' (\<lambda>_. example_env) (\<lambda>_. 5) two_routes) = Some a \<and>
     rk_authority (ua_route a) \<noteq> ''a''"
  using example_corroborated corroborate_independent by blast

lemma example_pair:
  "\<exists>a b. fst (resolve_pair list_proto start_env example_cfg example_query 10 7 (\<lambda>_. example_env) (\<lambda>_. 5) two_routes) = Some (a, b)"
proof -
  define f where "f = single_attempt list_proto example_query example_cfg 10 example_env 5"
  have a: "\<exists>a. fst (f 0 two_routes) = Some a"
    unfolding f_def using two_routes_named(1) example_single(1) by blast
  have o: "snd (f 0 two_routes) ! 1 = two_routes ! 1"
    unfolding f_def using two_routes_named(1) example_single(2) by (metis zero_neq_one)
  have b: "\<exists>b. fst (f 1 (snd (f 0 two_routes))) = Some b"
    using two_routes_named(2) example_single(1) [of "snd (f 0 two_routes)"] o by (auto simp: f_def)
  have p: "pair_routes two_routes [0, Suc 0] = Some (0, Suc 0)"
    using two_routes_independent by (simp add: pair_routes_def)
  show ?thesis
    using a b [unfolded One_nat_def] by (auto simp: resolve_pair_def rank_two p split_def Let_def start_now f_def)
qed

theorem resolve_pair_independent_witness:
  "\<exists>a b. fst (resolve_pair list_proto start_env example_cfg example_query 10 7 (\<lambda>_. example_env) (\<lambda>_. 5) two_routes) = Some (a, b) \<and>
     rk_authority (ua_route a) \<noteq> rk_authority (ua_route b)"
  using example_pair resolve_pair_independent by blast


definition example_group :: upstream_group where
  "example_group = \<lparr>gr_name = ''default'', gr_routes = two_routes, gr_scheduler = example_cfg\<rparr>"

definition example_wakes :: "(wake \<times> instant) list" where
  "example_wakes = (WakeFinished 0 example_env, 5) # replicate 3 (WakeNone, 6)"

definition example_call :: resolve_call where
  "example_call = resolve_call_of start_env 4 example_cfg example_query 10 [0, 1]"

definition example_state :: sched_state where
  "example_state = \<lparr>ss_routes = two_routes, ss_budget = record_query hedge_budget_default\<rparr>"

definition example_retry :: retry_env where
  "example_retry = \<lparr>re_env = start_env, re_nows = (\<lambda>_. 0), re_envs = (\<lambda>_. example_env), re_finished = (\<lambda>_. 5)\<rparr>"

lemma example_start: "rs_pending (resolve_start example_call 10 example_state) = [queued_attempt example_call PpQueue 0]"
  by (simp add: resolve_start_def hedge_index_def example_call_def resolve_call_of_def example_cfg_def Let_def)

lemma example_queued:
  "pa_route (queued_attempt example_call PpQueue 0) = 0"
  "pa_plan (queued_attempt example_call PpQueue 0) = plain_plan example_cfg 10 PpQueue"
  "rc_message example_call = example_query"
  by (simp_all add: queued_attempt_def example_call_def resolve_call_of_def start_now)

lemma example_step:
  "\<exists>a s. resolve_step render list_proto example_call 0 (WakeFinished 0 example_env) 5 example_state
     (resolve_start example_call 10 example_state) = (StepAnswer a, s)"
proof -
  obtain n where n: "two_routes ! 0 = named_route n" using two_routes_named(1) by blast
  have r: "ss_routes example_state = two_routes" "rc_deadline example_call = 10"
    by (simp_all add: example_state_def example_call_def resolve_call_of_def start_now)
  have t: "\<not> md_truncation (m_meta example_reply)" by (simp add: example_reply_def example_query_def)
  show ?thesis
    using t by (simp add: resolve_step_def remaining_def r example_start run_pending_eq example_queued example_attempt(1) [OF n]
      on_result_def answer_of_def Let_def)
qed

lemma example_wakes_ok:
  "resolve_wakes_ok render list_proto start_env 4 example_group example_query hedge_budget_default 10 7 example_wakes"
proof -
  obtain a s where "resolve_step render list_proto example_call 0 (WakeFinished 0 example_env) 5 example_state
     (resolve_start example_call 10 example_state) = (StepAnswer a, s)" using example_step by blast
  moreover have "wake_ok (resolve_start example_call 10 example_state) (WakeFinished 0 example_env)"
    by (simp add: wake_ok_def example_start)
  ultimately show ?thesis
    by (simp add: resolve_wakes_ok_def example_group_def rank_two example_wakes_def start_now
      flip: example_call_def example_state_def One_nat_def)
qed

theorem scheduler_resolve_returns_witness:
  "\<exists>r s. scheduler_resolve (\<lambda>_. []) list_proto start_env 4 example_group example_query hedge_budget_default 10 7
     example_wakes example_retry = Some (r, s)"
  by (rule scheduler_resolve_returns [OF example_wakes_ok]) (simp add: example_group_def two_routes_def example_wakes_def)

lemma example_resolved:
  "\<exists>a s. scheduler_resolve (\<lambda>_. []) list_proto start_env 4 example_group example_query hedge_budget_default 10 7
     example_wakes example_retry = Some (Inr a, s)"
proof -
  obtain a s where "resolve_step (\<lambda>_. []) list_proto example_call 0 (WakeFinished 0 example_env) 5 example_state
     (resolve_start example_call 10 example_state) = (StepAnswer a, s)" using example_step by blast
  then show ?thesis
    by (simp add: scheduler_resolve_def example_group_def rank_two example_wakes_def start_now finish_resolution_def
      flip: example_call_def example_state_def One_nat_def)
qed

theorem scheduler_resolve_sound_witness:
  "\<exists>a s. scheduler_resolve (\<lambda>_. []) list_proto start_env 4 example_group example_query hedge_budget_default 10 7
     example_wakes example_retry = Some (Inr a, s) \<and> answers example_query (ua_message a)"
  using example_resolved scheduler_resolve_sound [OF _ example_wakes_ok] by blast

theorem resolution_attempts_bounded_witness:
  "distinct (map pa_route (rs_pending (resolve_start example_call 10 example_state)))"
proof -
  have r: "rc_ranked example_call = [0, 1]" by (simp add: example_call_def resolve_call_of_def)
  show ?thesis
    using resolution_attempts_bounded [of example_call "\<lambda>_. []" list_proto 0 example_state 10, OF _ _ rtranclp.rtrancl_refl]
    by (simp add: r)
qed

text \<open>
  The first route of a pair may be a local forwarder: only the role of the second is examined. A
  forwarder ranked first is paired with a public resolver although it may forward to that resolver.
\<close>

lemma pair_first_may_forward:
  assumes "rk_role (rt_key (routes ! i)) = RoleLocalForwarder"
    and "independent_of (rk_authority (rt_key (routes ! i))) (routes ! j)"
  shows "pair_routes routes [i, j] = Some (i, j)"
  using assms by (simp add: pair_routes_def independent_of_def)

text \<open>Re-pricing an unmeasured route drops its proxy penalty as soon as one route is measured.\<close>

lemma reprice_drops_penalty:
  assumes "ca_measured c" "\<not> ca_measured d"
  shows "ca_score (reprice [c, d] ! 1) = ca_score c + weight_bias (ca_weight d)"
  using assms by (simp add: reprice_def Let_def)

end
