(* ===== verification/Datasets.thy ===== *)
theory Datasets
  imports Egress Cache "HOL-Library.List_Lexorder" "HOL-Library.Char_ord" "HOL-Library.Product_Lexorder"
begin

text \<open>
  Static local data (\<^verbatim>\<open>datasets/mod.rs\<close>, \<^verbatim>\<open>datasets/hosts.rs\<close>, \<^verbatim>\<open>datasets/zones.rs\<close>): the hosts table
  and its file format, the internal zones, the routing rules by suffix and the domain categories.

  A \<^verbatim>\<open>HashMap\<close> is an association list with distinct keys. A file is what reading it gives, an argument
  of \<open>datasets_build\<close>; so is whether an MMDB database opens. Domain names and the constructors of MX
  and SRV data are hickory's, the argument \<open>L :: zone_lib\<close>. \<^verbatim>\<open>std::hash\<close> is the argument \<open>hash\<close> of the
  digests. Texts of errors leave out what the standard library renders.
\<close>

section \<open>Configuration\<close>

record host_entry =
  he_name :: string
  he_addresses :: "ipaddr list"

record local_record =
  lr_name :: string
  lr_rtype :: string
  lr_value :: string
  lr_ttl :: "u32 option"

definition local_record_default :: local_record where
  "local_record_default = \<lparr>lr_name = ''@'', lr_rtype = ''A'', lr_value = [], lr_ttl = None\<rparr>"

record local_zone =
  lz_name :: string
  lz_records :: "local_record list"
  lz_authoritative :: bool

definition local_zone_default :: local_zone where
  "local_zone_default = \<lparr>lz_name = [], lz_records = [], lz_authoritative = True\<rparr>"

record suffix_rule =
  sr_suffix :: string
  sr_group :: string

record local_config =
  lc_hosts :: "host_entry list"
  lc_zones :: "local_zone list"
  lc_suffix_rules :: "suffix_rule list"
  lc_local_ttl :: u32

definition local_config_default :: local_config where
  "local_config_default = \<lparr>lc_hosts = [], lc_zones = [], lc_suffix_rules = [], lc_local_ttl = 60\<rparr>"

record datasets_config =
  ds_hosts_files :: "string list"
  ds_domain_category_files :: "string list"
  ds_geoip_mmdb :: "string option"
  ds_asn_mmdb :: "string option"
  ds_reload_interval :: duration
  ds_max_file_bytes :: u64
  ds_max_records :: nat

definition datasets_config_default :: datasets_config where
  "datasets_config_default =
     \<lparr>ds_hosts_files = [], ds_domain_category_files = [], ds_geoip_mmdb = None, ds_asn_mmdb = None,
      ds_reload_interval = from_secs 3600, ds_max_file_bytes = 64 * 1024 * 1024,
      ds_max_records = 2000000\<rparr>"

section \<open>Text\<close>

text \<open>
  \<^verbatim>\<open>str::lines\<close>: the pieces between line feeds, without the carriage return before one and without
  an empty last piece.
\<close>

definition strip_cr :: "string \<Rightarrow> string" where
  "strip_cr s = (if ends_with s [CHR 0x0D] then butlast s else s)"

definition str_lines :: "string \<Rightarrow> string list" where
  "str_lines s =
     (let ps = split_on CHR 0x0A s
      in map strip_cr (butlast ps) @ (if last ps = [] then [] else [last ps]))"

text \<open>\<^verbatim>\<open>split_once\<close> with a predicate on characters.\<close>

definition split_once :: "(char \<Rightarrow> bool) \<Rightarrow> string \<Rightarrow> (string \<times> string) option" where
  "split_once p s =
     (case dropWhile (\<lambda>c. \<not> p c) s of
        [] \<Rightarrow> None
      | _ # rest \<Rightarrow> Some (takeWhile (\<lambda>c. \<not> p c) s, rest))"

definition before_hash :: "string \<Rightarrow> string" where
  "before_hash line =
     (case split_once (\<lambda>c. c = CHR ''#'') line of Some (before, _) \<Rightarrow> before | None \<Rightarrow> line)"

definition to_ascii_uppercase :: "string \<Rightarrow> string" where
  "to_ascii_uppercase s =
     map (\<lambda>c. let n = of_char c :: nat in if 97 \<le> n \<and> n \<le> 122 then char_of (n - 32) else c) s"

section \<open>Hosts\<close>

type_synonym hosts_table = "(string \<times> ipaddr list) list"

record load_stats =
  ls_added :: nat
  ls_dropped :: nat

fun entry_or_default :: "'k \<Rightarrow> ('v \<Rightarrow> 'v) \<Rightarrow> 'v \<Rightarrow> ('k \<times> 'v) list \<Rightarrow> ('k \<times> 'v) list" where
  "entry_or_default k f d [] = [(k, f d)]"
| "entry_or_default k f d ((k', v) # rest) =
     (if k' = k then (k', f v) # rest else (k', v) # entry_or_default k f d rest)"

definition push_new :: "ipaddr list \<Rightarrow> ipaddr list \<Rightarrow> ipaddr list" where
  "push_new addresses entry = fold (\<lambda>a e. if a \<in> set e then e else e @ [a]) addresses entry"

definition hosts_insert :: "string \<Rightarrow> ipaddr list \<Rightarrow> hosts_table \<Rightarrow> hosts_table" where
  "hosts_insert name addresses t = entry_or_default (normalize_name name) (push_new addresses) [] t"

definition hosts_get :: "hosts_table \<Rightarrow> string \<Rightarrow> ipaddr list option" where
  "hosts_get t name = map_of t (normalize_name name)"

fun is_ipv4 :: "ipaddr \<Rightarrow> bool" where
  "is_ipv4 (V4 _) = True"
| "is_ipv4 (V6 _) = False"

definition hosts_get_family :: "hosts_table \<Rightarrow> string \<Rightarrow> bool \<Rightarrow> ipaddr list" where
  "hosts_get_family t name ipv4 =
     (case hosts_get t name of Some addrs \<Rightarrow> filter (\<lambda>a. is_ipv4 a = ipv4) addrs | None \<Rightarrow> [])"

text \<open>The names of one line: the flag tells whether any was added.\<close>

fun load_names ::
  "ipaddr \<Rightarrow> nat \<Rightarrow> string list \<Rightarrow> hosts_table \<times> load_stats \<times> bool \<Rightarrow> hosts_table \<times> load_stats \<times> bool" where
  "load_names addr max_records [] acc = acc"
| "load_names addr max_records (name # parts) (t, st, any) =
     (if max_records \<le> length t then (t, st\<lparr>ls_dropped := ls_dropped st + 1\<rparr>, any)
      else if 253 < length name
      then load_names addr max_records parts (t, st\<lparr>ls_dropped := ls_dropped st + 1\<rparr>, any)
      else load_names addr max_records parts
             (hosts_insert name [addr] t, st\<lparr>ls_added := ls_added st + 1\<rparr>, True))"

definition load_line :: "nat \<Rightarrow> string \<Rightarrow> hosts_table \<times> load_stats \<Rightarrow> hosts_table \<times> load_stats" where
  "load_line max_records raw = (\<lambda>(t, st).
     (let line = str_trim (before_hash raw) in
      if line = [] then (t, st)
      else case words_from [] line of
             [] \<Rightarrow> (t, st)
           | addr_text # parts \<Rightarrow>
               (case ip_parse addr_text of
                  None \<Rightarrow> (t, st\<lparr>ls_dropped := ls_dropped st + 1\<rparr>)
                | Some addr \<Rightarrow>
                    (let (t1, st1, any) = load_names addr max_records parts (t, st, False)
                     in (t1, if any then st1 else st1\<lparr>ls_dropped := ls_dropped st1 + 1\<rparr>)))))"

definition load_hosts_format :: "string \<Rightarrow> nat \<Rightarrow> hosts_table \<Rightarrow> hosts_table \<times> load_stats" where
  "load_hosts_format doc max_records t =
     fold (load_line max_records) (str_lines doc) (t, \<lparr>ls_added = 0, ls_dropped = 0\<rparr>)"

section \<open>Zones\<close>

record zone_lib =
  zl_name :: "string \<Rightarrow> string option"
  zl_ns :: "string \<Rightarrow> rdata"
  zl_ptr :: "string \<Rightarrow> rdata"
  zl_txt :: "string \<Rightarrow> rdata"
  zl_mx :: "u16 \<Rightarrow> string \<Rightarrow> rdata"
  zl_srv :: "u16 \<Rightarrow> u16 \<Rightarrow> u16 \<Rightarrow> string \<Rightarrow> rdata"

datatype zone_answer = ZaRecords "rr list" | ZaNoData | ZaNxDomain | ZaNotInZone

record zone =
  zo_apex :: string
  zo_authoritative :: bool
  zo_records :: "(string \<times> rr list) list"

type_synonym local_zone_set = "zone list"

datatype zone_error =
    ZoneNameEmpty | InvalidOwner string | InvalidIpv4 string | InvalidIpv6 string | InvalidName string
  | MxShape string | MxPreference string | SrvShape string | SrvPriority | SrvWeight | SrvPort
  | UnsupportedType string

definition parse_name :: "zone_lib \<Rightarrow> string \<Rightarrow> zone_error + string" where
  "parse_name L value =
     (case zl_name L (if ends_with value ''.'' then value else value @ ''.'') of
        Some n \<Rightarrow> Inr n | None \<Rightarrow> Inl (InvalidName value))"

definition map_sum_right :: "('a \<Rightarrow> 'b) \<Rightarrow> 'e + 'a \<Rightarrow> 'e + 'b" where
  "map_sum_right f x = (case x of Inl e \<Rightarrow> Inl e | Inr a \<Rightarrow> Inr (f a))"

definition mx_rdata :: "zone_lib \<Rightarrow> string \<Rightarrow> zone_error + rdata" where
  "mx_rdata L value =
     (case split_once ascii_space value of
        None \<Rightarrow> Inl (MxShape value)
      | Some (pref, host) \<Rightarrow>
          (case parse_u16 (str_trim pref) of
             None \<Rightarrow> Inl (MxPreference pref)
           | Some p \<Rightarrow> map_sum_right (zl_mx L p) (parse_name L (str_trim host))))"

definition srv_rdata :: "zone_lib \<Rightarrow> string \<Rightarrow> zone_error + rdata" where
  "srv_rdata L value =
     (case words_from [] value of
        [a, b, c, d] \<Rightarrow>
          (case parse_u16 a of
             None \<Rightarrow> Inl SrvPriority
           | Some priority \<Rightarrow>
               (case parse_u16 b of
                  None \<Rightarrow> Inl SrvWeight
                | Some weight \<Rightarrow>
                    (case parse_u16 c of
                       None \<Rightarrow> Inl SrvPort
                     | Some port \<Rightarrow> map_sum_right (zl_srv L priority weight port) (parse_name L d))))
      | _ \<Rightarrow> Inl (SrvShape value))"

definition build_record ::
  "proto_lib \<Rightarrow> zone_lib \<Rightarrow> string \<Rightarrow> u32 \<Rightarrow> string \<Rightarrow> string \<Rightarrow> zone_error + rr" where
  "build_record P L name ttl rtype raw =
     (let value = str_trim raw;
          rt = to_ascii_uppercase rtype;
          data =
            (if rt = ''A'' then
               (case ipv4_parse value of Some a \<Rightarrow> Inr (RdA a) | None \<Rightarrow> Inl (InvalidIpv4 value))
             else if rt = ''AAAA'' then
               (case ipv6_parse value of Some a \<Rightarrow> Inr (RdAAAA a) | None \<Rightarrow> Inl (InvalidIpv6 value))
             else if rt = ''CNAME'' then map_sum_right RdCNAME (parse_name L value)
             else if rt = ''NS'' then map_sum_right (zl_ns L) (parse_name L value)
             else if rt = ''PTR'' then map_sum_right (zl_ptr L) (parse_name L value)
             else if rt = ''TXT'' then Inr (zl_txt L value)
             else if rt = ''MX'' then mx_rdata L value
             else if rt = ''SRV'' then srv_rdata L value
             else Inl (UnsupportedType rt))
      in map_sum_right (\<lambda>d. from_rdata P name ttl d) data)"

definition record_owner :: "string \<Rightarrow> string \<Rightarrow> string" where
  "record_owner apex name =
     (if name = ''@'' \<or> name = [] then apex @ ''.''
      else if ends_with name ''.'' then to_ascii_lowercase name
      else to_ascii_lowercase name @ ''.'' @ apex @ ''.'')"

fun zone_records ::
  "proto_lib \<Rightarrow> zone_lib \<Rightarrow> u32 \<Rightarrow> string \<Rightarrow> local_record list \<Rightarrow> (string \<times> rr list) list \<Rightarrow>
     zone_error + (string \<times> rr list) list" where
  "zone_records P L default_ttl apex [] m = Inr m"
| "zone_records P L default_ttl apex (r # rs) m =
     (let owner = record_owner apex (lr_name r) in
      case zl_name L owner of
        None \<Rightarrow> Inl (InvalidOwner owner)
      | Some name \<Rightarrow>
          (case build_record P L name (case lr_ttl r of Some t \<Rightarrow> t | None \<Rightarrow> default_ttl) (lr_rtype r) (lr_value r) of
             Inl e \<Rightarrow> Inl e
           | Inr record \<Rightarrow>
               zone_records P L default_ttl apex rs
                 (entry_or_default (normalize_name owner) (\<lambda>v. v @ [record]) [] m)))"

fun zones_from :: "proto_lib \<Rightarrow> zone_lib \<Rightarrow> u32 \<Rightarrow> local_zone list \<Rightarrow> zone_error + zone list" where
  "zones_from P L default_ttl [] = Inr []"
| "zones_from P L default_ttl (z # zs) =
     (let apex = to_ascii_lowercase (trim_end_matches CHR ''.'' (lz_name z)) in
      if apex = [] then Inl ZoneNameEmpty
      else case zone_records P L default_ttl apex (lz_records z) [] of
             Inl e \<Rightarrow> Inl e
           | Inr records \<Rightarrow>
               map_sum_right
                 (\<lambda>out. \<lparr>zo_apex = apex, zo_authoritative = lz_authoritative z, zo_records = records\<rparr> # out)
                 (zones_from P L default_ttl zs))"

definition zones_build ::
  "proto_lib \<Rightarrow> zone_lib \<Rightarrow> local_zone list \<Rightarrow> u32 \<Rightarrow> zone_error + local_zone_set" where
  "zones_build P L zones default_ttl =
     map_sum_right (sort_key (\<lambda>z. - int (length (zo_apex z)))) (zones_from P L default_ttl zones)"

definition zones_record_count :: "local_zone_set \<Rightarrow> nat" where
  "zones_record_count zs = sum_list (map (\<lambda>z. sum_list (map (length \<circ> snd) (zo_records z))) zs)"

definition under_suffix :: "string \<Rightarrow> string \<Rightarrow> bool" where
  "under_suffix n sfx \<longleftrightarrow> n = sfx \<or> ends_with n (''.'' @ sfx)"

definition bare_name :: "string \<Rightarrow> string" where
  "bare_name name = to_ascii_lowercase (trim_end_matches CHR ''.'' name)"

definition zone_answer_in :: "zone \<Rightarrow> string \<Rightarrow> rtype \<Rightarrow> zone_answer" where
  "zone_answer_in z n qtype =
     (case map_of (zo_records z) (normalize_name n) of
        Some records \<Rightarrow>
          (let matching = filter (\<lambda>r. record_type r = qtype \<or> record_type r = RT_CNAME) records
           in if matching = [] then ZaNoData else ZaRecords matching)
      | None \<Rightarrow> if zo_authoritative z then ZaNxDomain else ZaNotInZone)"

fun zones_lookup_bare :: "local_zone_set \<Rightarrow> string \<Rightarrow> rtype \<Rightarrow> zone_answer" where
  "zones_lookup_bare [] n qtype = ZaNotInZone"
| "zones_lookup_bare (z # zs) n qtype =
     (if \<not> under_suffix n (zo_apex z) then zones_lookup_bare zs n qtype else zone_answer_in z n qtype)"

definition zones_lookup :: "local_zone_set \<Rightarrow> string \<Rightarrow> rtype \<Rightarrow> zone_answer" where
  "zones_lookup zs name qtype = zones_lookup_bare zs (bare_name name) qtype"

section \<open>Snapshots\<close>

record dataset_stats =
  dst_host_entries :: nat
  dst_zone_records :: nat
  dst_suffix_rules :: nat
  dst_category_entries :: nat
  dst_skipped_files :: nat
  dst_dropped_records :: nat
  dst_loaded_unix :: u64

definition dataset_stats_default :: dataset_stats where
  "dataset_stats_default =
     \<lparr>dst_host_entries = 0, dst_zone_records = 0, dst_suffix_rules = 0, dst_category_entries = 0,
      dst_skipped_files = 0, dst_dropped_records = 0, dst_loaded_unix = 0\<rparr>"

record dataset_snapshot =
  dn_hosts :: hosts_table
  dn_zones :: local_zone_set
  dn_suffix_rules :: "(string \<times> string) list"
  dn_categories :: "(string \<times> string list) list"
  dn_geoip :: bool
  dn_asn :: bool
  dn_stats :: dataset_stats

definition dataset_empty :: dataset_snapshot where
  "dataset_empty =
     \<lparr>dn_hosts = [], dn_zones = [], dn_suffix_rules = [], dn_categories = [], dn_geoip = False,
      dn_asn = False, dn_stats = dataset_stats_default\<rparr>"

definition group_for :: "dataset_snapshot \<Rightarrow> string \<Rightarrow> string option" where
  "group_for d name =
     map_option snd (List.find (\<lambda>(sfx, grp). under_suffix (bare_name name) sfx) (dn_suffix_rules d))"

definition categories_of :: "dataset_snapshot \<Rightarrow> string \<Rightarrow> string list" where
  "categories_of d name =
     sort (map fst (filter (\<lambda>(c, ds). list_ex (under_suffix (bare_name name)) ds) (dn_categories d)))"

text \<open>What the digest hashes, in the order of the hashing calls.\<close>

record content_fields =
  cf_hosts :: "(string \<times> ipaddr list) list"
  cf_zones :: "(string \<times> bool \<times> (string \<times> rr list) list) list"
  cf_suffix_rules :: "(string \<times> string) list"
  cf_categories :: "(string \<times> nat) list"
  cf_geoip :: bool
  cf_asn :: bool
  cf_counts :: "nat \<times> nat \<times> nat"

definition content_fields_of :: "dataset_snapshot \<Rightarrow> content_fields" where
  "content_fields_of d =
     \<lparr>cf_hosts = sort_key fst (dn_hosts d),
      cf_zones = map (\<lambda>z. (zo_apex z, zo_authoritative z, sort_key fst (zo_records z))) (dn_zones d),
      cf_suffix_rules = dn_suffix_rules d,
      cf_categories = sort_key fst (map (\<lambda>(k, v). (k, length v)) (dn_categories d)),
      cf_geoip = dn_geoip d, cf_asn = dn_asn d,
      cf_counts = (dst_host_entries (dn_stats d), dst_zone_records (dn_stats d),
                   dst_category_entries (dn_stats d))\<rparr>"

definition content_digest :: "(content_fields \<Rightarrow> u64) \<Rightarrow> dataset_snapshot \<Rightarrow> u64" where
  "content_digest hash d = hash (content_fields_of d)"

definition publish_if_changed ::
  "(content_fields \<Rightarrow> u64) \<Rightarrow> dataset_snapshot \<Rightarrow> dataset_snapshot \<Rightarrow> bool \<times> dataset_snapshot" where
  "publish_if_changed hash snapshot current =
     (if content_digest hash current = content_digest hash snapshot then (False, current)
      else (True, snapshot))"

text \<open>Reading a file: its size and its text, or an error.\<close>

type_synonym file_reader = "string \<Rightarrow> string + u64 \<times> (string + string)"

definition read_bounded :: "file_reader \<Rightarrow> string \<Rightarrow> u64 \<Rightarrow> string option" where
  "read_bounded fs path max_bytes =
     (case fs path of
        Inl _ \<Rightarrow> None
      | Inr (bytes, content) \<Rightarrow>
          if max_bytes < bytes then None else (case content of Inl _ \<Rightarrow> None | Inr doc \<Rightarrow> Some doc))"

definition skip_file :: "dataset_stats \<Rightarrow> dataset_stats" where
  "skip_file st = st\<lparr>dst_skipped_files := dst_skipped_files st + 1\<rparr>"

definition load_hosts_file ::
  "file_reader \<Rightarrow> datasets_config \<Rightarrow> string \<Rightarrow> hosts_table \<times> dataset_stats \<Rightarrow> hosts_table \<times> dataset_stats" where
  "load_hosts_file fs cfg path = (\<lambda>(t, st).
     (case read_bounded fs path (ds_max_file_bytes cfg) of
        None \<Rightarrow> (t, skip_file st)
      | Some doc \<Rightarrow>
          (let (t1, added) = load_hosts_format doc (ds_max_records cfg) t
           in (t1, st\<lparr>dst_dropped_records := dst_dropped_records st + ls_dropped added\<rparr>))))"

definition suffix_rules_of :: "suffix_rule list \<Rightarrow> (string \<times> string) list" where
  "suffix_rules_of rules =
     sort_key (\<lambda>r. (- int (length (fst r)), fst r))
       (map (\<lambda>r. (to_ascii_lowercase (trim_start_matches CHR ''.'' (trim_end_matches CHR ''.'' (sr_suffix r))),
                  sr_group r)) rules)"

text \<open>One line of a category file; the state is the table, the entries so far and the dropped.\<close>

definition category_line ::
  "nat \<Rightarrow> string \<Rightarrow> (string \<times> string list) list \<times> nat \<times> nat \<Rightarrow> (string \<times> string list) list \<times> nat \<times> nat" where
  "category_line max_records raw = (\<lambda>(m, n, dropped).
     (if max_records \<le> n then (m, n, dropped + 1)
      else
        (let line = str_trim raw in
         if line = [] \<or> starts_with line ''#'' then (m, n, dropped)
         else case split_once (\<lambda>c. c = CHR '':'') line of
                None \<Rightarrow> (m, n, dropped)
              | Some (c, d) \<Rightarrow>
                  (let category = to_ascii_lowercase (str_trim c);
                       domain = to_ascii_lowercase (trim_end_matches CHR ''.'' (str_trim d))
                   in if category = [] \<or> domain = [] \<or> 253 < length domain then (m, n, dropped)
                      else (entry_or_default category (\<lambda>v. v @ [domain]) [] m, n + 1, dropped)))))"

definition load_category_file ::
  "file_reader \<Rightarrow> datasets_config \<Rightarrow> string \<Rightarrow>
     ((string \<times> string list) list \<times> nat \<times> nat) \<times> dataset_stats \<Rightarrow>
     ((string \<times> string list) list \<times> nat \<times> nat) \<times> dataset_stats" where
  "load_category_file fs cfg path = (\<lambda>(acc, st).
     (case read_bounded fs path (ds_max_file_bytes cfg) of
        None \<Rightarrow> (acc, skip_file st)
      | Some doc \<Rightarrow> (fold (category_line (ds_max_records cfg)) (str_lines doc) acc, st)))"

definition open_mmdb :: "(string \<Rightarrow> bool) \<Rightarrow> string option \<Rightarrow> dataset_stats \<Rightarrow> bool \<times> dataset_stats" where
  "open_mmdb opens path st =
     (case path of
        None \<Rightarrow> (False, st)
      | Some p \<Rightarrow> if opens p then (True, st) else (False, skip_file st))"

definition datasets_build ::
  "proto_lib \<Rightarrow> zone_lib \<Rightarrow> file_reader \<Rightarrow> (string \<Rightarrow> bool) \<Rightarrow> datasets_config \<Rightarrow> local_config \<Rightarrow> u64 \<Rightarrow>
     zone_error + dataset_snapshot" where
  "datasets_build P L fs opens cfg local now_unix =
     (let hosts0 = fold (\<lambda>e. hosts_insert (he_name e) (he_addresses e)) (lc_hosts local) [];
          (hosts, st1) = fold (load_hosts_file fs cfg) (ds_hosts_files cfg)
            (hosts0, dataset_stats_default\<lparr>dst_loaded_unix := now_unix\<rparr>)
      in map_sum_right
           (\<lambda>zones.
              (let rules = suffix_rules_of (lc_suffix_rules local);
                   ((categories, entries, dropped), st2) =
                     fold (load_category_file fs cfg) (ds_domain_category_files cfg)
                       (([], 0, 0), st1\<lparr>dst_host_entries := length hosts,
                          dst_zone_records := zones_record_count zones, dst_suffix_rules := length rules\<rparr>);
                   st3 = st2\<lparr>dst_category_entries := entries,
                     dst_dropped_records := dst_dropped_records st2 + dropped\<rparr>;
                   (geoip, st4) = open_mmdb opens (ds_geoip_mmdb cfg) st3;
                   (asn, st5) = open_mmdb opens (ds_asn_mmdb cfg) st4
               in \<lparr>dn_hosts = hosts, dn_zones = zones, dn_suffix_rules = rules, dn_categories = categories,
                   dn_geoip = geoip, dn_asn = asn, dn_stats = st5\<rparr>))
           (zones_build P L (lc_zones local) (lc_local_ttl local)))"

section \<open>Hosts: what is found\<close>

lemma map_of_entry_or_default [simp]:
  "map_of (entry_or_default k f d m) k' =
     (if k' = k then Some (f (case map_of m k of Some v \<Rightarrow> v | None \<Rightarrow> d)) else map_of m k')"
  by (induction k f d m rule: entry_or_default.induct) (auto split: option.splits)

lemma keys_entry_or_default: "set (map fst (entry_or_default k f d m)) = insert k (set (map fst m))"
  by (induction k f d m rule: entry_or_default.induct) auto

lemma distinct_entry_or_default:
  "distinct (map fst m) \<Longrightarrow> distinct (map fst (entry_or_default k f d m))"
proof (induction k f d m rule: entry_or_default.induct)
  case (2 k f d k' v rest)
  then show ?case using keys_entry_or_default [of k f d rest] by auto
qed simp

lemma length_entry_or_default:
  "length (entry_or_default k f d m) \<le> Suc (length m)"
  by (induction k f d m rule: entry_or_default.induct) auto

lemma values_entry_or_default:
  assumes "\<And>v. v \<in> snd ` set m \<Longrightarrow> Q v" "Q d" "\<And>v. Q v \<Longrightarrow> Q (f v)" "v \<in> snd ` set (entry_or_default k f d m)"
  shows "Q v"
  using assms by (induction k f d m rule: entry_or_default.induct) (auto split: if_splits)

lemma push_new_set: "set (push_new addrs e) = set e \<union> set addrs"
  unfolding push_new_def by (induction addrs arbitrary: e) auto

lemma push_new_distinct: "distinct e \<Longrightarrow> distinct (push_new addrs e)"
  unfolding push_new_def by (induction addrs arbitrary: e) auto

text \<open>The invariant of a hosts table: every name and every address of a name occurs once.\<close>

definition hosts_ok :: "hosts_table \<Rightarrow> bool" where
  "hosts_ok t \<longleftrightarrow> distinct (map fst t) \<and> list_all (distinct \<circ> snd) t"

lemma hosts_ok_Nil [simp]: "hosts_ok []"
  by (simp add: hosts_ok_def)

lemma hosts_ok_insert:
  assumes "hosts_ok t" shows "hosts_ok (hosts_insert name addrs t)"
proof -
  have "distinct v" if "v \<in> snd ` set (hosts_insert name addrs t)" for v
    using that unfolding hosts_insert_def
    by (rule values_entry_or_default [of t distinct "[]" "push_new addrs", rotated 3])
      (use assms in \<open>auto simp: hosts_ok_def list_all_iff push_new_distinct\<close>)
  then show ?thesis
    using assms by (auto simp: hosts_ok_def list_all_iff hosts_insert_def distinct_entry_or_default)
qed

lemma load_names_ok:
  assumes "hosts_ok t" "load_names addr n parts (t, st, any) = (t', st', any')"
  shows "hosts_ok t' \<and> length t' \<le> max (length t) n"
  using assms
proof (induction parts arbitrary: t st any)
  case (Cons name parts)
  have l: "length (hosts_insert name [addr] t) \<le> Suc (length t)"
    by (simp add: hosts_insert_def length_entry_or_default)
  consider "n \<le> length t" | "length t < n" "253 < length name" | "length t < n" "length name \<le> 253" by linarith
  then show ?case
  proof cases
    case 1
    then show ?thesis using Cons.prems by auto
  next
    case 2
    then show ?thesis using Cons.IH [OF Cons.prems(1)] Cons.prems(2) by simp
  next
    case 3
    then show ?thesis using Cons.IH [OF hosts_ok_insert [OF Cons.prems(1)]] Cons.prems(2) l by fastforce
  qed
qed simp

lemma load_line_ok:
  assumes "hosts_ok (fst acc)"
  shows "hosts_ok (fst (load_line n raw acc)) \<and> length (fst (load_line n raw acc)) \<le> max (length (fst acc)) n"
proof -
  obtain t st where acc: "acc = (t, st)" by (cases acc)
  have "hosts_ok (fst (load_names addr n parts (t, st, False))) \<and>
      length (fst (load_names addr n parts (t, st, False))) \<le> max (length t) n" for addr parts
    using load_names_ok [of t addr n parts st False] assms
    by (cases "load_names addr n parts (t, st, False)") (simp add: acc)
  then show ?thesis
    using assms by (simp add: acc load_line_def Let_def split_def split: list.splits option.splits)
qed

lemma load_lines_ok:
  assumes "hosts_ok (fst acc)"
  shows "hosts_ok (fst (fold (load_line n) lines acc)) \<and>
    length (fst (fold (load_line n) lines acc)) \<le> max (length (fst acc)) n"
  using assms
proof (induction lines arbitrary: acc)
  case (Cons l ls)
  show ?case using Cons.IH [of "load_line n l acc"] load_line_ok [OF Cons.prems, of n l]
    by (simp del: max.bounded_iff) linarith
qed simp

text \<open>
  Loading a hosts document keeps the table well formed, whatever the document, and never grows it
  beyond the configured number of names; and the table is a map: a name that is inserted is found,
  in any case and with or without its final dot, with its old addresses and the new ones, and no
  other name is affected.
\<close>

theorem hosts_table_sound:
  assumes "hosts_ok t"
  shows "hosts_ok (fst (load_hosts_format doc n t)) \<and> length (fst (load_hosts_format doc n t)) \<le> max (length t) n \<and>
    hosts_get (hosts_insert name addrs t) other =
      (if normalize_name other = normalize_name name
       then Some (push_new addrs (case hosts_get t name of Some v \<Rightarrow> v | None \<Rightarrow> [])) else hosts_get t other) \<and>
    set (push_new addrs e) = set e \<union> set addrs"
  using load_lines_ok [of "(t, \<lparr>ls_added = 0, ls_dropped = 0\<rparr>)" n "str_lines doc"] assms
  by (auto simp: load_hosts_format_def hosts_get_def hosts_insert_def push_new_set)

theorem hosts_table_sound_witness:
  "hosts_get (hosts_insert ''Nas.Lan.'' [V4 (ipv4_new 10 0 0 2)] []) ''nas.lan'' = Some [V4 (ipv4_new 10 0 0 2)]"
proof -
  have "normalize_name ''nas.lan'' = normalize_name ''Nas.Lan.''" by code_simp
  moreover have "hosts_get [] ''Nas.Lan.'' = None" by (simp add: hosts_get_def)
  ultimately show ?thesis
    using hosts_table_sound [of "[]" "[]" 0 "''Nas.Lan.''" "[V4 (ipv4_new 10 0 0 2)]" "''nas.lan''"]
    by (simp add: push_new_def)
qed

section \<open>The most specific rule wins\<close>

lemma under_suffix_labels:
  "under_suffix n sfx \<longleftrightarrow> suffix (split_on CHR ''.'' sfx) (split_on CHR ''.'' n)"
  unfolding under_suffix_def split_on_suffix_iff ends_with_suffix by (auto simp: suffix_def)

lemma find_sorted:
  assumes "sorted (map key xs)" "List.find p xs = Some x" "y \<in> set xs" "p y"
  shows "key x \<le> (key y :: 'a :: linorder)"
  using assms by (induction xs) (auto split: if_splits)

lemma suffix_rules_sorted: "sorted (map (\<lambda>r. - int (length (fst r))) (suffix_rules_of rules))"
proof -
  have "sorted (map (\<lambda>r. (- int (length (fst r)), fst r)) (suffix_rules_of rules))"
    by (simp add: suffix_rules_of_def)
  then show ?thesis
    unfolding sorted_map by (rule sorted_wrt_mono_rel [rotated]) (auto simp: less_eq_prod_def)
qed

text \<open>
  The routing rule of a name is the most specific one: when the rules built from the configuration
  route a name to a group, the rule's suffix is a suffix of the name by whole labels and no longer
  suffix of any rule is; and a name with no group matches no rule.
\<close>

theorem group_for_most_specific:
  assumes "dn_suffix_rules d = suffix_rules_of rules"
  shows "(\<forall>g. group_for d name = Some g \<longrightarrow>
      (\<exists>sfx. (sfx, g) \<in> set (dn_suffix_rules d) \<and>
         suffix (split_on CHR ''.'' sfx) (split_on CHR ''.'' (bare_name name)) \<and>
         (\<forall>(sfx', g') \<in> set (dn_suffix_rules d).
            suffix (split_on CHR ''.'' sfx') (split_on CHR ''.'' (bare_name name)) \<longrightarrow> length sfx' \<le> length sfx))) \<and>
    (group_for d name = None \<longleftrightarrow>
      (\<forall>(sfx, g) \<in> set (dn_suffix_rules d).
         \<not> suffix (split_on CHR ''.'' sfx) (split_on CHR ''.'' (bare_name name))))"
proof (intro conjI allI impI)
  let ?p = "\<lambda>(sfx, grp). under_suffix (bare_name name) sfx"
  fix g
  assume "group_for d name = Some g"
  then obtain sfx where f: "List.find ?p (dn_suffix_rules d) = Some (sfx, g)"
    by (auto simp: group_for_def)
  then have m: "(sfx, g) \<in> set (dn_suffix_rules d)" "under_suffix (bare_name name) sfx"
    by (auto simp: find_Some_iff in_set_conv_nth)
  have "length sfx' \<le> length sfx" if "(sfx', g') \<in> set (dn_suffix_rules d)" "under_suffix (bare_name name) sfx'" for sfx' g'
    using find_sorted [OF suffix_rules_sorted [of rules, folded assms] f that(1)] that(2) by simp
  then show "\<exists>sfx. (sfx, g) \<in> set (dn_suffix_rules d) \<and>
         suffix (split_on CHR ''.'' sfx) (split_on CHR ''.'' (bare_name name)) \<and>
         (\<forall>(sfx', g') \<in> set (dn_suffix_rules d).
            suffix (split_on CHR ''.'' sfx') (split_on CHR ''.'' (bare_name name)) \<longrightarrow> length sfx' \<le> length sfx)"
    using m by (intro exI [of _ sfx]) (auto simp: under_suffix_labels)
next
  show "group_for d name = None \<longleftrightarrow>
      (\<forall>(sfx, g) \<in> set (dn_suffix_rules d).
         \<not> suffix (split_on CHR ''.'' sfx) (split_on CHR ''.'' (bare_name name)))"
    by (auto simp: group_for_def find_None_iff under_suffix_labels)
qed

definition example_rules :: "suffix_rule list" where
  "example_rules = [\<lparr>sr_suffix = ''corp.example.'', sr_group = ''a''\<rparr>, \<lparr>sr_suffix = ''eu.corp.example.'', sr_group = ''b''\<rparr>]"

theorem group_for_most_specific_witness:
  "group_for (dataset_empty\<lparr>dn_suffix_rules := suffix_rules_of example_rules\<rparr>) ''notcorp.example.'' = None"
proof -
  have s: "suffix_rules_of example_rules = [(''eu.corp.example'', ''b''), (''corp.example'', ''a'')]"
    by (simp add: suffix_rules_of_def example_rules_def to_ascii_lowercase_def to_ascii_lower_char_def Let_def
        trim_end_matches_def trim_start_matches_def)
  have b: "bare_name ''notcorp.example.'' = ''notcorp.example''"
    by (simp add: bare_name_def to_ascii_lowercase_def to_ascii_lower_char_def Let_def trim_end_matches_def)
  show ?thesis
    using group_for_most_specific [of "dataset_empty\<lparr>dn_suffix_rules := suffix_rules_of example_rules\<rparr>" example_rules "''notcorp.example.''"]
    by (simp add: s b suffix_def Cons_eq_append_conv)
qed

section \<open>Zones: what is answered\<close>

lemma zones_build_sorted:
  assumes "zones_build P L zones ttl = Inr zs"
  shows "sorted (map (\<lambda>z. - int (length (zo_apex z))) zs)"
  using assms by (auto simp: zones_build_def map_sum_right_def split: sum.splits)

lemma zones_lookup_find:
  "zones_lookup_bare zs n qtype =
     (case List.find (\<lambda>z. under_suffix n (zo_apex z)) zs of Some z \<Rightarrow> zone_answer_in z n qtype | None \<Rightarrow> ZaNotInZone)"
  by (induction zs) auto

text \<open>
  C31. A zone lookup is decided by the most specific zone that contains the name by whole labels, and by
  it alone: records are returned only for that very name and of the asked type or aliases; the name
  is denied only by an authoritative zone that has no record for it; and without a containing zone
  the name is left to resolution.
\<close>

theorem zones_lookup_most_specific:
  assumes "zones_build P L zones ttl = Inr zs" and n: "n = bare_name name"
  shows "(\<exists>z \<in> set zs. suffix (split_on CHR ''.'' (zo_apex z)) (split_on CHR ''.'' n) \<and>
       (\<forall>z' \<in> set zs. suffix (split_on CHR ''.'' (zo_apex z')) (split_on CHR ''.'' n) \<longrightarrow>
          length (zo_apex z') \<le> length (zo_apex z)) \<and>
       zones_lookup zs name qtype = zone_answer_in z n qtype \<and>
       (\<forall>rs. zones_lookup zs name qtype = ZaRecords rs \<longrightarrow> rs \<noteq> [] \<and>
          (\<exists>all. map_of (zo_records z) (normalize_name n) = Some all \<and> set rs \<subseteq> set all \<and>
             (\<forall>r \<in> set rs. record_type r = qtype \<or> record_type r = RT_CNAME))) \<and>
       (zones_lookup zs name qtype = ZaNxDomain \<longrightarrow>
          zo_authoritative z \<and> map_of (zo_records z) (normalize_name n) = None)) \<or>
     zones_lookup zs name qtype = ZaNotInZone \<and>
       (\<forall>z \<in> set zs. \<not> suffix (split_on CHR ''.'' (zo_apex z)) (split_on CHR ''.'' n))"
proof (cases "List.find (\<lambda>z. under_suffix n (zo_apex z)) zs")
  case None
  then have "zones_lookup zs name qtype = ZaNotInZone" by (simp add: zones_lookup_def zones_lookup_find n)
  moreover have "\<not> suffix (split_on CHR ''.'' (zo_apex z)) (split_on CHR ''.'' n)" if "z \<in> set zs" for z
    using that None by (simp add: find_None_iff under_suffix_labels)
  ultimately show ?thesis by simp
next
  case (Some z)
  have m: "z \<in> set zs" "under_suffix n (zo_apex z)" using Some by (auto simp: find_Some_iff)
  have l: "zones_lookup zs name qtype = zone_answer_in z n qtype"
    using Some by (simp add: zones_lookup_def zones_lookup_find n)
  have "length (zo_apex z') \<le> length (zo_apex z)" if "z' \<in> set zs" "under_suffix n (zo_apex z')" for z'
    using find_sorted [OF zones_build_sorted [OF assms(1)] Some that] by simp
  moreover have "rs \<noteq> [] \<and> (\<exists>all. map_of (zo_records z) (normalize_name n) = Some all \<and> set rs \<subseteq> set all \<and>
      (\<forall>r \<in> set rs. record_type r = qtype \<or> record_type r = RT_CNAME))" if "zone_answer_in z n qtype = ZaRecords rs" for rs
    using that by (auto simp: zone_answer_in_def Let_def split: option.splits if_splits)
  moreover have "zo_authoritative z \<and> map_of (zo_records z) (normalize_name n) = None"
    if "zone_answer_in z n qtype = ZaNxDomain"
    using that by (auto simp: zone_answer_in_def Let_def split: option.splits if_splits)
  ultimately show ?thesis
    unfolding l using m under_suffix_labels by (intro disjI1 bexI [of _ z]) auto
qed

definition text_zone_lib :: zone_lib where
  "text_zone_lib =
     \<lparr>zl_name = Some, zl_ns = RdOther 2, zl_ptr = RdOther 12, zl_txt = RdOther 16,
      zl_mx = (\<lambda>_ n. RdOther 15 n), zl_srv = (\<lambda>_ _ _ n. RdOther 33 n)\<rparr>"

definition lan_zone :: local_zone where
  "lan_zone = local_zone_default\<lparr>lz_name := ''lan.'',
     lz_records := [local_record_default\<lparr>lr_name := ''a.b'', lr_rtype := ''TXT'', lr_value := ''x''\<rparr>]\<rparr>"

definition lan_record :: rr where
  "lan_record = from_rdata list_proto ''a.b.lan.'' 60 (RdOther 16 ''x'')"

lemmas lan_eval = to_ascii_lowercase_def to_ascii_lower_char_def to_ascii_uppercase_def Let_def
  trim_end_matches_def ends_with_def normalize_name_def

lemma lan_built:
  "zones_build list_proto text_zone_lib [lan_zone] 60 =
     Inr [\<lparr>zo_apex = ''lan'', zo_authoritative = True, zo_records = [(''a.b.lan.'', [lan_record])]\<rparr>]"
  by (simp add: zones_build_def map_sum_right_def lan_zone_def local_zone_default_def local_record_default_def
      record_owner_def build_record_def text_zone_lib_def str_trim_def ascii_space_def lan_record_def lan_eval)

theorem zones_lookup_most_specific_witness:
  "zones_lookup [\<lparr>zo_apex = ''lan'', zo_authoritative = True, zo_records = [(''a.b.lan.'', [lan_record])]\<rparr>]
     ''a.b.lan.'' 16 = ZaRecords [lan_record]"
proof -
  have b: "bare_name ''a.b.lan.'' = ''a.b.lan''" "normalize_name ''a.b.lan'' = ''a.b.lan.''"
    by (simp_all add: bare_name_def lan_eval)
  have t: "record_type lan_record = 16" by (simp add: lan_record_def list_proto_def)
  show ?thesis
    using zones_lookup_most_specific [OF lan_built b(1) [symmetric], of 16]
    by (auto simp: zone_answer_in_def b t suffix_def)
qed

text \<open>
  A name with records only below it does not exist for a zone, although names under it do: the empty
  non-terminal is denied with \<^verbatim>\<open>NXDOMAIN\<close> and not with an empty answer.
\<close>

lemma empty_non_terminal_denied:
  "zones_lookup [\<lparr>zo_apex = ''lan'', zo_authoritative = True, zo_records = [(''a.b.lan.'', [lan_record])]\<rparr>]
     ''b.lan.'' 16 = ZaNxDomain"
  by (simp add: zones_lookup_def under_suffix_def zone_answer_in_def bare_name_def lan_eval)

text \<open>
  The digest sees of a category only its size: a snapshot that replaces the domains of a category by
  as many others is not published.
\<close>

lemma digest_ignores_category_domains:
  assumes "length ds = length ds'"
  shows "publish_if_changed hash (d\<lparr>dn_categories := [(c, ds')]\<rparr>) (d\<lparr>dn_categories := [(c, ds)]\<rparr>) =
    (False, d\<lparr>dn_categories := [(c, ds)]\<rparr>)"
  using assms by (simp add: publish_if_changed_def content_digest_def content_fields_of_def)

end
