(* ===== verification/ConfigTree.thy ===== *)
theory ConfigTree
  imports Datasets AnswerPolicy
begin

text \<open>
  The rest of the configuration tree (\<^verbatim>\<open>config/mod.rs\<close>) and its validation (\<^verbatim>\<open>config/validate.rs\<close>):
  the sections \<open>Config\<close>, \<open>Endpoints\<close> and \<open>Datasets\<close> do not need, the whole tree as the record
  \<open>config_tree\<close> (an extension of \<open>config\<close>), \<open>validate\<close> as the source composes it, and the loader
  \<open>from_toml\<close>.

  The \<^verbatim>\<open>toml\<close> crate is the argument \<open>T\<close> of the loader: the keys of the top-level table of a text, and
  the deserialised tree. Paths are texts, and the paths of Unix are modelled: an absolute path begins
  with a slash. An error carries the dotted path of the field, as in \<open>Config\<close>.
\<close>

section \<open>Sections\<close>

datatype ecs_mode = EcsDisabled | EcsFixedEgress

record ecs_config =
  ec_mode :: ecs_mode
  ec_egress :: ecs_scope

definition ecs_config_default :: ecs_config where
  "ecs_config_default = \<lparr>ec_mode = EcsDisabled, ec_egress = \<lparr>es_ipv4 = None, es_ipv6 = None\<rparr>\<rparr>"

record required_header =
  rq_name :: string
  rq_value :: "string option"

record probe_profile =
  pp_name :: string
  pp_domains :: "string list"
  pp_path :: string
  pp_method :: string
  pp_allowed_status :: "u16 list"
  pp_required_header :: "required_header option"
  pp_body_sha256 :: "string option"
  pp_spki_sha256 :: "string list"
  pp_required_issuer_cn :: "string option"
  pp_alpn :: "string list"

definition probe_profile_default :: probe_profile where
  "probe_profile_default =
     \<lparr>pp_name = [], pp_domains = [], pp_path = ''/'', pp_method = ''HEAD'',
      pp_allowed_status = [200, 204, 301, 302, 400, 403, 404, 405], pp_required_header = None,
      pp_body_sha256 = None, pp_spki_sha256 = [], pp_required_issuer_cn = None,
      pp_alpn = [''h2'', ''http/1.1'']\<rparr>"

record probe_config =
  pb_enabled :: bool
  pb_queue_size :: nat
  pb_concurrency :: nat
  pb_global_connections_per_second :: u32
  pb_tcp_timeout :: duration
  pb_tls_timeout :: duration
  pb_http_timeout :: duration
  pb_per_ip_cooldown :: duration
  pb_per_prefix_cooldown :: duration
  pb_per_domain_cooldown :: duration
  pb_max_candidates_per_rrset :: nat
  pb_extra_ports :: "u16 list"
  pb_max_response_bytes :: nat
  pb_enable_http3 :: bool
  pb_daily_bandwidth_budget_bytes :: u64
  pb_allow_special_use_targets :: "ipnet list"
  pb_profiles :: "probe_profile list"

definition probe_config_default :: probe_config where
  "probe_config_default =
     \<lparr>pb_enabled = True, pb_queue_size = 8192, pb_concurrency = 8,
      pb_global_connections_per_second = 64, pb_tcp_timeout = from_millis 1500,
      pb_tls_timeout = from_millis 3000, pb_http_timeout = from_millis 5000,
      pb_per_ip_cooldown = from_secs 300, pb_per_prefix_cooldown = from_secs 30,
      pb_per_domain_cooldown = from_secs 600, pb_max_candidates_per_rrset = 4,
      pb_extra_ports = [443], pb_max_response_bytes = 16 * 1024, pb_enable_http3 = True,
      pb_daily_bandwidth_budget_bytes = 64 * 1024 * 1024, pb_allow_special_use_targets = [],
      pb_profiles = []\<rparr>"

record network_config =
  nw_enabled :: bool
  nw_poll_interval :: duration
  nw_debounce :: duration
  nw_reference_v4 :: ipaddr
  nw_reference_v6 :: ipaddr
  nw_confidence_decay_on_change :: real
  nw_relearn_window :: duration

definition network_config_default :: network_config where
  "network_config_default =
     \<lparr>nw_enabled = True, nw_poll_interval = from_secs 5, nw_debounce = from_secs 3,
      nw_reference_v4 = V4 (ipv4_new 1 1 1 1), nw_reference_v6 = V6 0x26064700000000000000000000001111,
      nw_confidence_decay_on_change = 1 / 4, nw_relearn_window = from_secs 600\<rparr>"

fun cloudflare_mode_label :: "cloudflare_mode \<Rightarrow> string" where
  "cloudflare_mode_label CfModeOff = ''off''"
| "cloudflare_mode_label CfModePreserve = ''preserve''"
| "cloudflare_mode_label CfModeVerifiedAugment = ''verified_augment''"

definition state_dir :: string where
  "state_dir = ''/var/lib/egressdns''"

definition default_state_db_path :: string where
  "default_state_db_path = state_dir @ ''/state.sqlite3''"

definition default_prefix_cache_path :: string where
  "default_prefix_cache_path = state_dir @ ''/cloudflare-prefixes.json''"

record official_prefix_config =
  op_api_url :: string
  op_ipv4_url :: string
  op_ipv6_url :: string
  op_refresh_interval :: duration
  op_timeout :: duration
  op_max_response_bytes :: nat
  op_min_ipv4_prefixes :: nat
  op_min_ipv6_prefixes :: nat
  op_api_token_file :: "string option"
  op_api_token_env :: "string option"
  op_cache_file :: "string option"

definition official_prefix_config_default :: official_prefix_config where
  "official_prefix_config_default =
     \<lparr>op_api_url = ''https://api.cloudflare.com/client/v4/ips'',
      op_ipv4_url = ''https://www.cloudflare.com/ips-v4'',
      op_ipv6_url = ''https://www.cloudflare.com/ips-v6'',
      op_refresh_interval = from_secs 86400, op_timeout = from_secs 10,
      op_max_response_bytes = 256 * 1024, op_min_ipv4_prefixes = 8, op_min_ipv6_prefixes = 4,
      op_api_token_file = None, op_api_token_env = None,
      op_cache_file = Some default_prefix_cache_path\<rparr>"

record seed_endpoint =
  se_name :: string
  se_url :: string
  se_enabled :: bool

definition default_seed_endpoints :: "seed_endpoint list" where
  "default_seed_endpoints =
     [\<lparr>se_name = ''ct'', se_url = ''https://cf.090227.xyz/ct?ips=6'', se_enabled = True\<rparr>,
      \<lparr>se_name = ''cu'', se_url = ''https://cf.090227.xyz/cu'', se_enabled = True\<rparr>,
      \<lparr>se_name = ''cmcc'', se_url = ''https://cf.090227.xyz/cmcc?ips=8'', se_enabled = True\<rparr>]"

record seed_config =
  sd_enabled :: bool
  sd_endpoints :: "seed_endpoint list"
  sd_refresh_interval :: duration
  sd_timeout :: duration
  sd_max_response_bytes :: nat
  sd_max_addresses_per_response :: nat
  sd_resolve_hostnames :: bool

definition seed_config_default :: seed_config where
  "seed_config_default =
     \<lparr>sd_enabled = False, sd_endpoints = default_seed_endpoints,
      sd_refresh_interval = from_secs 2400, sd_timeout = from_secs 10,
      sd_max_response_bytes = 128 * 1024, sd_max_addresses_per_response = 256,
      sd_resolve_hostnames = True\<rparr>"

record sampling_config =
  sm_enabled :: bool
  sm_round_interval :: duration
  sm_addresses_per_round :: nat
  sm_max_new_candidates_per_hour :: nat
  sm_buckets_per_prefix :: nat
  sm_exploit_fraction :: real
  sm_seed :: u64

definition sampling_config_default :: sampling_config where
  "sampling_config_default =
     \<lparr>sm_enabled = True, sm_round_interval = from_secs 300, sm_addresses_per_round = 32,
      sm_max_new_candidates_per_hour = 512, sm_buckets_per_prefix = 64,
      sm_exploit_fraction = 3 / 10, sm_seed = 0x5eed0cf000000001\<rparr>"

record cloudflare_config =
  cl_enabled :: bool
  cl_mode :: cloudflare_mode
  cl_official :: official_prefix_config
  cl_seeds :: seed_config
  cl_sampling :: sampling_config
  cl_augment :: augment_config
  cl_probe_hosts :: "string list"
  cl_allow_domains :: "string list"
  cl_deny_domains :: "string list"
  cl_candidate_pool_max :: nat
  cl_static_candidates :: "ipaddr list"

definition cloudflare_config_default :: cloudflare_config where
  "cloudflare_config_default =
     \<lparr>cl_enabled = False, cl_mode = CfModePreserve, cl_official = official_prefix_config_default,
      cl_seeds = seed_config_default, cl_sampling = sampling_config_default,
      cl_augment = augment_config_default, cl_probe_hosts = [''speed.cloudflare.com''],
      cl_allow_domains = [], cl_deny_domains = [], cl_candidate_pool_max = 4096,
      cl_static_candidates = []\<rparr>"

record storage_config =
  sg_enabled :: bool
  sg_path :: string
  sg_flush_interval :: duration
  sg_queue_size :: nat
  sg_max_quality_rows :: nat
  sg_max_hot_rows :: nat
  sg_max_candidate_rows :: nat
  sg_row_max_age :: duration

definition storage_config_default :: storage_config where
  "storage_config_default =
     \<lparr>sg_enabled = True, sg_path = default_state_db_path, sg_flush_interval = from_secs 30,
      sg_queue_size = 8192, sg_max_quality_rows = 50000, sg_max_hot_rows = 20000,
      sg_max_candidate_rows = 20000, sg_row_max_age = from_secs (30 * 86400)\<rparr>"

record metrics_config =
  mx_enabled :: bool
  mx_listen :: socket_addr
  mx_allow_non_loopback :: bool

definition metrics_config_default :: metrics_config where
  "metrics_config_default =
     \<lparr>mx_enabled = True, mx_listen = \<lparr>sa_ip = V4 (ipv4_new 127 0 0 1), sa_port = 9153\<rparr>,
      mx_allow_non_loopback = False\<rparr>"

record logging_config =
  lg_level :: string
  lg_json :: bool
  lg_query_log :: bool
  lg_query_log_sample :: real

definition logging_config_default :: logging_config where
  "logging_config_default =
     \<lparr>lg_level = ''info'', lg_json = False, lg_query_log = False, lg_query_log_sample = 1 / 100\<rparr>"

record admin_config =
  am_enabled :: bool
  am_socket :: string
  am_socket_mode :: u32
  am_max_request_bytes :: nat

definition admin_config_default :: admin_config where
  "admin_config_default =
     \<lparr>am_enabled = True, am_socket = ''/run/egressdns/admin.sock'', am_socket_mode = 432,
      am_max_request_bytes = 64 * 1024\<rparr>"

record resource_config =
  rs_worker_threads :: "nat option"
  rs_max_inflight_queries :: nat
  rs_max_inflight_upstream :: nat
  rs_max_blocking_threads :: nat
  rs_systemd_watchdog :: bool

definition resource_config_default :: resource_config where
  "resource_config_default =
     \<lparr>rs_worker_threads = None, rs_max_inflight_queries = 20000, rs_max_inflight_upstream = 4000,
      rs_max_blocking_threads = 4, rs_systemd_watchdog = True\<rparr>"

record config_tree = config +
  ct_upstreams :: "string list"
  ct_local_forwarder :: "ipaddr option"
  ct_proxies :: "string list"
  ct_tls :: upstream_tls_config
  ct_proxy :: "proxy_endpoint list"
  ct_upstream :: upstream_config
  ct_ecs :: ecs_config
  ct_probe :: probe_config
  ct_network :: network_config
  ct_cloudflare :: cloudflare_config
  ct_datasets :: datasets_config
  ct_local :: local_config
  ct_storage :: storage_config
  ct_metrics :: metrics_config
  ct_logging :: logging_config
  ct_admin :: admin_config
  ct_resources :: resource_config

definition config_tree_default :: config_tree where
  "config_tree_default =
     config.extend config_default
       (config_tree.fields [] None [] upstream_tls_default [] upstream_config_default
          ecs_config_default probe_config_default network_config_default cloudflare_config_default
          datasets_config_default local_config_default storage_config_default
          metrics_config_default logging_config_default admin_config_default
          resource_config_default)"

definition config_group :: "config_tree \<Rightarrow> string \<Rightarrow> upstream_group_config option" where
  "config_group cfg name = List.find (\<lambda>g. ug_name g = name) (uc_groups (ct_upstream cfg))"

section \<open>Validation\<close>

text \<open>\<^verbatim>\<open>for (i, x) in xs.iter().enumerate()\<close>: the checks of every element, in order.\<close>

definition for_each :: "(nat \<Rightarrow> 'a \<Rightarrow> (bool \<times> string) list) \<Rightarrow> 'a list \<Rightarrow> (bool \<times> string) list" where
  "for_each checks xs = concat (map (\<lambda>(i, x). checks i x) (enumerate 0 xs))"

definition is_absolute :: "string \<Rightarrow> bool" where
  "is_absolute path \<longleftrightarrow> starts_with path ''/''"

definition is_valid_admin_endpoint :: "string \<Rightarrow> bool" where
  "is_valid_admin_endpoint path = is_absolute path"

definition indexed :: "string \<Rightarrow> nat \<Rightarrow> string \<Rightarrow> string" where
  "indexed list i field = list @ ''['' @ dec i @ '']'' @ field"

definition upstream_address_allowed :: "ipnet_lib \<Rightarrow> ipaddr \<Rightarrow> bool" where
  "upstream_address_allowed L a =
     (case classify L a of None \<Rightarrow> True | Some class \<Rightarrow> class \<in> {Private, SharedAddressSpace, Loopback})"

definition upstream_server_checks ::
  "ipnet_lib \<Rightarrow> (string \<Rightarrow> string) \<Rightarrow> string list \<Rightarrow> upstream_server_config \<Rightarrow> (bool \<times> string) list" where
  "upstream_server_checks L sp before s =
     [(str_trim (us_name s) = [], sp ''.name''),
      (us_name s \<in> set before, sp ''.name''),
      (us_addresses s = [] \<and> us_server_name s = None, sp ''.addresses''),
      (\<not> list_all (upstream_address_allowed L) (us_addresses s), sp ''.addresses''),
      (is_encrypted (us_transport s) \<and>
         (case us_server_name s of
            None \<Rightarrow> True
          | Some name \<Rightarrow> str_trim name = [] \<or> ip_parse name \<noteq> None), sp ''.server_name''),
      (if us_transport s \<in> {Doh2, Doh3}
       then \<not> starts_with (case us_path s of Some p \<Rightarrow> p | None \<Rightarrow> ''/dns-query'') ''/''
       else us_path s \<noteq> None, sp ''.path''),
      (us_trust_ad s \<and> \<not> is_encrypted (us_transport s), sp ''.trust_ad''),
      (us_enable_cookies s = Some True \<and> is_encrypted (us_transport s), sp ''.enable_cookies''),
      (us_weight s = 0, sp ''.weight'')]"

definition scheduler_checks ::
  "duration \<Rightarrow> (string \<Rightarrow> string) \<Rightarrow> scheduler_config \<Rightarrow> (bool \<times> string) list" where
  "scheduler_checks foreground_budget gp sc =
     (let scp = (\<lambda>field. gp (''.scheduler'' @ field)) in
      [(\<not> (1 / 2 \<le> sc_hedge_percentile sc \<and> sc_hedge_percentile sc \<le> 999 / 1000),
        scp ''.hedge_percentile''),
       (sc_hedge_max_delay sc < sc_hedge_min_delay sc, scp ''.hedge_min_delay''),
       (\<not> (0 \<le> sc_hedge_max_fraction sc \<and> sc_hedge_max_fraction sc \<le> 1),
        scp ''.hedge_max_fraction''),
       (as_millis (sc_query_timeout sc) = 0, scp ''.query_timeout''),
       (foreground_budget < sc_query_timeout sc, scp ''.query_timeout''),
       (\<not> (0 \<le> sc_explore_rate sc \<and> sc_explore_rate sc \<le> 1 / 2), scp ''.explore_rate''),
       (sc_circuit_failure_threshold sc = 0, scp ''.circuit_failure_threshold''),
       (sc_circuit_half_open_successes sc = 0, scp ''.circuit_half_open_successes''),
       (sc_emergency_fanout sc \<and> sc_emergency_fanout_max sc = 0, scp ''.emergency_fanout_max'')])"

definition upstream_group_checks ::
  "ipnet_lib \<Rightarrow> duration \<Rightarrow> upstream_group_config list \<Rightarrow> nat \<Rightarrow> upstream_group_config \<Rightarrow>
     (bool \<times> string) list" where
  "upstream_group_checks L foreground_budget groups gi g =
     (let gp = indexed ''upstream.groups'' gi in
      [(str_trim (ug_name g) = [], gp ''.name''),
       (ug_name g \<in> set (map ug_name (take gi groups)), gp ''.name''),
       (filter us_enabled (ug_servers g) = [], gp ''.servers'')] @
      for_each
        (\<lambda>si s. upstream_server_checks L (indexed (gp ''.servers'') si)
                  (map us_name (take si (ug_servers g))) s)
        (ug_servers g) @
      scheduler_checks foreground_budget gp (ug_scheduler g))"

definition upstream_checks :: "ipnet_lib \<Rightarrow> config_tree \<Rightarrow> (bool \<times> string) list" where
  "upstream_checks L cfg =
     (let u = ct_upstream cfg in
      [(uc_groups u = [], ''upstream.groups'')] @
      for_each (upstream_group_checks L (sv_foreground_budget (cfg_server cfg)) (uc_groups u))
        (uc_groups u) @
      [(uc_default_group u \<notin> set (map ug_name (uc_groups u)), ''upstream.default_group'')] @
      for_each (\<lambda>i f. [(\<not> is_absolute f, indexed ''upstream.tls.extra_ca_files'' i [])])
        (ut_extra_ca_files (uc_tls u)) @
      [(ut_quic_zero_rtt (uc_tls u), ''upstream.tls.quic_zero_rtt'')])"

definition dnssec_checks :: "config_tree \<Rightarrow> (bool \<times> string) list" where
  "dnssec_checks cfg =
     (let d = cfg_dnssec cfg in
      [(dn_max_concurrent_validations d = 0, ''dnssec.max_concurrent_validations''),
       (dn_trust_upstream_ad d \<and> validates (dn_mode d), ''dnssec.trust_upstream_ad''),
       (dn_trust_upstream_ad d \<and>
          \<not> list_ex us_trust_ad (concat (map ug_servers (uc_groups (ct_upstream cfg)))),
        ''dnssec.trust_upstream_ad''),
       (case dn_trust_anchor_file d of Some p \<Rightarrow> \<not> is_absolute p | None \<Rightarrow> False,
        ''dnssec.trust_anchor_file'')])"

definition special_v4 :: "ipnet_lib \<Rightarrow> ipv4net option \<Rightarrow> bool" where
  "special_v4 L net = (case net of Some (a, _) \<Rightarrow> classify_v4 L a \<noteq> None | None \<Rightarrow> False)"

definition special_v6 :: "ipnet_lib \<Rightarrow> ipv6net option \<Rightarrow> bool" where
  "special_v6 L net = (case net of Some (a, _) \<Rightarrow> classify_v6 L a \<noteq> None | None \<Rightarrow> False)"

definition longer_than :: "nat \<Rightarrow> ('a \<times> nat) option \<Rightarrow> bool" where
  "longer_than limit net = (case net of Some (_, len) \<Rightarrow> limit < len | None \<Rightarrow> False)"

definition ecs_checks :: "ipnet_lib \<Rightarrow> config_tree \<Rightarrow> (bool \<times> string) list" where
  "ecs_checks L cfg =
     (let e = ct_ecs cfg; v4 = es_ipv4 (ec_egress e); v6 = es_ipv6 (ec_egress e) in
      (if ec_mode e = EcsFixedEgress then
         [(v4 = None \<and> v6 = None, ''ecs.egress''),
          (special_v4 L v4, ''ecs.egress.ipv4''),
          (longer_than 24 v4, ''ecs.egress.ipv4''),
          (special_v6 L v6, ''ecs.egress.ipv6''),
          (longer_than 56 v6, ''ecs.egress.ipv6'')]
       else []) @
      for_each
        (\<lambda>gi g. for_each
          (\<lambda>si s. case us_ecs s of
             None \<Rightarrow> []
           | Some scope \<Rightarrow>
               [(special_v4 L (es_ipv4 scope),
                 indexed (indexed ''upstream.groups'' gi ''.servers'') si ''.ecs.ipv4''),
                (special_v6 L (es_ipv6 scope),
                 indexed (indexed ''upstream.groups'' gi ''.servers'') si ''.ecs.ipv6'')])
          (ug_servers g))
        (uc_groups (ct_upstream cfg)))"

definition hex_digest :: "string \<Rightarrow> bool" where
  "hex_digest h \<longleftrightarrow> length h = 64 \<and> list_all (\<lambda>c. hex_value c \<noteq> None) h"

definition profile_checks :: "string \<Rightarrow> probe_profile \<Rightarrow> (bool \<times> string) list" where
  "profile_checks path prof =
     [(str_trim (pp_name prof) = [], path @ ''.name''),
      (pp_domains prof = [], path @ ''.domains''),
      (\<not> starts_with (pp_path prof) ''/'', path @ ''.path''),
      (to_ascii_uppercase (pp_method prof) \<notin> {''HEAD'', ''GET''}, path @ ''.method''),
      (pp_allowed_status prof = [], path @ ''.allowed_status''),
      (\<not> list_all (\<lambda>s. 100 \<le> s \<and> s \<le> 599) (pp_allowed_status prof), path @ ''.allowed_status''),
      (case pp_body_sha256 prof of Some h \<Rightarrow> \<not> hex_digest h | None \<Rightarrow> False, path @ ''.body_sha256'')] @
     for_each (\<lambda>i s. [(\<not> hex_digest s, indexed (path @ ''.spki_sha256'') i [])]) (pp_spki_sha256 prof) @
     for_each (\<lambda>i a. [(a = [] \<or> 32 < length a, indexed (path @ ''.alpn'') i [])]) (pp_alpn prof)"

definition probe_checks :: "ipnet_lib \<Rightarrow> probe_config \<Rightarrow> (bool \<times> string) list" where
  "probe_checks L p =
     (if \<not> pb_enabled p then [] else
      [(pb_queue_size p = 0, ''probe.queue_size''),
       (pb_concurrency p = 0, ''probe.concurrency''),
       (pb_max_candidates_per_rrset p = 0, ''probe.max_candidates_per_rrset''),
       (256 < pb_concurrency p, ''probe.concurrency''),
       (pb_global_connections_per_second p = 0 \<or> 10000 < pb_global_connections_per_second p,
        ''probe.global_connections_per_second''),
       (pb_max_response_bytes p = 0 \<or> 1024 * 1024 < pb_max_response_bytes p,
        ''probe.max_response_bytes''),
       (0 \<in> set (pb_extra_ports p), ''probe.extra_ports''),
       (8 < length (pb_extra_ports p), ''probe.extra_ports'')] @
      for_each
        (\<lambda>i net.
          [(classify L (net_addr net) = None, indexed ''probe.allow_special_use_targets'' i []),
           (classify L (net_addr net) \<in> {Some CloudMetadata, Some LinkLocal},
            indexed ''probe.allow_special_use_targets'' i [])])
        (pb_allow_special_use_targets p) @
      for_each
        (\<lambda>i prof. profile_checks (indexed ''probe.profiles'' i []) prof @
          [(pp_name prof \<in> set (map pp_name (take i (pb_profiles p))),
            indexed ''probe.profiles'' i ''.name'')])
        (pb_profiles p))"

definition seed_checks :: "seed_config \<Rightarrow> (bool \<times> string) list" where
  "seed_checks s =
     (if \<not> sd_enabled s then [] else
      [(filter se_enabled (sd_endpoints s) = [], ''cloudflare.seeds.endpoints'')] @
      for_each
        (\<lambda>i e.
          [(str_trim (se_name e) = [], indexed ''cloudflare.seeds.endpoints'' i ''.name''),
           (se_name e \<in> set (map se_name (take i (sd_endpoints s))),
            indexed ''cloudflare.seeds.endpoints'' i ''.name''),
           (\<not> starts_with (se_url e) ''https://'', indexed ''cloudflare.seeds.endpoints'' i ''.url'')])
        (sd_endpoints s) @
      [(as_secs (sd_refresh_interval s) < 60, ''cloudflare.seeds.refresh_interval''),
       (sd_max_response_bytes s = 0 \<or> 4 * 1024 * 1024 < sd_max_response_bytes s,
        ''cloudflare.seeds.max_response_bytes''),
       (sd_max_addresses_per_response s = 0 \<or> 65536 < sd_max_addresses_per_response s,
        ''cloudflare.seeds.max_addresses_per_response'')])"

definition sampling_checks :: "sampling_config \<Rightarrow> (bool \<times> string) list" where
  "sampling_checks s =
     (if \<not> sm_enabled s then [] else
      [(sm_addresses_per_round s = 0 \<or> 4096 < sm_addresses_per_round s,
        ''cloudflare.sampling.addresses_per_round''),
       (sm_max_new_candidates_per_hour s = 0, ''cloudflare.sampling.max_new_candidates_per_hour''),
       (sm_buckets_per_prefix s = 0 \<or> 4096 < sm_buckets_per_prefix s,
        ''cloudflare.sampling.buckets_per_prefix''),
       (\<not> (0 \<le> sm_exploit_fraction s \<and> sm_exploit_fraction s \<le> 1),
        ''cloudflare.sampling.exploit_fraction''),
       (as_secs (sm_round_interval s) < 10, ''cloudflare.sampling.round_interval'')])"

definition cloudflare_checks :: "ipnet_lib \<Rightarrow> config_tree \<Rightarrow> (bool \<times> string) list" where
  "cloudflare_checks L cfg =
     (let c = ct_cloudflare cfg; o' = cl_official c; a = cl_augment c in
      if \<not> cl_enabled c then [] else
      [(cl_mode c = CfModeVerifiedAugment \<and> \<not> pb_enabled (ct_probe cfg), ''cloudflare.mode''),
       (\<not> starts_with (op_api_url o') ''https://'', ''cloudflare.official.api_url''),
       (\<not> starts_with (op_ipv4_url o') ''https://'', ''cloudflare.official.ipv4_url''),
       (\<not> starts_with (op_ipv6_url o') ''https://'', ''cloudflare.official.ipv6_url''),
       (as_secs (op_refresh_interval o') < 300, ''cloudflare.official.refresh_interval''),
       (op_max_response_bytes o' = 0 \<or> 8 * 1024 * 1024 < op_max_response_bytes o',
        ''cloudflare.official.max_response_bytes''),
       (op_min_ipv4_prefixes o' = 0, ''cloudflare.official.min_ipv4_prefixes'')] @
      seed_checks (cl_seeds c) @
      sampling_checks (cl_sampling c) @
      [(ag_max_added a = 0 \<or> 2 < ag_max_added a, ''cloudflare.augment.max_added''),
       (ag_min_validations a = 0, ''cloudflare.augment.min_validations''),
       (\<not> (0 \<le> ag_min_advantage a \<and> ag_min_advantage a \<le> 1), ''cloudflare.augment.min_advantage''),
       (as_secs (ag_validation_ttl a) = 0 \<or> 86400 < as_secs (ag_validation_ttl a),
        ''cloudflare.augment.validation_ttl''),
       (cl_candidate_pool_max c = 0 \<or> 1000000 < cl_candidate_pool_max c,
        ''cloudflare.candidate_pool_max''),
       (cl_probe_hosts c = [], ''cloudflare.probe_hosts'')] @
      for_each
        (\<lambda>i h. [(str_trim h = [] \<or> CHR ''/'' \<in> set h, indexed ''cloudflare.probe_hosts'' i [])])
        (cl_probe_hosts c) @
      for_each
        (\<lambda>i addr. [(classify L addr \<noteq> None, indexed ''cloudflare.static_candidates'' i [])])
        (cl_static_candidates c))"

definition local_checks :: "config_tree \<Rightarrow> (bool \<times> string) list" where
  "local_checks cfg =
     (let l = ct_local cfg; group_names = set (map ug_name (uc_groups (ct_upstream cfg))) in
      for_each
        (\<lambda>i r.
          [(str_trim (sr_suffix r) = [], indexed ''local.suffix_rules'' i ''.suffix''),
           (sr_group r \<notin> group_names, indexed ''local.suffix_rules'' i ''.group'')])
        (lc_suffix_rules l) @
      for_each
        (\<lambda>i h.
          [(str_trim (he_name h) = [], indexed ''local.hosts'' i ''.name''),
           (he_addresses h = [], indexed ''local.hosts'' i ''.addresses'')])
        (lc_hosts l) @
      for_each
        (\<lambda>i z. (str_trim (lz_name z) = [], indexed ''local.zones'' i ''.name'') #
          for_each
            (\<lambda>j r. [(str_trim (lr_value r) = [],
                      indexed (indexed ''local.zones'' i ''.records'') j ''.value'')])
            (lz_records z))
        (lc_zones l) @
      [(lc_local_ttl l = 0 \<or> 86400 < lc_local_ttl l, ''local.local_ttl''),
       (ds_max_file_bytes (ct_datasets cfg) = 0, ''datasets.max_file_bytes''),
       (ds_max_records (ct_datasets cfg) = 0, ''datasets.max_records'')])"

definition observability_checks :: "config_tree \<Rightarrow> (bool \<times> string) list" where
  "observability_checks cfg =
     (let m = ct_metrics cfg; sample = lg_query_log_sample (ct_logging cfg); a = ct_admin cfg;
          s = ct_storage cfg; r = ct_resources cfg in
      [(mx_enabled m \<and> \<not> addr_is_loopback (sa_ip (mx_listen m)) \<and> \<not> mx_allow_non_loopback m,
        ''metrics.listen''),
       (\<not> (0 \<le> sample \<and> sample \<le> 1), ''logging.query_log_sample''),
       (am_enabled a \<and> \<not> is_valid_admin_endpoint (am_socket a), ''admin.socket''),
       (am_enabled a \<and> am_socket_mode a AND 7 \<noteq> 0, ''admin.socket_mode''),
       (am_enabled a \<and> (am_max_request_bytes a = 0 \<or> 1024 * 1024 < am_max_request_bytes a),
        ''admin.max_request_bytes''),
       (sg_enabled s \<and> \<not> is_absolute (sg_path s), ''storage.path''),
       (sg_enabled s \<and> sg_queue_size s = 0, ''storage.queue_size''),
       (case rs_worker_threads r of Some w \<Rightarrow> w = 0 \<or> 512 < w | None \<Rightarrow> False,
        ''resources.worker_threads''),
       (rs_max_inflight_queries r = 0, ''resources.max_inflight_queries''),
       (rs_max_inflight_upstream r = 0, ''resources.max_inflight_upstream''),
       (rs_max_blocking_threads r = 0 \<or> 128 < rs_max_blocking_threads r,
        ''resources.max_blocking_threads'')])"

definition validate :: "ipnet_lib \<Rightarrow> config_tree \<Rightarrow> config_error + unit" where
  "validate L cfg =
     (case validate_server (config.truncate cfg) of
        Inl e \<Rightarrow> Inl e
      | Inr _ \<Rightarrow>
          (case validate_cache_and_ttl (config.truncate cfg) of
             Inl e \<Rightarrow> Inl e
           | Inr _ \<Rightarrow>
               first_violation
                 (upstream_checks L cfg @ dnssec_checks cfg @ ecs_checks L cfg @
                  probe_checks L (ct_probe cfg) @ cloudflare_checks L cfg @ local_checks cfg @
                  observability_checks cfg)))"

section \<open>Loading\<close>

record toml_lib =
  tl_keys :: "string \<Rightarrow> string list option"
  tl_config :: "string \<Rightarrow> config_tree option"

datatype load_error = TomlError | Refused config_error

definition LEGACY_KEYS :: "string list" where
  "LEGACY_KEYS = [''version'', ''upstream'']"

definition reject_legacy :: "string list \<Rightarrow> config_error + unit" where
  "reject_legacy keys =
     (case List.find (\<lambda>key. key \<in> set keys) LEGACY_KEYS of
        Some key \<Rightarrow> Inl (Invalid key)
      | None \<Rightarrow> Inr ())"

definition from_toml ::
  "ipnet_lib \<Rightarrow> (string \<Rightarrow> url option) \<Rightarrow> toml_lib \<Rightarrow> string \<Rightarrow> load_error + config_tree" where
  "from_toml L U T doc =
     (case tl_keys T doc of
        None \<Rightarrow> Inl TomlError
      | Some keys \<Rightarrow>
          (case reject_legacy keys of
             Inl e \<Rightarrow> Inl (Refused e)
           | Inr _ \<Rightarrow>
               (case tl_config T doc of
                  None \<Rightarrow> Inl TomlError
                | Some cfg \<Rightarrow>
                    (case build_upstreams U (ct_upstreams cfg) of
                       Inl _ \<Rightarrow> Inl (Refused (Invalid ''upstreams''))
                     | Inr u \<Rightarrow>
                         (case proxy_parse_all U (ct_proxies cfg) of
                            Inl _ \<Rightarrow> Inl (Refused (Invalid ''proxies''))
                          | Inr ps \<Rightarrow>
                              (let built = cfg\<lparr>ct_upstream := u\<lparr>uc_tls := ct_tls cfg\<rparr>, ct_proxy := ps\<rparr>
                               in case validate L built of
                                    Inl e \<Rightarrow> Inl (Refused e)
                                  | Inr _ \<Rightarrow> Inr built))))))"

text \<open>
  What \<^verbatim>\<open>to_redacted_toml\<close> hands to the renderer: the tree without the API token and with the
  proxies that carry credentials rewritten.
\<close>

definition redact_proxy :: "(string \<Rightarrow> url option) \<Rightarrow> string \<Rightarrow> string" where
  "redact_proxy U entry =
     (case proxy_parse U entry of
        Inr parsed \<Rightarrow>
          if px_credentials parsed \<noteq> None
          then proxy_kind_label (px_kind parsed) @ ''://<redacted>@'' @ px_host parsed @ '':'' @
               dec (unat (px_port parsed))
          else entry
      | Inl _ \<Rightarrow> entry)"

definition to_redacted :: "(string \<Rightarrow> url option) \<Rightarrow> config_tree \<Rightarrow> config_tree" where
  "to_redacted U cfg =
     (let c = ct_cloudflare cfg; o' = cl_official c in
      cfg\<lparr>ct_cloudflare := c\<lparr>cl_official := o'
             \<lparr>op_api_token_file := map_option (\<lambda>_. ''<redacted>'') (op_api_token_file o'),
              op_api_token_env := None\<rparr>\<rparr>,
           ct_proxies := map (redact_proxy U) (ct_proxies cfg)\<rparr>)"

text \<open>Reading a secret: \<open>getenv\<close> is the environment, \<open>readf\<close> the file system.\<close>

definition read_secret ::
  "(string \<Rightarrow> string option) \<Rightarrow> (string \<Rightarrow> string option) \<Rightarrow> string option \<Rightarrow> string option \<Rightarrow>
     string + string option" where
  "read_secret getenv readf file env =
     (let from_env =
        (case env of
           None \<Rightarrow> None
         | Some var \<Rightarrow>
             (case getenv var of
                None \<Rightarrow> None
              | Some value \<Rightarrow> if str_trim value = [] then None else Some (str_trim value)))
      in case from_env of
           Some secret \<Rightarrow> Inr (Some secret)
         | None \<Rightarrow>
             (case file of
                None \<Rightarrow> Inr None
              | Some path \<Rightarrow>
                  (case readf path of
                     None \<Rightarrow> Inl path
                   | Some contents \<Rightarrow>
                       Inr (if str_trim contents = [] then None else Some (str_trim contents)))))"

definition summary :: "config_tree \<Rightarrow> (string \<times> string) list" where
  "summary cfg =
     (let addrs = (\<lambda>as. join_with '','' (map (\<lambda>a. socket_text (sa_ip a) (sa_port a)) as)) in
      [(''cloudflare'',
        if cl_enabled (ct_cloudflare cfg) then cloudflare_mode_label (cl_mode (ct_cloudflare cfg))
        else ''disabled''),
       (''dnssec'',
        case dn_mode (cfg_dnssec cfg) of
          DnssecOff \<Rightarrow> ''Off'' | DnssecBackground \<Rightarrow> ''Background'' | DnssecStrict \<Rightarrow> ''Strict''),
       (''groups'', dec (length (uc_groups (ct_upstream cfg)))),
       (''probe'', if pb_enabled (ct_probe cfg) then ''true'' else ''false''),
       (''tcp_listen'', addrs (sv_tcp_listen (cfg_server cfg))),
       (''udp_listen'', addrs (sv_udp_listen (cfg_server cfg)))])"

section \<open>What an accepted configuration guarantees\<close>

lemma for_each_ok:
  "list_all (\<lambda>c. \<not> fst c) (for_each checks xs) \<longleftrightarrow>
     (\<forall>i < length xs. list_all (\<lambda>c. \<not> fst c) (checks i (xs ! i)))"
proof -
  have "list_all p (concat yss) \<longleftrightarrow> list_all (list_all p) yss" for p :: "bool \<times> string \<Rightarrow> bool" and yss
    by (induction yss) auto
  then have "list_all (\<lambda>c. \<not> fst c) (for_each checks xs) \<longleftrightarrow>
      list_all (\<lambda>(i, x). list_all (\<lambda>c. \<not> fst c) (checks i x)) (enumerate 0 xs)"
    by (simp add: for_each_def list.pred_map comp_def split_def)
  then show ?thesis by (simp add: list_all_length [of _ "enumerate 0 xs"] nth_enumerate_eq)
qed

lemma for_each_okD:
  "list_all (\<lambda>c. \<not> fst c) (for_each checks xs) \<Longrightarrow> x \<in> set xs \<Longrightarrow> \<exists>i. list_all (\<lambda>c. \<not> fst c) (checks i x)"
  by (auto simp: for_each_ok in_set_conv_nth)

lemma validate_parts:
  assumes "validate L cfg = Inr u"
  shows "validate_server (config.truncate cfg) = Inr ()"
    "validate_cache_and_ttl (config.truncate cfg) = Inr ()"
    "list_all (\<lambda>c. \<not> fst c) (upstream_checks L cfg)"
    "list_all (\<lambda>c. \<not> fst c) (dnssec_checks cfg)"
    "list_all (\<lambda>c. \<not> fst c) (ecs_checks L cfg)"
    "list_all (\<lambda>c. \<not> fst c) (probe_checks L (ct_probe cfg))"
    "list_all (\<lambda>c. \<not> fst c) (cloudflare_checks L cfg)"
    "list_all (\<lambda>c. \<not> fst c) (local_checks cfg)"
    "list_all (\<lambda>c. \<not> fst c) (observability_checks cfg)"
  using assms by (simp_all add: validate_def first_violation_ok split: sum.splits)

lemma validated_group_checks:
  assumes "validate L cfg = Inr u" "i < length (uc_groups (ct_upstream cfg))"
  shows "list_all (\<lambda>c. \<not> fst c)
    (upstream_group_checks L (sv_foreground_budget (cfg_server cfg)) (uc_groups (ct_upstream cfg)) i
       (uc_groups (ct_upstream cfg) ! i))"
  using validate_parts(3) [OF assms(1)] assms(2)
  by (simp add: upstream_checks_def Let_def for_each_ok)

lemma distinct_by_prefix:
  assumes "\<And>i. i < length xs \<Longrightarrow> xs ! i \<notin> set (take i xs)"
  shows "distinct xs"
proof -
  have "xs ! i \<noteq> xs ! j" if "i < j" "j < length xs" for i j
    using assms [OF that(2)] that by (auto simp: in_set_conv_nth)
  then show ?thesis unfolding distinct_conv_nth by (metis linorder_neqE_nat)
qed

lemma validated_group_names:
  assumes "validate L cfg = Inr u"
  shows "distinct (map ug_name (uc_groups (ct_upstream cfg)))"
proof (rule distinct_by_prefix)
  fix i assume i: "i < length (map ug_name (uc_groups (ct_upstream cfg)))"
  then show "map ug_name (uc_groups (ct_upstream cfg)) ! i \<notin>
      set (take i (map ug_name (uc_groups (ct_upstream cfg))))"
    using validated_group_checks [OF assms, of i]
    by (simp add: upstream_group_checks_def Let_def take_map)
qed

lemma config_group_defined:
  "name \<in> set (map ug_name (uc_groups (ct_upstream cfg))) \<Longrightarrow>
   \<exists>g. config_group cfg name = Some g \<and> g \<in> set (uc_groups (ct_upstream cfg)) \<and> ug_name g = name"
proof -
  assume "name \<in> set (map ug_name (uc_groups (ct_upstream cfg)))"
  then have "config_group cfg name \<noteq> None"
    by (auto simp: config_group_def find_None_iff)
  then obtain g where g: "config_group cfg name = Some g" by auto
  then show ?thesis by (auto simp: config_group_def find_Some_iff)
qed

lemma validated_group_usable:
  assumes "validate L cfg = Inr u" "g \<in> set (uc_groups (ct_upstream cfg))"
  shows "\<exists>s \<in> set (ug_servers g). us_enabled s"
proof -
  obtain i where i: "i < length (uc_groups (ct_upstream cfg))" "uc_groups (ct_upstream cfg) ! i = g"
    using assms(2) by (auto simp: in_set_conv_nth)
  have "filter us_enabled (ug_servers g) \<noteq> []"
    using validated_group_checks [OF assms(1) i(1)] i(2) by (simp add: upstream_group_checks_def Let_def)
  then show ?thesis by (auto simp: filter_empty_conv)
qed

lemma validated_servers:
  assumes "validate L cfg = Inr u" "g \<in> set (uc_groups (ct_upstream cfg))" "s \<in> set (ug_servers g)"
  shows "0 < us_weight s" "list_all (upstream_address_allowed L) (us_addresses s)"
    "us_addresses s \<noteq> [] \<or> us_server_name s \<noteq> None"
    "is_encrypted (us_transport s) \<Longrightarrow> \<exists>n. us_server_name s = Some n \<and> str_trim n \<noteq> [] \<and> ip_parse n = None"
    "us_trust_ad s \<Longrightarrow> is_encrypted (us_transport s)"
proof -
  obtain i where i: "i < length (uc_groups (ct_upstream cfg))" "uc_groups (ct_upstream cfg) ! i = g"
    using assms(2) by (auto simp: in_set_conv_nth)
  obtain j where j: "j < length (ug_servers g)" "ug_servers g ! j = s"
    using assms(3) by (auto simp: in_set_conv_nth)
  have all: "list_all (\<lambda>c. \<not> fst c)
      (for_each
        (\<lambda>si s. upstream_server_checks L (indexed (indexed ''upstream.groups'' i ''.servers'') si)
                  (map us_name (take si (ug_servers g))) s)
        (ug_servers g))"
    using validated_group_checks [OF assms(1) i(1)] i(2) by (simp add: upstream_group_checks_def Let_def)
  have "list_all (\<lambda>c. \<not> fst c)
      (upstream_server_checks L (indexed (indexed ''upstream.groups'' i ''.servers'') j)
        (map us_name (take j (ug_servers g))) s)"
    using for_each_ok [THEN iffD1, rule_format, OF all j(1)] unfolding j(2) .
  then have c: "\<not> us_weight s = 0" "list_all (upstream_address_allowed L) (us_addresses s)"
    "\<not> (us_addresses s = [] \<and> us_server_name s = None)"
    "\<not> (is_encrypted (us_transport s) \<and>
         (case us_server_name s of None \<Rightarrow> True | Some name \<Rightarrow> str_trim name = [] \<or> ip_parse name \<noteq> None))"
    "\<not> (us_trust_ad s \<and> \<not> is_encrypted (us_transport s))"
    unfolding upstream_server_checks_def by simp_all
  then show "0 < us_weight s" "list_all (upstream_address_allowed L) (us_addresses s)"
    "us_addresses s \<noteq> [] \<or> us_server_name s \<noteq> None"
    "is_encrypted (us_transport s) \<Longrightarrow> \<exists>n. us_server_name s = Some n \<and> str_trim n \<noteq> [] \<and> ip_parse n = None"
    "us_trust_ad s \<Longrightarrow> is_encrypted (us_transport s)"
    by (auto simp: word_gt_0 split: option.splits)
qed

lemma datasets_build_rules:
  "datasets_build P Z fs opens cfg local now = Inr d \<Longrightarrow> dn_suffix_rules d = suffix_rules_of (lc_suffix_rules local)"
  by (auto simp: datasets_build_def Let_def split_def map_sum_right_def split: sum.splits)

lemma group_for_from_rule:
  "dn_suffix_rules d = suffix_rules_of rules \<Longrightarrow> group_for d name = Some grp \<Longrightarrow> grp \<in> set (map sr_group rules)"
proof -
  assume d: "dn_suffix_rules d = suffix_rules_of rules" and g: "group_for d name = Some grp"
  from g obtain sfx where "List.find (\<lambda>(sfx, grp). under_suffix (bare_name name) sfx) (dn_suffix_rules d) = Some (sfx, grp)"
    by (auto simp: group_for_def)
  then have "(sfx, grp) \<in> set (suffix_rules_of rules)"
    unfolding d by (auto simp: find_Some_iff in_set_conv_nth)
  then show "grp \<in> set (map sr_group rules)" by (auto simp: suffix_rules_of_def)
qed

text \<open>A file with two upstreams and no other setting loads, with the prefix arithmetic of \<open>prefix_lib\<close>.\<close>

definition example_tree :: config_tree where
  "example_tree =
     config_tree_default
       \<lparr>ct_upstreams := [''1.1.1.1'', '' 9.9.9.9''],
        ct_upstream :=
          \<lparr>uc_default_group = ''default'',
           uc_groups = [\<lparr>ug_name = ''default'', ug_servers = two_addresses,
                         ug_scheduler = scheduler_config_default\<rparr>],
           uc_tls = upstream_tls_default\<rparr>\<rparr>"

lemma default_tree_sections [simp]:
  "config.truncate config_tree_default = config_default"
  "cfg_server config_tree_default = server_config_default"
  "cfg_dnssec config_tree_default = dnssec_config_default"
  "ct_ecs config_tree_default = ecs_config_default"
  "ct_probe config_tree_default = probe_config_default"
  "ct_cloudflare config_tree_default = cloudflare_config_default"
  "ct_datasets config_tree_default = datasets_config_default"
  "ct_local config_tree_default = local_config_default"
  "ct_storage config_tree_default = storage_config_default"
  "ct_metrics config_tree_default = metrics_config_default"
  "ct_logging config_tree_default = logging_config_default"
  "ct_admin config_tree_default = admin_config_default"
  "ct_resources config_tree_default = resource_config_default"
  "ct_tls config_tree_default = upstream_tls_default"
  "ct_proxies config_tree_default = []"
  "ct_proxy config_tree_default = []"
  by (simp_all add: config_tree_default_def config.defs config_tree.defs config_default_def)

lemma public_upstreams:
  "upstream_address_allowed prefix_lib (V4 (ipv4_new 1 1 1 1))"
  "upstream_address_allowed prefix_lib (V4 (ipv4_new 9 9 9 9))"
  by (simp_all add: upstream_address_allowed_def classify_v4_def METADATA_V4_def V4_TABLE_def prefix_lib_def ipv4_new_def)

lemma two_addresses_checks:
  "list_all (\<lambda>c. \<not> fst c)
     (upstream_group_checks prefix_lib (sv_foreground_budget server_config_default) groups 0
        \<lparr>ug_name = ''default'', ug_servers = two_addresses, ug_scheduler = scheduler_config_default\<rparr>)"
  by (simp add: upstream_group_checks_def Let_def for_each_def enumerate_eq_zip two_addresses_def
      upstream_server_checks_def public_upstreams [simplified] upstream_server_default_def is_encrypted_def
      scheduler_checks_def scheduler_config_default_def server_config_default_def
      str_trim_def ascii_space_def from_millis_def as_millis_def)

lemma example_tree_valid: "validate prefix_lib example_tree = Inr ()"
proof -
  have t: "config.truncate example_tree = config_default"
    by (simp add: example_tree_def config.defs config_tree_default_def config_tree.defs)
  have "list_all (\<lambda>c. \<not> fst c) (upstream_checks prefix_lib example_tree)"
    using two_addresses_checks
    by (simp add: upstream_checks_def example_tree_def for_each_def upstream_tls_default_def)
  moreover have "list_all (\<lambda>c. \<not> fst c) (dnssec_checks example_tree)"
    by (simp add: dnssec_checks_def example_tree_def dnssec_config_default_def Let_def)
  moreover have "list_all (\<lambda>c. \<not> fst c) (ecs_checks prefix_lib example_tree)"
    by (simp add: ecs_checks_def example_tree_def ecs_config_default_def Let_def for_each_def
        two_addresses_def upstream_server_default_def)
  moreover have "list_all (\<lambda>c. \<not> fst c) (probe_checks prefix_lib (ct_probe example_tree))"
    by (simp add: probe_checks_def example_tree_def probe_config_default_def for_each_def)
  moreover have "list_all (\<lambda>c. \<not> fst c) (cloudflare_checks prefix_lib example_tree)"
    by (simp add: cloudflare_checks_def example_tree_def cloudflare_config_default_def)
  moreover have "list_all (\<lambda>c. \<not> fst c) (local_checks example_tree)"
    by (simp add: local_checks_def example_tree_def local_config_default_def datasets_config_default_def for_each_def)
  moreover have "list_all (\<lambda>c. \<not> fst c) (observability_checks example_tree)"
    by (simp add: observability_checks_def example_tree_def metrics_config_default_def ipv4_new_def
        logging_config_default_def admin_config_default_def storage_config_default_def
        resource_config_default_def is_valid_admin_endpoint_def is_absolute_def starts_with_def
        default_state_db_path_def state_dir_def)
  ultimately show ?thesis
    using default_config_valid by (simp add: validate_def t first_violation_ok)
qed

text \<open>
  C20. Routing in an accepted configuration always reaches a usable group. The default group exists,
  every group that a suffix rule of the built dataset gives for any name exists under that name, and
  a group found has an enabled server; every server of it has a positive weight, an address or a
  name, only addresses that may be an upstream, and, if it is encrypted, a name that is not an
  address.
\<close>

theorem validated_routing:
  assumes "validate L cfg = Inr ()"
    "datasets_build P Z fs opens (ct_datasets cfg) (ct_local cfg) now = Inr d"
    "grp = uc_default_group (ct_upstream cfg) \<or> group_for d name = Some grp"
  shows "\<exists>g. config_group cfg grp = Some g \<and> ug_name g = grp \<and> list_ex us_enabled (ug_servers g) \<and>
    list_all (\<lambda>s. 0 < us_weight s \<and> (us_addresses s \<noteq> [] \<or> us_server_name s \<noteq> None) \<and>
      list_all (upstream_address_allowed L) (us_addresses s) \<and>
      (is_encrypted (us_transport s) \<longrightarrow>
         (case us_server_name s of None \<Rightarrow> False | Some n \<Rightarrow> str_trim n \<noteq> [] \<and> ip_parse n = None)))
      (ug_servers g)"
proof -
  have "grp \<in> set (map ug_name (uc_groups (ct_upstream cfg)))"
  proof (cases "grp = uc_default_group (ct_upstream cfg)")
    case True
    then show ?thesis using validate_parts(3) [OF assms(1)] by (simp add: upstream_checks_def Let_def)
  next
    case False
    then have "grp \<in> set (map sr_group (lc_suffix_rules (ct_local cfg)))"
      using assms(3) group_for_from_rule [OF datasets_build_rules [OF assms(2)]] by simp
    then obtain i where "i < length (lc_suffix_rules (ct_local cfg))"
      "sr_group (lc_suffix_rules (ct_local cfg) ! i) = grp"
      by (auto simp: in_set_conv_nth)
    then show ?thesis using validate_parts(8) [OF assms(1)]
      by (auto simp: local_checks_def Let_def for_each_ok)
  qed
  then obtain g where g: "config_group cfg grp = Some g" "g \<in> set (uc_groups (ct_upstream cfg))" "ug_name g = grp"
    using config_group_defined by blast
  note s = validated_servers [OF assms(1) g(2)]
  show ?thesis
    using g validated_group_usable [OF assms(1) g(2)] s(1,2,3) s(4)
    by (intro exI [of _ g]) (fastforce simp: list_ex_iff list_all_iff split: option.splits)
qed

theorem validated_routing_witness:
  "\<exists>g. config_group example_tree ''default'' = Some g \<and> list_ex us_enabled (ug_servers g)"
proof -
  obtain d where "datasets_build list_proto text_zone_lib (\<lambda>_. Inl []) (\<lambda>_. False) (ct_datasets example_tree)
      (ct_local example_tree) 0 = Inr d"
    by (simp add: datasets_build_def example_tree_def local_config_default_def datasets_config_default_def
        map_sum_right_def zones_build_def split_def Let_def)
  from validated_routing [OF example_tree_valid this, of "''default''" "[]"] show ?thesis
    by (auto simp: example_tree_def)
qed

text \<open>
  What a configuration file can express: a document that loads has passed \<open>validate\<close>, has one
  upstream group, \<^verbatim>\<open>default\<close>, with the servers generated from \<^verbatim>\<open>upstreams\<close>, and carries the TLS
  settings of the file. So every suffix rule of a loaded configuration routes to \<^verbatim>\<open>default\<close>, no
  server has an ECS override or may vouch for an answer, and the AD bit of an upstream is never
  trusted.
\<close>

theorem loaded_config_shape:
  assumes "from_toml L U T doc = Inr cfg"
  shows "validate L cfg = Inr () \<and>
    (\<exists>ss. desugar U (ct_upstreams cfg) = Inr ss \<and>
       uc_groups (ct_upstream cfg) =
         [\<lparr>ug_name = ''default'', ug_servers = ss, ug_scheduler = scheduler_config_default\<rparr>]) \<and>
    uc_tls (ct_upstream cfg) = ct_tls cfg \<and>
    list_all (\<lambda>r. sr_group r = ''default'') (lc_suffix_rules (ct_local cfg)) \<and>
    \<not> dn_trust_upstream_ad (cfg_dnssec cfg)"
proof -
  obtain c u ps where p: "build_upstreams U (ct_upstreams c) = Inr u" "proxy_parse_all U (ct_proxies c) = Inr ps"
    "cfg = c\<lparr>ct_upstream := u\<lparr>uc_tls := ct_tls c\<rparr>, ct_proxy := ps\<rparr>" "validate L cfg = Inr ()"
    using assms by (auto simp: from_toml_def Let_def split: option.splits sum.splits)
  obtain ss where ss: "desugar U (ct_upstreams c) = Inr ss"
    "uc_groups u = [\<lparr>ug_name = ''default'', ug_servers = ss, ug_scheduler = scheduler_config_default\<rparr>]"
    using p(1) by (auto simp: build_upstreams_def split: sum.splits)
  have groups: "uc_groups (ct_upstream cfg) =
      [\<lparr>ug_name = ''default'', ug_servers = ss, ug_scheduler = scheduler_config_default\<rparr>]"
    using ss(2) p(3) by simp
  have rules: "list_all (\<lambda>r. sr_group r = ''default'') (lc_suffix_rules (ct_local cfg))"
    using validate_parts(8) [OF p(4)] unfolding local_checks_def Let_def groups
    by (simp add: for_each_ok list_all_length [of "\<lambda>r. sr_group r = _"])
  obtain expanded where "desugar_from U 0 expanded = Inr ss"
    using ss(1) by (auto simp: desugar_def split: sum.splits if_splits)
  then have "list_all server_def_ok ss" using desugar_from_facts by blast
  then have "\<not> list_ex us_trust_ad ss" by (auto simp: list_ex_iff list_all_iff server_def_ok_def)
  then have "\<not> dn_trust_upstream_ad (cfg_dnssec cfg)"
    using validate_parts(4) [OF p(4)] unfolding dnssec_checks_def Let_def groups by simp
  then show ?thesis using p(3,4) ss(1) groups rules by simp
qed

theorem loaded_config_shape_witness:
  "\<exists>cfg. from_toml prefix_lib (\<lambda>_. None)
     \<lparr>tl_keys = \<lambda>_. Some [''upstreams''],
      tl_config = \<lambda>_. Some (config_tree_default\<lparr>ct_upstreams := [''1.1.1.1'', '' 9.9.9.9'']\<rparr>)\<rparr> [] = Inr cfg \<and>
     map ug_name (uc_groups (ct_upstream cfg)) = [''default'']"
proof -
  have b: "build_upstreams (\<lambda>_. None) [''1.1.1.1'', '' 9.9.9.9''] = Inr (ct_upstream example_tree)"
    by (simp add: build_upstreams_def desugar_two_addresses example_tree_def)
  have e: "config_tree_default\<lparr>ct_upstreams := [''1.1.1.1'', '' 9.9.9.9''],
      ct_upstream := (ct_upstream example_tree)\<lparr>uc_tls := upstream_tls_default\<rparr>, ct_proxy := []\<rparr> = example_tree"
    by (simp add: example_tree_def config_tree_default_def config.defs config_tree.defs)
  have f: "from_toml prefix_lib (\<lambda>_. None)
     \<lparr>tl_keys = \<lambda>_. Some [''upstreams''],
      tl_config = \<lambda>_. Some (config_tree_default\<lparr>ct_upstreams := [''1.1.1.1'', '' 9.9.9.9'']\<rparr>)\<rparr> [] = Inr example_tree"
    by (simp add: from_toml_def reject_legacy_def LEGACY_KEYS_def b proxy_parse_all_def Let_def e
        example_tree_valid)
  from loaded_config_shape [OF f] f show ?thesis by auto
qed

section \<open>Redaction\<close>



text \<open>
  A password without a user name is not recognised as a credential, so an entry such as
  \<^verbatim>\<open>socks5://:secret@proxy:1080\<close> is printed as it is.
\<close>

lemma password_without_username_shown:
  assumes "U (str_trim entry) = Some u" "url_username u = []" "url_password u = Some password"
  shows "redact_proxy U entry = entry"
  using assms by (auto simp: redact_proxy_def proxy_parse_def Let_def split: sum.splits option.splits if_splits)

lemma read_secret_trimmed:
  "read_secret getenv readf file env = Inr (Some secret) \<Longrightarrow> secret \<noteq> [] \<and>
     (\<exists>raw. secret = str_trim raw)"
  by (auto simp: read_secret_def Let_def split: option.splits if_splits)

end
