(* ===== verification/Cloudflare.thy ===== *)
theory Cloudflare
  imports ConfigTree
begin

unbundle bit_operations_syntax

text \<open>
  The Cloudflare optimisation state: the bounded candidate pool (\<^verbatim>\<open>cloudflare/candidates.rs\<close>), the
  stratified sampler (\<^verbatim>\<open>cloudflare/sampler.rs\<close>), the parser of third-party seed lists
  (\<^verbatim>\<open>cloudflare/seeds.rs\<close>) and the shared state with its runtime override
  (\<^verbatim>\<open>cloudflare/state.rs\<close>).

  A mutex makes every operation atomic, so an operation is a function of the state. A \<^verbatim>\<open>HashMap\<close> is an
  association list with distinct keys, in the order in which it is iterated. The arithmetic of the
  sampler on widened 64-bit values cannot overflow and is done in \<open>nat\<close>.
\<close>

section \<open>Candidates\<close>

datatype candidate_origin = OriginDnsAnswer | OriginSeed | OriginSampling | OriginConfig | OriginPersisted

fun origin_label :: "candidate_origin \<Rightarrow> string" where
  "origin_label OriginDnsAnswer = ''dns_answer''"
| "origin_label OriginSeed = ''seed''"
| "origin_label OriginSampling = ''sampling''"
| "origin_label OriginConfig = ''config''"
| "origin_label OriginPersisted = ''persisted''"

fun origin_priority :: "candidate_origin \<Rightarrow> nat" where
  "origin_priority OriginDnsAnswer = 0"
| "origin_priority OriginConfig = 1"
| "origin_priority OriginPersisted = 2"
| "origin_priority OriginSeed = 3"
| "origin_priority OriginSampling = 4"

datatype cf_reject = RjNotOfficialPrefix | RjSpecialUse | RjNoSnapshot | RjPoolFull
  | RjBudgetExhausted | RjIpv6SamplingDisabled

fun cf_reject_label :: "cf_reject \<Rightarrow> string" where
  "cf_reject_label RjNotOfficialPrefix = ''not_official_prefix''"
| "cf_reject_label RjSpecialUse = ''special_use''"
| "cf_reject_label RjNoSnapshot = ''no_snapshot''"
| "cf_reject_label RjPoolFull = ''pool_full''"
| "cf_reject_label RjBudgetExhausted = ''budget_exhausted''"
| "cf_reject_label RjIpv6SamplingDisabled = ''ipv6_sampling_disabled''"

datatype candidate_stage = StageNew | StageTcpOk | StageTlsOk | StageHttpOk

fun stage_label :: "candidate_stage \<Rightarrow> string" where
  "stage_label StageNew = ''new''"
| "stage_label StageTcpOk = ''tcp_ok''"
| "stage_label StageTlsOk = ''tls_ok''"
| "stage_label StageHttpOk = ''http_ok''"

text \<open>The derived order of the stages.\<close>

fun stage_rank :: "candidate_stage \<Rightarrow> nat" where
  "stage_rank StageNew = 0"
| "stage_rank StageTcpOk = 1"
| "stage_rank StageTlsOk = 2"
| "stage_rank StageHttpOk = 3"

instantiation candidate_stage :: linorder
begin

definition less_eq_candidate_stage :: "candidate_stage \<Rightarrow> candidate_stage \<Rightarrow> bool" where
  "less_eq_candidate_stage a b \<longleftrightarrow> stage_rank a \<le> stage_rank b"

definition less_candidate_stage :: "candidate_stage \<Rightarrow> candidate_stage \<Rightarrow> bool" where
  "less_candidate_stage a b \<longleftrightarrow> stage_rank a < stage_rank b"

instance
proof
  fix x y z :: candidate_stage
  show "x < y \<longleftrightarrow> x \<le> y \<and> \<not> y \<le> x" by (auto simp: less_candidate_stage_def less_eq_candidate_stage_def)
  show "x \<le> x" by (simp add: less_eq_candidate_stage_def)
  show "x \<le> y \<Longrightarrow> y \<le> z \<Longrightarrow> x \<le> z" by (simp add: less_eq_candidate_stage_def)
  show "x \<le> y \<Longrightarrow> y \<le> x \<Longrightarrow> x = y" by (cases x; cases y; simp add: less_eq_candidate_stage_def)
  show "x \<le> y \<or> y \<le> x" by (auto simp: less_eq_candidate_stage_def)
qed

end

record cf_candidate =
  cd_addr :: ipaddr
  cd_origin :: candidate_origin
  cd_first_seen :: instant
  cd_last_seen :: instant
  cd_last_probe :: "instant option"
  cd_stage :: candidate_stage
  cd_consecutive_successes :: u32
  cd_generation :: u64
  cd_colo :: "string option"

definition is_eligible :: "cf_candidate \<Rightarrow> u32 \<Rightarrow> bool" where
  "is_eligible c min_successes \<longleftrightarrow> cd_stage c = StageHttpOk \<and> min_successes \<le> cd_consecutive_successes c"

type_synonym candidate_map = "(ipaddr \<times> cf_candidate) list"

record candidate_pool =
  cp_v4 :: candidate_map
  cp_v6 :: candidate_map
  cp_admitted_this_hour :: nat
  cp_hour_started :: "instant option"
  cp_capacity :: nat

datatype admission = AdmAdded | AdmRefreshed | AdmRejected cf_reject

definition candidate_pool_new :: "nat \<Rightarrow> candidate_pool" where
  "candidate_pool_new capacity =
     \<lparr>cp_v4 = [], cp_v6 = [], cp_admitted_this_hour = 0, cp_hour_started = None,
      cp_capacity = max capacity 1\<rparr>"

text \<open>\<^verbatim>\<open>get_mut\<close> followed by an update of the value, and \<^verbatim>\<open>remove\<close>.\<close>

definition adjust :: "'k \<Rightarrow> ('v \<Rightarrow> 'v) \<Rightarrow> ('k \<times> 'v) list \<Rightarrow> ('k \<times> 'v) list" where
  "adjust k f m = map (\<lambda>(k', v). (k', if k' = k then f v else v)) m"

definition without :: "'k \<Rightarrow> ('k \<times> 'v) list \<Rightarrow> ('k \<times> 'v) list" where
  "without k m = filter (\<lambda>(k', _). k' \<noteq> k) m"

definition family_map :: "bool \<Rightarrow> candidate_pool \<Rightarrow> candidate_map" where
  "family_map v4 p = (if v4 then cp_v4 p else cp_v6 p)"

definition set_family_map :: "bool \<Rightarrow> candidate_map \<Rightarrow> candidate_pool \<Rightarrow> candidate_pool" where
  "set_family_map v4 m p = (if v4 then p\<lparr>cp_v4 := m\<rparr> else p\<lparr>cp_v6 := m\<rparr>)"

definition pool_total :: "candidate_pool \<Rightarrow> nat" where
  "pool_total p = length (cp_v4 p) + length (cp_v6 p)"

definition evict_step ::
  "candidate_origin \<Rightarrow> ipaddr \<times> bool \<times> cf_candidate \<Rightarrow> (ipaddr \<times> bool \<times> nat \<times> instant) option \<Rightarrow>
     (ipaddr \<times> bool \<times> nat \<times> instant) option" where
  "evict_step incoming = (\<lambda>(addr, v4, c) victim.
     if origin_priority (cd_origin c) \<le> origin_priority incoming \<and> cd_stage c \<noteq> StageNew then victim
     else if (case victim of
                None \<Rightarrow> True
              | Some (_, _, prio, seen) \<Rightarrow>
                  prio < origin_priority (cd_origin c) \<or>
                  origin_priority (cd_origin c) = prio \<and> cd_last_seen c < seen)
     then Some (addr, v4, origin_priority (cd_origin c), cd_last_seen c)
     else victim)"

definition evict_victim ::
  "candidate_origin \<Rightarrow> (ipaddr \<times> bool \<times> cf_candidate) list \<Rightarrow> (ipaddr \<times> bool \<times> nat \<times> instant) option" where
  "evict_victim incoming items = fold (evict_step incoming) items None"

definition evict_one :: "candidate_origin \<Rightarrow> candidate_pool \<Rightarrow> bool \<times> candidate_pool" where
  "evict_one incoming p =
     (case evict_victim incoming
             (map (\<lambda>(a, c). (a, True, c)) (cp_v4 p) @ map (\<lambda>(a, c). (a, False, c)) (cp_v6 p)) of
        None \<Rightarrow> (False, p)
      | Some (addr, v4, _, _) \<Rightarrow>
          (map_of (family_map v4 p) addr \<noteq> None, set_family_map v4 (without addr (family_map v4 p)) p))"

text \<open>The admission of an address that passed the filters: the hourly budget, then the room in the pool.\<close>

definition roll_hour :: "nat option \<Rightarrow> instant \<Rightarrow> candidate_pool \<Rightarrow> candidate_pool" where
  "roll_hour hourly_budget now p =
     (if hourly_budget \<noteq> None \<and>
         (case cp_hour_started p of None \<Rightarrow> True | Some start \<Rightarrow> 3600 \<le> as_secs (now - start))
      then p\<lparr>cp_hour_started := Some now, cp_admitted_this_hour := 0\<rparr> else p)"

definition fresh_candidate :: "ipaddr \<Rightarrow> candidate_origin \<Rightarrow> u64 \<Rightarrow> instant \<Rightarrow> cf_candidate" where
  "fresh_candidate addr origin generation now =
     \<lparr>cd_addr = addr, cd_origin = origin, cd_first_seen = now, cd_last_seen = now, cd_last_probe = None,
      cd_stage = StageNew, cd_consecutive_successes = 0, cd_generation = generation, cd_colo = None\<rparr>"

definition admit_new ::
  "ipaddr \<Rightarrow> candidate_origin \<Rightarrow> u64 \<Rightarrow> instant \<Rightarrow> nat option \<Rightarrow> candidate_pool \<Rightarrow> admission \<times> candidate_pool" where
  "admit_new addr origin generation now hourly_budget p0 =
     (let p = roll_hour hourly_budget now p0 in
      if (case hourly_budget of None \<Rightarrow> False | Some budget \<Rightarrow> budget \<le> cp_admitted_this_hour p)
      then (AdmRejected RjBudgetExhausted, p)
      else
        (case (if cp_capacity p \<le> pool_total p then evict_one origin p else (True, p)) of
           (room, p2) \<Rightarrow>
             if \<not> room then (AdmRejected RjPoolFull, p2)
             else
               (AdmAdded,
                (set_family_map (is_ipv4 addr)
                  (family_map (is_ipv4 addr) p2 @ [(addr, fresh_candidate addr origin generation now)]) p2)
                  \<lparr>cp_admitted_this_hour := cp_admitted_this_hour p2 + 1\<rparr>)))"

definition admit ::
  "ipnet_lib \<Rightarrow> ipaddr \<Rightarrow> candidate_origin \<Rightarrow> prefix_snapshot option \<Rightarrow> u64 \<Rightarrow> instant \<Rightarrow> nat option \<Rightarrow>
     candidate_pool \<Rightarrow> admission \<times> candidate_pool" where
  "admit L addr origin snapshot generation now hourly_budget p =
     (if classify L addr \<noteq> None then (AdmRejected RjSpecialUse, p)
      else case snapshot of
        None \<Rightarrow> (AdmRejected RjNoSnapshot, p)
      | Some snap \<Rightarrow>
          if \<not> snapshot_contains snap addr then (AdmRejected RjNotOfficialPrefix, p)
          else if map_of (family_map (is_ipv4 addr) p) addr \<noteq> None then
            (AdmRefreshed,
             set_family_map (is_ipv4 addr)
               (adjust addr
                 (\<lambda>c. c\<lparr>cd_last_seen := now,
                   cd_origin := (if origin_priority origin < origin_priority (cd_origin c) then origin
                                 else cd_origin c)\<rparr>)
                 (family_map (is_ipv4 addr) p)) p)
          else admit_new addr origin generation now hourly_budget p)"

definition record_stage ::
  "ipaddr \<Rightarrow> candidate_stage \<Rightarrow> bool \<Rightarrow> string option \<Rightarrow> instant \<Rightarrow> candidate_pool \<Rightarrow> candidate_pool" where
  "record_stage addr stage success colo now p =
     (let v4 = is_ipv4 addr in
      set_family_map v4
        (adjust addr
          (\<lambda>c. if success
               then c\<lparr>cd_last_probe := Some now,
                 cd_stage := (if cd_stage c < stage then stage else cd_stage c),
                 cd_consecutive_successes := sat_add (cd_consecutive_successes c) 1,
                 cd_colo := (if colo \<noteq> None then colo else cd_colo c)\<rparr>
               else c\<lparr>cd_last_probe := Some now, cd_consecutive_successes := 0\<rparr>)
          (family_map v4 p)) p)"

definition pool_get :: "ipaddr \<Rightarrow> candidate_pool \<Rightarrow> cf_candidate option" where
  "pool_get addr p = map_of (family_map (is_ipv4 addr) p) addr"

definition pool_list :: "bool \<Rightarrow> candidate_pool \<Rightarrow> cf_candidate list" where
  "pool_list v4 p = map snd (family_map v4 p)"

definition pool_eligible :: "bool \<Rightarrow> u32 \<Rightarrow> candidate_pool \<Rightarrow> cf_candidate list" where
  "pool_eligible v4 min_successes p =
     filter (\<lambda>c. is_eligible c min_successes) (map snd (family_map v4 p))"

definition due_for_probe :: "duration \<Rightarrow> instant \<Rightarrow> nat \<Rightarrow> candidate_pool \<Rightarrow> cf_candidate list" where
  "due_for_probe cooldown now limit p =
     take limit
       (sort_key (\<lambda>c. case cd_last_probe c of Some t \<Rightarrow> t | None \<Rightarrow> cd_first_seen c)
         (filter (\<lambda>c. case cd_last_probe c of None \<Rightarrow> True | Some t \<Rightarrow> cooldown \<le> now - t)
           (map snd (cp_v4 p @ cp_v6 p))))"

definition revalidate :: "prefix_snapshot \<Rightarrow> candidate_pool \<Rightarrow> nat \<times> candidate_pool" where
  "revalidate snap p =
     (let p' = p\<lparr>cp_v4 := filter (\<lambda>(a, _). snapshot_contains snap a) (cp_v4 p),
                 cp_v6 := filter (\<lambda>(a, _). snapshot_contains snap a) (cp_v6 p)\<rparr>
      in (pool_total p - pool_total p', p'))"

definition pool_generation_change :: "u64 \<Rightarrow> candidate_pool \<Rightarrow> candidate_pool" where
  "pool_generation_change generation p =
     (let reset = map (\<lambda>(a, c). (a, c\<lparr>cd_generation := generation, cd_consecutive_successes := 0,
                                    cd_stage := StageNew, cd_last_probe := None\<rparr>))
      in p\<lparr>cp_v4 := reset (cp_v4 p), cp_v6 := reset (cp_v6 p)\<rparr>)"

definition pool_counts :: "candidate_pool \<Rightarrow> nat \<times> nat" where
  "pool_counts p = (length (cp_v4 p), length (cp_v6 p))"

definition pool_clear :: "candidate_pool \<Rightarrow> candidate_pool" where
  "pool_clear p = p\<lparr>cp_v4 := [], cp_v6 := []\<rparr>"

section \<open>Sampling\<close>

record bucket_state =
  bk_attempts :: u32
  bk_successes :: u32
  bk_last_round :: u64

definition bucket_default :: bucket_state where
  "bucket_default = \<lparr>bk_attempts = 0, bk_successes = 0, bk_last_round = 0\<rparr>"

definition yield_ratio :: "bucket_state \<Rightarrow> real" where
  "yield_ratio b = (if bk_attempts b = 0 then 0 else real (unat (bk_successes b)) / real (unat (bk_attempts b)))"

record sampler =
  sp_seed :: u64
  sp_buckets_per_prefix :: nat
  sp_exploit_fraction :: real
  sp_buckets :: "((ipv4net \<times> nat) \<times> bucket_state) list"
  sp_round :: u64

definition sampler_new :: "sampling_config \<Rightarrow> sampler" where
  "sampler_new cfg =
     \<lparr>sp_seed = sm_seed cfg, sp_buckets_per_prefix = max 1 (min (sm_buckets_per_prefix cfg) 4096),
      sp_exploit_fraction = max 0 (min (sm_exploit_fraction cfg) 1), sp_buckets = [], sp_round = 0\<rparr>"

definition prefix_size :: "ipv4net \<Rightarrow> nat" where
  "prefix_size net = 2 ^ (32 - snd net)"

definition buckets_for :: "sampler \<Rightarrow> ipv4net \<Rightarrow> nat" where
  "buckets_for s net = max (min (sp_buckets_per_prefix s) (prefix_size net)) 1"

definition u32_to_be_bytes :: "u32 \<Rightarrow> bytes" where
  "u32_to_be_bytes w = map (\<lambda>i. ucast (drop_bit (8 * (3 - i)) w)) [0..<4]"

definition u64_to_be_bytes :: "u64 \<Rightarrow> bytes" where
  "u64_to_be_bytes w = map (\<lambda>i. ucast (drop_bit (8 * (7 - i)) w)) [0..<8]"

definition tiebreak :: "cidr_lib \<Rightarrow> sampler \<Rightarrow> ipv4net \<Rightarrow> nat \<Rightarrow> u64" where
  "tiebreak N s net bucket =
     fnv1a64 (u32_to_be_bytes (network4 N net) @ [of_nat (snd net)] @ u32_to_be_bytes (of_nat bucket) @
              take 7 (u64_to_be_bytes (sp_seed s)))"

text \<open>The loop that steps over the host values 0 and 255, at most four times.\<close>

fun avoid_ends :: "nat \<Rightarrow> nat \<Rightarrow> nat \<Rightarrow> nat \<Rightarrow> nat" where
  "avoid_ends 0 base sz offset = offset"
| "avoid_ends (Suc n) base sz offset =
     (if (base + offset) mod 256 \<noteq> 0 \<and> (base + offset) mod 256 \<noteq> 255 then offset
      else avoid_ends n base sz ((offset + 1) mod sz))"

definition address_in_bucket :: "cidr_lib \<Rightarrow> sampler \<Rightarrow> ipv4net \<Rightarrow> nat \<Rightarrow> u64 \<Rightarrow> ipv4 option" where
  "address_in_bucket N s net bucket rnd =
     (let sz = prefix_size net div buckets_for s net in
      if sz = 0 then None
      else
        (let base = unat (network4 N net) + bucket * sz;
             h = fnv1a64 (u64_to_be_bytes (sp_seed s) @ u32_to_be_bytes (network4 N net) @ [of_nat (snd net)] @
                          u32_to_be_bytes (of_nat bucket) @ u64_to_be_bytes rnd);
             value = base + avoid_ends 4 base sz (unat h mod sz)
         in if 2 ^ 32 - 1 < value then None else Some (of_nat value)))"

definition explore_list :: "sampler \<Rightarrow> ipv4net list \<Rightarrow> (ipv4net \<times> nat \<times> u64) list" where
  "explore_list s nets =
     concat (map (\<lambda>net. map (\<lambda>b. (net, b, case map_of (sp_buckets s) (net, b) of
                                        None \<Rightarrow> 0 | Some st \<Rightarrow> bk_last_round st))
                        [0..<buckets_for s net]) nets)"

definition exploit_list :: "sampler \<Rightarrow> ipv4net list \<Rightarrow> (ipv4net \<times> nat \<times> real) list" where
  "exploit_list s nets =
     concat (map (\<lambda>net. List.map_filter (\<lambda>b.
                    case map_of (sp_buckets s) (net, b) of
                      Some st \<Rightarrow> if 0 < bk_attempts st then Some (net, b, yield_ratio st) else None
                    | None \<Rightarrow> None)
                  [0..<buckets_for s net]) nets)"

fun choose_explore ::
  "nat \<Rightarrow> nat \<Rightarrow> (ipv4net \<times> nat \<times> 'a) list \<Rightarrow> (ipv4net \<Rightarrow> nat) \<Rightarrow> (ipv4net \<times> nat) list \<Rightarrow> (ipv4net \<times> nat) list" where
  "choose_explore budget fair_share [] used chosen = chosen"
| "choose_explore budget fair_share ((net, bucket, _) # rest) used chosen =
     (if budget \<le> length chosen then chosen
      else if fair_share \<le> used net then choose_explore budget fair_share rest used chosen
      else choose_explore budget fair_share rest (used(net := used net + 1)) (chosen @ [(net, bucket)]))"

fun choose_exploit ::
  "nat \<Rightarrow> (ipv4net \<times> nat \<times> 'a) list \<Rightarrow> (ipv4net \<times> nat) list \<Rightarrow> (ipv4net \<times> nat) list" where
  "choose_exploit budget [] chosen = chosen"
| "choose_exploit budget ((net, bucket, _) # rest) chosen =
     (if budget \<le> length chosen then chosen
      else if (net, bucket) \<in> set chosen then choose_exploit budget rest chosen
      else choose_exploit budget rest (chosen @ [(net, bucket)]))"

definition choose_buckets :: "cidr_lib \<Rightarrow> nat \<Rightarrow> ipv4net list \<Rightarrow> sampler \<Rightarrow> (ipv4net \<times> nat) list" where
  "choose_buckets N budget nets s =
     (let exploit_budget = nat \<lfloor>real budget * sp_exploit_fraction s\<rfloor>;
          explore_budget = budget - exploit_budget;
          explore = sort_key (\<lambda>(net, b, r). (r, tiebreak N s net b)) (explore_list s nets);
          exploit = sort_key (\<lambda>(net, b, y). (- y, tiebreak N s net b)) (exploit_list s nets);
          fair_share = max ((budget + length nets - 1) div length nets) 1
      in choose_exploit budget exploit
           (choose_explore explore_budget fair_share explore (\<lambda>_. 0) []))"

definition draw_address ::
  "cidr_lib \<Rightarrow> u64 \<Rightarrow> ipv4net \<times> nat \<Rightarrow> ipv4 list \<times> sampler \<Rightarrow> ipv4 list \<times> sampler" where
  "draw_address N rnd key = (\<lambda>(out, s).
     (case address_in_bucket N s (fst key) (snd key) rnd of
        None \<Rightarrow> (out, s)
      | Some addr \<Rightarrow>
          (out @ [addr],
           s\<lparr>sp_buckets := entry_or_default key
               (\<lambda>b. b\<lparr>bk_attempts := sat_add (bk_attempts b) 1, bk_last_round := rnd\<rparr>)
               bucket_default (sp_buckets s)\<rparr>)))"

definition next_round :: "cidr_lib \<Rightarrow> prefix_snapshot \<Rightarrow> nat \<Rightarrow> sampler \<Rightarrow> ipv4 list \<times> sampler" where
  "next_round N snap budget s =
     (if ps_v4 snap = [] \<or> budget = 0 then ([], s)
      else
        (let rnd = sp_round s + 1;
             s1 = s\<lparr>sp_round := rnd\<rparr>;
             (out, s2) = fold (draw_address N rnd) (choose_buckets N budget (ps_v4 snap) s1) ([], s1)
         in (out,
             if 200000 < length (sp_buckets s2)
             then s2\<lparr>sp_buckets := filter (\<lambda>(_, b). sat_sub rnd 1000 \<le> bk_last_round b) (sp_buckets s2)\<rparr>
             else s2)))"

definition locate :: "ipnet_lib \<Rightarrow> cidr_lib \<Rightarrow> prefix_snapshot \<Rightarrow> ipv4 \<Rightarrow> sampler \<Rightarrow> (ipv4net \<times> nat) option" where
  "locate L N snap addr s =
     (case List.find (\<lambda>n. contains4 L n addr) (ps_v4 snap) of
        None \<Rightarrow> None
      | Some net \<Rightarrow>
          (let buckets = buckets_for s net;
               sz = prefix_size net div buckets;
               offset = unat addr - unat (network4 N net)
           in Some (net, min (offset div max sz 1) (buckets - 1))))"

definition record_success :: "ipnet_lib \<Rightarrow> cidr_lib \<Rightarrow> prefix_snapshot \<Rightarrow> ipv4 \<Rightarrow> sampler \<Rightarrow> sampler" where
  "record_success L N snap addr s =
     (case locate L N snap addr s of
        None \<Rightarrow> s
      | Some key \<Rightarrow>
          s\<lparr>sp_buckets := entry_or_default key (\<lambda>b. b\<lparr>bk_successes := sat_add (bk_successes b) 1\<rparr>)
              bucket_default (sp_buckets s)\<rparr>)"

section \<open>Seeds\<close>

datatype seed_item = SeedAddress ipaddr "u16 option" | SeedHostname string "u16 option"

record seed_parse_stats =
  sps_lines :: nat
  sps_accepted :: nat
  sps_skipped :: nat
  sps_malformed :: nat
  sps_truncated :: nat

definition alnum :: "char \<Rightarrow> bool" where
  "alnum c \<longleftrightarrow>
     (let n = of_char c :: nat in 48 \<le> n \<and> n \<le> 57 \<or> 65 \<le> n \<and> n \<le> 90 \<or> 97 \<le> n \<and> n \<le> 122)"

definition hostname_label_ok :: "string \<Rightarrow> bool" where
  "hostname_label_ok l \<longleftrightarrow>
     l \<noteq> [] \<and> length l \<le> 63 \<and> list_all (\<lambda>c. alnum c \<or> c = CHR ''-'' \<or> c = CHR ''_'') l \<and>
     hd l \<noteq> CHR ''-'' \<and> last l \<noteq> CHR ''-''"

definition validate_hostname :: "string \<Rightarrow> string option" where
  "validate_hostname raw =
     (let s = trim_end_matches CHR ''.'' raw in
      if s = [] \<or> 253 < length s \<or> CHR ''.'' \<notin> set s then None
      else if \<not> list_all hostname_label_ok (split_on CHR ''.'' s) then None
      else if list_all is_digit (last (split_on CHR ''.'' s)) then None
      else Some (to_ascii_lowercase s))"

text \<open>\<^verbatim>\<open>rsplit_once(':')\<close>.\<close>

definition rsplit_colon :: "string \<Rightarrow> (string \<times> string) option" where
  "rsplit_colon s = map_option (\<lambda>(a, b). (rev b, rev a)) (split_once (\<lambda>c. c = CHR '':'') (rev s))"

definition parse_seed_entry :: "string \<Rightarrow> seed_item option" where
  "parse_seed_entry s =
     (if 300 < length s then None
      else if starts_with s ''['' then map_option (\<lambda>(ip, port). SeedAddress ip (Some port)) (socket_parse s)
      else case ip_parse s of
        Some addr \<Rightarrow> Some (SeedAddress addr None)
      | None \<Rightarrow>
          (case rsplit_colon s of
             Some (host, port_str) \<Rightarrow>
               if CHR '':'' \<in> set host then None
               else (case parse_u16 port_str of
                       None \<Rightarrow> None
                     | Some port \<Rightarrow>
                         if port = 0 then None
                         else case ip_parse host of
                                Some addr \<Rightarrow> Some (SeedAddress addr (Some port))
                              | None \<Rightarrow> map_option (\<lambda>h. SeedHostname h (Some port)) (validate_hostname host))
           | None \<Rightarrow> map_option (\<lambda>h. SeedHostname h None) (validate_hostname s)))"

definition seed_line ::
  "nat \<Rightarrow> string \<Rightarrow> seed_item list \<times> seed_parse_stats \<Rightarrow> seed_item list \<times> seed_parse_stats" where
  "seed_line max_items raw_line = (\<lambda>(items, st).
     (let st1 = st\<lparr>sps_lines := sps_lines st + 1\<rparr>; line = str_trim raw_line in
      if line = [] \<or> starts_with line ''#'' \<or> starts_with line ''//''
      then (items, st1\<lparr>sps_skipped := sps_skipped st1 + 1\<rparr>)
      else
        (let payload = (case split_once (\<lambda>c. c = CHR ''#'') line of
                          Some (before, _) \<Rightarrow> str_trim before
                        | None \<Rightarrow> line)
         in if payload = [] then (items, st1\<lparr>sps_skipped := sps_skipped st1 + 1\<rparr>)
            else case parse_seed_entry payload of
                   None \<Rightarrow> (items, st1\<lparr>sps_malformed := sps_malformed st1 + 1\<rparr>)
                 | Some item \<Rightarrow>
                     if max_items \<le> length items
                     then (items, st1\<lparr>sps_truncated := sps_truncated st1 + 1\<rparr>)
                     else (items @ [item], st1\<lparr>sps_accepted := sps_accepted st1 + 1\<rparr>))))"

definition parse_seeds :: "bytes \<Rightarrow> nat \<Rightarrow> cloudflare_error + seed_item list \<times> seed_parse_stats" where
  "parse_seeds body max_items =
     (if utf8_lossy body \<noteq> body then Inl (CfParse ''seed response was not valid UTF-8'')
      else
        (let doc = byte_text body; head = dropWhile ascii_space doc in
         if starts_with head ''<'' \<or> starts_with head (CHR ''{'' # [CHR 0x22]) \<or> starts_with head ''[''
         then Inl (CfParse ''seed response was markup or JSON, not a candidate list'')
         else if 100000 < length (str_lines doc) then Inl (CfParse ''seed response had too many lines'')
         else Inr (fold (seed_line max_items) (str_lines doc)
                ([], \<lparr>sps_lines = 0, sps_accepted = 0, sps_skipped = 0, sps_malformed = 0, sps_truncated = 0\<rparr>))))"

section \<open>Shared state\<close>

record source_status =
  ss_name :: string
  ss_ok :: bool
  ss_detail :: string
  ss_attempted_unix :: u64
  ss_succeeded_unix :: "u64 option"
  ss_accepted :: nat
  ss_rejected :: nat

record domain_validation =
  dv_successes :: u32
  dv_failures :: u32
  dv_last_success :: "instant option"
  dv_last_attempt :: "instant option"
  dv_colo :: "string option"

definition domain_validation_new :: domain_validation where
  "domain_validation_new =
     \<lparr>dv_successes = 0, dv_failures = 0, dv_last_success = None, dv_last_attempt = None, dv_colo = None\<rparr>"

definition validation_fresh :: "domain_validation \<Rightarrow> instant \<Rightarrow> duration \<Rightarrow> bool" where
  "validation_fresh v now ttl = (case dv_last_success v of Some t \<Rightarrow> now - t < ttl | None \<Rightarrow> False)"

record baseline_state =
  bl_validated :: bool
  bl_last_success_unix :: u64

record cf_state =
  fs_prefixes :: "prefix_snapshot option"
  fs_pool :: candidate_pool
  fs_sampler :: sampler
  fs_validations :: "((string \<times> ipaddr) \<times> domain_validation) list"
  fs_baseline :: "(string \<times> baseline_state) list"
  fs_sources :: "(string \<times> source_status) list"
  fs_enabled :: bool
  fs_mode :: u8
  fs_mode_override :: u8
  fs_max_validation_entries :: nat

fun mode_rank :: "cloudflare_mode \<Rightarrow> u8" where
  "mode_rank CfModeOff = 0"
| "mode_rank CfModePreserve = 1"
| "mode_rank CfModeVerifiedAugment = 2"

definition mode_to_u8 :: "cloudflare_mode \<Rightarrow> u8" where
  "mode_to_u8 m = mode_rank m + 1"

definition mode_from_u8 :: "u8 \<Rightarrow> cloudflare_mode option" where
  "mode_from_u8 raw =
     (if raw = 1 then Some CfModeOff
      else if raw = 2 then Some CfModePreserve
      else if raw = 3 then Some CfModeVerifiedAugment
      else None)"

definition cf_state_new :: "cidr_lib \<Rightarrow> cloudflare_config \<Rightarrow> cf_state" where
  "cf_state_new N cfg =
     \<lparr>fs_prefixes = Some (snapshot_builtin N), fs_pool = candidate_pool_new (cl_candidate_pool_max cfg),
      fs_sampler = sampler_new (cl_sampling cfg), fs_validations = [], fs_baseline = [], fs_sources = [],
      fs_enabled = cl_enabled cfg, fs_mode = mode_to_u8 (cl_mode cfg), fs_mode_override = 0,
      fs_max_validation_entries = max (min (cl_candidate_pool_max cfg * 4) (2 ^ 64 - 1)) 1024\<rparr>"

definition configured_mode :: "cf_state \<Rightarrow> cloudflare_mode" where
  "configured_mode s = (case mode_from_u8 (fs_mode s) of Some m \<Rightarrow> m | None \<Rightarrow> CfModeOff)"

definition mode_override :: "cf_state \<Rightarrow> cloudflare_mode option" where
  "mode_override s = mode_from_u8 (fs_mode_override s)"

definition cf_mode :: "cf_state \<Rightarrow> cloudflare_mode" where
  "cf_mode s = (case mode_from_u8 (fs_mode_override s) of Some m \<Rightarrow> m | None \<Rightarrow> configured_mode s)"

definition cf_reconfigure :: "cloudflare_config \<Rightarrow> cf_state \<Rightarrow> cf_state" where
  "cf_reconfigure cfg s =
     (let s1 = s\<lparr>fs_enabled := cl_enabled cfg, fs_mode := mode_to_u8 (cl_mode cfg)\<rparr> in
      case mode_override s1 of
        Some over \<Rightarrow> if mode_rank (cl_mode cfg) < mode_rank over then s1\<lparr>fs_mode_override := 0\<rparr> else s1
      | None \<Rightarrow> s1)"

definition effective_mode :: "cf_state \<Rightarrow> cloudflare_mode \<Rightarrow> cloudflare_mode" where
  "effective_mode s configured =
     (case mode_override s of
        Some over \<Rightarrow> if mode_rank over \<le> mode_rank configured then over else configured
      | None \<Rightarrow> configured)"

definition set_mode_override :: "cloudflare_mode \<Rightarrow> cf_state \<Rightarrow> bool \<times> cf_state" where
  "set_mode_override m s =
     (if mode_rank (configured_mode s) < mode_rank m then (False, s)
      else (True, s\<lparr>fs_mode_override := mode_to_u8 m\<rparr>))"

definition clear_mode_override :: "cf_state \<Rightarrow> cf_state" where
  "clear_mode_override s = s\<lparr>fs_mode_override := 0\<rparr>"

definition set_prefixes :: "prefix_snapshot \<Rightarrow> cf_state \<Rightarrow> cf_state" where
  "set_prefixes snap s =
     s\<lparr>fs_pool := snd (revalidate snap (fs_pool s)), fs_prefixes := Some snap\<rparr>"

definition record_source :: "source_status \<Rightarrow> cf_state \<Rightarrow> cf_state" where
  "record_source st s =
     (let m = (if 64 < length (fs_sources s) then [] else fs_sources s)
      in s\<lparr>fs_sources := entry_or_default (ss_name st) (\<lambda>_. st) st m\<rparr>)"

definition cf_sources :: "cf_state \<Rightarrow> source_status list" where
  "cf_sources s = sort_key ss_name (map snd (fs_sources s))"

definition host_key :: "string \<Rightarrow> string" where
  "host_key hostname = trim_end_matches CHR ''.'' hostname"

definition attempt_rank :: "instant option \<Rightarrow> nat" where
  "attempt_rank t = (case t of None \<Rightarrow> 0 | Some i \<Rightarrow> Suc i)"

definition record_validation ::
  "string \<Rightarrow> ipaddr \<Rightarrow> bool \<Rightarrow> string option \<Rightarrow> instant \<Rightarrow> cf_state \<Rightarrow> cf_state" where
  "record_validation hostname addr success colo now s =
     (let key = (host_key hostname, addr); m = fs_validations s; cap = fs_max_validation_entries s;
          m1 = (if cap \<le> length m \<and> map_of m key = None
                then fold without
                       (take (cap div 16 + 1)
                         (map fst (sort_key (\<lambda>(_, v). attempt_rank (dv_last_attempt v)) m))) m
                else m)
      in s\<lparr>fs_validations := entry_or_default key
             (\<lambda>v. if success
                  then v\<lparr>dv_last_attempt := Some now, dv_successes := sat_add (dv_successes v) 1,
                    dv_failures := 0, dv_last_success := Some now,
                    dv_colo := (if colo \<noteq> None then colo else dv_colo v)\<rparr>
                  else v\<lparr>dv_last_attempt := Some now, dv_failures := sat_add (dv_failures v) 1,
                    dv_successes := 0\<rparr>)
             domain_validation_new m1\<rparr>)"

definition cf_validation :: "string \<Rightarrow> ipaddr \<Rightarrow> cf_state \<Rightarrow> domain_validation option" where
  "cf_validation hostname addr s = map_of (fs_validations s) (host_key hostname, addr)"

definition verified_for ::
  "string \<Rightarrow> bool \<Rightarrow> u32 \<Rightarrow> duration \<Rightarrow> instant \<Rightarrow> (ipaddr \<Rightarrow> real \<times> u32) \<Rightarrow> cf_state \<Rightarrow>
     verified_candidate list" where
  "verified_for hostname v4 min_validations validation_ttl now cost s =
     sort_key vc_cost_ms
       (map (\<lambda>((_, addr), v).
              \<lparr>vc_addr = addr, vc_successes = dv_successes v, vc_cost_ms = fst (cost addr),
               vc_samples = snd (cost addr), vc_fresh = validation_fresh v now validation_ttl\<rparr>)
         (filter (\<lambda>((h, addr), v). h = host_key hostname \<and> is_ipv4 addr = v4 \<and> min_validations \<le> dv_successes v)
           (fs_validations s)))"

definition set_baseline :: "string \<Rightarrow> bool \<Rightarrow> u64 \<Rightarrow> cf_state \<Rightarrow> cf_state" where
  "set_baseline hostname validated now_unix s =
     (let m = (if fs_max_validation_entries s < length (fs_baseline s) then [] else fs_baseline s)
      in s\<lparr>fs_baseline := entry_or_default (host_key hostname)
             (\<lambda>b. b\<lparr>bl_validated := validated,
                   bl_last_success_unix := (if validated then now_unix else bl_last_success_unix b)\<rparr>)
             \<lparr>bl_validated = False, bl_last_success_unix = 0\<rparr> m\<rparr>)"

definition cf_baseline :: "string \<Rightarrow> cf_state \<Rightarrow> bool" where
  "cf_baseline hostname s =
     (case map_of (fs_baseline s) (host_key hostname) of Some b \<Rightarrow> bl_validated b | None \<Rightarrow> False)"

definition cf_generation_change :: "u64 \<Rightarrow> cf_state \<Rightarrow> cf_state" where
  "cf_generation_change generation s =
     s\<lparr>fs_pool := pool_generation_change generation (fs_pool s), fs_validations := [], fs_baseline := []\<rparr>"

section \<open>The invariant of the state\<close>

definition pool_family_ok :: "ipnet_lib \<Rightarrow> prefix_snapshot option \<Rightarrow> bool \<Rightarrow> candidate_map \<Rightarrow> bool" where
  "pool_family_ok L snapshot v4 m \<longleftrightarrow>
     distinct (map fst m) \<and>
     list_all (\<lambda>(a, c). is_ipv4 a = v4 \<and> cd_addr c = a \<and> is_global_unicast L a \<and> is_cloudflare snapshot a) m"

definition pool_ok :: "ipnet_lib \<Rightarrow> prefix_snapshot option \<Rightarrow> candidate_pool \<Rightarrow> bool" where
  "pool_ok L snapshot p \<longleftrightarrow>
     pool_family_ok L snapshot True (cp_v4 p) \<and> pool_family_ok L snapshot False (cp_v6 p) \<and>
     pool_total p \<le> cp_capacity p \<and> 1 \<le> cp_capacity p"

definition cf_ok :: "ipnet_lib \<Rightarrow> cf_state \<Rightarrow> bool" where
  "cf_ok L s \<longleftrightarrow>
     pool_ok L (fs_prefixes s) (fs_pool s) \<and>
     (\<exists>m. fs_mode s = mode_to_u8 m) \<and>
     (case mode_override s of None \<Rightarrow> True | Some over \<Rightarrow> mode_rank over \<le> mode_rank (configured_mode s)) \<and>
     length (fs_validations s) \<le> fs_max_validation_entries s \<and> 1024 \<le> fs_max_validation_entries s \<and>
     length (fs_baseline s) \<le> fs_max_validation_entries s + 1 \<and> length (fs_sources s) \<le> 65"

lemma keys_adjust [simp]: "map fst (adjust k f m) = map fst m"
  by (simp add: adjust_def split_def)

lemma length_adjust [simp]: "length (adjust k f m) = length m"
  by (simp add: adjust_def)

lemma keys_without: "map fst (without k m) = filter (\<lambda>a. a \<noteq> k) (map fst m)"
  by (simp add: without_def filter_map comp_def split_def)

lemma length_without: "length (without k m) \<le> length m"
  by (simp add: without_def)

lemma length_without_less: "k \<in> fst ` set m \<Longrightarrow> length (without k m) < length m"
  by (auto simp: without_def intro!: length_filter_less)

lemma pool_family_ok_adjust:
  "pool_family_ok L snapshot v4 m \<Longrightarrow> (\<And>c. cd_addr (f c) = cd_addr c) \<Longrightarrow> pool_family_ok L snapshot v4 (adjust k f m)"
  by (auto simp: pool_family_ok_def list_all_iff adjust_def split_def comp_def)

lemma pool_family_ok_filter: "pool_family_ok L snapshot v4 m \<Longrightarrow> pool_family_ok L snapshot v4 (filter q m)"
  by (auto simp: pool_family_ok_def list_all_iff distinct_map_filter)

lemma pool_family_ok_without: "pool_family_ok L snapshot v4 m \<Longrightarrow> pool_family_ok L snapshot v4 (without k m)"
  unfolding without_def by (rule pool_family_ok_filter)

lemma fold_choice:
  assumes "\<And>x v. f x v = v \<or> f x v = Some (g x)"
  shows "fold f xs v = v \<or> (\<exists>x \<in> set xs. fold f xs v = Some (g x))"
proof (induction xs arbitrary: v)
  case (Cons x xs)
  show ?case using Cons [of "f x v"] assms [of x v] by auto
qed simp

lemma evict_step_choice:
  "evict_step incoming x v = v \<or>
   evict_step incoming x v =
     Some (fst x, fst (snd x), origin_priority (cd_origin (snd (snd x))), cd_last_seen (snd (snd x)))"
  by (simp add: evict_step_def split_def)

lemma evict_victim_mem:
  assumes "evict_victim incoming items = Some (a, v4, x)"
  shows "\<exists>c. (a, v4, c) \<in> set items"
proof -
  have "\<exists>i \<in> set items. a = fst i \<and> v4 = fst (snd i)"
    using fold_choice [of "evict_step incoming", OF evict_step_choice, of items None] assms
    by (auto simp: evict_victim_def)
  then obtain i where "i \<in> set items" "a = fst i" "v4 = fst (snd i)" by blast
  then have "(a, v4, snd (snd i)) \<in> set items" by simp
  then show ?thesis by blast
qed

lemma evict_one_facts:
  assumes "pool_ok L snapshot p" "evict_one incoming p = (room, p')"
  shows "pool_ok L snapshot p'" "room \<Longrightarrow> pool_total p' < pool_total p" "cp_capacity p' = cp_capacity p"
    "fst ` set (cp_v4 p') \<subseteq> fst ` set (cp_v4 p)" "fst ` set (cp_v6 p') \<subseteq> fst ` set (cp_v6 p)"
proof -
  let ?items = "map (\<lambda>(a, c). (a, True, c)) (cp_v4 p) @ map (\<lambda>(a, c). (a, False, c)) (cp_v6 p)"
  have "pool_ok L snapshot p' \<and> (room \<longrightarrow> pool_total p' < pool_total p) \<and> cp_capacity p' = cp_capacity p \<and>
    fst ` set (cp_v4 p') \<subseteq> fst ` set (cp_v4 p) \<and> fst ` set (cp_v6 p') \<subseteq> fst ` set (cp_v6 p)"
  proof (cases "evict_victim incoming ?items")
    case None
    then show ?thesis using assms by (simp add: evict_one_def)
  next
    case (Some v)
    obtain a v4 x where v: "v = (a, v4, x)" by (cases v)
    have mem: "a \<in> fst ` set (family_map v4 p)"
      using evict_victim_mem [OF Some [unfolded v]] by (auto simp: family_map_def intro: rev_image_eqI)
    have p': "p' = set_family_map v4 (without a (family_map v4 p)) p"
      using assms(2) Some v by (simp add: evict_one_def split_def)
    have sub: "fst ` set (without a m) \<subseteq> fst ` set m" for m :: candidate_map by (auto simp: without_def)
    have less: "length (without a (family_map v4 p)) < length (family_map v4 p)"
      by (rule length_without_less [OF mem])
    show ?thesis
      using assms(1) less sub [of "cp_v4 p"] sub [of "cp_v6 p"]
      by (cases v4) (simp_all add: p' pool_ok_def set_family_map_def family_map_def pool_total_def pool_family_ok_without)
  qed
  then show "pool_ok L snapshot p'" "room \<Longrightarrow> pool_total p' < pool_total p" "cp_capacity p' = cp_capacity p"
    "fst ` set (cp_v4 p') \<subseteq> fst ` set (cp_v4 p)" "fst ` set (cp_v6 p') \<subseteq> fst ` set (cp_v6 p)" by auto
qed

lemma pool_ok_set_family:
  assumes "pool_ok L snapshot p" "pool_family_ok L snapshot v4 m" "length m \<le> length (family_map v4 p)"
  shows "pool_ok L snapshot (set_family_map v4 m p)"
  using assms by (cases v4) (simp_all add: pool_ok_def set_family_map_def family_map_def pool_total_def)

lemma pool_ok_family: "pool_ok L snapshot p \<Longrightarrow> pool_family_ok L snapshot v4 (family_map v4 p)"
  by (cases v4) (simp_all add: pool_ok_def family_map_def)

lemma pool_ok_hour [simp]:
  "pool_ok L snapshot (p\<lparr>cp_hour_started := h\<rparr>) = pool_ok L snapshot p"
  "pool_ok L snapshot (p\<lparr>cp_admitted_this_hour := n\<rparr>) = pool_ok L snapshot p"
  by (simp_all add: pool_ok_def pool_total_def)

lemma pool_ok_append:
  assumes "pool_ok L snapshot p" "pool_total p < cp_capacity p" "v4 = is_ipv4 a"
    "a \<notin> fst ` set (family_map v4 p)" "is_global_unicast L a" "is_cloudflare snapshot a" "cd_addr c = a"
  shows "pool_ok L snapshot (set_family_map v4 (family_map v4 p @ [(a, c)]) p)"
  using assms by (cases v4) (auto simp: pool_ok_def set_family_map_def family_map_def pool_total_def pool_family_ok_def)

text \<open>The pool of an admission that passed the filters and found a new address.\<close>

lemma pool_ok_grow:
  assumes "pool_ok L snapshot p" "is_global_unicast L a" "is_cloudflare snapshot a"
    "a \<notin> fst ` set (family_map (is_ipv4 a) p)" "cd_addr c = a"
    "(if cp_capacity p \<le> pool_total p then evict_one origin p else (True, p)) = (room, p2)"
  shows "pool_ok L snapshot p2"
    "room \<Longrightarrow> pool_ok L snapshot (set_family_map (is_ipv4 a) (family_map (is_ipv4 a) p2 @ [(a, c)]) p2)"
proof -
  have g: "pool_ok L snapshot p2 \<and> (room \<longrightarrow> pool_total p2 < cp_capacity p2) \<and>
      fst ` set (family_map (is_ipv4 a) p2) \<subseteq> fst ` set (family_map (is_ipv4 a) p)"
  proof (cases "cp_capacity p \<le> pool_total p")
    case True
    then have e: "evict_one origin p = (room, p2)" using assms(6) by simp
    note f = evict_one_facts [OF assms(1) e]
    have "pool_total p \<le> cp_capacity p" using assms(1) by (simp add: pool_ok_def)
    then show ?thesis using f(1-3) f(4,5) by (auto simp: family_map_def)
  next
    case False
    then show ?thesis using assms(1,6) by auto
  qed
  then show "pool_ok L snapshot p2" by simp
  show "pool_ok L snapshot (set_family_map (is_ipv4 a) (family_map (is_ipv4 a) p2 @ [(a, c)]) p2)" if room
    using g that assms(2-5) by (intro pool_ok_append) auto
qed

lemma roll_hour_ok [simp]:
  "pool_ok L snapshot (roll_hour b now p) = pool_ok L snapshot p"
  "family_map v4 (roll_hour b now p) = family_map v4 p"
  by (simp_all add: roll_hour_def family_map_def)

lemma admit_new_ok:
  assumes "pool_ok L snapshot p0" "is_global_unicast L addr" "is_cloudflare snapshot addr"
    "addr \<notin> fst ` set (family_map (is_ipv4 addr) p0)"
  shows "pool_ok L snapshot (snd (admit_new addr origin generation now hourly_budget p0))"
proof -
  define p where "p = roll_hour hourly_budget now p0"
  have p: "pool_ok L snapshot p" "addr \<notin> fst ` set (family_map (is_ipv4 addr) p)"
    using assms(1,4) by (simp_all add: p_def)
  obtain room p2 where r: "(if cp_capacity p \<le> pool_total p then evict_one origin p else (True, p)) = (room, p2)"
    by (cases "if cp_capacity p \<le> pool_total p then evict_one origin p else (True, p)")
  have "cd_addr (fresh_candidate addr origin generation now) = addr" by (simp add: fresh_candidate_def)
  note g = pool_ok_grow [OF p(1) assms(2,3) p(2) this r]
  show ?thesis using p(1) g unfolding admit_new_def p_def [symmetric] Let_def r by simp
qed

lemma admit_ok:
  assumes "pool_ok L snapshot p"
  shows "pool_ok L snapshot (snd (admit L addr origin snapshot generation now hourly_budget p))"
proof (cases "classify L addr = None \<and> is_cloudflare snapshot addr")
  case False
  then show ?thesis using assms by (auto simp: admit_def is_cloudflare_def split: option.splits)
next
  case True
  then obtain snap where snap: "snapshot = Some snap" "snapshot_contains snap addr"
    by (auto simp: is_cloudflare_def split: option.splits)
  have gu: "is_global_unicast L addr" using True by (simp add: is_global_unicast_def)
  show ?thesis
  proof (cases "map_of (family_map (is_ipv4 addr) p) addr = None")
    case False
    have "pool_ok L snapshot (set_family_map (is_ipv4 addr) (adjust addr f (family_map (is_ipv4 addr) p)) p)"
      if "\<And>c. cd_addr (f c) = cd_addr c" for f
      by (rule pool_ok_set_family [OF assms pool_family_ok_adjust [OF pool_ok_family [OF assms] that]]) simp
    then show ?thesis using False True snap by (simp add: admit_def)
  next
    case new: True
    then show ?thesis using admit_new_ok [OF assms gu] True snap
      by (simp add: admit_def map_of_eq_None_iff)
  qed
qed

lemma record_stage_ok:
  assumes "pool_ok L snapshot p"
  shows "pool_ok L snapshot (record_stage addr stage success colo now p)"
  unfolding record_stage_def Let_def
  by (rule pool_ok_set_family [OF assms pool_family_ok_adjust [OF pool_ok_family [OF assms]]]) simp_all

lemma revalidate_ok:
  assumes "pool_ok L snapshot p"
  shows "pool_ok L (Some snap) (snd (revalidate snap p))"
proof -
  have "pool_family_ok L (Some snap) v4 (filter (\<lambda>(a, _). snapshot_contains snap a) m)" if "pool_family_ok L snapshot v4 m" for v4 m
    using that by (auto simp: pool_family_ok_def list_all_iff is_cloudflare_def distinct_map_filter)
  moreover have "length (filter q m) \<le> length m" for q and m :: candidate_map by simp
  ultimately show ?thesis
    using assms add_mono [OF length_filter_le [of _ "cp_v4 p"] length_filter_le [of _ "cp_v6 p"]]
    by (fastforce simp: pool_ok_def revalidate_def Let_def pool_total_def intro: order_trans)
qed

lemma pool_generation_change_ok:
  "pool_ok L snapshot p \<Longrightarrow> pool_ok L snapshot (pool_generation_change generation p)"
  by (auto simp: pool_ok_def pool_generation_change_def Let_def pool_total_def pool_family_ok_def list_all_iff
      comp_def split_def)

lemma pool_clear_ok: "pool_ok L snapshot p \<Longrightarrow> pool_ok L snapshot (pool_clear p)"
  by (simp add: pool_ok_def pool_clear_def pool_family_ok_def pool_total_def)

lemma mode_from_to [simp]: "mode_from_u8 (mode_to_u8 m) = Some m"
  by (cases m) (simp_all add: mode_from_u8_def mode_to_u8_def)

lemma mode_from_zero [simp]: "mode_from_u8 0 = None"
  by (simp add: mode_from_u8_def)

lemma length_fold_without: "length (fold without ks m) \<le> length m"
proof (induction ks arbitrary: m)
  case (Cons k ks)
  then show ?case using length_without [of k m] by (auto intro: order_trans)
qed simp

lemma record_validation_bound:
  assumes "length (fs_validations s) \<le> fs_max_validation_entries s" "1 \<le> fs_max_validation_entries s"
  shows "length (fs_validations (record_validation hostname addr success colo now s)) \<le>
    fs_max_validation_entries (record_validation hostname addr success colo now s)"
proof -
  define m where "m = fs_validations s"
  define cap where "cap = fs_max_validation_entries s"
  define key where "key = (host_key hostname, addr)"
  define ks where "ks = map fst (sort_key (\<lambda>(_, v). attempt_rank (dv_last_attempt v)) m)"
  define m1 where "m1 = (if cap \<le> length m \<and> map_of m key = None then fold without (take (cap div 16 + 1) ks) m else m)"
  have evict: "length (fold without (take (cap div 16 + 1) ks) m) < length m" if "m \<noteq> []"
  proof -
    have "length ks = length m" by (simp add: ks_def)
    then have ne: "ks \<noteq> []" using that by auto
    then have "hd ks \<in> fst ` set m" using hd_in_set [OF ne] by (simp add: ks_def)
    then have "length (without (hd ks) m) < length m" by (rule length_without_less)
    moreover have "take (cap div 16 + 1) ks = hd ks # take (cap div 16) (tl ks)" using ne by (cases ks) simp_all
    ultimately show ?thesis using length_fold_without [of "take (cap div 16) (tl ks)" "without (hd ks) m"] by simp
  qed
  have "length (entry_or_default key f d m1) \<le> cap" for f d
  proof (cases "map_of m key = None")
    case True
    have "length m1 < cap \<or> length m1 = 0"
      using True evict assms by (cases "m = []") (auto simp: m1_def m_def cap_def)
    then show ?thesis using length_entry_or_default [of key f d m1] assms(2) by (auto simp: cap_def)
  next
    case False
    then have "m1 = m" "key \<in> set (map fst m)" by (auto simp: m1_def map_of_eq_None_iff)
    moreover have "length (entry_or_default key f d m) = length m" if "key \<in> set (map fst m)"
      using that by (induction key f d m rule: entry_or_default.induct) auto
    ultimately show ?thesis using assms(1) by (simp add: m_def cap_def)
  qed
  then show ?thesis
    unfolding record_validation_def Let_def m_def [symmetric] cap_def [symmetric] key_def [symmetric] ks_def [symmetric]
      m1_def [symmetric]
    by (simp add: cap_def)
qed

text \<open>
  The operations on the shared state. An admission uses the snapshot in force, which is what the
  tasks load before they admit.
\<close>

inductive cf_step :: "ipnet_lib \<Rightarrow> cidr_lib \<Rightarrow> cf_state \<Rightarrow> cf_state \<Rightarrow> bool" for L N where
  CfAdmit: "cf_step L N s
     (s\<lparr>fs_pool := snd (admit L addr origin (fs_prefixes s) generation now budget (fs_pool s))\<rparr>)"
| CfStage: "cf_step L N s (s\<lparr>fs_pool := record_stage addr stage success colo now (fs_pool s)\<rparr>)"
| CfClear: "cf_step L N s (s\<lparr>fs_pool := pool_clear (fs_pool s)\<rparr>)"
| CfPrefixes: "cf_step L N s (set_prefixes snap s)"
| CfGeneration: "cf_step L N s (cf_generation_change generation s)"
| CfRound: "cf_step L N s (s\<lparr>fs_sampler := snd (next_round N snap budget (fs_sampler s))\<rparr>)"
| CfSuccess: "cf_step L N s (s\<lparr>fs_sampler := record_success L N snap a (fs_sampler s)\<rparr>)"
| CfOverride: "cf_step L N s (snd (set_mode_override m s))"
| CfClearOverride: "cf_step L N s (clear_mode_override s)"
| CfReconfigure: "cf_step L N s (cf_reconfigure cfg s)"
| CfValidation: "cf_step L N s (record_validation hostname addr success colo now s)"
| CfBaseline: "cf_step L N s (set_baseline hostname validated now_unix s)"
| CfSource: "cf_step L N s (record_source st s)"

definition modes_ok :: "cf_state \<Rightarrow> bool" where
  "modes_ok s \<longleftrightarrow>
     (\<exists>m. fs_mode s = mode_to_u8 m) \<and>
     (case mode_override s of None \<Rightarrow> True | Some over \<Rightarrow> mode_rank over \<le> mode_rank (configured_mode s))"

definition tables_ok :: "cf_state \<Rightarrow> bool" where
  "tables_ok s \<longleftrightarrow>
     length (fs_validations s) \<le> fs_max_validation_entries s \<and> 1024 \<le> fs_max_validation_entries s \<and>
     length (fs_baseline s) \<le> fs_max_validation_entries s + 1 \<and> length (fs_sources s) \<le> 65"

lemma cf_ok_alt: "cf_ok L s \<longleftrightarrow> pool_ok L (fs_prefixes s) (fs_pool s) \<and> modes_ok s \<and> tables_ok s"
  by (simp add: cf_ok_def modes_ok_def tables_ok_def conj_assoc)

lemma modes_ok_step: "cf_step L N s s' \<Longrightarrow> modes_ok s \<Longrightarrow> modes_ok s'"
  by (induction rule: cf_step.induct)
    (auto simp: modes_ok_def mode_override_def configured_mode_def set_prefixes_def cf_generation_change_def
      set_mode_override_def clear_mode_override_def cf_reconfigure_def record_validation_def set_baseline_def
      record_source_def Let_def split: option.splits)

lemma tables_ok_step: "cf_step L N s s' \<Longrightarrow> tables_ok s \<Longrightarrow> tables_ok s'"
proof (induction rule: cf_step.induct)
  case (CfValidation s hostname addr success colo now)
  then show ?case using record_validation_bound [of s hostname addr success colo now]
    by (simp add: tables_ok_def) (simp add: record_validation_def Let_def)
next
  case (CfBaseline s hostname validated now_unix)
  have "length (entry_or_default (host_key hostname) f d m) \<le> Suc (fs_max_validation_entries s)"
    if "length m \<le> fs_max_validation_entries s" for f d and m :: "(string \<times> baseline_state) list"
    using length_entry_or_default [of "host_key hostname" f d m] that by simp
  then show ?case using CfBaseline by (auto simp: tables_ok_def set_baseline_def Let_def)
next
  case (CfSource s st)
  have "length (entry_or_default (ss_name st) (\<lambda>_. st) st (fs_sources s)) \<le> Suc (length (fs_sources s))"
    by (rule length_entry_or_default)
  then show ?case using CfSource by (auto simp: tables_ok_def record_source_def Let_def)
qed (simp_all add: tables_ok_def set_prefixes_def cf_generation_change_def set_mode_override_def
    clear_mode_override_def cf_reconfigure_def Let_def split: option.splits)

lemma pool_ok_step:
  "cf_step L N s s' \<Longrightarrow> pool_ok L (fs_prefixes s) (fs_pool s) \<Longrightarrow> pool_ok L (fs_prefixes s') (fs_pool s')"
  by (induction rule: cf_step.induct)
    (simp_all add: admit_ok record_stage_ok pool_clear_ok revalidate_ok pool_generation_change_ok set_prefixes_def
      cf_generation_change_def set_mode_override_def clear_mode_override_def cf_reconfigure_def
      record_validation_def set_baseline_def record_source_def Let_def split: option.splits)

lemma cf_ok_new: "cf_ok L (cf_state_new N cfg)"
  by (auto simp: cf_ok_def cf_state_new_def candidate_pool_new_def pool_ok_def pool_family_ok_def pool_total_def
      mode_override_def configured_mode_def)

lemma cf_ok_step: "cf_ok L s \<Longrightarrow> cf_step L N s s' \<Longrightarrow> cf_ok L s'"
  unfolding cf_ok_alt by (intro conjI) (simp_all add: pool_ok_step modes_ok_step tables_ok_step)

interpretation cf_sys: invariant_system "\<lambda>s. \<exists>cfg. s = cf_state_new N cfg" "cf_step L N" "cf_ok L"
  by unfold_locales (auto intro: cf_ok_new cf_ok_step)



text \<open>
  The mode of a query never exceeds the mode of the configuration it reads, even before a reload has
  reached this state.
\<close>

lemma effective_mode_weakens: "mode_rank (effective_mode s configured) \<le> mode_rank configured"
  by (auto simp: effective_mode_def split: option.splits)

text \<open>
  Eviction does not only remove entries of strictly lower priority: a candidate that was never probed
  goes even when a less trusted source proposes the replacement.
\<close>

lemma evicts_higher_priority:
  assumes "cd_stage c = StageNew" "cd_origin c = OriginDnsAnswer"
  shows "evict_one OriginSampling
    \<lparr>cp_v4 = [(a, c)], cp_v6 = [], cp_admitted_this_hour = 0, cp_hour_started = None, cp_capacity = 1\<rparr> =
    (True, \<lparr>cp_v4 = [], cp_v6 = [], cp_admitted_this_hour = 0, cp_hour_started = None, cp_capacity = 1\<rparr>)"
  using assms by (simp add: evict_one_def evict_victim_def evict_step_def family_map_def set_family_map_def without_def)

section \<open>The sampler\<close>

lemma avoid_ends_bound: "offset < sz \<Longrightarrow> avoid_ends n base sz offset < sz"
  by (induction n base sz offset rule: avoid_ends.induct) auto

lemma unat_take_drop:
  fixes w :: "'a::len word"
  shows "unat (take_bit d w) = unat w mod 2 ^ d" "unat (drop_bit d w) = unat w div 2 ^ d"
  by (simp_all add: unsigned_take_bit_eq take_bit_eq_mod [where 'a = nat] unat_drop_bit_eq
      drop_bit_eq_div [where 'a = nat])

lemma low_bits_of_network:
  fixes a :: "'a::len word"
  assumes "d \<le> LENGTH('a)"
  shows "unat (a AND push_bit d (mask l)) mod 2 ^ d = 0"
proof -
  have "take_bit d (a AND push_bit d (mask l)) = 0"
    by (rule bit_word_eqI) (auto simp: bit_simps)
  then show ?thesis unfolding unat_take_drop(1) [symmetric] by simp
qed

lemma in_prefix_of_offset:
  fixes a :: u32
  assumes "l \<le> 32" "value < 2 ^ 32"
    "value = unat (a AND push_bit (32 - l) (mask l)) + k" "k < 2 ^ (32 - l)"
  shows "(of_nat value :: u32) AND push_bit (32 - l) (mask l) = a AND push_bit (32 - l) (mask l)"
proof -
  let ?m = "push_bit (32 - l) (mask l) :: u32"
  let ?net = "a AND ?m"
  have "unat ?net mod 2 ^ (32 - l) = 0" by (rule low_bits_of_network) simp
  then have "value div 2 ^ (32 - l) = unat ?net div 2 ^ (32 - l)"
    using assms(3,4) by (auto simp: mod_eq_0_iff_dvd elim!: dvdE)
  moreover have "unat (of_nat value :: u32) = value" using assms(2) by (simp add: unat_of_nat)
  ultimately have "unat (drop_bit (32 - l) (of_nat value :: u32)) = unat (drop_bit (32 - l) ?net)"
    unfolding unat_take_drop(2) by simp
  then have "drop_bit (32 - l) (of_nat value :: u32) = drop_bit (32 - l) ?net"
    by (simp add: word_unat_eq_iff)
  then have "(of_nat value :: u32) AND ?m = ?net AND ?m"
    using and_prefix_mask_eq_iff [of l "of_nat value :: u32" ?net] assms(1) by simp
  then show ?thesis by (simp add: and.assoc)
qed

lemma address_in_bucket_inside:
  assumes "cidr_law N" "snd net \<le> 32" "bucket < buckets_for s net"
    "address_in_bucket N s net bucket rnd = Some addr"
  shows "addr AND netmask4 N net = network4 N net"
proof -
  let ?sz = "prefix_size net div buckets_for s net"
  define off where "off = avoid_ends 4 (unat (network4 N net) + bucket * ?sz) ?sz
    (unat (fnv1a64 (u64_to_be_bytes (sp_seed s) @ u32_to_be_bytes (network4 N net) @ [of_nat (snd net)] @
       u32_to_be_bytes (of_nat bucket) @ u64_to_be_bytes rnd)) mod ?sz)"
  have sz: "0 < ?sz" using assms(4) by (auto simp: address_in_bucket_def Let_def split: if_splits)
  then have "off < ?sz" unfolding off_def by (intro avoid_ends_bound) simp
  moreover have "unat (network4 N net) + bucket * ?sz + off < 2 ^ 32 \<and>
      addr = of_nat (unat (network4 N net) + bucket * ?sz + off)"
    using assms(4) sz unfolding address_in_bucket_def Let_def off_def [symmetric]
    by (simp del: of_nat_add of_nat_mult split: if_splits)
  ultimately have off: "off < ?sz" "unat (network4 N net) + bucket * ?sz + off < 2 ^ 32"
    "addr = of_nat (unat (network4 N net) + bucket * ?sz + off)" by simp_all
  have "bucket * ?sz + off < Suc bucket * ?sz" using off(1) by simp
  also have "\<dots> \<le> buckets_for s net * ?sz" using assms(3) by (intro mult_right_mono) auto
  also have "\<dots> \<le> prefix_size net" by simp
  finally have k: "bucket * ?sz + off < 2 ^ (32 - snd net)" by (simp add: prefix_size_def)
  have n: "network4 N net = fst net AND push_bit (32 - snd net) (mask (snd net))"
    "netmask4 N net = push_bit (32 - snd net) (mask (snd net))"
    using assms(1,2) by (cases net; simp add: cidr_law_def)+
  show ?thesis
    using in_prefix_of_offset [of "snd net" _ "fst net", OF assms(2) off(2) _ k]
    unfolding off(3) n by (simp add: add.assoc del: of_nat_add of_nat_mult)
qed

lemma choose_explore_facts:
  "length chosen \<le> budget \<Longrightarrow> length (choose_explore budget share items used chosen) \<le> budget \<and>
   set (choose_explore budget share items used chosen) \<subseteq> set chosen \<union> (\<lambda>(n, b, _). (n, b)) ` set items"
proof (induction budget share items used chosen rule: choose_explore.induct)
  case (2 budget share net bucket x rest used chosen)
  show ?case
  proof (cases "budget \<le> length chosen")
    case False
    then show ?thesis using 2 by (cases "share \<le> used net") (auto simp del: fun_upd_apply)
  qed (use 2 in auto)
qed simp

lemma choose_exploit_facts:
  "length chosen \<le> budget \<Longrightarrow> length (choose_exploit budget items chosen) \<le> budget \<and>
   set (choose_exploit budget items chosen) \<subseteq> set chosen \<union> (\<lambda>(n, b, _). (n, b)) ` set items"
proof (induction budget items chosen rule: choose_exploit.induct)
  case (2 budget net bucket x rest chosen)
  show ?case
  proof (cases "budget \<le> length chosen")
    case False
    then show ?thesis using 2 by (cases "(net, bucket) \<in> set chosen") auto
  qed (use 2 in auto)
qed simp

lemma choose_buckets_facts:
  "length (choose_buckets N budget nets s) \<le> budget"
  "key \<in> set (choose_buckets N budget nets s) \<Longrightarrow> fst key \<in> set nets \<and> snd key < buckets_for s (fst key)"
proof -
  define ex where "ex = sort_key (\<lambda>(net, b, r). (r, tiebreak N s net b)) (explore_list s nets)"
  define xp where "xp = sort_key (\<lambda>(net, b, y). (- y, tiebreak N s net b)) (exploit_list s nets)"
  define xb where "xb = budget - nat \<lfloor>real budget * sp_exploit_fraction s\<rfloor>"
  define share where "share = max ((budget + length nets - 1) div length nets) 1"
  have c: "choose_buckets N budget nets s = choose_exploit budget xp (choose_explore xb share ex (\<lambda>_. 0) [])"
    by (simp add: choose_buckets_def Let_def ex_def xp_def xb_def share_def)
  have e: "length (choose_explore xb share ex (\<lambda>_. 0) []) \<le> budget"
    using choose_explore_facts [of "[]" xb share ex "\<lambda>_. 0"] by (auto simp: xb_def)
  note x = choose_exploit_facts [OF e, of xp]
  show "length (choose_buckets N budget nets s) \<le> budget" using x c by simp
  have ok: "fst (fst i, fst (snd i)) \<in> set nets \<and> fst (snd i) < buckets_for s (fst i)" if "i \<in> set ex" for i
    using that by (auto simp: ex_def explore_list_def)
  have ok': "fst (fst i, fst (snd i)) \<in> set nets \<and> fst (snd i) < buckets_for s (fst i)" if "i \<in> set xp" for i
    using that by (auto simp: xp_def exploit_list_def List.map_filter_def split: option.splits if_splits)
  assume "key \<in> set (choose_buckets N budget nets s)"
  then have "key \<in> (\<lambda>(n, b, _). (n, b)) ` set xp \<union> (\<lambda>(n, b, _). (n, b)) ` set ex"
    using x c choose_explore_facts [of "[]" xb share ex "\<lambda>_. 0"] by auto
  then show "fst key \<in> set nets \<and> snd key < buckets_for s (fst key)" using ok ok' by fastforce
qed

lemma buckets_for_cong: "sp_buckets_per_prefix s' = sp_buckets_per_prefix s \<Longrightarrow> buckets_for s' net = buckets_for s net"
  by (simp add: buckets_for_def)

lemma draw_fold:
  assumes "cidr_law N" "\<And>key. key \<in> set keys \<Longrightarrow> snd (fst key) \<le> 32 \<and> snd key < buckets_for s (fst key)"
    "fold (draw_address N rnd) keys (out0, s) = (out, s')"
  shows "length out \<le> length out0 + length keys" "sp_buckets_per_prefix s' = sp_buckets_per_prefix s"
    "sp_round s' = sp_round s"
    "a \<in> set out \<Longrightarrow> a \<in> set out0 \<or> (\<exists>key \<in> set keys. a AND netmask4 N (fst key) = network4 N (fst key))"
proof -
  have "length out \<le> length out0 + length keys \<and> sp_buckets_per_prefix s' = sp_buckets_per_prefix s \<and>
    sp_round s' = sp_round s \<and>
    set out \<subseteq> set out0 \<union> {a. \<exists>key \<in> set keys. a AND netmask4 N (fst key) = network4 N (fst key)}"
    using assms(2,3)
  proof (induction keys arbitrary: out0 s)
    case (Cons key keys)
    obtain o1 s1 where d: "draw_address N rnd key (out0, s) = (o1, s1)" by (cases "draw_address N rnd key (out0, s)")
    have s1: "sp_buckets_per_prefix s1 = sp_buckets_per_prefix s" "sp_round s1 = sp_round s" "length o1 \<le> Suc (length out0)"
      using d by (auto simp: draw_address_def split: option.splits)
    have o1: "set o1 \<subseteq> set out0 \<union> {a. a AND netmask4 N (fst key) = network4 N (fst key)}"
      using d Cons.prems(1) [of key] address_in_bucket_inside [OF assms(1), of "fst key" "snd key" s rnd]
      by (auto simp: draw_address_def split: option.splits)
    have "length out \<le> length o1 + length keys \<and> sp_buckets_per_prefix s' = sp_buckets_per_prefix s1 \<and>
        sp_round s' = sp_round s1 \<and>
        set out \<subseteq> set o1 \<union> {a. \<exists>key \<in> set keys. a AND netmask4 N (fst key) = network4 N (fst key)}"
      using Cons.prems d buckets_for_cong [OF s1(1)] by (intro Cons.IH) auto
    then show ?case using s1 o1 by auto
  qed simp
  then show "length out \<le> length out0 + length keys" "sp_buckets_per_prefix s' = sp_buckets_per_prefix s"
    "sp_round s' = sp_round s"
    "a \<in> set out \<Longrightarrow> a \<in> set out0 \<or> (\<exists>key \<in> set keys. a AND netmask4 N (fst key) = network4 N (fst key))"
    by auto
qed

text \<open>
  A sampling round stays within its bounds: it proposes at most the budget of addresses, every
  one of them inside an official prefix of the snapshot, and advances the round by one (not at all
  when there is nothing to sample).
\<close>

theorem sampler_round_sound:
  assumes "cidr_law N" "list_all (\<lambda>n. snd n \<le> 32) v4"
    "next_round N (snapshot_new N v4 v6 etag fetched src) budget s = (out, s')"
  shows "length out \<le> budget \<and> list_all (\<lambda>a. snapshot_contains (snapshot_new N v4 v6 etag fetched src) (V4 a)) out \<and>
    sp_round s' = (if v4 = [] \<or> budget = 0 then sp_round s else sp_round s + 1)"
proof -
  let ?snap = "snapshot_new N v4 v6 etag fetched src"
  let ?s1 = "s\<lparr>sp_round := sp_round s + 1\<rparr>"
  let ?keys = "choose_buckets N budget (ps_v4 ?snap) ?s1"
  have nets: "set (ps_v4 ?snap) = set v4" and masks: "ps_v4_masks ?snap = map (\<lambda>n. (network4 N n, netmask4 N n)) (ps_v4 ?snap)"
    using mset_eq_setD [of "sort_nets4 N v4" v4] assms(1)
    by (simp_all add: snapshot_new_def Let_def cidr_law_def)
  show ?thesis
  proof (cases "ps_v4 ?snap = [] \<or> budget = 0")
    case True
    then show ?thesis using assms(3) nets by (auto simp: next_round_def)
  next
    case False
    obtain o2 s2 where f: "fold (draw_address N (sp_round s + 1)) ?keys ([], ?s1) = (o2, s2)"
      by (cases "fold (draw_address N (sp_round s + 1)) ?keys ([], ?s1)")
    have k: "snd (fst key) \<le> 32 \<and> snd key < buckets_for ?s1 (fst key)" if "key \<in> set ?keys" for key
      using choose_buckets_facts(2) [OF that] nets assms(2) by (auto simp: list_all_iff)
    note d = draw_fold [OF assms(1) k f]
    have out: "out = o2" "sp_round s' = sp_round s2"
      using assms(3) False f by (auto simp: next_round_def Let_def split: if_splits)
    have "snapshot_contains ?snap (V4 a)" if "a \<in> set out" for a
      using d(4) [of a] that choose_buckets_facts(2) [of _ N budget "ps_v4 ?snap" ?s1]
      by (fastforce simp: out(1) masks list_ex_iff)
    moreover have "length out \<le> budget" using d(1) choose_buckets_facts(1) [of N budget "ps_v4 ?snap" ?s1] by (simp add: out(1))
    ultimately show ?thesis using out(2) d(3) False nets by (auto simp: list_all_iff)
  qed
qed

theorem sampler_round_sound_witness:
  "length (fst (next_round sample_cidr (snapshot_new sample_cidr [(ipv4_new 104 16 0 0, 13)] [] None 0 SrcBuiltin) 5
     (sampler_new sampling_config_default))) \<le> 5"
proof -
  obtain out s' where "next_round sample_cidr (snapshot_new sample_cidr [(ipv4_new 104 16 0 0, 13)] [] None 0 SrcBuiltin) 5
     (sampler_new sampling_config_default) = (out, s')"
    by (cases "next_round sample_cidr (snapshot_new sample_cidr [(ipv4_new 104 16 0 0, 13)] [] None 0 SrcBuiltin) 5
     (sampler_new sampling_config_default)")
  from sampler_round_sound [OF cidr_law_sample _ this] this show ?thesis by simp
qed

section \<open>Seed lists\<close>

fun seed_item_ok :: "seed_item \<Rightarrow> bool" where
  "seed_item_ok (SeedAddress addr port) \<longleftrightarrow> (port = Some 0 \<longrightarrow> \<not> is_ipv4 addr)"
| "seed_item_ok (SeedHostname host port) \<longleftrightarrow>
     port \<noteq> Some 0 \<and> CHR ''.'' \<in> set host \<and> length host \<le> 253"

lemma seed_line_facts:
  assumes "seed_line max_items raw (items, st) = (items', st')"
    "length items = sps_accepted st" "length items \<le> max_items"
    "sps_lines st = sps_accepted st + sps_skipped st + sps_malformed st + sps_truncated st"
  shows "length items' = sps_accepted st' \<and> length items' \<le> max_items \<and>
    sps_lines st' = sps_accepted st' + sps_skipped st' + sps_malformed st' + sps_truncated st' \<and>
    sps_lines st' = Suc (sps_lines st) \<and>
    set items' \<subseteq> set items \<union> {i. \<exists>e. parse_seed_entry e = Some i}"
  using assms by (auto simp: seed_line_def Let_def split: if_splits option.splits)

lemma seed_fold_facts:
  assumes "fold (seed_line max_items) ls (items, st) = (items', st')"
    "length items = sps_accepted st" "length items \<le> max_items"
    "sps_lines st = sps_accepted st + sps_skipped st + sps_malformed st + sps_truncated st"
  shows "length items' = sps_accepted st' \<and> length items' \<le> max_items \<and>
    sps_lines st' = sps_accepted st' + sps_skipped st' + sps_malformed st' + sps_truncated st' \<and>
    sps_lines st' = sps_lines st + length ls \<and>
    set items' \<subseteq> set items \<union> {i. \<exists>e. parse_seed_entry e = Some i}"
  using assms
proof (induction ls arbitrary: items st)
  case (Cons l ls)
  obtain i1 st1 where l: "seed_line max_items l (items, st) = (i1, st1)" by (cases "seed_line max_items l (items, st)")
  note f = seed_line_facts [OF l Cons.prems(2-4)]
  have "fold (seed_line max_items) ls (i1, st1) = (items', st')" using Cons.prems(1) l by simp
  from Cons.IH [OF this] f show ?case by auto
qed simp

lemma validate_hostname_facts:
  assumes "validate_hostname raw = Some host"
  shows "CHR ''.'' \<in> set host" "length host \<le> 253"
proof -
  define t where "t = trim_end_matches CHR ''.'' raw"
  have t: "CHR ''.'' \<in> set t" "length t \<le> 253" "host = to_ascii_lowercase t"
    using assms by (auto simp: validate_hostname_def Let_def t_def split: if_splits)
  have "to_ascii_lower_char CHR ''.'' = CHR ''.''" by (simp add: to_ascii_lower_char_def)
  then show "CHR ''.'' \<in> set host" using t by (force simp: to_ascii_lowercase_def image_iff)
  show "length host \<le> 253" using t by (simp add: to_ascii_lowercase_def)
qed

lemma socket_parse_bracket:
  "starts_with s ''['' \<Longrightarrow> socket_parse s = Some (ip, port) \<Longrightarrow> \<not> is_ipv4 ip"
  by (cases s) (auto simp: starts_with_def socket_parse_def split: list.splits if_splits option.splits)

lemma parse_seed_entry_ok:
  assumes "parse_seed_entry e = Some item"
  shows "seed_item_ok item"
proof (cases "starts_with e ''[''")
  case True
  then show ?thesis using assms socket_parse_bracket [OF True]
    by (auto simp: parse_seed_entry_def split: if_splits)
next
  case False
  then show ?thesis using assms validate_hostname_facts
    by (auto simp: parse_seed_entry_def split: if_splits option.splits)
qed

text \<open>
  A seed list is bounded and accounted for: at most the configured number of items is accepted
  from at most 100000 lines, every line is counted once as accepted, skipped, malformed or dropped
  by the limit, the items are as many as the count of accepted ones, and an item is an address or a
  dotted host name of at most 253 characters. A port of zero is refused for host names and IPv4
  addresses.
\<close>

theorem seed_parse_accounting:
  assumes "parse_seeds body max_items = Inr (items, st)"
  shows "length items = sps_accepted st \<and> length items \<le> max_items \<and>
    sps_lines st = sps_accepted st + sps_skipped st + sps_malformed st + sps_truncated st \<and>
    sps_lines st = length (str_lines (byte_text body)) \<and> sps_lines st \<le> 100000 \<and> list_all seed_item_ok items"
proof -
  let ?z = "\<lparr>sps_lines = 0, sps_accepted = 0, sps_skipped = 0, sps_malformed = 0, sps_truncated = 0\<rparr>"
  have f: "fold (seed_line max_items) (str_lines (byte_text body)) ([], ?z) = (items, st)"
    "length (str_lines (byte_text body)) \<le> 100000"
    using assms by (auto simp: parse_seeds_def Let_def split: if_splits)
  from seed_fold_facts [OF f(1)] f(2) parse_seed_entry_ok show ?thesis
    by (auto simp: list_all_iff)
qed

theorem seed_parse_accounting_witness:
  "\<exists>items st. parse_seeds [0x23] 1 = Inr (items, st) \<and> sps_lines st = 1 \<and> length items \<le> 1"
proof -
  have t: "byte_text [0x23] = ''#''" "utf8_lossy [0x23] = [0x23]"
    by (simp_all add: byte_text_def char_of_def bit_0 utf8_head.simps)
  obtain items st where p: "parse_seeds [0x23] 1 = Inr (items, st)"
    unfolding parse_seeds_def t Let_def
    by (cases "fold (seed_line 1) (str_lines ''#'') ([], \<lparr>sps_lines = 0, sps_accepted = 0, sps_skipped = 0,
          sps_malformed = 0, sps_truncated = 0\<rparr>)")
      (simp add: ascii_space_def starts_with_def str_lines_def)
  from seed_parse_accounting [OF this] this show ?thesis
    by (auto simp: t str_lines_def strip_cr_def)
qed

text \<open>An IPv6 entry in brackets is accepted with the port zero that the other forms refuse.\<close>

lemma bracketed_port_zero:
  "parse_seed_entry ''[::1]:0'' = Some (SeedAddress (V6 1) (Some 0))" "parse_seed_entry ''1.1.1.1:0'' = None"
proof -
  have "replicate 7 (0 :: nat) = [0, 0, 0, 0, 0, 0, 0]" by (simp add: numeral_eq_Suc)
  then show "parse_seed_entry ''[::1]:0'' = Some (SeedAddress (V6 1) (Some 0))" "parse_seed_entry ''1.1.1.1:0'' = None"
    by (simp_all add: parse_seed_entry_def starts_with_def socket_parse_def strip_scope_def ipv6_parse_def
        split_double_colon.simps parse_groups_def parse_group_def hex_value_def of_segments_def parse_port_def is_digit_def
        dec_value_def ip_parse_def ipv4_parse_def parse_octet_def rsplit_colon_def split_once_def parse_u16_def)
qed

end
