(* ===== verification/Probe.thy ===== *)
theory Probe
  imports Cloudflare Quality
begin

unbundle bit_operations_syntax

text \<open>
  Active probing: the offer gate (\<^verbatim>\<open>probe/gate.rs\<close>), the jobs and their bounded queue
  (\<^verbatim>\<open>probe/job.rs\<close>), the safety guard (\<^verbatim>\<open>probe/safety.rs\<close>), the outcome of an HTTP exchange
  (\<^verbatim>\<open>probe/http.rs\<close>) and the engine that runs a job and records what it learned
  (\<^verbatim>\<open>probe/engine.rs\<close>).

  Connecting is outside: the result of the exchange with an address, over TCP and over QUIC, is an
  argument of the engine (\<open>probe_env\<close>), and a step returns the addresses it dialled. A \<^verbatim>\<open>HashMap\<close> is an
  association list with distinct keys.
\<close>

section \<open>The offer gate\<close>

definition GATE_MAX_ENTRIES :: nat where "GATE_MAX_ENTRIES = 8192"

record offer_key =
  ofk_addr :: ipaddr
  ofk_port :: u16
  ofk_hostname :: string

type_synonym offer_gate = "(offer_key \<times> instant) list"

definition jittered :: "duration \<Rightarrow> offer_key \<Rightarrow> duration" where
  "jittered cooldown key =
     (let hash = fnv1a64 (ascii_bytes (ip_text (ofk_addr key)) @ u16_to_be_bytes (ofk_port key) @
                          ascii_bytes (ofk_hostname key));
          tenths = 8 + unat hash mod 5
      in cooldown * tenths div 10)"

definition hm_insert :: "'k \<Rightarrow> 'v \<Rightarrow> ('k \<times> 'v) list \<Rightarrow> ('k \<times> 'v) list" where
  "hm_insert k v m = entry_or_default k (\<lambda>_. v) v m"

definition gate_compact :: "instant \<Rightarrow> duration \<Rightarrow> offer_gate \<Rightarrow> offer_gate" where
  "gate_compact now window seen0 =
     (if length seen0 < GATE_MAX_ENTRIES then seen0
      else
        (let seen = filter (\<lambda>(_, t). now - t < window) seen0 in
         if length seen < GATE_MAX_ENTRIES then seen
         else fold without
                (map fst (take (length seen - length seen div 4) (sort_key snd seen))) seen))"

definition gate_allow ::
  "ipaddr \<Rightarrow> u16 \<Rightarrow> string \<Rightarrow> duration \<Rightarrow> instant \<Rightarrow> offer_gate \<Rightarrow> bool \<times> offer_gate" where
  "gate_allow addr port hostname cooldown now seen =
     (let key = \<lparr>ofk_addr = addr, ofk_port = port, ofk_hostname = hostname\<rparr>;
          window = jittered cooldown key
      in if (case map_of seen key of Some t \<Rightarrow> now - t < window | None \<Rightarrow> False) then (False, seen)
         else (True, hm_insert key now (gate_compact now window seen)))"

section \<open>Jobs\<close>

datatype probe_job =
    JobObserved (job_hostname0: string) (job_addr: ipaddr) (job_port: u16) (job_cloudflare: bool) (job_generation: u64)
  | JobCandidate (job_addr: ipaddr) (job_port: u16) (job_generation: u64)
  | JobValidate (job_hostname0: string) (job_addr: ipaddr) (job_port: u16) (job_generation: u64)
  | JobBaseline (job_hostname0: string) (job_addr: ipaddr) (job_port: u16) (job_generation: u64)

fun job_hostname :: "probe_job \<Rightarrow> string option" where
  "job_hostname (JobObserved h _ _ _ _) = Some h"
| "job_hostname (JobValidate h _ _ _) = Some h"
| "job_hostname (JobBaseline h _ _ _) = Some h"
| "job_hostname (JobCandidate _ _ _) = None"

fun job_kind :: "probe_job \<Rightarrow> string" where
  "job_kind (JobObserved _ _ _ _ _) = ''observed''"
| "job_kind (JobCandidate _ _ _) = ''candidate''"
| "job_kind (JobValidate _ _ _ _) = ''validate''"
| "job_kind (JobBaseline _ _ _ _) = ''baseline''"

text \<open>The queue: the jobs in the channel and its capacity; no channel when probing can never run.\<close>

record probe_queue =
  jq_channel :: "(probe_job list \<times> nat) option"
  jq_enabled :: bool

definition queue_is_enabled :: "probe_queue \<Rightarrow> bool" where
  "queue_is_enabled q \<longleftrightarrow> jq_channel q \<noteq> None \<and> jq_enabled q"

definition queue_set_enabled :: "bool \<Rightarrow> probe_queue \<Rightarrow> probe_queue" where
  "queue_set_enabled b q = q\<lparr>jq_enabled := b\<rparr>"

definition queue_offer :: "probe_job \<Rightarrow> probe_queue \<Rightarrow> bool \<times> probe_queue" where
  "queue_offer job q =
     (if \<not> jq_enabled q then (False, q)
      else case jq_channel q of
        None \<Rightarrow> (False, q)
      | Some (jobs, cap) \<Rightarrow>
          if length jobs < cap then (True, q\<lparr>jq_channel := Some (jobs @ [job], cap)\<rparr>) else (False, q))"

definition queue_depth :: "probe_queue \<Rightarrow> nat" where
  "queue_depth q = (case jq_channel q of Some (jobs, _) \<Rightarrow> length jobs | None \<Rightarrow> 0)"

section \<open>The safety guard\<close>

datatype refusal = RefSpecialUse | RefPortNotAllowed | RefAddressCooldown | RefPrefixCooldown
  | RefDomainCooldown | RefRateLimited | RefBandwidthBudget

fun refusal_label :: "refusal \<Rightarrow> string" where
  "refusal_label RefSpecialUse = ''special_use''"
| "refusal_label RefPortNotAllowed = ''port_not_allowed''"
| "refusal_label RefAddressCooldown = ''address_cooldown''"
| "refusal_label RefPrefixCooldown = ''prefix_cooldown''"
| "refusal_label RefDomainCooldown = ''domain_cooldown''"
| "refusal_label RefRateLimited = ''rate_limited''"
| "refusal_label RefBandwidthBudget = ''bandwidth_budget''"

definition is_cooldown :: "refusal \<Rightarrow> bool" where
  "is_cooldown r \<longleftrightarrow> r \<in> {RefAddressCooldown, RefPrefixCooldown, RefDomainCooldown}"

datatype probe_error = PePolicyBlocked string | PeConnect | PeTls | PeHttp | PeQuic | PeTimeout | PeUnsupported

definition refusal_error :: "refusal \<Rightarrow> probe_error" where
  "refusal_error r = PePolicyBlocked (refusal_label r)"

record guard_limits =
  gl_allow_special :: "ipnet list"
  gl_allowed_ports :: "u16 list"
  gl_per_ip :: duration
  gl_per_prefix :: duration
  gl_per_domain :: duration
  gl_connections_per_second :: u32
  gl_daily_bandwidth :: u64

definition limits_from_config :: "probe_config \<Rightarrow> guard_limits" where
  "limits_from_config cfg =
     \<lparr>gl_allow_special = pb_allow_special_use_targets cfg,
      gl_allowed_ports = remdups_adj (sort (pb_extra_ports cfg)),
      gl_per_ip = pb_per_ip_cooldown cfg, gl_per_prefix = pb_per_prefix_cooldown cfg,
      gl_per_domain = pb_per_domain_cooldown cfg,
      gl_connections_per_second = pb_global_connections_per_second cfg,
      gl_daily_bandwidth = pb_daily_bandwidth_budget_bytes cfg\<rparr>"

record guard =
  gd_limits :: guard_limits
  gd_ip_seen :: "(ipaddr \<times> instant) list"
  gd_prefix_seen :: "((ipaddr \<times> nat) \<times> instant) list"
  gd_domain_seen :: "((string \<times> ipaddr) \<times> instant) list"
  gd_window_start :: "instant option"
  gd_window_count :: u32
  gd_bandwidth_day :: "instant option"
  gd_bandwidth_used :: u64
  gd_last_prune :: "instant option"

definition guard_new :: "probe_config \<Rightarrow> guard" where
  "guard_new cfg =
     \<lparr>gd_limits = limits_from_config cfg, gd_ip_seen = [], gd_prefix_seen = [], gd_domain_seen = [],
      gd_window_start = None, gd_window_count = 0, gd_bandwidth_day = None, gd_bandwidth_used = 0,
      gd_last_prune = None\<rparr>"

definition update_limits :: "probe_config \<Rightarrow> guard \<Rightarrow> guard" where
  "update_limits cfg g = g\<lparr>gd_limits := limits_from_config cfg\<rparr>"

definition address_allowed :: "ipnet_lib \<Rightarrow> guard_limits \<Rightarrow> ipaddr \<Rightarrow> bool" where
  "address_allowed L limits addr =
     (case classify L addr of
        None \<Rightarrow> True
      | Some class \<Rightarrow>
          if class \<in> {LinkLocal, CloudMetadata, Loopback, Multicast, Unspecified} then False
          else list_ex (\<lambda>n. net_contains L n addr) (gl_allow_special limits))"

definition port_allowed :: "guard_limits \<Rightarrow> u16 \<Rightarrow> bool \<Rightarrow> bool" where
  "port_allowed limits port declared \<longleftrightarrow> port \<noteq> 0 \<and> (declared \<or> port \<in> set (gl_allowed_ports limits))"

fun covering_prefix :: "ipaddr \<Rightarrow> ipaddr \<times> nat" where
  "covering_prefix (V4 a) = (V4 (a AND 0xffffff00), 24)"
| "covering_prefix (V6 a) = (V6 (a AND NOT (push_bit 80 1 - 1)), 48)"

definition PRUNE_MAX_ENTRIES :: nat where "PRUNE_MAX_ENTRIES = 50000"

definition truncate_oldest :: "('k \<times> instant) list \<Rightarrow> nat \<Rightarrow> ('k \<times> instant) list" where
  "truncate_oldest m limit =
     (if length m \<le> limit then m
      else (let cutoff = sort (map snd m) ! (length m - limit) in filter (\<lambda>(_, t). cutoff \<le> t) m))"

definition prune :: "instant \<Rightarrow> duration \<Rightarrow> guard \<Rightarrow> guard" where
  "prune now horizon g =
     (let due = (case gd_last_prune g of None \<Rightarrow> True | Some t \<Rightarrow> from_secs 30 \<le> now - t);
          over = PRUNE_MAX_ENTRIES < length (gd_ip_seen g) \<or> PRUNE_MAX_ENTRIES < length (gd_prefix_seen g) \<or>
                 PRUNE_MAX_ENTRIES < length (gd_domain_seen g)
      in if \<not> due \<and> \<not> over then g
         else g\<lparr>gd_last_prune := Some now,
           gd_ip_seen := truncate_oldest (filter (\<lambda>(_, t). now - t < horizon) (gd_ip_seen g)) PRUNE_MAX_ENTRIES,
           gd_prefix_seen :=
             truncate_oldest (filter (\<lambda>(_, t). now - t < horizon) (gd_prefix_seen g)) PRUNE_MAX_ENTRIES,
           gd_domain_seen :=
             truncate_oldest (filter (\<lambda>(_, t). now - t < horizon) (gd_domain_seen g)) PRUNE_MAX_ENTRIES\<rparr>)"

definition cooling :: "('k \<times> instant) list \<Rightarrow> 'k \<Rightarrow> instant \<Rightarrow> duration \<Rightarrow> bool" where
  "cooling m k now cooldown = (case map_of m k of Some t \<Rightarrow> now - t < cooldown | None \<Rightarrow> False)"

definition roll_window :: "instant \<Rightarrow> guard \<Rightarrow> guard" where
  "roll_window now g =
     (if (case gd_window_start g of None \<Rightarrow> True | Some start \<Rightarrow> from_secs 1 \<le> now - start)
      then g\<lparr>gd_window_start := Some now, gd_window_count := 0\<rparr> else g)"

definition day_expired :: "instant \<Rightarrow> guard \<Rightarrow> bool" where
  "day_expired now g =
     (case gd_bandwidth_day g of None \<Rightarrow> True | Some start \<Rightarrow> from_secs 86400 \<le> now - start)"

definition note_probe :: "ipaddr \<Rightarrow> string option \<Rightarrow> instant \<Rightarrow> guard \<Rightarrow> guard" where
  "note_probe addr hostname now g =
     g\<lparr>gd_window_count := gd_window_count g + 1,
       gd_ip_seen := hm_insert addr now (gd_ip_seen g),
       gd_prefix_seen := hm_insert (covering_prefix addr) now (gd_prefix_seen g),
       gd_domain_seen :=
         (case hostname of Some host \<Rightarrow> hm_insert (host, addr) now (gd_domain_seen g) | None \<Rightarrow> gd_domain_seen g)\<rparr>"

definition guard_admit ::
  "ipnet_lib \<Rightarrow> ipaddr \<Rightarrow> u16 \<Rightarrow> bool \<Rightarrow> string option \<Rightarrow> instant \<Rightarrow> guard \<Rightarrow> (refusal + unit) \<times> guard" where
  "guard_admit L addr port declared_port hostname now g0 =
     (let limits = gd_limits g0 in
      if \<not> address_allowed L limits addr then (Inl RefSpecialUse, g0)
      else if \<not> port_allowed limits port declared_port then (Inl RefPortNotAllowed, g0)
      else if gl_daily_bandwidth limits \<le> gd_bandwidth_used g0 \<and> \<not> day_expired now g0
      then (Inl RefBandwidthBudget, g0)
      else
        (let g1 = (if gl_daily_bandwidth limits \<le> gd_bandwidth_used g0
                   then g0\<lparr>gd_bandwidth_day := Some now, gd_bandwidth_used := 0\<rparr> else g0);
             g = roll_window now g1
         in if gl_connections_per_second limits \<le> gd_window_count g then (Inl RefRateLimited, g)
            else if cooling (gd_ip_seen g) addr now (gl_per_ip limits) then (Inl RefAddressCooldown, g)
            else if cooling (gd_prefix_seen g) (covering_prefix addr) now (gl_per_prefix limits)
            then (Inl RefPrefixCooldown, g)
            else if (case hostname of
                       Some host \<Rightarrow> cooling (gd_domain_seen g) (host, addr) now (gl_per_domain limits)
                     | None \<Rightarrow> False)
            then (Inl RefDomainCooldown, g)
            else (Inr (), prune now (max (gl_per_ip limits) (gl_per_domain limits))
                            (note_probe addr hostname now g))))"

definition consume_bandwidth :: "u64 \<Rightarrow> instant \<Rightarrow> guard \<Rightarrow> u64 \<times> guard" where
  "consume_bandwidth bs now g =
     (let g1 = (if day_expired now g then g\<lparr>gd_bandwidth_day := Some now, gd_bandwidth_used := 0\<rparr> else g);
          used = sat_add (gd_bandwidth_used g1) bs
      in (sat_sub (gl_daily_bandwidth (gd_limits g1)) used, g1\<lparr>gd_bandwidth_used := used\<rparr>))"

definition guard_tracked :: "guard \<Rightarrow> nat" where
  "guard_tracked g = length (gd_ip_seen g) + length (gd_prefix_seen g) + length (gd_domain_seen g)"

section \<open>The HTTP exchange\<close>

datatype probe_method = MethodHead | MethodGet

definition probe_method_parse :: "string \<Rightarrow> probe_method option" where
  "probe_method_parse s =
     (let u = to_ascii_uppercase s in
      if u = ''HEAD'' then Some MethodHead else if u = ''GET'' then Some MethodGet else None)"

record http_probe_request =
  hq_ip :: ipaddr
  hq_port :: u16
  hq_hostname :: string
  hq_path :: string
  hq_method :: probe_method
  hq_alpn :: "string list"
  hq_connect_timeout :: duration
  hq_tls_timeout :: duration
  hq_http_timeout :: duration
  hq_max_body_bytes :: nat

record captured_leaf =
  lf_spki_sha256 :: "bytes option"
  lf_issuer_cn :: "string option"

record http_probe_outcome =
  ho_tcp :: duration
  ho_tls :: duration
  ho_ttfb :: duration
  ho_total :: duration
  ho_status :: u16
  ho_alpn :: "string option"
  ho_headers :: "(string \<times> string) list"
  ho_body :: bytes
  ho_body_sha256 :: bytes
  ho_leaf :: "captured_leaf option"

definition outcome_header :: "http_probe_outcome \<Rightarrow> string \<Rightarrow> string option" where
  "outcome_header o' name =
     map_option snd (List.find (\<lambda>(k, _). eq_ignore_ascii_case k name) (ho_headers o'))"

definition cf_colo :: "http_probe_outcome \<Rightarrow> string option" where
  "cf_colo o' = map_option (\<lambda>r. last (split_on CHR ''-'' r)) (outcome_header o' ''cf-ray'')"

text \<open>
  The body is read frame by frame: a frame of data, a frame of something else, or the end (the stream
  ended, failed or the deadline passed).
\<close>

datatype body_frame = FrameData bytes | FrameOther | FrameEnd

fun read_body :: "nat \<Rightarrow> body_frame list \<Rightarrow> bytes \<Rightarrow> bytes" where
  "read_body limit [] body = body"
| "read_body limit (f # fs) body =
     (if limit \<le> length body then body
      else case f of
        FrameEnd \<Rightarrow> body
      | FrameOther \<Rightarrow> read_body limit fs body
      | FrameData data \<Rightarrow>
          (let n = min (limit - length body) (length data) in
           if n < length data then body @ take n data else read_body limit fs (body @ take n data)))"

section \<open>The engine\<close>

record subsystem_health =
  sh_healthy :: bool
  sh_consecutive_failures :: u32
  sh_distinct_failures :: u32
  sh_threshold :: u32

definition subsystem_health_new :: "u32 \<Rightarrow> subsystem_health" where
  "subsystem_health_new threshold =
     \<lparr>sh_healthy = True, sh_consecutive_failures = 0, sh_distinct_failures = 0, sh_threshold = max threshold 4\<rparr>"

definition health_record_success :: "subsystem_health \<Rightarrow> subsystem_health" where
  "health_record_success h =
     h\<lparr>sh_consecutive_failures := 0, sh_distinct_failures := 0, sh_healthy := True\<rparr>"

definition health_record_failure :: "subsystem_health \<Rightarrow> subsystem_health" where
  "health_record_failure h =
     (let n = sh_consecutive_failures h + 1 in
      h\<lparr>sh_consecutive_failures := n, sh_distinct_failures := sh_distinct_failures h + 1,
        sh_healthy := (if sh_threshold h \<le> n then False else sh_healthy h)\<rparr>)"

definition health_classify :: "subsystem_health \<Rightarrow> probe_error \<Rightarrow> observation_class" where
  "health_classify h e =
     (if \<not> sh_healthy h then ObsAmbiguousFailure
      else case e of
        PePolicyBlocked _ \<Rightarrow> ObsPolicyBlocked
      | PeUnsupported \<Rightarrow> ObsUnsupported
      | PeTimeout \<Rightarrow> ObsTimeout
      | PeConnect \<Rightarrow> ObsApplicableFailure
      | PeTls \<Rightarrow> ObsApplicableFailure
      | PeHttp \<Rightarrow> ObsApplicableFailure
      | PeQuic \<Rightarrow> ObsUnsupported)"

datatype probe_intent = IntentBaseline | IntentValidate | IntentCandidate

fun intent_label :: "probe_intent \<Rightarrow> string" where
  "intent_label IntentBaseline = ''baseline''"
| "intent_label IntentValidate = ''validate''"
| "intent_label IntentCandidate = ''candidate''"

record probe_engine =
  pe_guard :: guard
  pe_health :: subsystem_health
  pe_quality :: quality_store
  pe_cloudflare :: cf_state

definition estimated_probe_bytes :: "probe_error + http_probe_outcome \<Rightarrow> u64" where
  "estimated_probe_bytes outcome =
     (case outcome of
        Inr result \<Rightarrow>
          6000 + of_nat (length (ho_body result)) +
          of_nat (sum_list (map (\<lambda>(k, v). length k + length v + 4) (ho_headers result)))
      | Inl _ \<Rightarrow> 6000 div 2)"

definition profile_matches :: "string \<Rightarrow> probe_profile \<Rightarrow> bool" where
  "profile_matches h p =
     list_ex (\<lambda>raw.
       (let d = to_ascii_lowercase (trim_end_matches CHR ''.'' raw) in
        if starts_with d ''.'' then h = drop 1 d \<or> ends_with h d else h = d)) (pp_domains p)"

definition profile_for :: "probe_config \<Rightarrow> string \<Rightarrow> probe_profile option" where
  "profile_for cfg hostname =
     List.find (profile_matches (to_ascii_lowercase (trim_end_matches CHR ''.'' hostname))) (pb_profiles cfg)"

definition accepts :: "probe_profile option \<Rightarrow> http_probe_outcome \<Rightarrow> bool" where
  "accepts prof o' =
     (if ho_status o' = 421 then False
      else case prof of
        None \<Rightarrow> 100 \<le> ho_status o' \<and> ho_status o' < 600
      | Some p \<Rightarrow>
          ho_status o' \<in> set (pp_allowed_status p) \<and>
          (case pp_required_header p of
             None \<Rightarrow> True
           | Some required \<Rightarrow>
               (case outcome_header o' (rq_name required) of
                  None \<Rightarrow> False
                | Some value \<Rightarrow>
                    (case rq_value required of
                       None \<Rightarrow> True
                     | Some expected \<Rightarrow> eq_ignore_ascii_case value expected))) \<and>
          (case pp_body_sha256 p of
             None \<Rightarrow> True
           | Some expected \<Rightarrow> hex_encode (ho_body_sha256 o') = to_ascii_lowercase expected) \<and>
          (pp_spki_sha256 p = [] \<or>
             (case Option.bind (ho_leaf o') lf_spki_sha256 of
                None \<Rightarrow> False
              | Some spki \<Rightarrow> list_ex (\<lambda>x. to_ascii_lowercase x = hex_encode spki) (pp_spki_sha256 p))) \<and>
          (case pp_required_issuer_cn p of
             None \<Rightarrow> True
           | Some expected \<Rightarrow>
               (case Option.bind (ho_leaf o') lf_issuer_cn of
                  None \<Rightarrow> False
                | Some cn \<Rightarrow> contains_str cn expected)))"

definition probe_host :: "string list \<Rightarrow> ipaddr \<Rightarrow> string" where
  "probe_host hosts addr =
     (if hosts = [] then ''speed.cloudflare.com''
      else hosts ! (unat (fnv1a64 (ascii_bytes (ip_text addr))) mod length hosts))"

text \<open>
  What the engine meets: the live configuration (nothing once the runtime is gone), the result of the
  HTTP probe and of the QUIC probe for a request, the generation of the network, whether shutdown
  began, and the wall clock.
\<close>

record probe_env =
  pv_config :: "config_tree option"
  pv_http :: "http_probe_request \<Rightarrow> probe_error + http_probe_outcome"
  pv_quic :: "http_probe_request \<Rightarrow> duration option"
  pv_generation :: u64
  pv_cancelled :: bool
  pv_unix :: u64

definition engine_record ::
  "config_tree \<Rightarrow> probe_env \<Rightarrow> probe_key \<Rightarrow> observation_class \<Rightarrow> duration option \<Rightarrow> instant \<Rightarrow>
     probe_engine \<Rightarrow> probe_engine" where
  "engine_record cfg env key class latency now e =
     e\<lparr>pe_quality :=
         quality_store_record key class latency (pv_generation env) now (cfg_ranking cfg) (pe_quality e)\<rparr>"

definition probe_request :: "probe_config \<Rightarrow> ipaddr \<Rightarrow> u16 \<Rightarrow> string \<Rightarrow> http_probe_request" where
  "probe_request cfg addr port host =
     (let prof = profile_for cfg host in
      \<lparr>hq_ip = addr, hq_port = port, hq_hostname = host,
       hq_path = (case prof of Some p \<Rightarrow> pp_path p | None \<Rightarrow> ''/''),
       hq_method = (case Option.bind prof (\<lambda>p. probe_method_parse (pp_method p)) of
                      Some m \<Rightarrow> m | None \<Rightarrow> MethodHead),
       hq_alpn = (case prof of Some p \<Rightarrow> pp_alpn p | None \<Rightarrow> [''h2'', ''http/1.1'']),
       hq_connect_timeout = pb_tcp_timeout cfg, hq_tls_timeout = pb_tls_timeout cfg,
       hq_http_timeout = pb_http_timeout cfg, hq_max_body_bytes = pb_max_response_bytes cfg\<rparr>)"

definition probe_http3 ::
  "config_tree \<Rightarrow> probe_env \<Rightarrow> http_probe_request \<Rightarrow> instant \<Rightarrow> probe_engine \<Rightarrow> probe_engine" where
  "probe_http3 cfg env req now e =
     (case pv_quic env req of
        Some handshake \<Rightarrow>
          engine_record cfg env (probe_key_quic (hq_ip req) (hq_port req)) ObsSuccess (Some handshake) now e
      | None \<Rightarrow> engine_record cfg env (probe_key_quic (hq_ip req) (hq_port req)) ObsUnsupported None now e)"

text \<open>What an exchange that completed leaves behind.\<close>

definition note_result ::
  "config_tree \<Rightarrow> probe_env \<Rightarrow> http_probe_request \<Rightarrow> probe_intent \<Rightarrow> http_probe_outcome \<Rightarrow> instant \<Rightarrow>
     probe_engine \<Rightarrow> probe_engine" where
  "note_result cfg env req intent result now e0 =
     (let addr = hq_ip req; port = hq_port req; host = hq_hostname req;
          accepted = accepts (profile_for (ct_probe cfg) host) result;
          e1 = e0\<lparr>pe_health := health_record_success (pe_health e0)\<rparr>;
          class = (if accepted then ObsSuccess else ObsApplicableFailure);
          e2 = engine_record cfg env (probe_key_https addr port host) class
                 (Some (ho_tcp result + ho_tls result + ho_ttfb result)) now e1;
          e3 = engine_record cfg env (probe_key_generic addr port) class (Some (ho_tcp result)) now e2;
          colo = cf_colo result;
          cf = (case intent of
                  IntentBaseline \<Rightarrow> set_baseline host accepted (pv_unix env) (pe_cloudflare e3)
                | IntentValidate \<Rightarrow> record_validation host addr accepted colo now (pe_cloudflare e3)
                | IntentCandidate \<Rightarrow> pe_cloudflare e3)
      in e3\<lparr>pe_cloudflare :=
           cf\<lparr>fs_pool := record_stage addr (if accepted then StageHttpOk else StageTlsOk) accepted colo now
                (fs_pool cf)\<rparr>\<rparr>)"

text \<open>What an exchange that failed leaves behind.\<close>

definition note_failure ::
  "config_tree \<Rightarrow> probe_env \<Rightarrow> http_probe_request \<Rightarrow> probe_intent \<Rightarrow> probe_error \<Rightarrow> instant \<Rightarrow>
     probe_engine \<Rightarrow> probe_engine" where
  "note_failure cfg env req intent err now e0 =
     (let addr = hq_ip req; port = hq_port req; host = hq_hostname req;
          class = health_classify (pe_health e0) err;
          e1 = (if class = ObsApplicableFailure
                then e0\<lparr>pe_health := health_record_failure (pe_health e0)\<rparr> else e0);
          e2 = engine_record cfg env (probe_key_https addr port host) class None now e1;
          e3 = (if err = PeConnect \<or> err = PeTimeout
                then engine_record cfg env (probe_key_generic addr port) class None now e2 else e2);
          cf = (if intent = IntentValidate \<and> class = ObsApplicableFailure
                then record_validation host addr False None now (pe_cloudflare e3)
                else pe_cloudflare e3)
      in e3\<lparr>pe_cloudflare := cf\<lparr>fs_pool := record_stage addr StageNew False None now (fs_pool cf)\<rparr>\<rparr>)"

definition run_https ::
  "ipnet_lib \<Rightarrow> probe_env \<Rightarrow> ipaddr \<Rightarrow> u16 \<Rightarrow> string \<Rightarrow> u16 option \<Rightarrow> probe_intent \<Rightarrow> instant \<Rightarrow>
     probe_engine \<Rightarrow> http_probe_request list \<times> probe_engine" where
  "run_https L env addr port hostname declared_port intent now e0 =
     (case pv_config env of
        None \<Rightarrow> ([], e0)
      | Some cfg \<Rightarrow>
          if \<not> pb_enabled (ct_probe cfg) then ([], e0)
          else
            (let g0 = update_limits (ct_probe cfg) (pe_guard e0);
                 host = trim_end_matches CHR ''.'' hostname
             in case guard_admit L addr port (declared_port \<noteq> None) (Some host) now g0 of
                  (Inl refusal, g) \<Rightarrow>
                    ([], if is_cooldown refusal then e0\<lparr>pe_guard := g\<rparr>
                         else engine_record cfg env (probe_key_https addr port host) ObsPolicyBlocked None now
                                (e0\<lparr>pe_guard := g\<rparr>))
                | (Inr _, g) \<Rightarrow>
                    (let req = probe_request (ct_probe cfg) addr port host;
                         outcome = pv_http env req;
                         e1 = e0\<lparr>pe_guard := snd (consume_bandwidth (estimated_probe_bytes outcome) now g)\<rparr>;
                         e2 = (case outcome of
                                 Inr result \<Rightarrow>
                                   if pb_enable_http3 (ct_probe cfg) \<and> \<not> pv_cancelled env \<and>
                                      (ho_alpn result = Some ''h2'' \<or> outcome_header result ''alt-svc'' \<noteq> None)
                                   then probe_http3 cfg env req now e1 else e1
                               | Inl _ \<Rightarrow> e1)
                     in ([req],
                         case outcome of
                           Inr result \<Rightarrow> note_result cfg env req intent result now e2
                         | Inl err \<Rightarrow> note_failure cfg env req intent err now e2))))"

definition execute_job ::
  "ipnet_lib \<Rightarrow> probe_env \<Rightarrow> probe_job \<Rightarrow> instant \<Rightarrow> probe_engine \<Rightarrow> http_probe_request list \<times> probe_engine" where
  "execute_job L env job now e =
     (if job_generation job \<noteq> pv_generation env then ([], e)
      else case job of
        JobObserved hostname addr port cf _ \<Rightarrow>
          (let e1 = (if cf
                     then e\<lparr>pe_cloudflare := (pe_cloudflare e)
                            \<lparr>fs_pool := snd (admit L addr OriginDnsAnswer (fs_prefixes (pe_cloudflare e))
                                 (pv_generation env) now None (fs_pool (pe_cloudflare e)))\<rparr>\<rparr>
                     else e)
           in run_https L env addr port hostname None IntentBaseline now e1)
      | JobBaseline hostname addr port _ \<Rightarrow> run_https L env addr port hostname None IntentBaseline now e
      | JobValidate hostname addr port _ \<Rightarrow> run_https L env addr port hostname None IntentValidate now e
      | JobCandidate addr port _ \<Rightarrow>
          run_https L env addr port
            (case pv_config env of
               None \<Rightarrow> ''speed.cloudflare.com''
             | Some cfg \<Rightarrow> probe_host (cl_probe_hosts (ct_cloudflare cfg)) addr)
            None IntentCandidate now e)"

text \<open>The workers run jobs one after another or interleaved; each step of the engine is atomic here.\<close>

fun execute_jobs ::
  "ipnet_lib \<Rightarrow> (probe_env \<times> probe_job \<times> instant) list \<Rightarrow> probe_engine \<Rightarrow> http_probe_request list \<times> probe_engine" where
  "execute_jobs L [] e = ([], e)"
| "execute_jobs L ((env, job, now) # jobs) e =
     (let (d1, e1) = execute_job L env job now e; (d2, e2) = execute_jobs L jobs e1 in (d1 @ d2, e2))"

section \<open>What is dialled\<close>

text \<open>A target the configuration permits.\<close>

definition target_ok :: "ipnet_lib \<Rightarrow> config_tree \<Rightarrow> http_probe_request \<Rightarrow> bool" where
  "target_ok L cfg r \<longleftrightarrow>
     classify L (hq_ip r) \<notin> {Some LinkLocal, Some CloudMetadata, Some Loopback, Some Multicast, Some Unspecified} \<and>
     (is_global_unicast L (hq_ip r) \<or>
        list_ex (\<lambda>n. net_contains L n (hq_ip r)) (pb_allow_special_use_targets (ct_probe cfg))) \<and>
     hq_port r \<noteq> 0 \<and> hq_port r \<in> set (pb_extra_ports (ct_probe cfg)) \<and>
     hq_max_body_bytes r = pb_max_response_bytes (ct_probe cfg)"

lemma guard_admit_allowed:
  assumes "guard_admit L addr port declared host now g = (Inr u, g')"
  shows "address_allowed L (gd_limits g) addr" "port_allowed (gd_limits g) port declared"
  using assms by (auto simp: guard_admit_def Let_def split: if_splits)

lemma run_https_dialled:
  assumes "run_https L env addr port hostname None intent now e = (ds, e')" "r \<in> set ds"
  shows "\<exists>cfg. pv_config env = Some cfg \<and> pb_enabled (ct_probe cfg) \<and> target_ok L cfg r"
proof -
  obtain cfg where c: "pv_config env = Some cfg" "pb_enabled (ct_probe cfg)"
    using assms by (auto simp: run_https_def split: option.splits if_splits)
  let ?g = "update_limits (ct_probe cfg) (pe_guard e)"
  let ?host = "trim_end_matches CHR ''.'' hostname"
  obtain res g where a: "guard_admit L addr port False (Some ?host) now ?g = (res, g)"
    by (cases "guard_admit L addr port False (Some ?host) now ?g")
  have "res = Inr () \<and> r = probe_request (ct_probe cfg) addr port ?host"
    using assms c a by (cases res) (auto simp: run_https_def Let_def)
  moreover from this a have "address_allowed L (limits_from_config (ct_probe cfg)) addr"
    "port_allowed (limits_from_config (ct_probe cfg)) port False"
    using guard_admit_allowed [of L addr port False "Some ?host" now ?g "()" g] by (simp_all add: update_limits_def)
  ultimately have "target_ok L cfg r"
    by (auto simp: target_ok_def address_allowed_def port_allowed_def limits_from_config_def probe_request_def
        is_global_unicast_def Let_def split: option.splits if_splits)
  then show ?thesis using c by blast
qed

lemma execute_job_dialled:
  assumes "execute_job L env job now e = (ds, e')" "r \<in> set ds"
  shows "\<exists>cfg. pv_config env = Some cfg \<and> pb_enabled (ct_probe cfg) \<and> target_ok L cfg r"
  using assms by (cases job) (auto simp: execute_job_def Let_def split: if_splits dest!: run_https_dialled)


section \<open>Cooldowns\<close>

lemma map_of_hm_insert: "map_of (hm_insert k v m) k' = (if k' = k then Some v else map_of m k')"
  by (simp add: hm_insert_def split: option.splits)

lemma length_hm_insert: "length (hm_insert k v m) \<le> Suc (length m)"
  by (simp add: hm_insert_def length_entry_or_default)

lemma map_of_retain:
  "distinct (map fst m) \<Longrightarrow> map_of (filter (\<lambda>(_, t). q t) m) k = (case map_of m k of Some t \<Rightarrow> if q t then Some t else None | None \<Rightarrow> None)"
proof (induction m)
  case (Cons x m)
  obtain k' t where x: "x = (k', t)" by (cases x)
  have "map_of m k' = None" using Cons.prems by (simp add: x map_of_eq_None_iff)
  then show ?case using Cons by (auto simp: x split: option.splits)
qed simp

definition guard_ok :: "guard \<Rightarrow> bool" where
  "guard_ok g \<longleftrightarrow> distinct (map fst (gd_ip_seen g))"

lemma guard_ok_new: "guard_ok (guard_new cfg)"
  by (simp add: guard_ok_def guard_new_def)

lemma truncate_id: "length m \<le> n \<Longrightarrow> truncate_oldest m n = m"
  by (simp add: truncate_oldest_def)

lemma distinct_truncate:
  "distinct (map fst m) \<Longrightarrow> distinct (map fst (truncate_oldest m n))"
  by (simp add: truncate_oldest_def Let_def distinct_map_filter)

lemma distinct_hm_insert: "distinct (map fst m) \<Longrightarrow> distinct (map fst (hm_insert k v m))"
  by (simp add: hm_insert_def distinct_entry_or_default)

lemma guard_ok_admit:
  assumes "guard_ok g"
  shows "guard_ok (snd (guard_admit L addr port declared host now g))"
proof -
  have "guard_ok (roll_window now h) = guard_ok h" for h by (simp add: guard_ok_def roll_window_def)
  moreover have "guard_ok (h\<lparr>gd_bandwidth_day := d, gd_bandwidth_used := b\<rparr>) = guard_ok h" for h d b
    by (simp add: guard_ok_def)
  moreover have "guard_ok (note_probe addr host now h)" if "guard_ok h" for h
    using that by (simp add: guard_ok_def note_probe_def distinct_hm_insert)
  moreover have "guard_ok (prune now z h)" if "guard_ok h" for h z
    using that by (simp add: guard_ok_def prune_def Let_def distinct_truncate distinct_map_filter)
  ultimately show ?thesis using assms by (simp add: guard_admit_def Let_def)
qed

lemma prune_limits [simp]: "gd_limits (prune now horizon g) = gd_limits g"
  by (simp add: prune_def Let_def)

text \<open>The guard after a probe was noted, before it is pruned.\<close>

definition noted :: "ipaddr \<Rightarrow> string option \<Rightarrow> instant \<Rightarrow> guard \<Rightarrow> guard" where
  "noted addr host now g =
     note_probe addr host now (roll_window now
       (if gl_daily_bandwidth (gd_limits g) \<le> gd_bandwidth_used g
        then g\<lparr>gd_bandwidth_day := Some now, gd_bandwidth_used := 0\<rparr> else g))"

lemma noted_simps [simp]:
  "gd_ip_seen (noted addr host now g) = hm_insert addr now (gd_ip_seen g)"
  "gd_limits (noted addr host now g) = gd_limits g"
  by (simp_all add: noted_def note_probe_def roll_window_def)

lemma guard_admit_state:
  assumes "guard_admit L addr port declared host now g = (res, g')"
  shows "res = Inr () \<and>
      g' = prune now (max (gl_per_ip (gd_limits g)) (gl_per_domain (gd_limits g))) (noted addr host now g) \<or>
    res \<noteq> Inr () \<and> gd_ip_seen g' = gd_ip_seen g \<and> gd_limits g' = gd_limits g"
  using assms by (auto simp: guard_admit_def Let_def noted_def roll_window_def split: if_splits)

text \<open>An entry that can still refuse survives an admission, unless the table is full.\<close>

lemma ip_seen_kept:
  assumes "guard_ok g" "map_of (gd_ip_seen g) a = Some t" "t \<le> now" "now - t < gl_per_ip (gd_limits g)"
    "length (gd_ip_seen g) < PRUNE_MAX_ENTRIES"
    "guard_admit L addr port declared host now g = (res, g')"
  shows "gd_limits g' = gd_limits g"
    "\<exists>t'. map_of (gd_ip_seen g') a = Some t' \<and> t \<le> t' \<and> t' \<le> now"
    "length (gd_ip_seen g') \<le> Suc (length (gd_ip_seen g))"
proof -
  let ?h = "max (gl_per_ip (gd_limits g)) (gl_per_domain (gd_limits g))"
  let ?m = "hm_insert addr now (gd_ip_seen g)"
  have lm: "length ?m \<le> PRUNE_MAX_ENTRIES" using length_hm_insert [of addr now "gd_ip_seen g"] assms(5) by simp
  have dm: "distinct (map fst ?m)" using assms(1) by (simp add: guard_ok_def distinct_hm_insert)
  obtain t' where t': "map_of ?m a = Some t'" "t \<le> t'" "t' \<le> now" "now - t' < ?h"
    using assms(2,3,4) by (cases "a = addr") (auto simp: map_of_hm_insert less_max_iff_disj)
  let ?f = "filter (\<lambda>(_, t). now - t < ?h) ?m"
  have f: "map_of ?f a = Some t'" using map_of_retain [OF dm, of "\<lambda>t. now - t < ?h" a] t' by simp
  have lf: "length ?f \<le> length ?m" by (rule length_filter_le)
  then have tr: "truncate_oldest ?f PRUNE_MAX_ENTRIES = ?f" by (intro truncate_id) (use lm in linarith)
  have g: "gd_ip_seen g' = gd_ip_seen g \<or> gd_ip_seen g' = ?m \<or> gd_ip_seen g' = ?f" "gd_limits g' = gd_limits g"
    using guard_admit_state [OF assms(6)] tr by (auto simp: prune_def Let_def)
  show "gd_limits g' = gd_limits g" by (rule g(2))
  show "\<exists>t'. map_of (gd_ip_seen g') a = Some t' \<and> t \<le> t' \<and> t' \<le> now"
    using g(1) t' f assms(2,3) by auto
  show "length (gd_ip_seen g') \<le> Suc (length (gd_ip_seen g))"
    using g(1) le_trans [OF lf length_hm_insert [of addr now "gd_ip_seen g"]]
      length_hm_insert [of addr now "gd_ip_seen g"] by (elim disjE) simp_all
qed

type_synonym admission_request = "ipaddr \<times> u16 \<times> bool \<times> string option \<times> instant"

fun guard_run :: "ipnet_lib \<Rightarrow> admission_request list \<Rightarrow> guard \<Rightarrow> nat \<times> guard" where
  "guard_run L [] g = (0, g)"
| "guard_run L ((addr, port, declared, host, now) # rs) g =
     (case guard_admit L addr port declared host now g of
        (res, g1) \<Rightarrow> (case guard_run L rs g1 of (n, g2) \<Rightarrow> ((if res = Inr () then Suc n else n), g2)))"

definition request_time :: "admission_request \<Rightarrow> instant" where
  "request_time r = snd (snd (snd (snd r)))"

lemma ip_seen_kept_run:
  assumes "guard_ok g" "map_of (gd_ip_seen g) a = Some t" "t \<le> t0"
    "\<And>r. r \<in> set rs \<Longrightarrow> t0 \<le> request_time r \<and> request_time r \<le> end'" "sorted (map request_time rs)"
    "end' - t < gl_per_ip (gd_limits g)" "length (gd_ip_seen g) + length rs < PRUNE_MAX_ENTRIES" "t0 \<le> end'"
  shows "\<exists>t'. map_of (gd_ip_seen (snd (guard_run L rs g))) a = Some t' \<and> t \<le> t' \<and> t' \<le> end' \<and>
    gd_limits (snd (guard_run L rs g)) = gd_limits g"
  using assms
proof (induction rs arbitrary: g t t0)
  case (Cons r rs)
  obtain addr port declared host now where r: "r = (addr, port, declared, host, now)" by (cases r)
  obtain res g1 where a: "guard_admit L addr port declared host now g = (res, g1)"
    by (cases "guard_admit L addr port declared host now g")
  have now: "t0 \<le> now" "now \<le> end'" using Cons.prems(4) [of r] by (simp_all add: r request_time_def)
  have t: "t \<le> now" "now - t < gl_per_ip (gd_limits g)" using Cons.prems(3,6) now by linarith+
  note k = ip_seen_kept [OF Cons.prems(1,2) t _ a]
  have len: "length (gd_ip_seen g) < PRUNE_MAX_ENTRIES" using Cons.prems(7) by simp
  obtain t' where t': "map_of (gd_ip_seen g1) a = Some t'" "t \<le> t'" "t' \<le> now" using k(2) [OF len] by blast
  have ok: "guard_ok g1" using guard_ok_admit [OF Cons.prems(1), of L addr port declared host now] by (simp add: a)
  have lim: "gd_limits g1 = gd_limits g" by (rule k(1) [OF len])
  have "\<exists>t''. map_of (gd_ip_seen (snd (guard_run L rs g1))) a = Some t'' \<and> t' \<le> t'' \<and> t'' \<le> end' \<and>
      gd_limits (snd (guard_run L rs g1)) = gd_limits g1"
  proof (rule Cons.IH [OF ok t'(1,3)])
    show "now \<le> request_time r' \<and> request_time r' \<le> end'" if "r' \<in> set rs" for r'
      using Cons.prems(4) [of r'] Cons.prems(5) that by (auto simp: r request_time_def)
    show "sorted (map request_time rs)" using Cons.prems(5) by simp
    show "end' - t' < gl_per_ip (gd_limits g1)"
      using le_less_trans [OF diff_le_mono2 [OF t'(2)] Cons.prems(6)] by (simp add: lim)
    show "length (gd_ip_seen g1) + length rs < PRUNE_MAX_ENTRIES" using k(3) [OF len] Cons.prems(7) by simp
  qed (rule now(2))
  then show ?case using t'(2) lim by (auto simp: r a split_def)
qed auto

lemma admitted_is_seen:
  assumes "guard_ok g" "guard_admit L addr port declared host now g = (Inr u, g')"
    "length (gd_ip_seen g) < PRUNE_MAX_ENTRIES" "0 < gl_per_ip (gd_limits g)"
  shows "map_of (gd_ip_seen g') addr = Some now"
    "length (gd_ip_seen g') \<le> Suc (length (gd_ip_seen g))" "gd_limits g' = gd_limits g"
proof -
  let ?h = "max (gl_per_ip (gd_limits g)) (gl_per_domain (gd_limits g))"
  let ?m = "hm_insert addr now (gd_ip_seen g)"
  have g': "g' = prune now ?h (noted addr host now g)" using guard_admit_state [OF assms(2)] by simp
  have dm: "distinct (map fst ?m)" using assms(1) by (simp add: guard_ok_def distinct_hm_insert)
  have lm: "length ?m \<le> PRUNE_MAX_ENTRIES" using length_hm_insert [of addr now "gd_ip_seen g"] assms(3) by simp
  let ?f = "filter (\<lambda>(_, t). now - t < ?h) ?m"
  have f: "map_of ?f addr = Some now"
    using map_of_retain [OF dm, of "\<lambda>t. now - t < ?h" addr] assms(4) by (simp add: map_of_hm_insert)
  have lf: "length ?f \<le> length ?m" by (rule length_filter_le)
  then have tr: "truncate_oldest ?f PRUNE_MAX_ENTRIES = ?f" by (intro truncate_id) (use lm in linarith)
  have g: "gd_ip_seen g' = ?m \<or> gd_ip_seen g' = ?f"
    using tr by (simp add: g' prune_def Let_def)
  show "map_of (gd_ip_seen g') addr = Some now" using g f by (auto simp: map_of_hm_insert)
  show "length (gd_ip_seen g') \<le> Suc (length (gd_ip_seen g))"
    using g le_trans [OF lf length_hm_insert [of addr now "gd_ip_seen g"]]
      length_hm_insert [of addr now "gd_ip_seen g"] by (elim disjE) (simp_all only:)
  show "gd_limits g' = gd_limits g" by (simp add: g')
qed

lemma cooling_refuses:
  assumes "map_of (gd_ip_seen g) addr = Some t" "now - t < gl_per_ip (gd_limits g)"
  shows "fst (guard_admit L addr port declared host now g) \<noteq> Inr ()"
  using assms by (simp add: guard_admit_def Let_def roll_window_def cooling_def)


definition sample_guard :: guard where
  "sample_guard = guard_new probe_config_default"

lemma sample_guard_admits:
  "fst (guard_admit prefix_lib (V4 (ipv4_new 8 8 8 8)) 443 False (Some ''a.example'') (from_secs 10) sample_guard) = Inr ()"
  by (simp add: guard_admit_def Let_def sample_guard_def guard_new_def limits_from_config_def probe_config_default_def
      address_allowed_def port_allowed_def roll_window_def cooling_def classify_v4_def METADATA_V4_def V4_TABLE_def
      prefix_lib_def ipv4_new_def)


section \<open>The global rate\<close>

lemma admit_window:
  assumes "guard_admit L addr port declared host now g = (res, g')"
  shows "gd_limits g' = gd_limits g"
    "res = Inr () \<Longrightarrow> gd_window_start g' = gd_window_start (roll_window now g) \<and>
       unat (gd_window_count (roll_window now g)) < unat (gl_connections_per_second (gd_limits g)) \<and>
       unat (gd_window_count g') = Suc (unat (gd_window_count (roll_window now g)))"
    "res \<noteq> Inr () \<Longrightarrow> g' = g \<or> gd_window_start g' = gd_window_start (roll_window now g) \<and>
       gd_window_count g' = gd_window_count (roll_window now g)"
proof -
  have p: "gd_window_start (prune now z h) = gd_window_start h" "gd_window_count (prune now z h) = gd_window_count h" for z h
    by (simp_all add: prune_def Let_def)
  have r: "gd_window_start (roll_window now (h\<lparr>gd_bandwidth_day := d, gd_bandwidth_used := b\<rparr>)) = gd_window_start (roll_window now h)"
    "gd_window_count (roll_window now (h\<lparr>gd_bandwidth_day := d, gd_bandwidth_used := b\<rparr>)) = gd_window_count (roll_window now h)" for h d b
    by (simp_all add: roll_window_def)
  have l: "gd_limits (roll_window now h) = gd_limits h" for h by (simp add: roll_window_def)
  have w: "unat (c + 1) = Suc (unat c)" if "\<not> k \<le> c" for c k :: u32
  proof -
    have "1 + c \<noteq> 0"
    proof
      assume "1 + c = 0"
      then have "c = - 1" by (simp add: eq_neg_iff_add_eq_0 add.commute)
      with that word_n1_ge [of k] show False by simp
    qed
    then show ?thesis using unatSuc [of c] by (simp add: add.commute)
  qed
  show "gd_limits g' = gd_limits g"
    using assms by (auto simp: guard_admit_def Let_def l note_probe_def split: if_splits)
  show "gd_window_start g' = gd_window_start (roll_window now g) \<and>
       unat (gd_window_count (roll_window now g)) < unat (gl_connections_per_second (gd_limits g)) \<and>
       unat (gd_window_count g') = Suc (unat (gd_window_count (roll_window now g)))" if "res = Inr ()"
    using assms that
    by (auto simp: guard_admit_def Let_def note_probe_def p r w not_le word_less_nat_alt split: if_splits)
  show "g' = g \<or> gd_window_start g' = gd_window_start (roll_window now g) \<and>
       gd_window_count g' = gd_window_count (roll_window now g)" if "res \<noteq> Inr ()"
    using assms that by (auto simp: guard_admit_def Let_def r split: if_splits)
qed

definition window_room :: "guard \<Rightarrow> nat" where
  "window_room g = unat (gl_connections_per_second (gd_limits g)) - unat (gd_window_count g)"

lemma window_admits_at_most_room:
  assumes "gd_window_start g = Some s" "\<And>r. r \<in> set rs \<Longrightarrow> request_time r - s < from_secs 1"
  shows "fst (guard_run L rs g) \<le> window_room g"
  using assms
proof (induction rs arbitrary: g)
  case (Cons r rs)
  obtain addr port declared host now where r: "r = (addr, port, declared, host, now)" by (cases r)
  obtain res g1 where a: "guard_admit L addr port declared host now g = (res, g1)"
    by (cases "guard_admit L addr port declared host now g")
  have roll: "roll_window now g = g"
    using Cons.prems(1) Cons.prems(2) [of r] by (simp add: roll_window_def r request_time_def)
  note w = admit_window [OF a, unfolded roll]
  have s: "gd_window_start g1 = Some s" using w(2,3) Cons.prems(1) by (cases "res = Inr ()") auto
  have ih: "fst (guard_run L rs g1) \<le> window_room g1"
    by (rule Cons.IH [OF s]) (rule Cons.prems(2), simp)
  show ?case
  proof (cases "res = Inr ()")
    case True
    then have "Suc (window_room g1) \<le> window_room g" using w(1,2) by (simp add: window_room_def Suc_diff_Suc)
    then show ?thesis using ih True by (simp add: r a split_def)
  next
    case False
    then have "window_room g1 = window_room g" using w(1,3) by (auto simp: window_room_def)
    then show ?thesis using ih False by (simp add: r a split_def)
  qed
qed simp

lemma run_admits_at_most:
  assumes "\<And>r r'. r \<in> set rs \<Longrightarrow> r' \<in> set rs \<Longrightarrow> request_time r' - request_time r < from_secs 1"
  shows "fst (guard_run L rs g) \<le> window_room g + unat (gl_connections_per_second (gd_limits g))"
  using assms
proof (induction rs arbitrary: g)
  case (Cons r rs)
  obtain addr port declared host now where r: "r = (addr, port, declared, host, now)" by (cases r)
  obtain res g1 where a: "guard_admit L addr port declared host now g = (res, g1)"
    by (cases "guard_admit L addr port declared host now g")
  note w = admit_window [OF a]
  have ih: "fst (guard_run L rs g1) \<le> window_room g1 + unat (gl_connections_per_second (gd_limits g))"
    using Cons.IH [of g1] Cons.prems w(1) by simp
  show ?case
  proof (cases "roll_window now g = g \<or> res \<noteq> Inr () \<and> g1 = g")
    case True
    then have "(if res = Inr () then Suc (window_room g1) else window_room g1) \<le> window_room g"
      using w by (auto simp: window_room_def)
    then show ?thesis using ih by (auto simp: r a split_def split: if_splits)
  next
    case False
    then have c: "gd_window_start (roll_window now g) = Some now" "gd_window_count (roll_window now g) = 0"
      by (auto simp: roll_window_def split: if_splits)
    have s: "gd_window_start g1 = Some now" using w(2,3) False c by (cases "res = Inr ()") auto
    have "fst (guard_run L rs g1) \<le> window_room g1"
      by (rule window_admits_at_most_room [OF s]) (use Cons.prems [of r] in \<open>simp add: r request_time_def\<close>)
    moreover have "(if res = Inr () then Suc (window_room g1) else window_room g1) \<le> unat (gl_connections_per_second (gd_limits g))"
      using w False c by (auto simp: window_room_def)
    ultimately show ?thesis by (auto simp: r a split_def split: if_splits)
  qed
qed simp

text \<open>
  However many requests arrive within one second, and whatever the state of the guard before, at
  most twice the configured number of connections per second is admitted: the rest of the window that
  is open and one full window.
\<close>

theorem guard_rate:
  assumes "list_all (\<lambda>r. t \<le> request_time r \<and> request_time r < t + from_secs 1) rs"
  shows "fst (guard_run L rs g) \<le> 2 * unat (gl_connections_per_second (gd_limits g))"
proof -
  have "request_time r' - request_time r < from_secs 1" if "r \<in> set rs" "r' \<in> set rs" for r r'
  proof -
    have "t \<le> request_time r" "t \<le> request_time r'" "request_time r' < t + from_secs 1" using assms that by (auto simp: list_all_iff)
    then show ?thesis by arith
  qed
  from run_admits_at_most [where rs = rs and L = L and g = g, OF this] show ?thesis by (simp add: window_room_def)
qed

theorem guard_rate_witness:
  "fst (guard_run prefix_lib [(V4 (ipv4_new 8 8 8 8), 443, False, None, from_secs 10)] sample_guard) \<le> 2 * 64"
  using guard_rate [of "from_secs 10" "[(V4 (ipv4_new 8 8 8 8), 443, False, None, from_secs 10)]" prefix_lib sample_guard]
  by (simp add: request_time_def from_secs_def sample_guard_def guard_new_def limits_from_config_def
      probe_config_default_def)

section \<open>The gate is bounded\<close>

lemma length_fold_without_keys:
  "set ks \<subseteq> fst ` set m \<Longrightarrow> distinct ks \<Longrightarrow> length (fold without ks m) + length ks \<le> length m"
proof (induction ks arbitrary: m)
  case (Cons k ks)
  have "length (without k m) < length m" using Cons.prems(1) by (intro length_without_less) simp
  moreover have "set ks \<subseteq> fst ` set (without k m)"
    using Cons.prems by (force simp: without_def)
  ultimately show ?case using Cons.IH [of "without k m"] Cons.prems(2) by simp
qed simp

lemma keys_fold_without: "map fst (fold without ks m) = filter (\<lambda>k. k \<notin> set ks) (map fst m)"
  by (induction ks arbitrary: m) (auto simp: keys_without intro!: filter_cong)

definition gate_ok :: "offer_gate \<Rightarrow> bool" where
  "gate_ok seen \<longleftrightarrow> distinct (map fst seen) \<and> length seen \<le> GATE_MAX_ENTRIES"

lemma gate_compact_ok:
  assumes "gate_ok seen"
  shows "distinct (map fst (gate_compact now window seen))" "length (gate_compact now window seen) < GATE_MAX_ENTRIES"
proof -
  let ?s = "filter (\<lambda>(_, t). now - t < window) seen"
  let ?ks = "map fst (take (length ?s - length ?s div 4) (sort_key snd ?s))"
  have d: "distinct (map fst ?s)" using assms by (simp add: gate_ok_def distinct_map_filter)
  show "distinct (map fst (gate_compact now window seen))"
    using assms d by (simp add: gate_compact_def Let_def gate_ok_def keys_fold_without)
  have "length (fold without ?ks ?s) < GATE_MAX_ENTRIES" if "\<not> length ?s < GATE_MAX_ENTRIES"
  proof -
    have "set ?ks \<subseteq> fst ` set ?s" using set_take_subset [of _ "sort_key snd ?s"] by fastforce
    moreover have "distinct ?ks"
    proof -
      have "distinct (map fst (sort_key snd ?s))" using d by (metis distinct_map distinct_sort set_sort)
      then show ?thesis by (metis distinct_take take_map)
    qed
    ultimately have "length (fold without ?ks ?s) + length ?ks \<le> length ?s" by (rule length_fold_without_keys)
    moreover have "length ?s \<le> GATE_MAX_ENTRIES" 
      by (rule le_trans [OF length_filter_le]) (use assms in \<open>simp add: gate_ok_def\<close>)
    moreover have "0 < length ?ks" using that by (simp add: GATE_MAX_ENTRIES_def)
    ultimately show ?thesis by linarith
  qed
  then show "length (gate_compact now window seen) < GATE_MAX_ENTRIES"
    by (simp add: gate_compact_def Let_def)
qed

fun gate_offers :: "(ipaddr \<times> u16 \<times> string \<times> duration \<times> instant) list \<Rightarrow> offer_gate \<Rightarrow> offer_gate" where
  "gate_offers [] seen = seen"
| "gate_offers ((addr, port, hostname, cooldown, now) # os) seen =
     gate_offers os (snd (gate_allow addr port hostname cooldown now seen))"

lemma gate_allow_ok: "gate_ok seen \<Longrightarrow> gate_ok (snd (gate_allow addr port hostname cooldown now seen))"
  using gate_compact_ok [of seen now "jittered cooldown \<lparr>ofk_addr = addr, ofk_port = port, ofk_hostname = hostname\<rparr>"]
    length_hm_insert [of "\<lparr>ofk_addr = addr, ofk_port = port, ofk_hostname = hostname\<rparr>" now
      "gate_compact now (jittered cooldown \<lparr>ofk_addr = addr, ofk_port = port, ofk_hostname = hostname\<rparr>) seen"]
  by (simp add: gate_allow_def Let_def gate_ok_def distinct_hm_insert)

lemma gate_offers_ok: "gate_ok seen \<Longrightarrow> gate_ok (gate_offers os seen)"
  by (induction os arbitrary: seen) (auto simp: gate_allow_ok)

lemma jittered_bounds: "cooldown * 8 div 10 \<le> jittered cooldown key \<and> jittered cooldown key \<le> cooldown * 12 div 10"
proof -
  obtain n where n: "jittered cooldown key = cooldown * (8 + n mod 5) div 10"
    by (simp add: jittered_def Let_def)
  have "8 + n mod 5 \<le> 12" using mod_less_divisor [of 5 n] by simp
  then show ?thesis unfolding n by (intro conjI div_le_mono mult_le_mono2) simp_all
qed

text \<open>
  The offer gate never remembers more than 8192 targets, whatever is offered. A target it let
  through is refused again for at least eight tenths of the cooldown, and no entry older than
  twelve tenths of it refuses anything.
\<close>

theorem gate_bounded_and_spaced:
  "length (gate_offers os []) \<le> GATE_MAX_ENTRIES \<and>
   (let (allowed, seen) = gate_allow addr port hostname cooldown t (gate_offers os []) in
     (\<not> allowed \<or> now - t \<ge> cooldown * 8 div 10 \<or> \<not> fst (gate_allow addr port hostname cooldown now seen)) \<and>
     (now - t < cooldown * 12 div 10 \<or> \<not> allowed \<or> fst (gate_allow addr port hostname cooldown now seen)))"
proof -
  have ok: "gate_ok (gate_offers os [])" by (rule gate_offers_ok) (simp add: gate_ok_def)
  let ?k = "\<lparr>ofk_addr = addr, ofk_port = port, ofk_hostname = hostname\<rparr>"
  have "map_of (snd (gate_allow addr port hostname cooldown t seen)) ?k = Some t"
    if "fst (gate_allow addr port hostname cooldown t seen)" for seen
    using that by (auto simp: gate_allow_def Let_def map_of_hm_insert split: if_splits)
  moreover have "fst (gate_allow addr port hostname cooldown now seen) = (\<not> now - t < jittered cooldown ?k)"
    if "map_of seen ?k = Some t" for seen
    using that by (simp add: gate_allow_def Let_def)
  ultimately show ?thesis using ok jittered_bounds [of cooldown ?k]
    by (auto simp: split_def Let_def gate_ok_def)
qed

theorem gate_bounded_and_spaced_witness:
  "\<not> fst (gate_allow (V4 0x08080808) 443 ''a.example'' (from_secs 100) (from_secs 20)
      (snd (gate_allow (V4 0x08080808) 443 ''a.example'' (from_secs 100) (from_secs 10) [])))"
proof -
  have "fst (gate_allow (V4 0x08080808) 443 ''a.example'' (from_secs 100) (from_secs 10) [])"
    by (simp add: gate_allow_def Let_def)
  moreover have "\<not> from_secs 100 * 8 div 10 \<le> from_secs 20 - from_secs 10" by (simp add: from_secs_def)
  ultimately show ?thesis
    using gate_bounded_and_spaced [of "[]" "V4 0x08080808" 443 "''a.example''" "from_secs 100" "from_secs 10" "from_secs 20"]
    by (simp add: split_def Let_def)
qed

end
