(* ===== verification/Resolver.thy ===== *)
theory Resolver
  imports SingleFlight HotSet SpecialUse Scheduler Probe
begin

unbundle bit_operations_syntax

text \<open>
  The foreground resolver (\<^verbatim>\<open>dns/resolver.rs\<close>): the path of a client query through local data, the
  special-use registry, the failure cache, the answer cache, request coalescing, the upstream exchange
  with or without validation, corroboration, storage and the response.

  The components it drives are those of the other theories. An asynchronous call is a function of what
  it waits for (\<open>fetch_env\<close>): the wake-ups of the scheduler, the replies of the validator, the second
  opinions, the clock. A call that is still waiting is \<open>None\<close>. A spawned task is put on a list of the
  state and its end is a separate operation. \<^verbatim>\<open>DnsRequestOptions\<close> is passed through to the transport
  and has no part in the decisions.
\<close>

section \<open>Data\<close>

datatype client_transport = ClientUdp | ClientTcp

fun client_transport_label :: "client_transport \<Rightarrow> string" where
  "client_transport_label ClientUdp = ''udp''"
| "client_transport_label ClientTcp = ''tcp''"

datatype answer_origin = OrgLocal | OrgCacheHit | OrgNegativeHit | OrgFailureHit | OrgStale | OrgUpstream
  | OrgCoalesced | OrgRejected

fun answer_origin_label :: "answer_origin \<Rightarrow> string" where
  "answer_origin_label OrgLocal = ''local''"
| "answer_origin_label OrgCacheHit = ''hit''"
| "answer_origin_label OrgNegativeHit = ''negative_hit''"
| "answer_origin_label OrgFailureHit = ''failure_hit''"
| "answer_origin_label OrgStale = ''stale''"
| "answer_origin_label OrgUpstream = ''upstream''"
| "answer_origin_label OrgCoalesced = ''coalesced''"
| "answer_origin_label OrgRejected = ''rejected''"

record answer =
  an_message :: message
  an_origin :: answer_origin
  an_max_size :: nat

definition PROOF_COMPLETION_CONCURRENCY :: nat where "PROOF_COMPLETION_CONCURRENCY = 2"
definition INCOMPLETE_PROOF_LOG_EVERY :: u64 where "INCOMPLETE_PROOF_LOG_EVERY = 64"
definition MIN_REVALIDATION_BUDGET :: duration where "MIN_REVALIDATION_BUDGET = from_millis 150"
definition PROVISIONAL_NEGATIVE_TTL :: u32 where "PROVISIONAL_NEGATIVE_TTL = 5"
definition STALE_MAX_TRACKED :: nat where "STALE_MAX_TRACKED = 8192"

text \<open>The text of an error, as its \<^verbatim>\<open>Display\<close> writes it.\<close>

fun resolve_error_text :: "resolve_error \<Rightarrow> ustring" where
  "resolve_error_text (NoRoute grp) =
     ascii_text (''no upstream route available in group `'' @ grp @ ''`'')"
| "resolve_error_text (AllFailed detail) = ascii_text ''all upstreams failed: '' @ detail"
| "resolve_error_text (ResolveTimeout ms) =
     ascii_text (''foreground budget exceeded after '' @ dec (unat ms) @ '' ms'')"
| "resolve_error_text (InvalidResponse reason) = ascii_text (''upstream response rejected: '' @ reason)"
| "resolve_error_text ErrDnssecBogus = ascii_text ''DNSSEC validation failed (bogus)''"
| "resolve_error_text (ProofIncomplete outcome) =
     ascii_text (''DNSSEC proof could not be completed ('' @ outcome @ '')'')"
| "resolve_error_text ShuttingDown = ascii_text ''resolver shutting down''"
| "resolve_error_text (Overloaded limit) =
     ascii_text (''upstream concurrency ceiling reached ('' @ dec limit @ '' permits configured)'')"

record failure_report =
  fp_detail :: ustring
  fp_remember :: bool
  fp_ede :: extended_error

definition failure_from_error :: "resolve_error \<Rightarrow> failure_report" where
  "failure_from_error e =
     \<lparr>fp_detail = resolve_error_text e, fp_remember = (\<not> is_transient e),
      fp_ede = (if e = ErrDnssecBogus then EdeDnssecBogus else EdeNoReachableAuthority)\<rparr>"

definition failure_upstream :: "string \<Rightarrow> failure_report" where
  "failure_upstream detail =
     \<lparr>fp_detail = ascii_text detail, fp_remember = True, fp_ede = EdeNoReachableAuthority\<rparr>"

datatype negative_evidence = NotNegative | Proven | Corroborated | SingleSource

text \<open>
  What third-party code computes: \<^verbatim>\<open>Name::from_utf8\<close>, the equality of names, which record types belong
  to DNSSEC, \<^verbatim>\<open>Message::maybe_strip_dnssec_records(false)\<close> and the text of a network.
\<close>

record ('a, 'f, 'v) resolver_lib =
  vl_proto :: proto_lib
  vl_net :: ipnet_lib
  vl_cache :: "('a, 'f, 'v) cache_lib"
  vl_hash :: "cache_key \<Rightarrow> nat"
  vl_render :: "attempt_detail \<Rightarrow> ustring"
  vl_name_eq :: "string \<Rightarrow> string \<Rightarrow> bool"
  vl_from_utf8 :: "string \<Rightarrow> string option"
  vl_is_dnssec :: "rtype \<Rightarrow> bool"
  vl_strip :: "message \<Rightarrow> message"
  vl_net_text :: "ipnet \<Rightarrow> string"

text \<open>Background work: finishing a proof, or validating an answer that was served.\<close>

datatype background_task = TaskProof string message | TaskValidate cache_key message

record ('a, 'f, 'v) resolver =
  rv_config :: config_tree
  rv_cache :: "('a, 'f, 'v) dns_cache"
  rv_flights :: "(cache_key, cache_entry) single_flight"
  rv_registry :: upstream_registry
  rv_budgets :: "(string \<times> hedge_budget) list"
  rv_capacity :: nat
  rv_datasets :: dataset_snapshot
  rv_network :: network_snapshot
  rv_cloudflare :: cf_state
  rv_quality :: quality_store
  rv_services :: service_classifier
  rv_hotset :: "cache_key hot_set"
  rv_probes :: probe_queue
  rv_probe_gate :: offer_gate
  rv_validators :: "string list"
  rv_validation_capacity :: nat
  rv_stale_refresh :: "(cache_key \<times> instant) list"
  rv_seq :: u64
  rv_incomplete_proof_logs :: u64
  rv_proof_slots :: nat
  rv_tasks :: "background_task list"

text \<open>
  Assembling a resolver. \<open>anchors\<close> is the trust anchor file's loader: the number of keys of a file, or
  nothing when it cannot be read.
\<close>

definition resolver_new ::
  "(string \<Rightarrow> nat option) \<Rightarrow> config_tree \<Rightarrow> ('a, 'f, 'v) dns_cache \<Rightarrow> (cache_key, cache_entry) single_flight \<Rightarrow>
     upstream_registry \<Rightarrow> nat \<Rightarrow> dataset_snapshot \<Rightarrow> network_snapshot \<Rightarrow> cf_state \<Rightarrow> quality_store \<Rightarrow>
     service_classifier \<Rightarrow> cache_key hot_set \<Rightarrow> probe_queue \<Rightarrow> nat \<Rightarrow> config_error + ('a, 'f, 'v) resolver" where
  "resolver_new anchors cfg cache flights reg capacity datasets net cf quality services hotset probes permits =
     (if (case dn_trust_anchor_file (cfg_dnssec cfg) of
            None \<Rightarrow> True
          | Some path \<Rightarrow> (case anchors path of None \<Rightarrow> False | Some keys \<Rightarrow> 0 < keys))
      then Inr
        \<lparr>rv_config = cfg, rv_cache = cache, rv_flights = flights, rv_registry = reg, rv_budgets = [],
         rv_capacity = capacity, rv_datasets = datasets, rv_network = net, rv_cloudflare = cf,
         rv_quality = quality, rv_services = services, rv_hotset = hotset, rv_probes = probes,
         rv_probe_gate = [], rv_validators = map fst (rg_groups reg), rv_validation_capacity = permits,
         rv_stale_refresh = [], rv_seq = 0, rv_incomplete_proof_logs = 0,
         rv_proof_slots = PROOF_COMPLETION_CONCURRENCY, rv_tasks = []\<rparr>
      else Inl (Invalid ''dnssec.trust_anchor_file''))"

section \<open>Waiting\<close>

text \<open>A second opinion: what the scheduler meets, the attempts on each route and when each ended.\<close>

record opinion_env =
  oe_env :: sched_env
  oe_attempts :: "nat \<Rightarrow> attempt_env"
  oe_finished :: "nat \<Rightarrow> instant"

text \<open>
  What the validator replies to one request: nothing before its time limit, an answer, an error, or the
  end of its stream; what the observation window saw meanwhile; and the time.
\<close>

datatype validator_reply = ReplyTimeout | ReplyAnswer message | ReplyError string | ReplyEnd

record validator_run =
  wr_reply :: validator_reply
  wr_observed :: proof_failure
  wr_finished :: instant

text \<open>
  One upstream fetch: the random identifier, the deadline of the request, the permit to validate and
  the start of the validation, the validator's replies, what its own lookups did to the routes, the
  scheduler's wake-ups, the second opinions, and the clock when the answer is stored.
\<close>

record fetch_env =
  fn_id :: u16
  fn_deadline :: "instant option"
  fn_permit :: bool
  fn_validation_start :: instant
  fn_runs :: "nat \<Rightarrow> validator_run"
  fn_sub_lookups :: "upstream_registry \<Rightarrow> upstream_registry"
  fn_sched :: sched_env
  fn_wakes :: "(wake \<times> instant) list"
  fn_retry :: retry_env
  fn_fallback_now :: instant
  fn_fallback :: opinion_env
  fn_corroborate_now :: instant
  fn_corroborate :: opinion_env
  fn_now :: instant
  fn_unix :: u64

section \<open>Small operations\<close>

definition next_seed :: "('a, 'f, 'v) resolver \<Rightarrow> u64 \<times> ('a, 'f, 'v) resolver" where
  "next_seed s = (fnv1a64 (rev (u64_to_be_bytes (rv_seq s))), s\<lparr>rv_seq := rv_seq s + 1\<rparr>)"

text \<open>\<^verbatim>\<open>clamp\<close> needs the configured maximum to be at least 512, which the validation of the configuration ensures.\<close>

definition max_response_size :: "server_config \<Rightarrow> message \<Rightarrow> client_transport \<Rightarrow> nat" where
  "max_response_size cfg request transport =
     (case transport of
        ClientTcp \<Rightarrow> tcp_max_message_bytes (sv_tcp cfg)
      | ClientUdp \<Rightarrow>
          (case m_edns request of
             None \<Rightarrow> unat (udp_non_edns_max_payload (sv_udp cfg))
           | Some e \<Rightarrow> unat (max 512 (min (ed_payload e) (udp_max_payload (sv_udp cfg))))))"

definition attach_response_edns :: "proto_lib \<Rightarrow> server_config \<Rightarrow> message \<Rightarrow> message \<Rightarrow> message" where
  "attach_response_edns P cfg request msg =
     (case m_edns request of
        None \<Rightarrow> msg\<lparr>m_edns := None\<rparr>
      | Some req_edns \<Rightarrow>
          (let e0 = (case m_edns msg of Some e \<Rightarrow> e | None \<Rightarrow> edns_new P);
               e1 = set_max_payload P (udp_max_payload (sv_udp cfg)) (e0\<lparr>ed_version := 0\<rparr>)
           in msg\<lparr>m_edns := Some (e1\<lparr>ed_dnssec_ok := ed_dnssec_ok req_edns,
                                     ed_options := opt_remove P SUBNET_OPTION_CODE (ed_options e1)\<rparr>)\<rparr>))"

definition reject :: "proto_lib \<Rightarrow> server_config \<Rightarrow> message \<Rightarrow> rcode \<Rightarrow> nat \<Rightarrow> answer" where
  "reject P cfg request code max_size =
     \<lparr>an_message = attach_response_edns P cfg request (error_response P request code True),
      an_origin = OrgRejected, an_max_size = max_size\<rparr>"

definition ecs_identity :: "(ipnet \<Rightarrow> string) \<Rightarrow> ecs_config \<Rightarrow> string option" where
  "ecs_identity net_text cfg =
     (case ec_mode cfg of
        EcsDisabled \<Rightarrow> None
      | EcsFixedEgress \<Rightarrow>
          Some ((case es_ipv4 (ec_egress cfg) of Some n \<Rightarrow> net_text (NetV4 n) | None \<Rightarrow> []) @ ''|'' @
                (case es_ipv6 (ec_egress cfg) of Some n \<Rightarrow> net_text (NetV6 n) | None \<Rightarrow> [])))"

definition authoritative :: "message \<Rightarrow> message" where
  "authoritative msg = msg\<lparr>m_meta := (m_meta msg)\<lparr>md_authoritative := True\<rparr>\<rparr>"

definition local_reply :: "message \<Rightarrow> nat \<Rightarrow> answer" where
  "local_reply msg max_size = \<lparr>an_message = msg, an_origin = OrgLocal, an_max_size = max_size\<rparr>"

definition add_answers :: "rr list \<Rightarrow> message \<Rightarrow> message" where
  "add_answers rs msg = msg\<lparr>m_answers := m_answers msg @ rs\<rparr>"

definition special_use_answer ::
  "proto_lib \<Rightarrow> config_tree \<Rightarrow> dataset_snapshot \<Rightarrow> message \<Rightarrow> string \<Rightarrow> rtype \<Rightarrow> nat \<Rightarrow> answer option" where
  "special_use_answer P cfg datasets request qname qtype max_size =
     (case classify_name qname of
        None \<Rightarrow> None
      | Some (_, disposition) \<Rightarrow>
          if group_for datasets qname \<noteq> None then None
          else
            (let name = q_name (hd (m_queries request));
                 finish = (\<lambda>msg. Some (local_reply
                    (attach_response_edns P (cfg_server cfg) request (authoritative msg)) max_size));
                 with = (\<lambda>ttl rdata. add_answers (case rdata of Some d \<Rightarrow> [from_rdata P name ttl d] | None \<Rightarrow> [])
                                       (response_skeleton P request True))
             in case disposition of
                  DspForward \<Rightarrow> None
                | DspNxDomain \<Rightarrow> finish (error_response P request NXDomain True)
                | DspLoopMarker \<Rightarrow> finish (with 0 (loop_marker_rdata qtype))
                | DspLoopback \<Rightarrow> finish (with (lc_local_ttl (ct_local cfg)) (loopback_rdata qtype))))"

fun rdata_of_addr :: "ipaddr \<Rightarrow> rdata" where
  "rdata_of_addr (V4 a) = RdA a"
| "rdata_of_addr (V6 a) = RdAAAA a"

definition local_answer ::
  "proto_lib \<Rightarrow> config_tree \<Rightarrow> dataset_snapshot \<Rightarrow> message \<Rightarrow> string \<Rightarrow> rtype \<Rightarrow> nat \<Rightarrow> answer option" where
  "local_answer P cfg datasets request qname qtype max_size =
     (let ttl = lc_local_ttl (ct_local cfg);
          name = q_name (hd (m_queries request));
          finish = (\<lambda>rs. Some (local_reply (attach_response_edns P (cfg_server cfg) request
                      (authoritative (add_answers rs (response_skeleton P request True)))) max_size));
          addrs = hosts_get_family (dn_hosts datasets) qname (qtype = RT_A)
      in if (qtype = RT_A \<or> qtype = RT_AAAA) \<and> addrs \<noteq> []
         then finish (map (\<lambda>addr. from_rdata P name ttl (rdata_of_addr addr)) addrs)
         else if (qtype = RT_A \<or> qtype = RT_AAAA) \<and> hosts_get (dn_hosts datasets) qname \<noteq> None
         then finish []
         else case zones_lookup (dn_zones datasets) qname qtype of
                ZaRecords records \<Rightarrow> finish records
              | ZaNoData \<Rightarrow> finish []
              | ZaNxDomain \<Rightarrow> Some (local_reply (authoritative (error_response P request NXDomain True)) max_size)
              | ZaNotInZone \<Rightarrow> None)"

text \<open>Whether a refresh may be started for a stale entry; the table of attempts is bounded.\<close>

definition stale_refresh_allowed ::
  "cache_key \<Rightarrow> duration \<Rightarrow> instant \<Rightarrow> (cache_key \<times> instant) list \<Rightarrow> bool \<times> (cache_key \<times> instant) list" where
  "stale_refresh_allowed key interval now table =
     (if interval = 0 then (True, table)
      else if (case map_of table key of Some t \<Rightarrow> now - t < interval | None \<Rightarrow> False) then (False, table)
      else
        (let swept = (if STALE_MAX_TRACKED \<le> length table
                      then filter (\<lambda>(_, t). now - t < interval) table else table)
         in if STALE_MAX_TRACKED \<le> length swept then (True, swept) else (True, hm_insert key now swept)))"

definition collect_addresses :: "message \<Rightarrow> rtype \<Rightarrow> ipaddr list" where
  "collect_addresses msg qtype =
     List.map_filter (\<lambda>r. case rr_data r of
         RdA a \<Rightarrow> if qtype = RT_A then Some (V4 a) else None
       | RdAAAA a \<Rightarrow> if qtype = RT_AAAA then Some (V6 a) else None
       | _ \<Rightarrow> None) (m_answers msg)"

definition classify_kind :: "(rtype \<Rightarrow> bool) \<Rightarrow> message \<Rightarrow> entry_kind" where
  "classify_kind is_dnssec msg =
     (if md_rcode (m_meta msg) = NXDomain then NxDomainKind
      else if list_ex (\<lambda>r. record_type r \<noteq> RT_OPT \<and> \<not> is_dnssec (record_type r)) (m_answers msg)
      then Positive else NoData)"

definition negative_ttl :: "message \<Rightarrow> u32 option" where
  "negative_ttl msg =
     map_option (\<lambda>r. min (rr_ttl r) (soa_minimum (rr_data r)))
       (List.find (\<lambda>r. is_RdSOA (rr_data r)) (m_authorities msg))"

definition class_supported :: "dns_class \<Rightarrow> bool" where
  "class_supported c \<longleftrightarrow> c = CLASS_IN \<or> c = CLASS_CH"

section \<open>Responses\<close>

definition evidence_cost ::
  "quality_store \<Rightarrow> ranking_config \<Rightarrow> string \<Rightarrow> instant \<Rightarrow> ipaddr \<Rightarrow> real \<times> u32" where
  "evidence_cost store ranking host now addr =
     (case quality_store_get store (probe_key_https addr 443 host) of
        Some q \<Rightarrow> (expected_cost ranking now q, qs_samples q)
      | None \<Rightarrow> (rk_neutral_cost_ms ranking, 0))"

text \<open>What the answer policy is told about an entry and the client's question.\<close>

definition answer_context_of ::
  "('a, 'f, 'v) resolver \<Rightarrow> query \<Rightarrow> message \<Rightarrow> cache_entry \<Rightarrow> u32 \<Rightarrow> bool \<Rightarrow> instant \<Rightarrow> u64 \<Rightarrow> u64 \<Rightarrow>
     answer_context" where
  "answer_context_of s q msg entry ttl_left is_stale now now_unix seed =
     (let cfg = rv_config s; qtype = q_type q; qname = q_name q;
          mode = effective_mode (rv_cloudflare s) (cl_mode (ct_cloudflare cfg));
          enabled = cl_enabled (ct_cloudflare cfg);
          augment = cl_augment (ct_cloudflare cfg)
      in \<lparr>ac_qtype = qtype, ac_dnssec = ce_dnssec entry, ac_cloudflare_enabled = enabled,
          ac_cloudflare_mode = mode, ac_snapshot = fs_prefixes (rv_cloudflare s),
          ac_domain_excluded =
            is_excluded qname (cl_allow_domains (ct_cloudflare cfg)) (cl_deny_domains (ct_cloudflare cfg)),
          ac_baseline_validated = cf_baseline qname (rv_cloudflare s),
          ac_verified =
            (if enabled \<and> mode = CfModeVerifiedAugment
             then verified_for qname (qtype = RT_A) (ag_min_validations augment) (ag_validation_ttl augment) now
                    (evidence_cost (rv_quality s) (cfg_ranking cfg) qname now) (rv_cloudflare s)
             else []),
          ac_can_validate_ech = False,
          ac_quality = (if is_web_service (rv_services s) qname
                        then snapshot_for (rv_quality s) (collect_addresses msg qtype) 443 qname else Map.empty),
          ac_ranking = cfg_ranking cfg, ac_augment = augment, ac_ttl = cfg_ttl cfg,
          ac_remaining_authoritative = ttl_left,
          ac_remaining_signature = remaining_signature_secs entry now_unix, ac_is_stale = is_stale,
          ac_recent_network_change =
            in_relearn_window (rv_network s) now_unix (of_nat (as_secs (tc_network_change_window (cfg_ttl cfg)))),
          ac_now = now, ac_explore_seed = seed\<rparr>)"

definition base_response :: "proto_lib \<Rightarrow> message \<Rightarrow> cache_entry \<Rightarrow> instant \<Rightarrow> message" where
  "base_response P request entry now =
     age_ttls ((ce_message entry)
       \<lparr>m_meta := (response_from_request P (m_meta request))
           \<lparr>md_rcode := md_rcode (m_meta (ce_message entry)), md_recursion_available := True,
             md_authoritative := False\<rparr>,
         m_queries := m_queries request, m_edns := None\<rparr>) (age_secs entry now)"

definition build_response ::
  "('a, 'f, 'v) resolver_lib \<Rightarrow> message \<Rightarrow> cache_entry \<Rightarrow> u32 \<Rightarrow> bool \<Rightarrow> bool \<Rightarrow> instant \<Rightarrow> u64 \<Rightarrow>
     ('a, 'f, 'v) resolver \<Rightarrow> message \<times> ('a, 'f, 'v) resolver" where
  "build_response X request entry ttl_left is_stale client_do now now_unix s0 =
     (let P = vl_proto X;
          msg0 = base_response P request entry now;
          (seed, s) = next_seed s0;
          ctx = answer_context_of s (hd (m_queries request)) msg0 entry ttl_left is_stale now now_unix seed;
          (msg1, outcome) = apply_answer_policy P (vl_net X) (vl_name_eq X) msg0 ctx;
          msg2 = (if client_do then msg1 else vl_strip X msg1);
          asked = (client_do \<or> md_authentic_data (m_meta request));
          msg3 = msg2\<lparr>m_meta := (m_meta msg2)
                        \<lparr>md_authentic_data := may_set_ad (ce_dnssec entry) asked (ao_modified outcome)\<rparr>\<rparr>
      in (attach_response_edns P (cfg_server (rv_config s)) request msg3, s))"

section \<open>The upstream exchange\<close>

definition budget_of :: "string \<Rightarrow> ('a, 'f, 'v) resolver \<Rightarrow> hedge_budget" where
  "budget_of grp s = (case map_of (rv_budgets s) grp of Some b \<Rightarrow> b | None \<Rightarrow> hedge_budget_default)"

definition set_routes :: "string \<Rightarrow> route list \<Rightarrow> ('a, 'f, 'v) resolver \<Rightarrow> ('a, 'f, 'v) resolver" where
  "set_routes grp routes s =
     s\<lparr>rv_registry := (rv_registry s)
        \<lparr>rg_groups := map (\<lambda>(n, g). (n, if n = grp then g\<lparr>gr_routes := routes\<rparr> else g)) (rg_groups (rv_registry s))\<rparr>\<rparr>"

text \<open>The routes of a group are shared: a later use of the group sees their present state.\<close>

definition present_routes :: "upstream_group \<Rightarrow> ('a, 'f, 'v) resolver \<Rightarrow> route list" where
  "present_routes grp s =
     (case map_of (rg_groups (rv_registry s)) (gr_name grp) of Some g \<Rightarrow> gr_routes g | None \<Rightarrow> gr_routes grp)"

definition upstream_resolve ::
  "('a, 'f, 'v) resolver_lib \<Rightarrow> fetch_env \<Rightarrow> upstream_group \<Rightarrow> message \<Rightarrow> duration \<Rightarrow> u64 \<Rightarrow> ('a, 'f, 'v) resolver \<Rightarrow>
     ((resolve_error + upstream_answer) \<times> ('a, 'f, 'v) resolver) option" where
  "upstream_resolve X env grp message budget seed s =
     map_option (\<lambda>(res, st).
         (res, (set_routes (gr_name grp) (ss_routes st) s)
                 \<lparr>rv_budgets := hm_insert (gr_name grp) (ss_budget st) (rv_budgets s)\<rparr>))
       (scheduler_resolve (vl_render X) (vl_proto X) (fn_sched env) (rv_capacity s)
          (grp\<lparr>gr_routes := present_routes grp s\<rparr>) message (budget_of (gr_name grp) s) budget seed
          (fn_wakes env) (fn_retry env))"

definition unproved_fallback ::
  "('a, 'f, 'v) resolver_lib \<Rightarrow> fetch_env \<Rightarrow> upstream_group \<Rightarrow> message \<Rightarrow> u64 \<Rightarrow> ('a, 'f, 'v) resolver \<Rightarrow>
     message option \<times> ('a, 'f, 'v) resolver" where
  "unproved_fallback X env grp message seed s =
     (let slice = remaining_or (fn_deadline env) (fn_fallback_now env) (sv_foreground_budget (cfg_server (rv_config s)))
      in if slice < MIN_REVALIDATION_BUDGET then (None, s)
         else
           (let (pair, routes) = resolve_pair (vl_proto X) (oe_env (fn_fallback env)) (gr_scheduler grp) message slice
                                   seed (oe_attempts (fn_fallback env)) (oe_finished (fn_fallback env))
                                   (present_routes grp s)
            in (case pair of
                  None \<Rightarrow> None
                | Some (first, second) \<Rightarrow>
                    if md_rcode (m_meta (ua_message first)) \<noteq> NoError \<or> m_answers (ua_message first) = [] then None
                    else if \<not> answers_are_compatible (ua_message first) (ua_message second) then None
                    else Some (ua_message first),
                set_routes (gr_name grp) routes s)))"

text \<open>The second result says whether the line is logged.\<close>

definition note_incomplete_proof :: "('a, 'f, 'v) resolver \<Rightarrow> bool \<times> ('a, 'f, 'v) resolver" where
  "note_incomplete_proof s =
     (let n = rv_incomplete_proof_logs s
      in (n mod INCOMPLETE_PROOF_LOG_EVERY = 0, s\<lparr>rv_incomplete_proof_logs := n + 1\<rparr>))"

definition spawn_proof_completion :: "string \<Rightarrow> message \<Rightarrow> ('a, 'f, 'v) resolver \<Rightarrow> ('a, 'f, 'v) resolver" where
  "spawn_proof_completion grp message s =
     (if rv_proof_slots s = 0 \<or> grp \<notin> set (rv_validators s) then s
      else s\<lparr>rv_proof_slots := rv_proof_slots s - 1, rv_tasks := TaskProof grp message # rv_tasks s\<rparr>)"

definition spawn_background_validation ::
  "cache_key \<Rightarrow> message \<Rightarrow> ('a, 'f, 'v) resolver \<Rightarrow> ('a, 'f, 'v) resolver" where
  "spawn_background_validation key message s =
     (if rv_proof_slots s = 0 \<or> rv_validators s = [] then s
      else s\<lparr>rv_proof_slots := rv_proof_slots s - 1, rv_tasks := TaskValidate key message # rv_tasks s\<rparr>)"

definition finish_task :: "background_task \<Rightarrow> ('a, 'f, 'v) resolver \<Rightarrow> ('a, 'f, 'v) resolver" where
  "finish_task task s =
     (if task \<in> set (rv_tasks s)
      then s\<lparr>rv_proof_slots := rv_proof_slots s + 1, rv_tasks := remove1 task (rv_tasks s)\<rparr> else s)"

text \<open>The end of a background validation: its outcome and what the verdict does to the cache.\<close>

definition background_outcome :: "dnssec_config \<Rightarrow> validator_reply \<Rightarrow> proof_failure \<Rightarrow> validation_outcome" where
  "background_outcome cfg reply observed =
     (case reply of
        ReplyTimeout \<Rightarrow> VoTimeout
      | ReplyAnswer msg \<Rightarrow> classify_outcome msg cfg False observed
      | ReplyError _ \<Rightarrow> VoIncompleteProof
      | ReplyEnd \<Rightarrow> VoTransportFailure)"

definition carries_failed_signatures :: "validator_reply \<Rightarrow> bool" where
  "carries_failed_signatures reply =
     (case reply of
        ReplyAnswer msg \<Rightarrow> list_ex (\<lambda>r. record_type r = RT_RRSIG \<and> rr_proof r = ProofBogus) (m_answers msg)
      | _ \<Rightarrow> False)"

definition validated_fingerprint :: "proto_lib \<Rightarrow> validator_reply \<Rightarrow> u64" where
  "validated_fingerprint P reply = (case reply of ReplyAnswer msg \<Rightarrow> answer_fingerprint P msg | _ \<Rightarrow> 0)"

definition background_verdict ::
  "('a, 'f, 'v) resolver_lib \<Rightarrow> cache_key \<Rightarrow> validator_reply \<Rightarrow> proof_failure \<Rightarrow> ('a, 'f, 'v) resolver \<Rightarrow>
     ('a, 'f, 'v) resolver" where
  "background_verdict X key reply observed s =
     (let fp = validated_fingerprint (vl_proto X) reply; cache = rv_cache s
      in case background_outcome (cfg_dnssec (rv_config s)) reply observed of
           VoBogus \<Rightarrow>
             if carries_failed_signatures reply
             then s\<lparr>rv_cache := snd (evict_variant (vl_cache X) key fp cache)\<rparr> else s
         | VoSecure \<Rightarrow> s\<lparr>rv_cache := snd (promote (vl_cache X) key fp Secure cache)\<rparr>
         | VoProvenInsecure \<Rightarrow> s\<lparr>rv_cache := snd (promote (vl_cache X) key fp Insecure cache)\<rparr>
         | _ \<Rightarrow> s)"

section \<open>Fetching\<close>

definition fetch_query :: "('a, 'f, 'v) resolver_lib \<Rightarrow> config_tree \<Rightarrow> u16 \<Rightarrow> cache_key \<Rightarrow> message option" where
  "fetch_query X cfg ident key =
     (let P = vl_proto X;
          dnssec_ok = (wants_dnssec_records (dn_mode (cfg_dnssec cfg)) \<or> dm_dnssec_ok (ck_mode key));
          e0 = set_max_payload P (udp_max_payload (sv_udp (cfg_server cfg))) ((edns_new P)\<lparr>ed_version := 0\<rparr>);
          e1 = e0\<lparr>ed_dnssec_ok := dnssec_ok\<rparr>;
          e2 = (case (ec_mode (ct_ecs cfg), es_ipv4 (ec_egress (ct_ecs cfg))) of
                  (EcsFixedEgress, Some (addr, len)) \<Rightarrow>
                    e1\<lparr>ed_options := opt_insert P (encode_ecs (V4 addr) (of_nat len)) (ed_options e1)\<rparr>
                | _ \<Rightarrow> e1)
      in map_option (\<lambda>name.
           \<lparr>m_meta = \<lparr>md_id = ident, md_type = MtQuery, md_op = OpQuery, md_authoritative = False,
                md_truncation = False, md_recursion_desired = True, md_recursion_available = False,
                md_authentic_data = False, md_checking_disabled = dm_checking_disabled (ck_mode key),
                md_rcode = NoError\<rparr>,
            m_queries = [\<lparr>q_name = name, q_type = ck_qtype key, q_class = ck_qclass key\<rparr>],
            m_answers = [], m_authorities = [], m_additionals = [], m_edns = Some e2\<rparr>)
         (vl_from_utf8 X (ck_name key)))"

definition validation_attempt :: "dnssec_config \<Rightarrow> validator_run \<Rightarrow> message option \<times> validation_outcome" where
  "validation_attempt cfg run =
     (case wr_reply run of
        ReplyTimeout \<Rightarrow> (None, VoTimeout)
      | ReplyAnswer msg \<Rightarrow> (Some msg, classify_outcome msg cfg False (wr_observed run))
      | ReplyError txt \<Rightarrow>
          (None, if wr_observed run \<noteq> PfNone then VoIncompleteProof
                 else if contains_str txt ''Bogus'' \<or> contains_str txt ''bogus'' then VoBogus
                 else VoTransportFailure)
      | ReplyEnd \<Rightarrow> (None, VoTransportFailure))"

function validation_loop ::
  "dnssec_config \<Rightarrow> instant \<Rightarrow> (nat \<Rightarrow> validator_run) \<Rightarrow> nat \<Rightarrow> message option \<times> validation_outcome" where
  "validation_loop cfg deadline runs done' =
     (let attempt = done' + 1;
          (msg, outcome) = validation_attempt cfg (runs attempt);
          deadline_left = (MIN_REVALIDATION_BUDGET < deadline - wr_finished (runs attempt))
      in if attempt < 2 \<and> is_retryable outcome \<and> deadline_left
         then validation_loop cfg deadline runs attempt else (msg, outcome))"
  by pat_completeness auto
termination by (relation "measure (\<lambda>(_, _, _, n). 2 - n)") auto

declare validation_loop.simps [simp del]

text \<open>The synchronous path: validate before the client is answered.\<close>

definition fetch_validated ::
  "('a, 'f, 'v) resolver_lib \<Rightarrow> fetch_env \<Rightarrow> cache_key \<Rightarrow> upstream_group \<Rightarrow> message \<Rightarrow> u64 \<Rightarrow> ('a, 'f, 'v) resolver \<Rightarrow>
     (resolve_error + message) \<times> ('a, 'f, 'v) resolver" where
  "fetch_validated X env key grp message seed s0 =
     (let cfg = cfg_dnssec (rv_config s0); group_name = pv_group (ck_view key) in
      if rv_validators s0 = [] then (Inl (NoRoute group_name), s0)
      else if \<not> fn_permit env then (Inl (Overloaded (rv_validation_capacity s0)), s0)
      else
        (let start = fn_validation_start env;
             deadline = start + remaining_or (fn_deadline env) start (sv_foreground_budget (cfg_server (rv_config s0)));
             s = s0\<lparr>rv_registry := fn_sub_lookups env (rv_registry s0)\<rparr>;
             (response, outcome) = validation_loop cfg deadline (fn_runs env) 0
         in if outcome = VoBogus then (Inl ErrDnssecBogus, s)
            else if outcome = VoSecure \<or> outcome = VoProvenInsecure
            then (case response of
                    Some msg \<Rightarrow> (Inr msg, s)
                  | None \<Rightarrow> (Inl (AllFailed (ascii_text ''validator reported success without an answer'')), s))
            else
              (case (case response of Some msg \<Rightarrow> (Some msg, s) | None \<Rightarrow> unproved_fallback X env grp message seed s) of
                 (None, s1) \<Rightarrow> (Inl (ProofIncomplete (outcome_label outcome)), s1)
               | (Some msg, s1) \<Rightarrow>
                   (Inr msg,
                    if outcome \<noteq> VoIndeterminate
                    then spawn_proof_completion group_name message (snd (note_incomplete_proof s1)) else s1))))"

definition synchronous :: "dnssec_config \<Rightarrow> cache_key \<Rightarrow> bool" where
  "synchronous cfg key \<longleftrightarrow> blocks_the_client (dn_mode cfg) \<and> \<not> dm_checking_disabled (ck_mode key)"

text \<open>The response, the route it came from and whether that route's AD bit is trusted.\<close>

definition fetch_answer ::
  "('a, 'f, 'v) resolver_lib \<Rightarrow> fetch_env \<Rightarrow> cache_key \<Rightarrow> upstream_group \<Rightarrow> message \<Rightarrow> u64 \<Rightarrow> ('a, 'f, 'v) resolver \<Rightarrow>
     ((resolve_error + message \<times> route_key option \<times> bool) \<times> ('a, 'f, 'v) resolver) option" where
  "fetch_answer X env key grp message seed s =
     (if synchronous (cfg_dnssec (rv_config s)) key
      then (case fetch_validated X env key grp message seed s of
              (Inl e, s1) \<Rightarrow> Some (Inl e, s1)
            | (Inr msg, s1) \<Rightarrow> Some (Inr (msg, None, False), s1))
      else map_option (\<lambda>(res, s1).
             (case res of
                Inl e \<Rightarrow> Inl e
              | Inr a \<Rightarrow> Inr (ua_message a, Some (ua_route a), ua_trust_ad a), s1))
           (upstream_resolve X env grp message (sv_foreground_budget (cfg_server (rv_config s))) seed s))"

text \<open>\<^verbatim>\<open>mul_f64(0.5)\<close> is taken to the nanosecond.\<close>

definition corroborate_negative ::
  "('a, 'f, 'v) resolver_lib \<Rightarrow> fetch_env \<Rightarrow> upstream_group \<Rightarrow> message \<Rightarrow> message \<Rightarrow> dnssec_status \<Rightarrow> route_key option \<Rightarrow>
     u64 \<Rightarrow> ('a, 'f, 'v) resolver \<Rightarrow> (message \<times> route_key option \<times> negative_evidence) \<times> ('a, 'f, 'v) resolver" where
  "corroborate_negative X env grp message response status route seed s =
     (if md_rcode (m_meta response) \<noteq> NXDomain then ((response, route, NotNegative), s)
      else if status = Secure then ((response, route, Proven), s)
      else if \<not> dn_corroborate_negative (cfg_dnssec (rv_config s)) then ((response, route, SingleSource), s)
      else case route of
        None \<Rightarrow> ((response, route, SingleSource), s)
      | Some first \<Rightarrow>
          (let slice = remaining_or (fn_deadline env) (fn_corroborate_now env)
                         (sv_foreground_budget (cfg_server (rv_config s))) div 2
           in if slice = 0 then ((response, route, SingleSource), s)
              else
                (let (second, routes) = corroborate (vl_proto X) (oe_env (fn_corroborate env)) (gr_scheduler grp) message
                       slice (seed XOR 0x9E3779B9) (rk_authority first) (oe_attempts (fn_corroborate env))
                       (oe_finished (fn_corroborate env)) (present_routes grp s);
                     s1 = set_routes (gr_name grp) routes s
                 in case second of
                      None \<Rightarrow> ((response, route, SingleSource), s1)
                    | Some a \<Rightarrow>
                        if md_rcode (m_meta (ua_message a)) = NXDomain then ((response, route, Corroborated), s1)
                        else if md_rcode (m_meta (ua_message a)) = NoError \<and> m_answers (ua_message a) \<noteq> []
                        then ((ua_message a, Some (ua_route a), NotNegative), s1)
                        else ((response, route, SingleSource), s1))))"

fun offer_probes ::
  "ipnet_lib \<Rightarrow> probe_config \<Rightarrow> prefix_snapshot option \<Rightarrow> u64 \<Rightarrow> string \<Rightarrow> instant \<Rightarrow> rr list \<Rightarrow> nat \<Rightarrow>
     offer_gate \<times> probe_queue \<Rightarrow> offer_gate \<times> probe_queue" where
  "offer_probes L cfg snapshot gen hostname now [] scheduled gq = gq"
| "offer_probes L cfg snapshot gen hostname now (r # rs) scheduled (gate, queue) =
     (if pb_max_candidates_per_rrset cfg \<le> scheduled then (gate, queue)
      else case record_address r of
        None \<Rightarrow> offer_probes L cfg snapshot gen hostname now rs scheduled (gate, queue)
      | Some addr \<Rightarrow>
          if classify L addr \<noteq> None then offer_probes L cfg snapshot gen hostname now rs scheduled (gate, queue)
          else
            (let is_cf = (case snapshot of Some p \<Rightarrow> snapshot_contains p addr | None \<Rightarrow> False);
                 (allowed, gate1) = gate_allow addr 443 hostname
                   (max (pb_per_domain_cooldown cfg) (pb_per_ip_cooldown cfg)) now gate
             in if \<not> allowed then offer_probes L cfg snapshot gen hostname now rs scheduled (gate1, queue)
                else offer_probes L cfg snapshot gen hostname now rs (scheduled + 1)
                       (gate1, snd (queue_offer (JobObserved hostname addr 443 is_cf gen) queue))))"

text \<open>An HTTPS or SVCB answer says that its name is a service.\<close>

definition note_service :: "cache_key \<Rightarrow> cache_entry \<Rightarrow> service_classifier \<Rightarrow> service_classifier" where
  "note_service key entry services =
     (if is_service_binding (ck_qtype key) \<and> m_answers (ce_message entry) \<noteq> []
      then note_https (ck_name key) services else services)"

definition schedule_probes ::
  "ipnet_lib \<Rightarrow> cache_key \<Rightarrow> cache_entry \<Rightarrow> instant \<Rightarrow> ('a, 'f, 'v) resolver \<Rightarrow> ('a, 'f, 'v) resolver" where
  "schedule_probes L key entry now s =
     (let cfg = ct_probe (rv_config s); services = note_service key entry (rv_services s) in
      if \<not> pb_enabled cfg \<or> ce_kind entry \<noteq> Positive then s
      else if ck_qtype key \<noteq> RT_A \<and> ck_qtype key \<noteq> RT_AAAA then s\<lparr>rv_services := services\<rparr>
      else if \<not> is_web_service services (ck_name key) then s\<lparr>rv_services := services\<rparr>
      else (let (gate, queue) = offer_probes L cfg (fs_prefixes (rv_cloudflare s)) (ns_generation (rv_network s))
                  (ck_name key) now (m_answers (ce_message entry)) 0 (rv_probe_gate s, rv_probes s)
            in s\<lparr>rv_services := services, rv_probe_gate := gate, rv_probes := queue\<rparr>))"

definition stored_ttl ::
  "('a, 'f, 'v) resolver \<Rightarrow> entry_kind \<Rightarrow> message \<Rightarrow> negative_evidence \<Rightarrow> u32" where
  "stored_ttl s kind response evidence =
     (let raw = (case (if kind = Positive then min_ttl response else negative_ttl response) of Some t \<Rightarrow> t | None \<Rightarrow> 0);
          cap = (if kind = Positive then dc_internal_max_ttl (rv_cache s)
                 else cc_negative_max_ttl (cfg_cache (rv_config s)));
          ttl = min raw cap
      in if evidence = SingleSource then min ttl PROVISIONAL_NEGATIVE_TTL else ttl)"

definition entry_of ::
  "('a, 'f, 'v) resolver_lib \<Rightarrow> fetch_env \<Rightarrow> ('a, 'f, 'v) resolver \<Rightarrow> message \<Rightarrow> route_key option \<Rightarrow> negative_evidence \<Rightarrow>
     dnssec_status \<Rightarrow> cache_entry" where
  "entry_of X env s response route evidence status =
     (let kind = classify_kind (vl_is_dnssec X) response in
      \<lparr>ce_message = response, ce_received_at = fn_now env, ce_received_unix = fn_unix env,
       ce_ttl = stored_ttl s kind response evidence, ce_kind = kind, ce_dnssec = status,
       ce_source = \<lparr>as_server = (case route of Some r \<Rightarrow> rk_server r | None \<Rightarrow> ''validator''),
                    as_transport = (case route of Some r \<Rightarrow> rk_transport r | None \<Rightarrow> Udp)\<rparr>,
       ce_fingerprint = answer_fingerprint (vl_proto X) response,
       ce_rrsig_expiry_unix = earliest_rrsig_expiry response,
       ce_approx_bytes = estimate_bytes (vl_proto X) response\<rparr>)"

definition fetch_store ::
  "('a, 'f, 'v) resolver_lib \<Rightarrow> fetch_env \<Rightarrow> cache_key \<Rightarrow> message \<Rightarrow> route_key option \<Rightarrow> negative_evidence \<Rightarrow> dnssec_status \<Rightarrow>
     ('a, 'f, 'v) resolver \<Rightarrow> cache_entry \<times> ('a, 'f, 'v) resolver" where
  "fetch_store X env key response route evidence status s =
     (let C = vl_cache X; now = fn_now env;
          entry = entry_of X env s response route evidence status;
          variant = \<lparr>vr_fingerprint = ce_fingerprint entry, vr_message = response, vr_source = ce_source entry,
                     vr_observed_at = now, vr_ttl = ce_ttl entry, vr_dnssec = status\<rparr>;
          c1 = (if ce_kind entry = Positive then snd (record_variant C key variant now (rv_cache s)) else rv_cache s);
          c2 = clear_failure C key c1;
          c3 = cache_insert C key entry c2
      in (entry, schedule_probes (vl_net X) key entry now (s\<lparr>rv_cache := c3\<rparr>)))"

definition fetch ::
  "('a, 'f, 'v) resolver_lib \<Rightarrow> fetch_env \<Rightarrow> cache_key \<Rightarrow> ('a, 'f, 'v) resolver \<Rightarrow>
     ((resolve_error + cache_entry) \<times> ('a, 'f, 'v) resolver) option" where
  "fetch X env key s0 =
     (let cfg = cfg_dnssec (rv_config s0); group_name = pv_group (ck_view key) in
      case registry_group (rv_registry s0) group_name of
        None \<Rightarrow> Some (Inl (NoRoute group_name), s0)
      | Some grp \<Rightarrow>
          (case fetch_query X (rv_config s0) (fn_id env) key of
             None \<Rightarrow> Some (Inl (InvalidResponse ''query name could not be encoded''), s0)
           | Some message \<Rightarrow>
               (let (seed, s1) = next_seed s0 in
                case fetch_answer X env key grp message seed s1 of
                  None \<Rightarrow> None
                | Some (Inl e, s2) \<Rightarrow> Some (Inl e, s2)
                | Some (Inr (response, route, trust_ad), s2) \<Rightarrow>
                    (let status = dnssec_status_of response cfg trust_ad in
                     if status = Bogus then Some (Inl ErrDnssecBogus, s2)
                     else
                       (let s3 = (if dn_mode cfg = DnssecBackground \<and> \<not> dm_checking_disabled (ck_mode key)
                                  then spawn_background_validation key message s2 else s2);
                            ((response', route', evidence), s4) =
                              corroborate_negative X env grp message response status route seed s3;
                            (entry, s5) = fetch_store X env key response' route' evidence status s4
                        in Some (Inr entry, s5))))))"

section \<open>Refreshing and answering\<close>

text \<open>\<open>waited\<close> is what a follower's channel delivered before its time limit.\<close>

definition publish_outcome ::
  "('a, 'f, 'v) resolver_lib \<Rightarrow> bool \<Rightarrow> resolve_error + cache_entry \<Rightarrow> cache_key leader \<Rightarrow> ('a, 'f, 'v) resolver \<Rightarrow>
     ('a, 'f, 'v) resolver" where
  "publish_outcome X transient_aware res l s =
     s\<lparr>rv_flights :=
        (case res of
           Inr entry \<Rightarrow> leader_complete (vl_hash X) entry l (rv_flights s)
         | Inl e \<Rightarrow>
             if transient_aware \<and> is_transient e
             then leader_fail_uncacheable (vl_hash X) (resolve_error_text e) l (rv_flights s)
             else leader_fail (vl_hash X) (resolve_error_text e) l (rv_flights s))\<rparr>"

definition refresh ::
  "('a, 'f, 'v) resolver_lib \<Rightarrow> fetch_env \<Rightarrow> cache_entry shared option \<Rightarrow> cache_key \<Rightarrow> ('a, 'f, 'v) resolver \<Rightarrow>
     ((resolve_error + cache_entry) \<times> ('a, 'f, 'v) resolver) option" where
  "refresh X env waited key s =
     (case sf_join (vl_hash X) key (rv_flights s) of
        (Leader l, f) \<Rightarrow>
          map_option (\<lambda>(res, s1). (res, publish_outcome X False res l s1)) (fetch X env key (s\<lparr>rv_flights := f\<rparr>))
      | (Follower _, f) \<Rightarrow>
          map_option (\<lambda>w. (case w of
              Inr entry \<Rightarrow> Inr entry
            | Inl _ \<Rightarrow> Inl (AllFailed (ascii_text ''coalesced refresh failed'')), s\<lparr>rv_flights := f\<rparr>)) waited
      | (Saturated, f) \<Rightarrow> Some (Inl (AllFailed (ascii_text ''singleflight saturated'')), s\<lparr>rv_flights := f\<rparr>))"

text \<open>
  What a query meets: its fetch, what a follower's channel delivered, whether the refresh of a stale
  entry ended within the client's time limit, and the clock at the lookup and at the response.
\<close>

record query_env =
  qe_fetch :: fetch_env
  qe_waited :: "cache_entry shared option"
  qe_in_time :: bool
  qe_now :: instant
  qe_unix :: u64
  qe_done :: instant
  qe_done_unix :: u64

definition entry_answer ::
  "('a, 'f, 'v) resolver_lib \<Rightarrow> query_env \<Rightarrow> message \<Rightarrow> cache_entry \<Rightarrow> answer_origin \<Rightarrow> bool \<Rightarrow> nat \<Rightarrow> ('a, 'f, 'v) resolver \<Rightarrow>
     answer \<times> ('a, 'f, 'v) resolver" where
  "entry_answer X env request entry origin client_do max_size s =
     (let (msg, s1) = build_response X request entry (remaining_ttl entry (qe_done env)) False client_do
                        (qe_done env) (qe_done_unix env) s
      in (\<lparr>an_message = msg, an_origin = origin, an_max_size = max_size\<rparr>, s1))"

definition stale_answer ::
  "('a, 'f, 'v) resolver_lib \<Rightarrow> query_env \<Rightarrow> message \<Rightarrow> cache_entry \<Rightarrow> bool \<Rightarrow> nat \<Rightarrow> ('a, 'f, 'v) resolver \<Rightarrow>
     answer \<times> ('a, 'f, 'v) resolver" where
  "stale_answer X env request entry client_do max_size s =
     (let (msg, s1) = build_response X request entry 0 True client_do (qe_done env) (qe_done_unix env) s;
          cfg = rv_config s;
          msg1 = (if ss_include_ede (cfg_serve_stale cfg) \<and> dn_extended_errors (cfg_dnssec cfg)
                  then attach_ede (vl_proto X) msg
                         (if ce_kind entry = NxDomainKind then EdeStaleNxdomain else EdeStaleAnswer)
                         (ascii_text ''serving expired data'')
                  else msg)
      in (\<lparr>an_message = msg1, an_origin = OrgStale, an_max_size = max_size\<rparr>, s1))"

definition serve_stale ::
  "('a, 'f, 'v) resolver_lib \<Rightarrow> query_env \<Rightarrow> message \<Rightarrow> cache_key \<Rightarrow> cache_entry \<Rightarrow> bool \<Rightarrow> nat \<Rightarrow> ('a, 'f, 'v) resolver \<Rightarrow>
     answer \<times> ('a, 'f, 'v) resolver" where
  "serve_stale X env request key entry client_do max_size s =
     (let (allowed, table) = stale_refresh_allowed key (ss_retry_interval (cfg_serve_stale (rv_config s))) (qe_now env)
                               (rv_stale_refresh s);
          s1 = s\<lparr>rv_stale_refresh := table\<rparr>
      in if \<not> allowed then stale_answer X env request entry client_do max_size s1
         else if qe_in_time env
         then (case refresh X (qe_fetch env) (qe_waited env) key s1 of
                 Some (Inr fresh, s2) \<Rightarrow> entry_answer X env request fresh OrgUpstream client_do max_size s2
               | Some (Inl _, s2) \<Rightarrow> stale_answer X env request entry client_do max_size s2
               | None \<Rightarrow> stale_answer X env request entry client_do max_size s1)
         else
           (let (a, s2) = stale_answer X env request entry client_do max_size s1
            in (a, case refresh X (qe_fetch env) (qe_waited env) key s2 of Some (_, s3) \<Rightarrow> s3 | None \<Rightarrow> s2)))"

definition failure_ttl :: "cache_config \<Rightarrow> u32 \<Rightarrow> duration" where
  "failure_ttl cfg streak =
     min (cc_failure_min_ttl cfg * unat (push_bit (unat (min streak 6)) 1 :: u32)) (cc_failure_max_ttl cfg)"

definition miss_failure ::
  "('a, 'f, 'v) resolver_lib \<Rightarrow> query_env \<Rightarrow> message \<Rightarrow> cache_key \<Rightarrow> failure_report \<Rightarrow> nat \<Rightarrow> ('a, 'f, 'v) resolver \<Rightarrow>
     answer \<times> ('a, 'f, 'v) resolver" where
  "miss_failure X env request key report max_size s =
     (let cfg = rv_config s; P = vl_proto X;
          s1 = (if fp_remember report
                then (let streak = sat_add (failure_streak (vl_cache X) key (rv_cache s)) 1
                      in s\<lparr>rv_cache := record_failure (vl_cache X) key
                            \<lparr>fe_recorded_at = qe_done env, fe_ttl = failure_ttl (cfg_cache cfg) streak,
                             fe_rcode = ServFail, fe_reason = ''upstream resolution failed'',
                             fe_consecutive = streak\<rparr> (rv_cache s)\<rparr>)
                else s);
          msg = error_response P request ServFail True;
          msg1 = (if dn_extended_errors (cfg_dnssec cfg) then attach_ede P msg (fp_ede report) (fp_detail report) else msg)
      in (\<lparr>an_message = msg1, an_origin = OrgRejected, an_max_size = max_size\<rparr>, s1))"

definition waited_result :: "cache_entry shared option \<Rightarrow> failure_report + cache_entry" where
  "waited_result waited =
     (case waited of
        Some (Inr entry) \<Rightarrow> Inr entry
      | Some (Inl e) \<Rightarrow> Inl \<lparr>fp_detail = flight_detail e, fp_remember = is_cacheable e, fp_ede = EdeNoReachableAuthority\<rparr>
      | None \<Rightarrow> Inl (failure_upstream ''coalesced request timed out''))"

text \<open>The entry or the failure a miss ends in.\<close>

definition miss_result ::
  "('a, 'f, 'v) resolver_lib \<Rightarrow> query_env \<Rightarrow> cache_key \<Rightarrow> ('a, 'f, 'v) resolver \<Rightarrow>
     ((failure_report + cache_entry) \<times> ('a, 'f, 'v) resolver) option" where
  "miss_result X env key s =
     (case sf_join (vl_hash X) key (rv_flights s) of
        (Leader l, f) \<Rightarrow>
          map_option (\<lambda>(res, s1).
              (case res of Inr entry \<Rightarrow> Inr entry | Inl e \<Rightarrow> Inl (failure_from_error e), publish_outcome X True res l s1))
            (fetch X (qe_fetch env) key (s\<lparr>rv_flights := f\<rparr>))
      | (Follower _, f) \<Rightarrow> Some (waited_result (qe_waited env), s\<lparr>rv_flights := f\<rparr>)
      | (Saturated, f) \<Rightarrow> Some (Inl (failure_upstream ''too many distinct queries in flight''), s\<lparr>rv_flights := f\<rparr>))"

definition miss_answer ::
  "('a, 'f, 'v) resolver_lib \<Rightarrow> query_env \<Rightarrow> message \<Rightarrow> cache_key \<Rightarrow> bool \<Rightarrow> nat \<Rightarrow> failure_report + cache_entry \<Rightarrow>
     ('a, 'f, 'v) resolver \<Rightarrow> answer \<times> ('a, 'f, 'v) resolver" where
  "miss_answer X env request key client_do max_size res s =
     (case res of
        Inr entry \<Rightarrow> entry_answer X env request entry OrgUpstream client_do max_size s
      | Inl report \<Rightarrow> miss_failure X env request key report max_size s)"

definition resolve_miss ::
  "('a, 'f, 'v) resolver_lib \<Rightarrow> query_env \<Rightarrow> message \<Rightarrow> cache_key \<Rightarrow> bool \<Rightarrow> nat \<Rightarrow> ('a, 'f, 'v) resolver \<Rightarrow>
     (answer \<times> ('a, 'f, 'v) resolver) option" where
  "resolve_miss X env request key client_do max_size s =
     map_option (\<lambda>(res, s1). miss_answer X env request key client_do max_size res s1) (miss_result X env key s)"

definition query_key :: "('a, 'f, 'v) resolver_lib \<Rightarrow> ('a, 'f, 'v) resolver \<Rightarrow> message \<Rightarrow> query \<Rightarrow> cache_key" where
  "query_key X s request q =
     (let cfg = rv_config s;
          grp = (case group_for (rv_datasets s) (q_name q) of
                   Some g \<Rightarrow> g | None \<Rightarrow> uc_default_group (ct_upstream cfg));
          client_do = (case m_edns request of Some e \<Rightarrow> ed_dnssec_ok e | None \<Rightarrow> False)
      in cache_key_new (q_name q) (q_type q) (q_class q)
           \<lparr>pv_group = grp, pv_ecs_identity = ecs_identity (vl_net_text X) (ct_ecs cfg)\<rparr>
           \<lparr>dm_dnssec_ok = (wants_dnssec_records (dn_mode (cfg_dnssec cfg)) \<or> client_do),
            dm_checking_disabled = md_checking_disabled (m_meta request)\<rparr>)"

text \<open>What can be answered without the cache: refusals, local data, the special-use registry.\<close>

definition immediate_answer ::
  "('a, 'f, 'v) resolver_lib \<Rightarrow> ('a, 'f, 'v) resolver \<Rightarrow> message \<Rightarrow> client_transport \<Rightarrow> answer option" where
  "immediate_answer X s request transport =
     (let P = vl_proto X; cfg = rv_config s; sv = cfg_server cfg;
          max_size = max_response_size sv request transport;
          q = hd (m_queries request)
      in if md_op (m_meta request) \<noteq> OpQuery then Some (reject P sv request NotImp max_size)
         else if length (m_queries request) \<noteq> 1 then Some (reject P sv request FormErr max_size)
         else if (case m_edns request of Some e \<Rightarrow> 0 < ed_version e | None \<Rightarrow> False)
         then (let msg = error_response P request BADVERS True
               in Some \<lparr>an_message = msg\<lparr>m_edns := map_option (\<lambda>e. e\<lparr>ed_version := 0\<rparr>) (m_edns msg)\<rparr>,
                        an_origin = OrgRejected, an_max_size = max_size\<rparr>)
         else if \<not> supported_class q then Some (reject P sv request rcode.Refused max_size)
         else if q_type q = RT_ANY \<and> sv_any_policy sv = AnyRefuse then Some (reject P sv request rcode.Refused max_size)
         else if q_type q = RT_ANY \<and> sv_any_policy sv = AnyMinimal
         then Some (local_reply (attach_response_edns P sv request
                (minimal_any_response P request (tc_cap_default (cfg_ttl cfg)))) max_size)
         else case local_answer P cfg (rv_datasets s) request (q_name q) (q_type q) max_size of
                Some a \<Rightarrow> Some a
              | None \<Rightarrow>
                  if sv_special_use sv = SpecialUseLocal
                  then special_use_answer P cfg (rv_datasets s) request (q_name q) (q_type q) max_size
                  else None)"

definition cached_answer ::
  "('a, 'f, 'v) resolver_lib \<Rightarrow> query_env \<Rightarrow> message \<Rightarrow> cache_key \<Rightarrow> bool \<Rightarrow> nat \<Rightarrow> ('a, 'f, 'v) resolver \<Rightarrow>
     (answer \<times> ('a, 'f, 'v) resolver) option" where
  "cached_answer X env request key client_do max_size s =
     (case cache_get (vl_cache X) (rv_cache s) key (qe_now env) of
        Fresh entry ttl_left \<Rightarrow>
          (let (msg, s1) = build_response X request entry ttl_left False client_do (qe_now env) (qe_unix env) s
           in Some (\<lparr>an_message = msg,
                     an_origin = (if ce_kind entry = Positive then OrgCacheHit else OrgNegativeHit),
                     an_max_size = max_size\<rparr>, s1))
      | Stale entry _ \<Rightarrow> Some (serve_stale X env request key entry client_do max_size s)
      | Miss \<Rightarrow> resolve_miss X env request key client_do max_size s)"

definition handle ::
  "('a, 'f, 'v) resolver_lib \<Rightarrow> query_env \<Rightarrow> message \<Rightarrow> client_transport \<Rightarrow> ('a, 'f, 'v) resolver \<Rightarrow>
     (answer \<times> ('a, 'f, 'v) resolver) option" where
  "handle X env request transport s =
     (case immediate_answer X s request transport of
        Some a \<Rightarrow> Some (a, s)
      | None \<Rightarrow>
          (let P = vl_proto X; cfg = rv_config s;
               max_size = max_response_size (cfg_server cfg) request transport;
               key = query_key X s request (hd (m_queries request));
               client_do = (case m_edns request of Some e \<Rightarrow> ed_dnssec_ok e | None \<Rightarrow> False);
               s1 = s\<lparr>rv_hotset := observe key None (qe_now env) (rv_hotset s)\<rparr>;
               (failure, cache) = cache_failure (vl_cache X) key (qe_now env) (rv_cache s1);
               s2 = s1\<lparr>rv_cache := cache\<rparr>
           in case failure of
                Some f \<Rightarrow>
                  (let msg = error_response P request (fe_rcode f) True;
                       msg1 = (if dn_extended_errors (cfg_dnssec cfg)
                               then attach_ede P msg EdeNetworkError (ascii_text (fe_reason f)) else msg)
                   in Some (\<lparr>an_message = msg1, an_origin = OrgFailureHit, an_max_size = max_size\<rparr>, s2))
              | None \<Rightarrow> cached_answer X env request key client_do max_size s2))"

text \<open>Addresses for background downloads, family by family; \<open>envs\<close> gives what each family's lookup meets.\<close>

definition family_key :: "('a, 'f, 'v) resolver_lib \<Rightarrow> ('a, 'f, 'v) resolver \<Rightarrow> string \<Rightarrow> rtype \<Rightarrow> cache_key" where
  "family_key X s host qtype =
     cache_key_new host qtype CLASS_IN
       \<lparr>pv_group = (case group_for (rv_datasets s) host of
                      Some g \<Rightarrow> g | None \<Rightarrow> uc_default_group (ct_upstream (rv_config s))),
        pv_ecs_identity = ecs_identity (vl_net_text X) (ct_ecs (rv_config s))\<rparr>
       \<lparr>dm_dnssec_ok = wants_dnssec_records (dn_mode (cfg_dnssec (rv_config s))), dm_checking_disabled = False\<rparr>"

fun lookup_families ::
  "('a, 'f, 'v) resolver_lib \<Rightarrow> (rtype \<Rightarrow> query_env) \<Rightarrow> string \<Rightarrow> rtype list \<Rightarrow> ('a, 'f, 'v) resolver \<Rightarrow>
     (ipaddr list \<times> ('a, 'f, 'v) resolver) option" where
  "lookup_families X envs host [] s = Some ([], s)"
| "lookup_families X envs host (qtype # rest) s =
     (let key = family_key X s host qtype; env = envs qtype;
          found = (case cache_get (vl_cache X) (rv_cache s) key (qe_now env) of
                     Fresh entry _ \<Rightarrow> Some (Some entry, s)
                   | _ \<Rightarrow> map_option (\<lambda>(res, s1). (case res of Inr e \<Rightarrow> Some e | Inl _ \<Rightarrow> None, s1))
                          (refresh X (qe_fetch env) (qe_waited env) key s))
      in case found of
           None \<Rightarrow> None
         | Some (entry, s1) \<Rightarrow>
             map_option (\<lambda>(more, s2).
                 ((case entry of Some e \<Rightarrow> List.map_filter record_address (m_answers (ce_message e)) | None \<Rightarrow> []) @ more, s2))
               (lookup_families X envs host rest s1))"

definition lookup_addresses ::
  "('a, 'f, 'v) resolver_lib \<Rightarrow> (rtype \<Rightarrow> query_env) \<Rightarrow> string \<Rightarrow> ('a, 'f, 'v) resolver \<Rightarrow>
     (ipaddr list \<times> ('a, 'f, 'v) resolver) option" where
  "lookup_addresses X envs host s =
     (let net = rv_network s;
          families = (if ns_v4 net \<noteq> FamUnusable then [RT_A] else []) @ (if ns_v6 net = FamUsable then [RT_AAAA] else [])
      in map_option (\<lambda>(out, s1). (remdups_adj (filter (\<lambda>a. classify (vl_net X) a = None) out), s1))
           (lookup_families X envs host families s))"

end
