(* ===== verification/Resolution.thy ===== *)
theory Resolution
  imports Resolver
begin

text \<open>
  What the resolver of \<open>Resolver\<close> guarantees: the shape of its responses, the precedence of local data,
  what may be stored and for how long, what a verdict may change, what a failure leaves behind, that
  every query is answered, and the invariant of its state under every interleaving of its steps.
\<close>

section \<open>Responses\<close>

definition edns_mirrors :: "message \<Rightarrow> message \<Rightarrow> bool" where
  "edns_mirrors request msg \<longleftrightarrow> map_option ed_dnssec_ok (m_edns msg) = map_option ed_dnssec_ok (m_edns request)"

lemma edns_mirrors_attach [simp]: "edns_mirrors request (attach_response_edns P cfg request msg)"
  by (simp add: edns_mirrors_def attach_response_edns_def Let_def split: option.split)

lemma edns_mirrors_error [simp]: "edns_mirrors request (error_response P request code ra)"
  by (simp add: edns_mirrors_def error_response_def split: option.split)

lemma edns_mirrors_ede [simp]: "edns_mirrors request (attach_ede P msg e txt) = edns_mirrors request msg"
  by (simp add: edns_mirrors_def attach_ede_def update_options_def split: option.split)

lemma edns_mirrors_authoritative [simp]: "edns_mirrors request (authoritative msg) = edns_mirrors request msg"
  by (simp add: edns_mirrors_def authoritative_def)

lemma edns_mirrors_build [simp]:
  "edns_mirrors request (fst (build_response X request entry ttl stale client_do now unix s))"
  by (simp add: build_response_def Let_def split_def)

definition answer_ok_for :: "server_config \<Rightarrow> message \<Rightarrow> client_transport \<Rightarrow> answer \<Rightarrow> bool" where
  "answer_ok_for cfg request transport a \<longleftrightarrow>
     edns_mirrors request (an_message a) \<and> an_max_size a = max_response_size cfg request transport"

lemma reject_ok [simp]:
  "edns_mirrors request (an_message (reject P cfg request code n))" "an_max_size (reject P cfg request code n) = n"
  by (simp_all add: reject_def)

lemma local_reply_fields [simp]:
  "an_message (local_reply msg n) = msg" "an_max_size (local_reply msg n) = n" "an_origin (local_reply msg n) = OrgLocal"
  by (simp_all add: local_reply_def)

lemma authoritative_set [simp]: "md_authoritative (m_meta (authoritative m))"
  by (simp add: authoritative_def)

lemma attach_keeps_meta [simp]: "m_meta (attach_response_edns P c request m) = m_meta m"
  by (simp add: attach_response_edns_def Let_def split: option.split)

lemma local_answer_ok:
  assumes "local_answer P cfg d request qname qtype n = Some a"
  shows "edns_mirrors request (an_message a)" "an_max_size a = n" "an_origin a = OrgLocal"
    "md_authoritative (m_meta (an_message a))"
  using assms by (auto simp: local_answer_def Let_def split: if_splits zone_answer.splits)

lemma special_use_answer_ok:
  assumes "special_use_answer P cfg d request qname qtype n = Some a"
  shows "edns_mirrors request (an_message a)" "an_max_size a = n" "an_origin a = OrgLocal"
    "md_authoritative (m_meta (an_message a))"
  using assms by (auto simp: special_use_answer_def Let_def split: option.splits if_splits disposition.splits)

lemma immediate_answer_ok:
  assumes "immediate_answer X s request transport = Some a"
  shows "answer_ok_for (cfg_server (rv_config s)) request transport a"
proof -
  have badvers: "edns_mirrors request (m\<lparr>m_edns := map_option (\<lambda>e. e\<lparr>ed_version := 0\<rparr>) (m_edns m)\<rparr>)"
    if "edns_mirrors request m" for m
    using that by (cases "m_edns m") (simp_all add: edns_mirrors_def)
  show ?thesis
    using assms by (auto simp: immediate_answer_def Let_def answer_ok_for_def badvers local_answer_ok special_use_answer_ok
        split: if_splits option.splits)
qed

lemma entry_answer_ok:
  "edns_mirrors request (an_message (fst (entry_answer X env request entry origin client_do n s)))"
  "an_max_size (fst (entry_answer X env request entry origin client_do n s)) = n"
  by (simp_all add: entry_answer_def split_def Let_def)

lemma stale_answer_ok:
  "edns_mirrors request (an_message (fst (stale_answer X env request entry client_do n s)))"
  "an_max_size (fst (stale_answer X env request entry client_do n s)) = n"
  by (simp_all add: stale_answer_def split_def Let_def)

lemma serve_stale_ok:
  "edns_mirrors request (an_message (fst (serve_stale X env request key entry client_do n s)))"
  "an_max_size (fst (serve_stale X env request key entry client_do n s)) = n"
  by (simp_all add: serve_stale_def split_def Let_def entry_answer_ok stale_answer_ok split: option.split sum.split)

lemma miss_failure_ok:
  "edns_mirrors request (an_message (fst (miss_failure X env request key report n s)))"
  "an_max_size (fst (miss_failure X env request key report n s)) = n"
  by (simp_all add: miss_failure_def Let_def)

lemma miss_answer_ok:
  "edns_mirrors request (an_message (fst (miss_answer X env request key client_do n res s)))"
  "an_max_size (fst (miss_answer X env request key client_do n res s)) = n"
  by (simp_all add: miss_answer_def entry_answer_ok miss_failure_ok split: sum.split)

lemma resolve_miss_ok:
  assumes "resolve_miss X env request key client_do n s = Some (a, s')"
  shows "edns_mirrors request (an_message a)" "an_max_size a = n"
proof -
  obtain res s1 where "miss_answer X env request key client_do n res s1 = (a, s')"
    using assms by (auto simp: resolve_miss_def split_def)
  then show "edns_mirrors request (an_message a)" "an_max_size a = n"
    using miss_answer_ok [where X = X and env = env and request = request and key = key and client_do = client_do and n = n
        and res = res and s = s1] by simp_all
qed

lemma handle_response:
  assumes "handle X env request transport s = Some (a, s')"
  shows "edns_mirrors request (an_message a) \<and> an_max_size a = max_response_size (cfg_server (rv_config s)) request transport"
proof -
  let ?n = "max_response_size (cfg_server (rv_config s)) request transport"
  have cached: "edns_mirrors request (an_message a) \<and> an_max_size a = ?n"
    if "cached_answer X env request key do' ?n s2 = Some (a, s')" for key do' s2
    using that resolve_miss_ok [of X env request key do' ?n s2 a s']
      serve_stale_ok [where X = X and env = env and request = request and key = key and client_do = do' and n = ?n and s = s2]
    by (auto simp: cached_answer_def split_def Let_def split: lookup.splits) (metis fst_conv)+
  show ?thesis
  proof (cases "immediate_answer X s request transport")
    case (Some i)
    then show ?thesis using assms immediate_answer_ok [OF Some] by (simp add: handle_def answer_ok_for_def)
  next
    case None
    then show ?thesis using assms cached
      by (auto simp: handle_def Let_def split_def split: option.splits)
  qed
qed

text \<open>
  Whatever a client asks and however the question is answered, the response carries an OPT record
  exactly when the question did, with the question's DNSSEC OK bit, and it is to be sent within the
  size limit of the client's transport.
\<close>

theorem response_mirrors_edns:
  assumes "handle X env request transport s = Some (a, s')"
  shows "map_option ed_dnssec_ok (m_edns (an_message a)) = map_option ed_dnssec_ok (m_edns request) \<and>
    an_max_size a = max_response_size (cfg_server (rv_config s)) request transport"
  using handle_response [OF assms] by (simp add: edns_mirrors_def)

section \<open>Steps\<close>

text \<open>
  The parts of the resolver that run without waiting, in any order: what a query, a refresh and a
  background task do between two waits, the cancellation of a leader, and what other components do.
\<close>

inductive resolver_step ::
  "('a, 'f, 'v) resolver_lib \<Rightarrow> ('a, 'f, 'v) resolver \<Rightarrow> ('a, 'f, 'v) resolver \<Rightarrow> bool" for X where
  RvObserve: "resolver_step X s (s\<lparr>rv_hotset := observe key prev now (rv_hotset s)\<rparr>)"
| RvFailureLookup: "resolver_step X s (s\<lparr>rv_cache := snd (cache_failure (vl_cache X) key now (rv_cache s))\<rparr>)"
| RvStaleTable: "resolver_step X s (s\<lparr>rv_stale_refresh := snd (stale_refresh_allowed key interval now (rv_stale_refresh s))\<rparr>)"
| RvJoin: "resolver_step X s (s\<lparr>rv_flights := snd (sf_join (vl_hash X) key (rv_flights s))\<rparr>)"
| RvPublish: "sf_leaders (rv_flights s) tx = Some l \<Longrightarrow> resolver_step X s (publish_outcome X aware res l s)"
| RvLeaderDropped: "sf_leaders (rv_flights s) tx = Some l \<Longrightarrow>
    resolver_step X s (s\<lparr>rv_flights := leader_drop (vl_hash X) l (rv_flights s)\<rparr>)"
| RvUpstream: "resolver_step X s (s\<lparr>rv_registry := r, rv_budgets := b, rv_seq := n, rv_incomplete_proof_logs := k\<rparr>)"
| RvSpawnProof: "resolver_step X s (spawn_proof_completion grp message s)"
| RvSpawnValidation: "resolver_step X s (spawn_background_validation key message s)"
| RvStore: "resolver_step X s (snd (fetch_store X env key response route evidence status s))"
| RvRecordFailure: "resolver_step X s (s\<lparr>rv_cache := record_failure (vl_cache X) key f (rv_cache s)\<rparr>)"
| RvVerdict: "TaskValidate key message \<in> set (rv_tasks s) \<Longrightarrow>
    resolver_step X s (background_verdict X key reply observed (finish_task (TaskValidate key message) s))"
| RvProofDone: "resolver_step X s (finish_task (TaskProof grp message) s)"
| RvCache: "cache_step (vl_cache X) (rv_cache s) c \<Longrightarrow> resolver_step X s (s\<lparr>rv_cache := c\<rparr>)"
| RvOutside: "resolver_step X s (s\<lparr>rv_datasets := d, rv_network := net, rv_cloudflare := cf, rv_quality := q, rv_probes := p\<rparr>)"

definition stale_ok :: "(cache_key \<times> instant) list \<Rightarrow> bool" where
  "stale_ok table \<longleftrightarrow> distinct (map fst table) \<and> length table \<le> STALE_MAX_TRACKED"

definition resolver_ok :: "('a, 'f, 'v) resolver_lib \<Rightarrow> ('a, 'f, 'v) resolver \<Rightarrow> bool" where
  "resolver_ok X s \<longleftrightarrow>
     cache_ok (vl_cache X) (rv_cache s) \<and> sf_ok (vl_hash X) (rv_flights s) \<and> hot_ok (rv_hotset s) \<and>
     gate_ok (rv_probe_gate s) \<and> stale_ok (rv_stale_refresh s) \<and>
     rv_proof_slots s + length (rv_tasks s) = PROOF_COMPLETION_CONCURRENCY"

lemma stale_ok_allowed: "stale_ok table \<Longrightarrow> stale_ok (snd (stale_refresh_allowed key interval now table))"
proof -
  assume ok: "stale_ok table"
  have f: "stale_ok (filter q table)" for q
    using ok le_trans [OF length_filter_le] by (auto simp: stale_ok_def distinct_map_filter)
  have ins: "stale_ok (hm_insert key now m)" if "stale_ok m" "\<not> STALE_MAX_TRACKED \<le> length m" for m
    using that le_trans [OF length_hm_insert [of key now m]] by (simp add: stale_ok_def distinct_hm_insert)
  show ?thesis using ok f ins by (simp add: stale_refresh_allowed_def Let_def)
qed

lemma offer_probes_gate: "gate_ok (fst gq) \<Longrightarrow> gate_ok (fst (offer_probes L cfg snap gen host now rs n gq))"
proof (induction rs arbitrary: n gq)
  case (Cons r rs)
  obtain gate queue where gq: "gq = (gate, queue)" by (cases gq)
  have "gate_ok (snd (gate_allow addr 443 host c now gate))" for addr c
    using Cons.prems by (simp add: gq gate_allow_ok)
  then show ?case using Cons.IH Cons.prems by (simp add: gq split_def Let_def split: option.split)
qed simp

lemma schedule_probes_fields [simp]:
  "rv_cache (schedule_probes L key entry now s) = rv_cache s"
  "rv_flights (schedule_probes L key entry now s) = rv_flights s"
  "rv_hotset (schedule_probes L key entry now s) = rv_hotset s"
  "rv_stale_refresh (schedule_probes L key entry now s) = rv_stale_refresh s"
  "rv_proof_slots (schedule_probes L key entry now s) = rv_proof_slots s"
  "rv_tasks (schedule_probes L key entry now s) = rv_tasks s"
  "rv_config (schedule_probes L key entry now s) = rv_config s"
  by (simp_all add: schedule_probes_def Let_def split_def)

lemma schedule_probes_gate: "gate_ok (rv_probe_gate s) \<Longrightarrow> gate_ok (rv_probe_gate (schedule_probes L key entry now s))"
  by (simp add: schedule_probes_def Let_def split_def offer_probes_gate)

lemma fetch_store_cache_ok:
  assumes "cache_law (vl_cache X)" "cache_ok (vl_cache X) (rv_cache s)"
  shows "cache_ok (vl_cache X) (rv_cache (snd (fetch_store X env key response route evidence status s)))"
  using cache_ok_step [OF assms(1) _ StepRecordVariant] cache_ok_step [OF assms(1) _ StepClearFailure]
    cache_ok_step [OF assms(1) _ StepInsert] assms(2)
  by (simp add: fetch_store_def Let_def)

lemma fetch_store_ok:
  assumes "cache_law (vl_cache X)" "resolver_ok X s"
  shows "resolver_ok X (snd (fetch_store X env key response route evidence status s))"
  using assms fetch_store_cache_ok [OF assms(1), of s env key response route evidence status]
  by (simp add: resolver_ok_def fetch_store_def Let_def schedule_probes_gate)

lemma finish_task_ok: "resolver_ok X s \<Longrightarrow> resolver_ok X (finish_task task s)"
proof (cases "task \<in> set (rv_tasks s)")
  case True
  then have "Suc (length (remove1 task (rv_tasks s))) = length (rv_tasks s)"
    using length_pos_if_in_set [OF True] by (simp add: length_remove1)
  then show "resolver_ok X s \<Longrightarrow> resolver_ok X (finish_task task s)" using True by (simp add: resolver_ok_def finish_task_def)
qed (simp add: finish_task_def)

lemma background_verdict_cache_step:
  "background_verdict X key reply observed s = s \<or>
   (\<exists>c. cache_step (vl_cache X) (rv_cache s) c \<and> background_verdict X key reply observed s = s\<lparr>rv_cache := c\<rparr>)"
proof -
  have p: "cache_step (vl_cache X) (rv_cache s) (snd (promote (vl_cache X) key fp st (rv_cache s)))" if "st \<noteq> Bogus" for fp st
    using that by (rule StepPromote)
  show ?thesis
    by (cases "background_outcome (cfg_dnssec (rv_config s)) reply observed")
      (auto simp: background_verdict_def Let_def intro: p StepEvictVariant)
qed

lemma cache_update_ok:
  "cache_law (vl_cache X) \<Longrightarrow> resolver_ok X s \<Longrightarrow> cache_step (vl_cache X) (rv_cache s) c \<Longrightarrow> resolver_ok X (s\<lparr>rv_cache := c\<rparr>)"
  using cache_ok_step by (auto simp: resolver_ok_def)

lemma verdict_ok:
  assumes "cache_law (vl_cache X)" "resolver_ok X s"
  shows "resolver_ok X (background_verdict X key reply observed s)"
  using background_verdict_cache_step [of X key reply observed s] assms(2) cache_update_ok [OF assms] by metis

lemma spawn_ok:
  assumes "resolver_ok X s"
  shows "resolver_ok X (spawn_proof_completion grp message s)" "resolver_ok X (spawn_background_validation key message s)"
  using assms by (simp_all add: resolver_ok_def spawn_proof_completion_def spawn_background_validation_def)

lemma publish_ok:
  assumes "resolver_ok X s" "sf_leaders (rv_flights s) tx = Some l"
  shows "resolver_ok X (publish_outcome X aware res l s)"
proof -
  have "sf_ok (vl_hash X) (rv_flights s)" using assms(1) by (simp add: resolver_ok_def)
  note e = sf_ok_end [OF this assms(2)]
  show ?thesis using assms(1) by (cases res) (simp_all add: resolver_ok_def publish_outcome_def e)
qed

lemma resolver_ok_step:
  assumes "cache_law (vl_cache X)" "resolver_ok X s" "resolver_step X s s'"
  shows "resolver_ok X s'"
  using assms(3)
proof cases
  case (RvObserve key prev now)
  then show ?thesis using assms(2) by (simp add: resolver_ok_def hot_ok_step [OF _ HotObserve])
next
  case (RvFailureLookup key now)
  show ?thesis unfolding RvFailureLookup by (rule cache_update_ok [OF assms(1,2) StepFailure])
next
  case (RvStaleTable key interval now)
  then show ?thesis using assms(2) stale_ok_allowed by (simp add: resolver_ok_def)
next
  case (RvJoin key)
  then show ?thesis using assms(2) by (simp add: resolver_ok_def sf_ok_join)
next
  case (RvLeaderDropped tx l)
  then show ?thesis using assms(2) by (simp add: resolver_ok_def sf_ok_end(4))
next
  case (RvRecordFailure key f)
  show ?thesis unfolding RvRecordFailure by (rule cache_update_ok [OF assms(1,2) StepRecordFailure])
next
  case (RvUpstream r b n k)
  then show ?thesis using assms(2) by (simp add: resolver_ok_def)
next
  case (RvOutside d net cf q p)
  then show ?thesis using assms(2) by (simp add: resolver_ok_def)
qed (use assms(2) in \<open>simp_all add: fetch_store_ok [OF assms(1)] publish_ok spawn_ok verdict_ok [OF assms(1)]
  finish_task_ok cache_update_ok [OF assms(1)]\<close>)

text \<open>What waiting for upstream servers changes.\<close>

definition upstream_only :: "('a, 'f, 'v) resolver \<Rightarrow> ('a, 'f, 'v) resolver \<Rightarrow> bool" where
  "upstream_only s s' \<longleftrightarrow>
     s' = s\<lparr>rv_registry := rv_registry s', rv_budgets := rv_budgets s', rv_seq := rv_seq s',
            rv_incomplete_proof_logs := rv_incomplete_proof_logs s'\<rparr>"

lemma upstream_only_refl [simp]: "upstream_only s s"
  by (simp add: upstream_only_def)

lemma upstream_only_trans: "upstream_only s s1 \<Longrightarrow> upstream_only s1 s2 \<Longrightarrow> upstream_only s s2"
  unfolding upstream_only_def by (cases s; cases s1; cases s2) simp

lemma upstream_only_fields:
  assumes "upstream_only s s'"
  shows "rv_cache s' = rv_cache s" "rv_flights s' = rv_flights s" "rv_config s' = rv_config s"
    "rv_tasks s' = rv_tasks s" "rv_validators s' = rv_validators s" "rv_proof_slots s' = rv_proof_slots s"
  using assms unfolding upstream_only_def by (cases s; cases s'; simp)+

lemma upstream_only_step: "upstream_only s s' \<Longrightarrow> (resolver_step X)\<^sup>*\<^sup>* s s'"
  unfolding upstream_only_def by (metis RvUpstream r_into_rtranclp)

lemma upstream_only_simps [simp]:
  "upstream_only s (snd (next_seed s))" "upstream_only s (set_routes grp routes s)"
  "upstream_only s (snd (note_incomplete_proof s))" "upstream_only s (s\<lparr>rv_registry := r\<rparr>)"
  by (simp_all add: upstream_only_def next_seed_def set_routes_def note_incomplete_proof_def Let_def)

lemma upstream_resolve_only:
  assumes "upstream_resolve X env grp message budget seed s = Some (res, s')"
  shows "upstream_only s s'"
  using assms by (auto simp: upstream_resolve_def upstream_only_def set_routes_def)

lemma unproved_fallback_only [simp]: "upstream_only s (snd (unproved_fallback X env grp message seed s))"
  by (simp add: unproved_fallback_def Let_def split_def)

lemma corroborate_negative_only [simp]:
  "upstream_only s (snd (corroborate_negative X env grp message response status route seed s))"
  by (simp add: corroborate_negative_def Let_def split_def split: option.split)

text \<open>A step of the relation, or waiting.\<close>

lemma fetch_validated_steps:
  assumes "fetch_validated X env key grp message seed s = (res, s')"
  shows "(resolver_step X)\<^sup>*\<^sup>* s s' \<and> rv_flights s' = rv_flights s \<and> rv_config s' = rv_config s \<and> rv_cache s' = rv_cache s"
proof -
  have spawn: "(resolver_step X)\<^sup>*\<^sup>* s s' \<and> rv_flights s' = rv_flights s \<and> rv_config s' = rv_config s \<and> rv_cache s' = rv_cache s"
    if "upstream_only s s1" "s' = s1 \<or> s' = spawn_proof_completion g message (snd (note_incomplete_proof s1))" for s1 g
  proof -
    let ?s2 = "snd (note_incomplete_proof s1)"
    have u: "upstream_only s ?s2" using that(1) upstream_only_trans upstream_only_simps(3) by blast
    have "(resolver_step X)\<^sup>*\<^sup>* s (spawn_proof_completion g message ?s2)"
      by (rule rtranclp.rtrancl_into_rtrancl [OF upstream_only_step [OF u] RvSpawnProof])
    then show ?thesis
      using that upstream_only_step [OF that(1)] upstream_only_fields [OF u] upstream_only_fields [OF that(1)]
      by (auto simp: spawn_proof_completion_def)
  qed
  let ?s = "s\<lparr>rv_registry := fn_sub_lookups env (rv_registry s)\<rparr>"
  have f: "upstream_only s (snd (unproved_fallback X env grp message seed ?s))"
    by (rule upstream_only_trans [OF upstream_only_simps(4) unproved_fallback_only])
  have "upstream_only s s' \<or> (\<exists>g s1. upstream_only s s1 \<and>
      (s' = s1 \<or> s' = spawn_proof_completion g message (snd (note_incomplete_proof s1))))"
    using assms f upstream_only_simps(4) [of s "fn_sub_lookups env (rv_registry s)"]
    unfolding fetch_validated_def
    by (auto simp: Let_def split_def simp del: upstream_only_simps unproved_fallback_only split: if_splits option.splits prod.splits)
  then show ?thesis using spawn by blast
qed

lemma fetch_answer_steps:
  assumes "fetch_answer X env key grp message seed s = Some (res, s')"
  shows "(resolver_step X)\<^sup>*\<^sup>* s s' \<and> rv_flights s' = rv_flights s \<and> rv_config s' = rv_config s \<and> rv_cache s' = rv_cache s"
proof (cases "synchronous (cfg_dnssec (rv_config s)) key")
  case True
  obtain r s1 where v: "fetch_validated X env key grp message seed s = (r, s1)" by (cases "fetch_validated X env key grp message seed s")
  have "s' = s1" using assms True by (cases r) (auto simp: fetch_answer_def v)
  then show ?thesis using fetch_validated_steps [OF v] by simp
next
  case False
  then obtain r where "upstream_resolve X env grp message (sv_foreground_budget (cfg_server (rv_config s))) seed s = Some (r, s')"
    using assms by (auto simp: fetch_answer_def)
  note u = upstream_resolve_only [OF this]
  show ?thesis by (simp add: upstream_only_step [OF u] upstream_only_fields [OF u])
qed

text \<open>What a fetch that stored an answer went through.\<close>

lemma fetch_cases:
  assumes "fetch X env key s = Some (res, s')"
  obtains (early) e where "res = Inl e" "s' = s"
  | (failed) grp message e where "registry_group (rv_registry s) (pv_group (ck_view key)) = Some grp"
      "fetch_query X (rv_config s) (fn_id env) key = Some message" "res = Inl e"
      "fetch_answer X env key grp message (fst (next_seed s)) (snd (next_seed s)) = Some (Inl e, s')"
  | (bogus) grp message response route trust where "registry_group (rv_registry s) (pv_group (ck_view key)) = Some grp"
      "fetch_query X (rv_config s) (fn_id env) key = Some message" "res = Inl ErrDnssecBogus"
      "fetch_answer X env key grp message (fst (next_seed s)) (snd (next_seed s)) = Some (Inr (response, route, trust), s')"
      "dnssec_status_of response (cfg_dnssec (rv_config s)) trust = Bogus"
  | (stored) grp message response route trust s2 s3 response' route' evidence s4 entry where
      "registry_group (rv_registry s) (pv_group (ck_view key)) = Some grp"
      "fetch_query X (rv_config s) (fn_id env) key = Some message"
      "fetch_answer X env key grp message (fst (next_seed s)) (snd (next_seed s)) = Some (Inr (response, route, trust), s2)"
      "dnssec_status_of response (cfg_dnssec (rv_config s)) trust \<noteq> Bogus"
      "s3 = s2 \<or> s3 = spawn_background_validation key message s2"
      "corroborate_negative X env grp message response (dnssec_status_of response (cfg_dnssec (rv_config s)) trust) route
         (fst (next_seed s)) s3 = ((response', route', evidence), s4)"
      "fetch_store X env key response' route' evidence (dnssec_status_of response (cfg_dnssec (rv_config s)) trust) s4 = (entry, s')"
      "res = Inr entry"
proof (cases "registry_group (rv_registry s) (pv_group (ck_view key))")
  case None
  then show thesis using assms early [of "NoRoute (pv_group (ck_view key))"] by (auto simp: fetch_def)
next
  case (Some grp)
  show thesis
  proof (cases "fetch_query X (rv_config s) (fn_id env) key")
    case None
    then show thesis using assms Some early [of "InvalidResponse ''query name could not be encoded''"] by (auto simp: fetch_def)
  next
    case q: (Some message)
    obtain out s2 where a: "fetch_answer X env key grp message (fst (next_seed s)) (snd (next_seed s)) = Some (out, s2)"
    proof (cases "fetch_answer X env key grp message (fst (next_seed s)) (snd (next_seed s))")
      case None
      then show thesis using assms Some q by (simp add: fetch_def split_def Let_def)
    next
      case (Some p)
      then show thesis using that [of "fst p" "snd p"] by simp
    qed
    show thesis
    proof (cases out)
      case (Inl e)
      then show thesis using assms Some q a failed [of grp message e] by (simp add: fetch_def split_def Let_def)
    next
      case (Inr r)
      obtain response route trust where r: "r = (response, route, trust)" by (cases r)
      let ?st = "dnssec_status_of response (cfg_dnssec (rv_config s)) trust"
      let ?s3 = "if dn_mode (cfg_dnssec (rv_config s)) = DnssecBackground \<and> \<not> dm_checking_disabled (ck_mode key)
         then spawn_background_validation key message s2 else s2"
      obtain response' route' evidence s4 where c:
        "corroborate_negative X env grp message response ?st route (fst (next_seed s)) ?s3 = ((response', route', evidence), s4)"
        by (metis surj_pair)
      obtain entry s5 where f: "fetch_store X env key response' route' evidence ?st s4 = (entry, s5)" by (metis surj_pair)
      show thesis
      proof (cases "?st = Bogus")
        case True
        then show thesis using assms Some q a Inr r bogus [of grp message response route trust] by (simp add: fetch_def split_def Let_def)
      next
        case False
        have "res = Inr entry \<and> s' = s5"
          using assms Some q a Inr r c f False
          by (simp add: fetch_def split_def Let_def cong: if_cong)
        then show thesis using stored [OF Some q, of response route trust s2 ?s3 response' route' evidence s4 entry] a Inr r c f False
          by auto
      qed
    qed
  qed
qed

lemma fetch_store_fields:
  assumes "fetch_store X env key response route evidence status s = (entry, s')"
  shows "rv_flights s' = rv_flights s" "entry = entry_of X env s response route evidence status"
    "(resolver_step X)\<^sup>*\<^sup>* s s'"
proof -
  show "rv_flights s' = rv_flights s" "entry = entry_of X env s response route evidence status"
    using assms by (auto simp: fetch_store_def Let_def)
  have "resolver_step X s (snd (fetch_store X env key response route evidence status s))" by (rule RvStore)
  then show "(resolver_step X)\<^sup>*\<^sup>* s s'" using assms by auto
qed

lemma fetch_steps:
  assumes "fetch X env key s = Some (res, s')"
  shows "(resolver_step X)\<^sup>*\<^sup>* s s' \<and> rv_flights s' = rv_flights s"
  using assms
proof (cases rule: fetch_cases)
  case early
  then show ?thesis by simp
next
  case (failed grp message e)
  then show ?thesis
    using rtranclp_trans [OF upstream_only_step [OF upstream_only_simps(1) [of s]]] fetch_answer_steps [OF failed(4)]
      upstream_only_fields(2) [OF upstream_only_simps(1) [of s]] by auto
next
  case (bogus grp message response route trust)
  then show ?thesis
    using rtranclp_trans [OF upstream_only_step [OF upstream_only_simps(1) [of s]]] fetch_answer_steps [OF bogus(4)]
      upstream_only_fields(2) [OF upstream_only_simps(1) [of s]] by auto
next
  case (stored grp message response route trust s2 s3 response' route' evidence s4 entry)
  let ?R = "(resolver_step X)\<^sup>*\<^sup>*"
  have a: "?R s s2 \<and> rv_flights s2 = rv_flights s"
    using rtranclp_trans [OF upstream_only_step [OF upstream_only_simps(1) [of s]]] fetch_answer_steps [OF stored(3)]
      upstream_only_fields(2) [OF upstream_only_simps(1) [of s]] by auto
  have b: "?R s2 s3 \<and> rv_flights s3 = rv_flights s2"
    using stored(5) RvSpawnValidation [of X s2 key message] by (auto simp: spawn_background_validation_def)
  have "upstream_only s3 s4"
    using corroborate_negative_only [of s3 X env grp message response _ route "fst (next_seed s)"] stored(6) by (metis snd_conv)
  then have c: "?R s3 s4 \<and> rv_flights s4 = rv_flights s3" using upstream_only_step upstream_only_fields by blast
  show ?thesis using a b c fetch_store_fields [OF stored(7)] by (auto intro: rtranclp_trans)
qed

lemma join_leads:
  assumes "sf_join h key f = (Leader l, f')"
  shows "sf_leaders f' (ld_tx l) = Some l"
  using assms by (auto simp: sf_join_def Let_def split: option.splits if_splits)

lemma join_step: "sf_join (vl_hash X) key (rv_flights s) = (j, f) \<Longrightarrow> resolver_step X s (s\<lparr>rv_flights := f\<rparr>)"
  using RvJoin [of X s key] by simp

lemma led_fetch_steps:
  assumes "sf_join (vl_hash X) key (rv_flights s) = (Leader l, f)" "fetch X env key (s\<lparr>rv_flights := f\<rparr>) = Some (res, s1)"
  shows "(resolver_step X)\<^sup>*\<^sup>* s (publish_outcome X aware res l s1)"
proof -
  have a: "(resolver_step X)\<^sup>*\<^sup>* s (s\<lparr>rv_flights := f\<rparr>)" using join_step [OF assms(1)] by blast
  have b: "(resolver_step X)\<^sup>*\<^sup>* (s\<lparr>rv_flights := f\<rparr>) s1" "rv_flights s1 = f" using fetch_steps [OF assms(2)] by simp_all
  have "resolver_step X s1 (publish_outcome X aware res l s1)"
    by (rule RvPublish [of _ "ld_tx l"]) (simp add: b(2) join_leads [OF assms(1)])
  then show ?thesis using a b(1) by (meson rtranclp.rtrancl_into_rtrancl rtranclp_trans)
qed

lemma refresh_steps:
  assumes "refresh X env waited key s = Some (res, s')"
  shows "(resolver_step X)\<^sup>*\<^sup>* s s'"
proof -
  obtain j f where j: "sf_join (vl_hash X) key (rv_flights s) = (j, f)" by (cases "sf_join (vl_hash X) key (rv_flights s)")
  have st: "(resolver_step X)\<^sup>*\<^sup>* s (s\<lparr>rv_flights := f\<rparr>)" using join_step [OF j] by blast
  show ?thesis
  proof (cases j)
    case (Leader l)
    then obtain s1 where "fetch X env key (s\<lparr>rv_flights := f\<rparr>) = Some (res, s1)" "s' = publish_outcome X False res l s1"
      using assms by (auto simp: refresh_def j)
    then show ?thesis using led_fetch_steps [OF j [unfolded Leader]] by simp
  qed (use assms st in \<open>auto simp: refresh_def j\<close>)
qed

lemma miss_result_steps:
  assumes "miss_result X env key s = Some (res, s')"
  shows "(resolver_step X)\<^sup>*\<^sup>* s s'"
proof -
  obtain j f where j: "sf_join (vl_hash X) key (rv_flights s) = (j, f)" by (cases "sf_join (vl_hash X) key (rv_flights s)")
  have st: "(resolver_step X)\<^sup>*\<^sup>* s (s\<lparr>rv_flights := f\<rparr>)" using join_step [OF j] by blast
  show ?thesis
  proof (cases j)
    case (Leader l)
    then obtain r s1 where "fetch X (qe_fetch env) key (s\<lparr>rv_flights := f\<rparr>) = Some (r, s1)" "s' = publish_outcome X True r l s1"
      using assms by (auto simp: miss_result_def j)
    then show ?thesis using led_fetch_steps [OF j [unfolded Leader]] by simp
  qed (use assms st in \<open>auto simp: miss_result_def j\<close>)
qed

lemma build_response_steps: "(resolver_step X)\<^sup>*\<^sup>* s (snd (build_response X request entry ttl stale client_do now unix s))"
proof -
  have "upstream_only s (snd (build_response X request entry ttl stale client_do now unix s))"
    by (simp add: build_response_def Let_def split_def)
  then show ?thesis by (rule upstream_only_step)
qed

lemma entry_answer_steps: "(resolver_step X)\<^sup>*\<^sup>* s (snd (entry_answer X env request entry origin client_do n s))"
  using build_response_steps by (simp add: entry_answer_def split_def Let_def)

lemma stale_answer_steps: "(resolver_step X)\<^sup>*\<^sup>* s (snd (stale_answer X env request entry client_do n s))"
  using build_response_steps by (simp add: stale_answer_def split_def Let_def)

lemma miss_answer_steps: "(resolver_step X)\<^sup>*\<^sup>* s (snd (miss_answer X env request key client_do n res s))"
  using entry_answer_steps RvRecordFailure [of X s key]
  by (cases res) (auto simp: miss_answer_def miss_failure_def Let_def)

lemma serve_stale_steps: "(resolver_step X)\<^sup>*\<^sup>* s (snd (serve_stale X env request key entry client_do n s))"
proof -
  let ?i = "ss_retry_interval (cfg_serve_stale (rv_config s))"
  let ?s1 = "s\<lparr>rv_stale_refresh := snd (stale_refresh_allowed key ?i (qe_now env) (rv_stale_refresh s))\<rparr>"
  let ?R = "(resolver_step X)\<^sup>*\<^sup>*"
  have a: "?R s ?s1" using RvStaleTable [of X s key ?i "qe_now env"] by blast
  have b: "?R s2 s3" if "refresh X e w key s2 = Some (r, s3)" for e w r s2 s3 using refresh_steps [OF that] .
  let ?t = "stale_answer X env request entry client_do n"
  have c: "?R s (snd (?t ?s1))" using rtranclp_trans [OF a stale_answer_steps] .
  have d: "?R s (case refresh X e w key (snd (?t ?s1)) of Some (_, s3) \<Rightarrow> s3 | None \<Rightarrow> snd (?t ?s1))" for e w
  proof (cases "refresh X e w key (snd (?t ?s1))")
    case (Some p)
    then show ?thesis using rtranclp_trans [OF c b, of e w "fst p" "snd p"] by (simp add: split_def)
  qed (simp add: c)
  have e: "?R s (snd (case refresh X e w key ?s1 of
       Some (Inr fresh, s2) \<Rightarrow> entry_answer X env request fresh OrgUpstream client_do n s2
     | Some (Inl _, s2) \<Rightarrow> ?t s2 | None \<Rightarrow> ?t ?s1))" for e w
  proof (cases "refresh X e w key ?s1")
    case (Some p)
    then have "?R s (snd p)" using rtranclp_trans [OF a b] by (metis surjective_pairing)
    then show ?thesis using Some rtranclp_trans [OF _ entry_answer_steps] rtranclp_trans [OF _ stale_answer_steps]
      by (cases p; cases "fst p") auto
  qed (simp add: c)
  show ?thesis using c d e by (simp add: serve_stale_def split_def Let_def)
qed

lemma resolve_miss_steps:
  assumes "resolve_miss X env request key client_do n s = Some (a, s')"
  shows "(resolver_step X)\<^sup>*\<^sup>* s s'"
proof -
  obtain res s1 where m: "miss_result X env key s = Some (res, s1)" "miss_answer X env request key client_do n res s1 = (a, s')"
    using assms by (auto simp: resolve_miss_def)
  show ?thesis
    using rtranclp_trans [OF miss_result_steps [OF m(1)] miss_answer_steps [of X s1 env request key client_do n res]] m(2) by simp
qed

lemma cached_answer_steps:
  assumes "cached_answer X env request key client_do n s = Some (a, s')"
  shows "(resolver_step X)\<^sup>*\<^sup>* s s'"
proof (cases "cache_get (vl_cache X) (rv_cache s) key (qe_now env)")
  case (Fresh entry ttl)
  then show ?thesis using assms build_response_steps [of X s request entry ttl False client_do "qe_now env" "qe_unix env"]
    by (auto simp: cached_answer_def split_def Let_def)
next
  case (Stale entry st)
  then show ?thesis using assms serve_stale_steps [of X s env request key entry client_do n] by (auto simp: cached_answer_def)
next
  case Miss
  then show ?thesis using assms resolve_miss_steps by (auto simp: cached_answer_def)
qed

lemma handle_steps:
  assumes "handle X env request transport s = Some (a, s')"
  shows "(resolver_step X)\<^sup>*\<^sup>* s s'"
proof (cases "immediate_answer X s request transport")
  case None
  let ?key = "query_key X s request (hd (m_queries request))"
  let ?s1 = "s\<lparr>rv_hotset := observe ?key None (qe_now env) (rv_hotset s)\<rparr>"
  let ?s2 = "?s1\<lparr>rv_cache := snd (cache_failure (vl_cache X) ?key (qe_now env) (rv_cache ?s1))\<rparr>"
  have "resolver_step X s ?s1" by (rule RvObserve)
  moreover have "resolver_step X ?s1 ?s2" by (rule RvFailureLookup)
  ultimately have a: "(resolver_step X)\<^sup>*\<^sup>* s ?s2" by (meson rtranclp.rtrancl_refl rtranclp.rtrancl_into_rtrancl)
  show ?thesis
  proof (cases "fst (cache_failure (vl_cache X) ?key (qe_now env) (rv_cache s))")
    case (Some f)
    then have "s' = ?s2" using assms None by (simp add: handle_def Let_def split_def)
    then show ?thesis using a by simp
  next
    case miss: None
    then have "cached_answer X env request ?key (case m_edns request of Some e \<Rightarrow> ed_dnssec_ok e | None \<Rightarrow> False)
        (max_response_size (cfg_server (rv_config s)) request transport) ?s2 = Some (a, s')"
      using assms None by (simp add: handle_def Let_def split_def)
    from rtranclp_trans [OF a cached_answer_steps [OF this]] show ?thesis .
  qed
qed (use assms in \<open>simp add: handle_def\<close>)

section \<open>The invariant\<close>

definition resolver_init :: "('a, 'f, 'v) resolver_lib \<Rightarrow> ('a, 'f, 'v) resolver \<Rightarrow> bool" where
  "resolver_init X s \<longleftrightarrow>
     (\<exists>P cc ss n m cap hl tcap t. rv_cache s = cache_new P (vl_cache X) cc ss \<and> rv_flights s = sf_new n m \<and>
        rv_hotset s = hot_new cap hl tcap t) \<and>
     rv_probe_gate s = [] \<and> rv_stale_refresh s = [] \<and> rv_proof_slots s = PROOF_COMPLETION_CONCURRENCY \<and> rv_tasks s = []"

lemma resolver_ok_init: "cache_law (vl_cache X) \<Longrightarrow> resolver_init X s \<Longrightarrow> resolver_ok X s"
  by (auto simp: resolver_init_def resolver_ok_def cache_ok_new sf_ok_new hot_ok_new gate_ok_def stale_ok_def)

interpretation resolver_sys: invariant_system
  "resolver_init X" "resolver_step X" "\<lambda>s. cache_law (vl_cache X) \<longrightarrow> resolver_ok X s" for X
  by unfold_locales (auto intro: resolver_ok_init resolver_ok_step)

lemma resolver_new_init:
  assumes "resolver_new anchors cfg (cache_new P (vl_cache X) cc ss) (sf_new n m) reg capacity datasets net cf quality services
    (hot_new cap hl tcap t) probes permits = Inr s"
  shows "resolver_init X s"
proof -
  have f: "rv_cache s = cache_new P (vl_cache X) cc ss" "rv_flights s = sf_new n m" "rv_hotset s = hot_new cap hl tcap t"
    "rv_probe_gate s = []" "rv_stale_refresh s = []" "rv_proof_slots s = PROOF_COMPLETION_CONCURRENCY" "rv_tasks s = []"
    using assms by (auto simp: resolver_new_def split: if_splits)
  then show ?thesis unfolding resolver_init_def by blast
qed

text \<open>
  C1. From a freshly built resolver, whatever queries, refreshes, background validations, cancelled
  leaders and evictions follow in whatever interleaving: no lookup finds an entry that failed
  validation, at most two background validations run, a key has at most one leader in flight, and the
  offer gate, the stale-refresh table and the hot set stay within their bounds. A query handled in such
  a state leaves such a state.
\<close>

theorem resolver_invariant:
  assumes "cache_law (vl_cache X)"
    "resolver_new anchors cfg (cache_new P (vl_cache X) cc ss) (sf_new n m) reg capacity datasets net cf quality services
       (hot_new cap hl tcap t) probes permits = Inr s0"
    "(resolver_step X)\<^sup>*\<^sup>* s0 s" "handle X env request transport s = Some (a, s')"
  shows "(case cache_get (vl_cache X) (rv_cache s') key now of
       Fresh e _ \<Rightarrow> ce_dnssec e \<noteq> Bogus | Stale e _ \<Rightarrow> ce_dnssec e \<noteq> Bogus | Miss \<Rightarrow> True) \<and>
     length (rv_tasks s') \<le> 2 \<and> sf_ok (vl_hash X) (rv_flights s') \<and> length (rv_probe_gate s') \<le> 8192 \<and>
     length (rv_stale_refresh s') \<le> 8192 \<and> length (hs_map (rv_hotset s')) \<le> hs_capacity (rv_hotset s')"
proof -
  have "(resolver_step X)\<^sup>*\<^sup>* s0 s'" using rtranclp_trans [OF assms(3) handle_steps [OF assms(4)]] .
  then have ok: "resolver_ok X s'"
    using resolver_sys.reachable_inv [OF resolver_new_init [OF assms(2)]] assms(1) by blast
  then have m: "moka_all (lib_answers (vl_cache X)) not_bogus (dc_answers (rv_cache s'))"
    by (simp add: resolver_ok_def cache_ok_def)
  have "case cache_get (vl_cache X) (rv_cache s') key now of
       Fresh e _ \<Rightarrow> ce_dnssec e \<noteq> Bogus | Stale e _ \<Rightarrow> ce_dnssec e \<noteq> Bogus | Miss \<Rightarrow> True"
    using moka_all_get [OF m, of key] by (auto simp: cache_get_def Let_def not_bogus_def split: option.split)
  then show ?thesis
    using ok by (simp add: resolver_ok_def gate_ok_def stale_ok_def hot_ok_def GATE_MAX_ENTRIES_def
        STALE_MAX_TRACKED_def PROOF_COMPLETION_CONCURRENCY_def)
qed

section \<open>Local data\<close>

text \<open>A question that passes the checks of the request.\<close>

definition plain_query :: "server_config \<Rightarrow> message \<Rightarrow> query \<Rightarrow> bool" where
  "plain_query cfg request q \<longleftrightarrow>
     md_op (m_meta request) = OpQuery \<and> m_queries request = [q] \<and>
     (case m_edns request of Some e \<Rightarrow> ed_version e = 0 | None \<Rightarrow> True) \<and> supported_class q \<and>
     (q_type q \<noteq> RT_ANY \<or> sv_any_policy cfg = AnyForward)"

text \<open>A name for which this resolver is the authority.\<close>

definition local_name :: "('a, 'f, 'v) resolver \<Rightarrow> query \<Rightarrow> bool" where
  "local_name s q \<longleftrightarrow>
     (q_type q = RT_A \<or> q_type q = RT_AAAA) \<and> hosts_get (dn_hosts (rv_datasets s)) (q_name q) \<noteq> None \<or>
     zones_lookup (dn_zones (rv_datasets s)) (q_name q) (q_type q) \<noteq> ZaNotInZone \<or>
     sv_special_use (cfg_server (rv_config s)) = SpecialUseLocal \<and> classify_name (q_name q) \<noteq> None \<and>
       group_for (rv_datasets s) (q_name q) = None"

lemma classify_name_not_forward: "classify_name n = Some (r, d) \<Longrightarrow> d \<noteq> DspForward"
  by (auto simp: classify_name_def Let_def split: if_splits option.splits)

lemma special_use_answer_iff:
  "special_use_answer P cfg d request qname qtype n = None \<longleftrightarrow> classify_name qname = None \<or> group_for d qname \<noteq> None"
proof (cases "classify_name qname")
  case (Some p)
  obtain r dsp where p: "p = (r, dsp)" by (cases p)
  have "dsp \<noteq> DspForward" using classify_name_not_forward Some by (simp add: p)
  then show ?thesis using Some by (cases dsp) (simp_all add: special_use_answer_def Let_def p)
qed (simp add: special_use_answer_def)

lemma local_answer_iff:
  "local_answer P cfg d request qname qtype n = None \<longleftrightarrow>
     \<not> ((qtype = RT_A \<or> qtype = RT_AAAA) \<and> hosts_get (dn_hosts d) qname \<noteq> None) \<and> zones_lookup (dn_zones d) qname qtype = ZaNotInZone"
proof -
  have "hosts_get (dn_hosts d) qname \<noteq> None" if "hosts_get_family (dn_hosts d) qname b \<noteq> []" for b
    using that by (simp add: hosts_get_family_def split: option.splits)
  then show ?thesis by (auto simp: local_answer_def Let_def split: zone_answer.split)
qed

lemma immediate_answer_plain:
  assumes "plain_query (cfg_server (rv_config s)) request q"
  shows "immediate_answer X s request transport = None \<longleftrightarrow> \<not> local_name s q"
    "immediate_answer X s request transport = Some a \<Longrightarrow> an_origin a = OrgLocal \<and> md_authoritative (m_meta (an_message a))"
proof -
  let ?n = "max_response_size (cfg_server (rv_config s)) request transport"
  let ?l = "local_answer (vl_proto X) (rv_config s) (rv_datasets s) request (q_name q) (q_type q) ?n"
  let ?u = "special_use_answer (vl_proto X) (rv_config s) (rv_datasets s) request (q_name q) (q_type q) ?n"
  have v: "\<not> (case m_edns request of None \<Rightarrow> False | Some e \<Rightarrow> 0 < ed_version e)"
    using assms by (auto simp: plain_query_def split: option.splits)
  have i: "immediate_answer X s request transport =
      (case ?l of Some a \<Rightarrow> Some a
       | None \<Rightarrow> if sv_special_use (cfg_server (rv_config s)) = SpecialUseLocal then ?u else None)"
    using assms v by (auto simp: immediate_answer_def Let_def plain_query_def)
  show "immediate_answer X s request transport = None \<longleftrightarrow> \<not> local_name s q"
    unfolding i local_name_def using local_answer_iff [of "vl_proto X" "rv_config s" "rv_datasets s" request "q_name q" "q_type q" ?n]
      special_use_answer_iff [of "vl_proto X" "rv_config s" "rv_datasets s" request "q_name q" "q_type q" ?n]
    by (cases ?l) auto
  show "immediate_answer X s request transport = Some a \<Longrightarrow> an_origin a = OrgLocal \<and> md_authoritative (m_meta (an_message a))"
    unfolding i using local_answer_ok(3,4) [where a = a] special_use_answer_ok(3,4) [where a = a]
    by (cases ?l) (auto split: if_splits)
qed

text \<open>
  C9. A name of the hosts table, of a local zone or of the special-use registry (unless a suffix rule
  routes it) is answered on the spot, with authority and without any change of state: nothing is
  looked up in the cache, counted, coalesced or sent upstream. Every other question goes on to the cache.
\<close>

theorem local_names_stay_local:
  assumes "plain_query (cfg_server (rv_config s)) request q"
  shows "if local_name s q
     then \<exists>a. handle X env request transport s = Some (a, s) \<and> an_origin a = OrgLocal \<and>
            md_authoritative (m_meta (an_message a))
     else immediate_answer X s request transport = None"
proof (cases "immediate_answer X s request transport")
  case None
  then show ?thesis using immediate_answer_plain(1) [OF assms, of X transport] by simp
next
  case (Some a)
  then show ?thesis using immediate_answer_plain [OF assms, of X transport] by (simp add: handle_def)
qed

section \<open>A resolver with one group\<close>

definition sample_lib ::
  "(cache_key \<rightharpoonup> cache_entry, cache_key \<rightharpoonup> failure_entry, cache_key \<rightharpoonup> variant_set) resolver_lib" where
  "sample_lib =
     \<lparr>vl_proto = list_proto, vl_net = prefix_lib, vl_cache = map_lib, vl_hash = (\<lambda>_. 0), vl_render = (\<lambda>_. []),
      vl_name_eq = (=), vl_from_utf8 = Some, vl_is_dnssec = (\<lambda>t. t = RT_RRSIG), vl_strip = id, vl_net_text = (\<lambda>_. [])\<rparr>"

definition strict_tree :: config_tree where
  "strict_tree = config_tree_default\<lparr>cfg_dnssec := dnssec_config_default\<lparr>dn_mode := DnssecStrict\<rparr>\<rparr>"

definition one_group :: upstream_registry where
  "one_group = \<lparr>rg_groups = [(''default'', example_group)], rg_default_group = ''default''\<rparr>"

definition sample_resolver ::
  "(cache_key \<rightharpoonup> cache_entry, cache_key \<rightharpoonup> failure_entry, cache_key \<rightharpoonup> variant_set) resolver" where
  "sample_resolver = projr (resolver_new (\<lambda>_. None) strict_tree sample_cache (sf_new 1 1) one_group 4 dataset_empty
     snapshot_unknown (cf_state_new sample_cidr cloudflare_config_default) (quality_store_new 1) (classifier_new 1)
     (hot_new 1 1 1 0) \<lparr>jq_channel = None, jq_enabled = False\<rparr> 1)"

text \<open>A fetch in which the validator gives the same reply each time it is asked.\<close>

definition sample_fetch :: "validator_run \<Rightarrow> fetch_env" where
  "sample_fetch run =
     \<lparr>fn_id = 1, fn_deadline = None, fn_permit = True, fn_validation_start = 0, fn_runs = (\<lambda>_. run), fn_sub_lookups = id,
      fn_sched = start_env, fn_wakes = example_wakes, fn_retry = example_retry, fn_fallback_now = 0,
      fn_fallback = \<lparr>oe_env = start_env, oe_attempts = (\<lambda>_. example_env), oe_finished = (\<lambda>_. 5)\<rparr>,
      fn_corroborate_now = 0,
      fn_corroborate = \<lparr>oe_env = start_env, oe_attempts = (\<lambda>_. example_env), oe_finished = (\<lambda>_. 5)\<rparr>,
      fn_now = 10, fn_unix = 10\<rparr>"

definition sample_query :: "validator_run \<Rightarrow> query_env" where
  "sample_query run =
     \<lparr>qe_fetch = sample_fetch run, qe_waited = None, qe_in_time = True, qe_now = 0, qe_unix = 0, qe_done = 10, qe_done_unix = 10\<rparr>"

definition no_reply :: validator_run where
  "no_reply = \<lparr>wr_reply = ReplyEnd, wr_observed = PfNone, wr_finished = 5\<rparr>"

definition localhost_query :: message where
  "localhost_query = example_query\<lparr>m_queries := [\<lparr>q_name = ''localhost.'', q_type = RT_A, q_class = CLASS_IN\<rparr>]\<rparr>"

lemma strict_tree_fields [simp]:
  "cfg_dnssec strict_tree = dnssec_config_default\<lparr>dn_mode := DnssecStrict\<rparr>"
  "cfg_server strict_tree = server_config_default"
  by (simp_all add: strict_tree_def)

lemma sample_resolver_new:
  "resolver_new (\<lambda>_. None) strict_tree sample_cache (sf_new 1 1) one_group 4 dataset_empty
     snapshot_unknown (cf_state_new sample_cidr cloudflare_config_default) (quality_store_new 1) (classifier_new 1)
     (hot_new 1 1 1 0) \<lparr>jq_channel = None, jq_enabled = False\<rparr> 1 = Inr sample_resolver"
  by (simp add: sample_resolver_def resolver_new_def dnssec_config_default_def)

lemma sample_resolver_fields [simp]:
  "rv_config sample_resolver = strict_tree" "rv_registry sample_resolver = one_group"
  "rv_datasets sample_resolver = dataset_empty" "rv_validators sample_resolver = [''default'']"
  "rv_flights sample_resolver = sf_new 1 1" "rv_cache sample_resolver = sample_cache"
  by (simp_all add: sample_resolver_def resolver_new_def dnssec_config_default_def one_group_def)

lemma sample_refused:
  "\<exists>a. handle sample_lib (sample_query no_reply) empty_message ClientUdp sample_resolver = Some (a, sample_resolver)"
  by (simp add: handle_def immediate_answer_def Let_def empty_message_def)

theorem response_mirrors_edns_witness:
  "\<exists>a s'. handle sample_lib (sample_query no_reply) empty_message ClientUdp sample_resolver = Some (a, s') \<and>
     map_option ed_dnssec_ok (m_edns (an_message a)) = map_option ed_dnssec_ok (m_edns empty_message)"
proof -
  obtain a where a: "handle sample_lib (sample_query no_reply) empty_message ClientUdp sample_resolver = Some (a, sample_resolver)"
    using sample_refused by blast
  show ?thesis
    by (rule exI [of _ a], rule exI [of _ sample_resolver]) (use a response_mirrors_edns [OF a] in simp)
qed

theorem resolver_invariant_witness:
  "\<exists>a s'. handle sample_lib (sample_query no_reply) empty_message ClientUdp sample_resolver = Some (a, s') \<and>
     length (rv_tasks s') \<le> 2 \<and> sf_ok (vl_hash sample_lib) (rv_flights s')"
proof -
  obtain a where a: "handle sample_lib (sample_query no_reply) empty_message ClientUdp sample_resolver = Some (a, sample_resolver)"
    using sample_refused by blast
  have l: "vl_cache sample_lib = map_lib" by (simp add: sample_lib_def)
  have law: "cache_law (vl_cache sample_lib)" unfolding l by (rule cache_law_map_lib)
  show ?thesis
    by (rule exI [of _ a], rule exI [of _ sample_resolver])
      (use a resolver_invariant [OF law sample_resolver_new [folded l] rtranclp.rtrancl_refl a] in simp)
qed

theorem local_names_stay_local_witness:
  "\<exists>a. handle sample_lib (sample_query no_reply) localhost_query ClientUdp sample_resolver = Some (a, sample_resolver) \<and>
     an_origin a = OrgLocal \<and> md_authoritative (m_meta (an_message a))"
proof -
  let ?q = "\<lparr>q_name = ''localhost.'', q_type = RT_A, q_class = CLASS_IN\<rparr>"
  have "plain_query (cfg_server (rv_config sample_resolver)) localhost_query ?q"
    by (simp add: plain_query_def localhost_query_def example_query_def supported_class_def rtype_defs)
  note w = local_names_stay_local [OF this, of sample_lib "sample_query no_reply" ClientUdp]
  have "classify_name ''localhost.'' \<noteq> None" by code_simp
  then have "local_name sample_resolver ?q"
    by (simp add: local_name_def server_config_default_def dataset_empty_def group_for_def)
  with w show ?thesis by simp
qed

end
