(* ===== verification/Fetching.thy ===== *)
theory Fetching
  imports Resolution
begin

text \<open>
  What the resolver's fetch may store, serve and remember: the entry of a fetch and its lifetime, the
  evidence behind a negative answer and behind an unproved one, the verdicts of the background
  validation, the AD bit, and what a failed resolution leaves behind.
\<close>

section \<open>The stored entry\<close>

lemma next_seed_fields [simp]:
  "rv_cache (snd (next_seed s)) = rv_cache s" "rv_config (snd (next_seed s)) = rv_config s"
  "rv_validators (snd (next_seed s)) = rv_validators s"
  by (simp_all add: next_seed_def)

lemma spawn_validation_fields [simp]:
  "rv_cache (spawn_background_validation key message s) = rv_cache s"
  "rv_config (spawn_background_validation key message s) = rv_config s"
  by (simp_all add: spawn_background_validation_def)

lemma corroborate_negative_fields:
  assumes "corroborate_negative X env grp message response status route seed s = (r, s')"
  shows "rv_cache s' = rv_cache s" "rv_config s' = rv_config s"
proof -
  have "upstream_only s s'"
    using corroborate_negative_only [of s X env grp message response status route seed] by (simp add: assms)
  then show "rv_cache s' = rv_cache s" "rv_config s' = rv_config s" by (rule upstream_only_fields)+
qed

lemma fetch_store_cache:
  assumes "fetch_store X env key response route evidence status s = (entry, s')"
  shows "dc_failures (rv_cache s') = mk_invalidate (lib_failures (vl_cache X)) key (dc_failures (rv_cache s))"
    "status \<noteq> Bogus \<Longrightarrow> dc_answers (rv_cache s') = mk_insert (lib_answers (vl_cache X)) key entry (dc_answers (rv_cache s))"
  using assms
  by (auto simp: fetch_store_def Let_def cache_insert_def clear_failure_def record_variant_def entry_of_def)

lemma moka_insert_same:
  assumes "moka_law M"
  shows "mk_get M (mk_insert M k v c) k \<in> {None, Some v}"
  by (cases "mk_get M (mk_insert M k v c) k") (use moka_insertD [OF _ assms, of k v c k] in auto)

lemma entry_of_fields [simp]:
  "ce_message (entry_of X env s response route evidence status) = response"
  "ce_dnssec (entry_of X env s response route evidence status) = status"
  "ce_kind (entry_of X env s response route evidence status) = classify_kind (vl_is_dnssec X) response"
  "ce_ttl (entry_of X env s response route evidence status) =
     stored_ttl s (classify_kind (vl_is_dnssec X) response) response evidence"
  "as_server (ce_source (entry_of X env s response (Some r) evidence status)) = rk_server r"
  by (simp_all add: entry_of_def Let_def)

lemma stored_ttl_bounds:
  "stored_ttl s kind response evidence \<le>
     (if kind = Positive then dc_internal_max_ttl (rv_cache s) else cc_negative_max_ttl (cfg_cache (rv_config s)))"
  "stored_ttl s kind response SingleSource \<le> PROVISIONAL_NEGATIVE_TTL"
  by (simp_all add: stored_ttl_def Let_def min.coboundedI1 min.coboundedI2)

text \<open>What is known of an entry when a fetch ends well.\<close>

lemma fetch_stored:
  assumes "fetch X env key s = Some (Inr entry, s')"
  obtains grp message response route trust s3 response' route' evidence s4 where
    "registry_group (rv_registry s) (pv_group (ck_view key)) = Some grp"
    "fetch_query X (rv_config s) (fn_id env) key = Some message"
    "\<exists>s2. fetch_answer X env key grp message (fst (next_seed s)) (snd (next_seed s)) = Some (Inr (response, route, trust), s2)"
    "dnssec_status_of response (cfg_dnssec (rv_config s)) trust \<noteq> Bogus"
    "corroborate_negative X env grp message response (dnssec_status_of response (cfg_dnssec (rv_config s)) trust) route
       (fst (next_seed s)) s3 = ((response', route', evidence), s4)"
    "fetch_store X env key response' route' evidence (dnssec_status_of response (cfg_dnssec (rv_config s)) trust) s4 = (entry, s')"
    "rv_cache s4 = rv_cache s" "rv_config s4 = rv_config s" "rv_config s3 = rv_config s"
    "entry = entry_of X env s4 response' route' evidence (dnssec_status_of response (cfg_dnssec (rv_config s)) trust)"
  using assms
proof (cases rule: fetch_cases)
  case (stored grp message response route trust s2 s3 response' route' evidence s4 entry')
  have e: "entry' = entry" using stored(8) by simp
  have "rv_cache s2 = rv_cache s" "rv_config s2 = rv_config s" using fetch_answer_steps [OF stored(3)] by simp_all
  then have c3: "rv_cache s3 = rv_cache s" "rv_config s3 = rv_config s" using stored(5) by auto
  show thesis
    by (rule that [OF stored(1,2) _ stored(4,6)])
      (use stored(3,7) c3 corroborate_negative_fields [OF stored(6)] fetch_store_fields(2) [OF stored(7)] in \<open>auto simp: e\<close>)
qed simp_all

text \<open>
  C6. An answer a fetch stores did not fail validation, lives at most as long as the configuration
  permits for its kind, replaces whatever the cache held for the key, and ends the memory of an
  earlier failure: the next query for the key is not refused. (A bounded store may drop an entry at
  any time, so it is found or nothing is.)
\<close>

theorem fetch_stores_sound_entry:
  assumes "cache_law (vl_cache X)" "fetch X env key s = Some (Inr entry, s')"
  shows "ce_dnssec entry \<noteq> Bogus \<and>
    ce_ttl entry \<le> (if ce_kind entry = Positive then dc_internal_max_ttl (rv_cache s)
                     else cc_negative_max_ttl (cfg_cache (rv_config s))) \<and>
    mk_get (lib_answers (vl_cache X)) (dc_answers (rv_cache s')) key \<in> {None, Some entry} \<and>
    fst (cache_failure (vl_cache X) key now (rv_cache s')) = None"
  using assms(2)
proof (rule fetch_stored)
  fix grp message response route trust s3 response' route' evidence s4
  assume st: "dnssec_status_of response (cfg_dnssec (rv_config s)) trust \<noteq> Bogus"
    and f: "fetch_store X env key response' route' evidence (dnssec_status_of response (cfg_dnssec (rv_config s)) trust) s4 = (entry, s')"
    and c: "rv_cache s4 = rv_cache s" "rv_config s4 = rv_config s"
    and e: "entry = entry_of X env s4 response' route' evidence (dnssec_status_of response (cfg_dnssec (rv_config s)) trust)"
  have law: "moka_law (lib_answers (vl_cache X))" "moka_law (lib_failures (vl_cache X))"
    using assms(1) by (simp_all add: cache_law_def)
  have "ce_dnssec entry \<noteq> Bogus" using st by (simp add: e)
  moreover have "ce_ttl entry \<le> (if ce_kind entry = Positive then dc_internal_max_ttl (rv_cache s)
      else cc_negative_max_ttl (cfg_cache (rv_config s)))"
    unfolding e entry_of_fields c [symmetric] by (rule stored_ttl_bounds(1))
  moreover have "mk_get (lib_answers (vl_cache X)) (dc_answers (rv_cache s')) key \<in> {None, Some entry}"
    using moka_insert_same [OF law(1)] fetch_store_cache(2) [OF f st] by simp
  moreover have "fst (cache_failure (vl_cache X) key now (rv_cache s')) = None"
    using moka_invalidate_self [OF law(2)] fetch_store_cache(1) [OF f] by (simp add: cache_failure_def)
  ultimately show ?thesis by simp
qed

section \<open>Negative answers\<close>

text \<open>A second opinion the resolver asked for in this fetch.\<close>

definition second_opinion ::
  "('a, 'f, 'v) resolver_lib \<Rightarrow> fetch_env \<Rightarrow> message \<Rightarrow> string \<Rightarrow> upstream_answer \<Rightarrow> bool" where
  "second_opinion X env message exclude a \<longleftrightarrow>
     (\<exists>cfg slice seed routes. fst (corroborate (vl_proto X) (oe_env (fn_corroborate env)) cfg message slice seed exclude
        (oe_attempts (fn_corroborate env)) (oe_finished (fn_corroborate env)) routes) = Some a)"

lemma corroborate_negative_cases:
  assumes "corroborate_negative X env grp message response status route seed s = ((response', route', evidence), s')"
  obtains (positive) "evidence = NotNegative" "response' = response" "route' = route" "md_rcode (m_meta response) \<noteq> NXDomain"
  | (proven) "evidence = Proven" "response' = response" "route' = route" "status = Secure"
  | (single) "evidence = SingleSource" "response' = response" "route' = route"
  | (agreed) first a where "evidence = Corroborated" "response' = response" "route' = route" "route = Some first"
      "second_opinion X env message (rk_authority first) a" "md_rcode (m_meta (ua_message a)) = NXDomain"
  | (contradicted) first a where "evidence = NotNegative" "response' = ua_message a" "route' = Some (ua_route a)" "route = Some first"
      "second_opinion X env message (rk_authority first) a" "md_rcode (m_meta (ua_message a)) = NoError"
      "m_answers (ua_message a) \<noteq> []" "md_rcode (m_meta response) = NXDomain" "status \<noteq> Secure"
proof (cases "md_rcode (m_meta response) = NXDomain \<and> status \<noteq> Secure \<and> dn_corroborate_negative (cfg_dnssec (rv_config s)) \<and> route \<noteq> None")
  case False
  then show thesis using assms positive proven single
    by (auto simp: corroborate_negative_def split: if_splits)
next
  case True
  then obtain first where first: "route = Some first" by blast
  let ?slice = "remaining_or (fn_deadline env) (fn_corroborate_now env) (sv_foreground_budget (cfg_server (rv_config s))) div 2"
  let ?c = "corroborate (vl_proto X) (oe_env (fn_corroborate env)) (gr_scheduler grp) message ?slice (seed XOR 0x9E3779B9)
     (rk_authority first) (oe_attempts (fn_corroborate env)) (oe_finished (fn_corroborate env)) (present_routes grp s)"
  show thesis
  proof (cases "?slice = 0 \<or> fst ?c = None")
    case none: True
    have "evidence = SingleSource \<and> response' = response \<and> route' = route"
      using assms True first none
      by (cases "?slice = 0") (simp_all add: corroborate_negative_def split_def Let_def)
    then show thesis using single by simp
  next
    case False
    then obtain a where a: "fst ?c = Some a" and sl: "?slice \<noteq> 0" by blast
    have op: "second_opinion X env message (rk_authority first) a" unfolding second_opinion_def using a by blast
    have r: "((response', route', evidence), s') =
        (if md_rcode (m_meta (ua_message a)) = NXDomain then ((response, route, Corroborated), set_routes (gr_name grp) (snd ?c) s)
         else if md_rcode (m_meta (ua_message a)) = NoError \<and> m_answers (ua_message a) \<noteq> []
         then ((ua_message a, Some (ua_route a), NotNegative), set_routes (gr_name grp) (snd ?c) s)
         else ((response, route, SingleSource), set_routes (gr_name grp) (snd ?c) s))"
      unfolding assms [symmetric] using True first a sl by (simp add: corroborate_negative_def split_def Let_def)
    show thesis
    proof (cases "md_rcode (m_meta (ua_message a)) = NXDomain")
      case nx: True
      then show thesis using r by (intro agreed [OF _ _ _ first op nx]) simp_all
    next
      case False
      show thesis
      proof (cases "md_rcode (m_meta (ua_message a)) = NoError \<and> m_answers (ua_message a) \<noteq> []")
        case pos: True
        then show thesis using r True by (intro contradicted [OF _ _ _ first op]) simp_all
      next
        case neg: False
        have "((response', route', evidence), s') = ((response, route, SingleSource), set_routes (gr_name grp) (snd ?c) s)"
          using r by (simp only: False neg if_False)
        then show thesis by (intro single) simp_all
      qed
    qed
  qed
qed

lemma classify_kind_nx: "classify_kind d msg = NxDomainKind \<longleftrightarrow> md_rcode (m_meta msg) = NXDomain"
  by (simp add: classify_kind_def)


section \<open>Validation before the answer\<close>

text \<open>What the validator's one or two runs of a fetch ended in.\<close>

definition validation_of :: "fetch_env \<Rightarrow> config_tree \<Rightarrow> message option \<times> validation_outcome" where
  "validation_of env cfg =
     validation_loop (cfg_dnssec cfg)
       (fn_validation_start env + remaining_or (fn_deadline env) (fn_validation_start env) (sv_foreground_budget (cfg_server cfg)))
       (fn_runs env) 0"

lemma validation_loop_run:
  "\<exists>i. (i = 1 \<or> i = 2) \<and> validation_loop cfg deadline runs 0 = validation_attempt cfg (runs i)"
proof (cases "is_retryable (snd (validation_attempt cfg (runs 1))) \<and> MIN_REVALIDATION_BUDGET < deadline - wr_finished (runs 1)")
  case True
  then have "validation_loop cfg deadline runs 0 = validation_loop cfg deadline runs 1"
    by (subst validation_loop.simps) (simp add: split_def Let_def)
  also have "\<dots> = validation_attempt cfg (runs 2)"
    by (subst validation_loop.simps) (simp add: split_def Let_def numeral_2_eq_2)
  finally show ?thesis by blast
next
  case False
  then have "validation_loop cfg deadline runs 0 = validation_attempt cfg (runs 1)"
    by (subst validation_loop.simps) (auto simp: split_def Let_def)
  then show ?thesis by blast
qed

lemma validation_of_answer:
  assumes "validation_of env cfg = (Some msg, outcome)"
  obtains observed where "outcome = classify_outcome msg (cfg_dnssec cfg) False observed"
    "\<exists>i. (i = 1 \<or> i = 2) \<and> wr_reply (fn_runs env i) = ReplyAnswer msg \<and> wr_observed (fn_runs env i) = observed"
proof -
  obtain i where i: "i = 1 \<or> i = (2 :: nat)" "validation_attempt (cfg_dnssec cfg) (fn_runs env i) = (Some msg, outcome)"
    using validation_loop_run [of "cfg_dnssec cfg" "fn_validation_start env +
        remaining_or (fn_deadline env) (fn_validation_start env) (sv_foreground_budget (cfg_server cfg))" "fn_runs env"] assms
    unfolding validation_of_def by metis
  then have "wr_reply (fn_runs env i) = ReplyAnswer msg"
    "outcome = classify_outcome msg (cfg_dnssec cfg) False (wr_observed (fn_runs env i))"
    by (auto simp: validation_attempt_def split: validator_reply.splits)
  with i(1) show thesis by (intro that) auto
qed

text \<open>Two resolvers that agree: what the fallback of an unfinished proof accepts.\<close>

definition agreed_answer ::
  "('a, 'f, 'v) resolver_lib \<Rightarrow> fetch_env \<Rightarrow> message \<Rightarrow> message \<Rightarrow> bool" where
  "agreed_answer X env message msg \<longleftrightarrow>
     (\<exists>cfg slice seed routes a b. fst (resolve_pair (vl_proto X) (oe_env (fn_fallback env)) cfg message slice seed
          (oe_attempts (fn_fallback env)) (oe_finished (fn_fallback env)) routes) = Some (a, b) \<and>
        msg = ua_message a \<and> md_rcode (m_meta msg) = NoError \<and> m_answers msg \<noteq> [] \<and>
        answers_are_compatible msg (ua_message b))"

lemma unproved_fallback_agreed:
  assumes "unproved_fallback X env grp message seed s = (Some msg, s')"
  shows "agreed_answer X env message msg"
proof -
  define slice where "slice = remaining_or (fn_deadline env) (fn_fallback_now env) (sv_foreground_budget (cfg_server (rv_config s)))"
  define p where "p = resolve_pair (vl_proto X) (oe_env (fn_fallback env)) (gr_scheduler grp) message slice
     seed (oe_attempts (fn_fallback env)) (oe_finished (fn_fallback env)) (present_routes grp s)"
  have sl: "\<not> slice < MIN_REVALIDATION_BUDGET" using assms by (auto simp: unproved_fallback_def Let_def slice_def)
  have e: "(case fst p of None \<Rightarrow> None
      | Some (first, second) \<Rightarrow>
          if md_rcode (m_meta (ua_message first)) \<noteq> NoError \<or> m_answers (ua_message first) = [] then None
          else if \<not> answers_are_compatible (ua_message first) (ua_message second) then None
          else Some (ua_message first)) = Some msg"
    using assms sl by (simp add: unproved_fallback_def Let_def split_def flip: slice_def p_def)
  obtain a b where ab: "fst p = Some (a, b)" using e by (cases "fst p") auto
  show ?thesis
    unfolding agreed_answer_def
    by (rule exI [of _ "gr_scheduler grp"], rule exI [of _ slice], rule exI [of _ seed], rule exI [of _ "present_routes grp s"],
        rule exI [of _ a], rule exI [of _ b])
      (use e ab in \<open>simp add: p_def split: if_splits\<close>)
qed

lemma fetch_validated_cases:
  assumes "fetch_validated X env key grp message seed s = (Inr msg, s')"
  obtains (proved) outcome where "validation_of env (rv_config s) = (Some msg, outcome)" "outcome \<noteq> VoBogus"
  | (unproved) outcome where "validation_of env (rv_config s) = (None, outcome)" "agreed_answer X env message msg"
proof -
  obtain response outcome where v: "validation_of env (rv_config s) = (response, outcome)" by (cases "validation_of env (rv_config s)")
  have nb: "outcome \<noteq> VoBogus" using assms v
    by (auto simp: fetch_validated_def Let_def split_def validation_of_def split: if_splits)
  show thesis
  proof (cases response)
    case (Some m)
    then have "m = msg" using assms v
      by (auto simp: fetch_validated_def Let_def split_def validation_of_def split: if_splits)
    then show thesis using proved v nb Some by simp
  next
    case None
    define s1 where "s1 = s\<lparr>rv_registry := fn_sub_lookups env (rv_registry s)\<rparr>"
    obtain fb s2 where f: "unproved_fallback X env grp message seed s1 = (fb, s2)"
      by (cases "unproved_fallback X env grp message seed s1")
    have "fb = Some msg" using assms v None f nb
      by (cases fb) (auto simp: fetch_validated_def Let_def split_def validation_of_def s1_def split: if_splits)
    then show thesis using unproved [of outcome] unproved_fallback_agreed [of X env grp message seed s1 msg s2] v None f by simp
  qed
qed


text \<open>
  C40. In Strict mode an answer whose proof could not be finished, because a lookup of the validator
  was refused, lost or too late, is reported as failing validation whenever the validator handed the
  answer back: the outcome is not Bogus and the branch for unfinished proofs accepts the message, but
  the status is computed a second time from the records alone. The error is one the failure cache
  remembers.
\<close>

theorem strict_unfinished_proof_is_bogus:
  assumes "synchronous (cfg_dnssec (rv_config s)) key"
    "registry_group (rv_registry s) (pv_group (ck_view key)) = Some grp"
    "fetch_query X (rv_config s) (fn_id env) key = Some message"
    "rv_validators s \<noteq> []" "fn_permit env"
    "validation_of env (rv_config s) = (Some msg, outcome)" "is_retryable outcome"
  shows "outcome \<noteq> VoBogus \<and> (\<exists>s'. fetch X env key s = Some (Inl ErrDnssecBogus, s')) \<and>
    fp_remember (failure_from_error ErrDnssecBogus)"
proof -
  obtain observed where o: "outcome = classify_outcome msg (cfg_dnssec (rv_config s)) False observed"
    using assms(6) by (rule validation_of_answer)
  then have b: "dnssec_status_of msg (cfg_dnssec (rv_config s)) False = Bogus"
    using assms(7) by (simp add: classify_outcome_retryable)
  have n: "outcome \<noteq> VoBogus" "outcome \<noteq> VoSecure" "outcome \<noteq> VoProvenInsecure" using assms(7) by auto
  obtain s2 where "fetch_validated X env key grp message (fst (next_seed s)) (snd (next_seed s)) = (Inr msg, s2)"
    using assms(4-6) n by (simp add: fetch_validated_def Let_def split_def validation_of_def)
  then have "fetch_answer X env key grp message (fst (next_seed s)) (snd (next_seed s)) = Some (Inr (msg, None, False), s2)"
    using assms(1) by (simp add: fetch_answer_def)
  then have "fetch X env key s = Some (Inl ErrDnssecBogus, s2)"
    using assms(2,3) b by (simp add: fetch_def Let_def split_def)
  then show ?thesis using n by (simp add: failure_from_error_def)
qed

section \<open>Verdicts after the answer\<close>

text \<open>
  C5. What a background validation may do to the cache: nothing, unless the validator returned a
  message and the cache still holds, under the key of the task, an answer with that message's
  fingerprint. Then the answer's status becomes the proved one, or the answer is removed, and that only
  if no lookup of the validator failed and the message carries a signature that does not verify.
\<close>

theorem verdict_confined:
  "background_verdict X key reply observed s = s \<or>
   (\<exists>msg e. reply = ReplyAnswer msg \<and> mk_get (lib_answers (vl_cache X)) (dc_answers (rv_cache s)) key = Some e \<and>
      ce_fingerprint e = answer_fingerprint (vl_proto X) msg \<and>
      (let status = dnssec_status_of msg (cfg_dnssec (rv_config s)) False;
           answers' = dc_answers (rv_cache (background_verdict X key reply observed s))
       in status = Bogus \<and> observed = PfNone \<and>
            (\<exists>r. r \<in> set (m_answers msg) \<and> record_type r = RT_RRSIG \<and> rr_proof r = ProofBogus) \<and>
            answers' = mk_invalidate (lib_answers (vl_cache X)) key (dc_answers (rv_cache s)) \<or>
          (status = Secure \<or> status = Insecure) \<and>
            answers' = mk_insert (lib_answers (vl_cache X)) key (e\<lparr>ce_dnssec := status\<rparr>) (dc_answers (rv_cache s))))"
proof (cases reply)
  case (ReplyAnswer msg)
  let ?fp = "answer_fingerprint (vl_proto X) msg"
  let ?status = "dnssec_status_of msg (cfg_dnssec (rv_config s)) False"
  have fp: "validated_fingerprint (vl_proto X) reply = ?fp"
    and oc: "background_outcome (cfg_dnssec (rv_config s)) reply obs = classify_outcome msg (cfg_dnssec (rv_config s)) False obs" for obs
    by (simp_all add: ReplyAnswer validated_fingerprint_def background_outcome_def)
  have keep: "snd (promote (vl_cache X) key ?fp st (rv_cache s)) = rv_cache s \<or>
      (\<exists>e. mk_get (lib_answers (vl_cache X)) (dc_answers (rv_cache s)) key = Some e \<and> ce_fingerprint e = ?fp \<and>
         dc_answers (snd (promote (vl_cache X) key ?fp st (rv_cache s))) =
           mk_insert (lib_answers (vl_cache X)) key (e\<lparr>ce_dnssec := st\<rparr>) (dc_answers (rv_cache s)))" for st
    by (cases "mk_get (lib_answers (vl_cache X)) (dc_answers (rv_cache s)) key") (simp_all add: promote_def)
  have evict: "snd (evict_variant (vl_cache X) key ?fp (rv_cache s)) = rv_cache s \<or>
      (\<exists>e. mk_get (lib_answers (vl_cache X)) (dc_answers (rv_cache s)) key = Some e \<and> ce_fingerprint e = ?fp \<and>
         dc_answers (snd (evict_variant (vl_cache X) key ?fp (rv_cache s))) =
           mk_invalidate (lib_answers (vl_cache X)) key (dc_answers (rv_cache s)))"
    by (cases "mk_get (lib_answers (vl_cache X)) (dc_answers (rv_cache s)) key") (simp_all add: evict_variant_def)
  show ?thesis
  proof (cases ?status)
    case Secure
    then have v: "background_verdict X key reply observed s = s\<lparr>rv_cache := snd (promote (vl_cache X) key ?fp Secure (rv_cache s))\<rparr>"
      by (simp add: background_verdict_def Let_def oc fp classify_outcome_def)
    show ?thesis using keep [of Secure] by (auto simp: v [unfolded ReplyAnswer] Secure ReplyAnswer)
  next
    case Insecure
    then have v: "background_verdict X key reply observed s = s\<lparr>rv_cache := snd (promote (vl_cache X) key ?fp Insecure (rv_cache s))\<rparr>"
      by (simp add: background_verdict_def Let_def oc fp classify_outcome_def)
    show ?thesis using keep [of Insecure] by (auto simp: v [unfolded ReplyAnswer] Insecure ReplyAnswer)
  next
    case Indeterminate
    then show ?thesis by (simp add: background_verdict_def Let_def oc classify_outcome_def)
  next
    case Bogus
    show ?thesis
    proof (cases "observed = PfNone \<and> carries_failed_signatures reply")
      case True
      then have v: "background_verdict X key reply observed s = s\<lparr>rv_cache := snd (evict_variant (vl_cache X) key ?fp (rv_cache s))\<rparr>"
        by (simp add: background_verdict_def Let_def oc fp classify_outcome_def Bogus)
      have "\<exists>r. r \<in> set (m_answers msg) \<and> record_type r = RT_RRSIG \<and> rr_proof r = ProofBogus"
        using True by (auto simp: carries_failed_signatures_def ReplyAnswer list_ex_iff)
      then show ?thesis using evict True by (auto simp: v [unfolded ReplyAnswer conjunct1 [OF True]] Bogus ReplyAnswer)
    next
      case False
      then have "background_verdict X key reply observed s = s"
        by (cases observed) (simp_all add: background_verdict_def Let_def oc classify_outcome_def Bogus)
      then show ?thesis by simp
    qed
  qed
qed (simp_all add: background_verdict_def background_outcome_def Let_def)

section \<open>The response\<close>

text \<open>
  C11. A response built from an entry carries the AD bit exactly when the entry is secure and the
  client asked for it, by the AD bit or by DNSSEC OK. An answer that the answer policy added addresses
  to is never marked authentic, because it never touches a secure one.
\<close>

theorem ad_bit_sound:
  "md_authentic_data (m_meta (fst (build_response X request entry ttl_left stale client_do now unix s))) \<longleftrightarrow>
     ce_dnssec entry = Secure \<and> (client_do \<or> md_authentic_data (m_meta request))"
proof -
  define s1 where "s1 = snd (next_seed s)"
  define msg where "msg = base_response (vl_proto X) request entry now"
  define ctx where "ctx = answer_context_of s1 (hd (m_queries request)) msg entry ttl_left stale now unix (fst (next_seed s))"
  obtain msg' out where p: "apply_answer_policy (vl_proto X) (vl_net X) (vl_name_eq X) msg ctx = (msg', out)"
    by (cases "apply_answer_policy (vl_proto X) (vl_net X) (vl_name_eq X) msg ctx")
  have "ac_dnssec ctx = ce_dnssec entry" by (simp add: ctx_def answer_context_of_def Let_def)
  then have "\<not> ao_modified out" if "ce_dnssec entry = Secure"
    using apply_answer_policy_shape [OF p] policy_additions_cases(1) [of "vl_net X" "vl_name_eq X" msg ctx] that by auto
  then show ?thesis
    using p by (cases "ce_dnssec entry = Secure") (simp_all add: build_response_def split_def Let_def may_set_ad_def
      is_authentic_def flip: s1_def msg_def ctx_def)
qed

section \<open>Failures\<close>

lemma failure_ttl_bounds:
  "failure_ttl cfg streak \<le> cc_failure_max_ttl cfg"
  "cc_failure_min_ttl cfg \<le> cc_failure_max_ttl cfg \<Longrightarrow> cc_failure_min_ttl cfg \<le> failure_ttl cfg streak"
proof -
  have "min streak 6 \<le> 6" by simp
  then have "unat (min streak 6) \<le> 6" by (simp only: word_le_nat_alt unat_numeral) simp
  then consider "unat (min streak 6) = 0" | "unat (min streak 6) = 1" | "unat (min streak 6) = 2" | "unat (min streak 6) = 3"
    | "unat (min streak 6) = 4" | "unat (min streak 6) = 5" | "unat (min streak 6) = 6" by linarith
  then have "0 < unat (push_bit (unat (min streak 6)) 1 :: u32)"
    by cases (simp_all only: push_bit_eq_mult, simp_all)
  then show "cc_failure_min_ttl cfg \<le> cc_failure_max_ttl cfg \<Longrightarrow> cc_failure_min_ttl cfg \<le> failure_ttl cfg streak"
    by (simp add: failure_ttl_def)
qed (simp add: failure_ttl_def)

lemma attach_ede_keeps [simp]:
  "m_meta (attach_ede P msg e txt) = m_meta msg" "m_answers (attach_ede P msg e txt) = m_answers msg"
  by (simp_all add: attach_ede_def update_options_def Let_def split: option.split)

lemma miss_failure_fields:
  fixes X env request key report n s
  defines "a \<equiv> fst (miss_failure X env request key report n s)"
  defines "streak \<equiv> sat_add (failure_streak (vl_cache X) key (rv_cache s)) 1"
  shows "an_origin a = OrgRejected" "md_rcode (m_meta (an_message a)) = ServFail" "m_answers (an_message a) = []"
    "rv_cache (snd (miss_failure X env request key report n s)) =
       (if fp_remember report
        then record_failure (vl_cache X) key
               \<lparr>fe_recorded_at = qe_done env, fe_ttl = failure_ttl (cfg_cache (rv_config s)) streak, fe_rcode = ServFail,
                fe_reason = ''upstream resolution failed'', fe_consecutive = streak\<rparr> (rv_cache s)
        else rv_cache s)"
  unfolding a_def streak_def by (simp_all add: miss_failure_def Let_def error_response_def)

text \<open>
  C10. The query that leads a failed resolution is answered SERVFAIL, with nothing in its answer
  section. The failure is remembered, with one more in a row than before and for a time between the
  configured bounds, unless the error says the work was merely unfinished; then the cache is as the
  fetch left it.
\<close>

theorem failed_resolution:
  assumes "sf_join (vl_hash X) key (rv_flights s) = (Leader l, f)"
    "fetch X (qe_fetch env) key (s\<lparr>rv_flights := f\<rparr>) = Some (Inl e, s1)"
    "cc_failure_min_ttl (cfg_cache (rv_config s1)) \<le> cc_failure_max_ttl (cfg_cache (rv_config s1))"
  shows "\<exists>a s' entry. resolve_miss X env request key client_do n s = Some (a, s') \<and> an_origin a = OrgRejected \<and>
     md_rcode (m_meta (an_message a)) = ServFail \<and> m_answers (an_message a) = [] \<and>
     rv_cache s' = (if is_transient e then rv_cache s1 else record_failure (vl_cache X) key entry (rv_cache s1)) \<and>
     fe_rcode entry = ServFail \<and> fe_consecutive entry = sat_add (failure_streak (vl_cache X) key (rv_cache s1)) 1 \<and>
     cc_failure_min_ttl (cfg_cache (rv_config s1)) \<le> fe_ttl entry \<and> fe_ttl entry \<le> cc_failure_max_ttl (cfg_cache (rv_config s1))"
proof -
  define s2 where "s2 = publish_outcome X True (Inl e) l s1"
  have m: "miss_result X env key s = Some (Inl (failure_from_error e), s2)"
    by (simp add: miss_result_def assms(1,2) s2_def)
  have s2: "rv_cache s2 = rv_cache s1" "rv_config s2 = rv_config s1" by (simp_all add: s2_def publish_outcome_def)
  have "resolve_miss X env request key client_do n s = Some (miss_failure X env request key (failure_from_error e) n s2)"
    by (simp add: resolve_miss_def m miss_answer_def)
  moreover have "fp_remember (failure_from_error e) \<longleftrightarrow> \<not> is_transient e" by (simp add: failure_from_error_def)
  ultimately show ?thesis
    using failure_ttl_bounds(1) failure_ttl_bounds(2) [OF assms(3)]
      miss_failure_fields [of X env request key "failure_from_error e" n s2]
    by (intro exI [of _ "fst (miss_failure X env request key (failure_from_error e) n s2)"]
        exI [of _ "snd (miss_failure X env request key (failure_from_error e) n s2)"]
        exI [of _ "\<lparr>fe_recorded_at = qe_done env,
           fe_ttl = failure_ttl (cfg_cache (rv_config s1)) (sat_add (failure_streak (vl_cache X) key (rv_cache s1)) 1),
           fe_rcode = ServFail, fe_reason = ''upstream resolution failed'',
           fe_consecutive = sat_add (failure_streak (vl_cache X) key (rv_cache s1)) 1\<rparr>"])
      (simp add: s2)
qed

section \<open>Progress\<close>

text \<open>The wake-ups a fetch meets are possible ones and enough of them; a fetch that validates first needs none.\<close>

definition fetch_ready ::
  "('a, 'f, 'v) resolver_lib \<Rightarrow> fetch_env \<Rightarrow> cache_key \<Rightarrow> ('a, 'f, 'v) resolver \<Rightarrow> bool" where
  "fetch_ready X env key s \<longleftrightarrow>
     synchronous (cfg_dnssec (rv_config s)) key \<or>
     (case (registry_group (rv_registry s) (pv_group (ck_view key)), fetch_query X (rv_config s) (fn_id env) key) of
        (Some grp, Some message) \<Rightarrow>
          resolve_wakes_ok (vl_render X) (vl_proto X) (fn_sched env) (rv_capacity s)
            (grp\<lparr>gr_routes := present_routes grp s\<rparr>) message (budget_of (gr_name grp) s)
            (sv_foreground_budget (cfg_server (rv_config s))) (fst (next_seed s)) (fn_wakes env) \<and>
          length (present_routes grp s) + 2 \<le> length (fn_wakes env)
      | _ \<Rightarrow> True)"

lemma fetch_returns:
  assumes "fetch_ready X env key s"
  shows "\<exists>r s'. fetch X env key s = Some (r, s')"
proof (cases "registry_group (rv_registry s) (pv_group (ck_view key))")
  case (Some grp)
  show ?thesis
  proof (cases "fetch_query X (rv_config s) (fn_id env) key")
    case q: (Some message)
    have "\<exists>r s2. fetch_answer X env key grp message (fst (next_seed s)) (snd (next_seed s)) = Some (r, s2)"
    proof (cases "synchronous (cfg_dnssec (rv_config s)) key")
      case True
      then show ?thesis by (simp add: fetch_answer_def split: prod.split sum.split)
    next
      case False
      have p: "present_routes grp (snd (next_seed s)) = present_routes grp s" "budget_of g (snd (next_seed s)) = budget_of g s"
        "rv_capacity (snd (next_seed s)) = rv_capacity s" for g
        by (simp_all add: present_routes_def budget_of_def next_seed_def)
      have w: "resolve_wakes_ok (vl_render X) (vl_proto X) (fn_sched env) (rv_capacity s)
          (grp\<lparr>gr_routes := present_routes grp s\<rparr>) message (budget_of (gr_name grp) s)
          (sv_foreground_budget (cfg_server (rv_config s))) (fst (next_seed s)) (fn_wakes env)"
        "length (gr_routes (grp\<lparr>gr_routes := present_routes grp s\<rparr>)) + 2 \<le> length (fn_wakes env)"
        using assms False by (simp_all add: fetch_ready_def Some q)
      from scheduler_resolve_returns [OF w, of "fn_retry env"] obtain r st where
        "scheduler_resolve (vl_render X) (vl_proto X) (fn_sched env) (rv_capacity s)
          (grp\<lparr>gr_routes := present_routes grp s\<rparr>) message (budget_of (gr_name grp) s)
          (sv_foreground_budget (cfg_server (rv_config s))) (fst (next_seed s)) (fn_wakes env) (fn_retry env) = Some (r, st)"
        by blast
      then show ?thesis using False by (simp add: fetch_answer_def upstream_resolve_def p)
    qed
    then obtain r s2 where a: "fetch_answer X env key grp message (fst (next_seed s)) (snd (next_seed s)) = Some (r, s2)" by blast
    show ?thesis using a by (cases r) (auto simp: fetch_def Some q split_def Let_def)
  qed (simp add: fetch_def Some)
qed (simp add: fetch_def)

text \<open>
  C3. Every query is answered. Whatever the client sends and whatever state the resolver is in, handling
  the query ends with a response, provided the events its upstream fetch waits for are possible ones
  and do arrive (the timers among them always do).
\<close>

theorem every_query_is_answered:
  assumes "fetch_ready X (qe_fetch env) (query_key X s request (hd (m_queries request))) s"
  shows "\<exists>a s'. handle X env request transport s = Some (a, s')"
proof (cases "immediate_answer X s request transport")
  case None
  let ?key = "query_key X s request (hd (m_queries request))"
  let ?do = "case m_edns request of Some e \<Rightarrow> ed_dnssec_ok e | None \<Rightarrow> False"
  let ?n = "max_response_size (cfg_server (rv_config s)) request transport"
  let ?c = "cache_failure (vl_cache X) ?key (qe_now env) (rv_cache s)"
  define s2 where "s2 = s\<lparr>rv_hotset := observe ?key None (qe_now env) (rv_hotset s), rv_cache := snd ?c\<rparr>"
  have same: "rv_config (s2\<lparr>rv_flights := f\<rparr>) = rv_config s" "rv_registry (s2\<lparr>rv_flights := f\<rparr>) = rv_registry s"
    "rv_capacity (s2\<lparr>rv_flights := f\<rparr>) = rv_capacity s" "present_routes g (s2\<lparr>rv_flights := f\<rparr>) = present_routes g s"
    "budget_of name (s2\<lparr>rv_flights := f\<rparr>) = budget_of name s" "fst (next_seed (s2\<lparr>rv_flights := f\<rparr>)) = fst (next_seed s)" for f g name
    by (simp_all add: s2_def present_routes_def budget_of_def next_seed_def)
  have ready: "fetch_ready X (qe_fetch env) ?key (s2\<lparr>rv_flights := f\<rparr>)" for f
    using assms unfolding fetch_ready_def same .
  have miss: "\<exists>r s'. miss_result X env ?key s2 = Some (r, s')"
  proof (cases "sf_join (vl_hash X) ?key (rv_flights s2)")
    case (Pair j f)
    show ?thesis using fetch_returns [OF ready [of f]] by (cases j) (auto simp: miss_result_def Pair)
  qed
  then have "\<exists>a s'. cached_answer X env request ?key ?do ?n s2 = Some (a, s')"
    by (auto simp: cached_answer_def resolve_miss_def split_def Let_def split: lookup.split)
  then show ?thesis
    using None by (cases "fst ?c") (simp_all add: handle_def Let_def split_def s2_def)
qed (simp add: handle_def)

section \<open>Fetches of the sample resolver\<close>

lemma corroborate_negative_routeless:
  "\<exists>evidence. corroborate_negative X env grp message response status None seed s = ((response, None, evidence), s)"
  by (simp add: corroborate_negative_def)

definition secure_reply :: message where
  "secure_reply = example_reply\<lparr>m_answers :=
     [\<lparr>rr_name = ''a.'', rr_class = CLASS_IN, rr_ttl = 60, rr_data = RdA 1, rr_proof = ProofSecure\<rparr>]\<rparr>"

definition denial_reply :: message where
  "denial_reply = example_reply\<lparr>m_meta := (m_meta example_reply)\<lparr>md_rcode := NXDomain\<rparr>\<rparr>"

definition replying :: "message \<Rightarrow> proof_failure \<Rightarrow> validator_run" where
  "replying msg observed = \<lparr>wr_reply = ReplyAnswer msg, wr_observed = observed, wr_finished = 5\<rparr>"

definition a_key :: cache_key where
  "a_key = cache_key_new ''a.'' RT_A CLASS_IN (policy_view_plain ''default'') \<lparr>dm_dnssec_ok = True, dm_checking_disabled = False\<rparr>"

lemma a_key_fields [simp]:
  "ck_view a_key = policy_view_plain ''default''" "ck_mode a_key = \<lparr>dm_dnssec_ok = True, dm_checking_disabled = False\<rparr>"
  by (simp_all add: a_key_def cache_key_new_def Let_def)

lemma a_key_strict: "synchronous (cfg_dnssec strict_tree) a_key"
  by (simp add: synchronous_def)

lemma a_key_query: "\<exists>message. fetch_query sample_lib strict_tree n a_key = Some message"
  by (simp add: fetch_query_def Let_def sample_lib_def)

lemma one_group_default: "registry_group one_group (pv_group (ck_view a_key)) = Some example_group"
  by (simp add: registry_group_def one_group_def policy_view_plain_def)

lemma sample_validation:
  "validation_of (sample_fetch run) cfg = validation_attempt (cfg_dnssec cfg) run"
  using validation_loop_run [of "cfg_dnssec cfg" "fn_validation_start (sample_fetch run) +
      remaining_or (fn_deadline (sample_fetch run)) (fn_validation_start (sample_fetch run)) (sv_foreground_budget (cfg_server cfg))"
      "fn_runs (sample_fetch run)"]
  by (auto simp: validation_of_def sample_fetch_def)

text \<open>In Strict mode a message the validator accepts is stored.\<close>

lemma sample_stored:
  assumes "classify_outcome msg (cfg_dnssec strict_tree) False observed = outcome"
    "outcome = VoSecure \<or> outcome = VoProvenInsecure \<or> outcome = VoIndeterminate"
  shows "\<exists>entry s'. fetch sample_lib (sample_fetch (replying msg observed)) a_key sample_resolver = Some (Inr entry, s') \<and>
    ce_kind entry = classify_kind (vl_is_dnssec sample_lib) msg"
proof -
  let ?env = "sample_fetch (replying msg observed)"
  let ?s = "snd (next_seed sample_resolver)"
  obtain message where q: "fetch_query sample_lib strict_tree (fn_id ?env) a_key = Some message" using a_key_query by blast
  have v: "validation_of ?env strict_tree = (Some msg, outcome)"
    using assms(1) by (simp only: sample_validation) (simp add: validation_attempt_def replying_def)
  have nb: "dnssec_status_of msg (cfg_dnssec strict_tree) False \<noteq> Bogus"
    using assms by (auto simp: classify_outcome_def split: dnssec_status.splits proof_failure.splits)
  have f: "rv_validators ?s = [''default'']" "fn_permit ?env" "rv_config ?s = strict_tree"
    by (simp_all add: sample_fetch_def)
  obtain s2 where "fetch_validated sample_lib ?env a_key example_group message (fst (next_seed sample_resolver)) ?s = (Inr msg, s2)"
    using assms(2) v f by (auto simp: fetch_validated_def Let_def split_def validation_of_def)
  then have a: "fetch_answer sample_lib ?env a_key example_group message (fst (next_seed sample_resolver)) ?s =
      Some (Inr (msg, None, False), s2)"
    using a_key_strict f(3) by (simp add: fetch_answer_def)
  obtain evidence s4 where c: "corroborate_negative sample_lib ?env example_group message msg
      (dnssec_status_of msg (cfg_dnssec strict_tree) False) None (fst (next_seed sample_resolver)) s2 = ((msg, None, evidence), s4)"
    using corroborate_negative_routeless by blast
  obtain entry s5 where e: "fetch_store sample_lib ?env a_key msg None evidence (dnssec_status_of msg (cfg_dnssec strict_tree) False) s4 =
      (entry, s5)" by (cases "fetch_store sample_lib ?env a_key msg None evidence (dnssec_status_of msg (cfg_dnssec strict_tree) False) s4")
  have "fetch sample_lib ?env a_key sample_resolver = Some (Inr entry, s5)"
    using one_group_default q a c e nb by (simp add: fetch_def Let_def split_def)
  then show ?thesis using fetch_store_fields(2) [OF e] by simp
qed

lemma sample_outcomes:
  "classify_outcome secure_reply (cfg_dnssec strict_tree) False PfNone = VoSecure"
  "classify_outcome denial_reply (cfg_dnssec strict_tree) False PfNone = VoIndeterminate"
  "classify_outcome bogus_answer (cfg_dnssec strict_tree) False PfTransport = VoTransportFailure"
  by (simp_all add: less_rr_proof_def classify_outcome_def dnssec_status_of_def secure_reply_def denial_reply_def bogus_answer_def
      example_reply_def example_query_def empty_message_def proof_records_def worst_proof_def rtype_defs)

theorem fetch_stores_sound_entry_witness:
  "\<exists>entry s'. fetch sample_lib (sample_fetch (replying secure_reply PfNone)) a_key sample_resolver = Some (Inr entry, s') \<and>
     ce_dnssec entry \<noteq> Bogus"
proof -
  obtain entry s' where f: "fetch sample_lib (sample_fetch (replying secure_reply PfNone)) a_key sample_resolver = Some (Inr entry, s')"
    using sample_stored [OF sample_outcomes(1)] by blast
  have law: "cache_law (vl_cache sample_lib)" by (simp add: sample_lib_def cache_law_map_lib)
  show ?thesis by (rule exI [of _ entry], rule exI [of _ s']) (use f fetch_stores_sound_entry [OF law f] in simp)
qed



theorem strict_unfinished_proof_is_bogus_witness:
  "\<exists>s'. fetch sample_lib (sample_fetch (replying bogus_answer PfTransport)) a_key sample_resolver = Some (Inl ErrDnssecBogus, s')"
proof -
  let ?env = "sample_fetch (replying bogus_answer PfTransport)"
  obtain message where q: "fetch_query sample_lib strict_tree (fn_id ?env) a_key = Some message" using a_key_query by blast
  have v: "validation_of ?env strict_tree = (Some bogus_answer, VoTransportFailure)"
    using sample_outcomes(3) by (simp only: sample_validation) (simp add: validation_attempt_def replying_def)
  show ?thesis
    using strict_unfinished_proof_is_bogus [of sample_resolver a_key example_group sample_lib ?env message bogus_answer VoTransportFailure]
      a_key_strict one_group_default q v by (simp add: sample_fetch_def)
qed

theorem failed_resolution_witness:
  "\<exists>a s'. resolve_miss sample_lib ((sample_query no_reply)\<lparr>qe_fetch := (sample_fetch no_reply)\<lparr>fn_permit := False\<rparr>\<rparr>) example_query a_key
       False 512 sample_resolver = Some (a, s') \<and> md_rcode (m_meta (an_message a)) = ServFail"
proof -
  let ?q = "(sample_query no_reply)\<lparr>qe_fetch := (sample_fetch no_reply)\<lparr>fn_permit := False\<rparr>\<rparr>"
  obtain l f where j: "sf_join (vl_hash sample_lib) a_key (rv_flights sample_resolver) = (Leader l, f)"
    by (simp add: sf_join_def sf_new_def sample_lib_def Let_def shard_index_def next_power_of_two.simps)
  obtain message where q: "fetch_query sample_lib strict_tree 1 a_key = Some message" using a_key_query by blast
  have "\<exists>e s1. fetch sample_lib (qe_fetch ?q) a_key (sample_resolver\<lparr>rv_flights := f\<rparr>) = Some (Inl e, s1) \<and> rv_config s1 = strict_tree"
    using q one_group_default a_key_strict
    by (simp add: fetch_def fetch_answer_def fetch_validated_def Let_def split_def sample_fetch_def)
  then obtain e s1 where e: "fetch sample_lib (qe_fetch ?q) a_key (sample_resolver\<lparr>rv_flights := f\<rparr>) = Some (Inl e, s1)"
    and c: "rv_config s1 = strict_tree" by blast
  have "cc_failure_min_ttl (cfg_cache (rv_config s1)) \<le> cc_failure_max_ttl (cfg_cache (rv_config s1))"
    by (simp add: c strict_tree_def config_tree_default_def config.defs config_tree.defs config_default_def
        cache_config_default_def from_secs_def)
  from failed_resolution [OF j e this, of example_query False 512] show ?thesis by (elim exE conjE) (intro exI conjI)
qed

theorem every_query_is_answered_witness:
  "\<exists>a s'. handle sample_lib (sample_query no_reply) example_query ClientUdp sample_resolver = Some (a, s')"
  by (rule every_query_is_answered)
    (simp add: fetch_ready_def synchronous_def query_key_def cache_key_new_def Let_def example_query_def)

end
