(* ===== verification/Server.thy ===== *)
theory Server
  imports Fetching RateLimit
begin

text \<open>
  The listeners (\<^verbatim>\<open>dns/server.rs\<close>): admission of a client, the response to one message, datagrams,
  TCP connections with their limits, and the framing of messages on a connection. Sockets are the
  events of a step relation; decoding a message is hickory's and an argument.
\<close>

section \<open>Admission and response\<close>

record ('l, 'a, 'f, 'v) server_lib =
  sl_resolver :: "('a, 'f, 'v) resolver_lib"
  sl_gov :: "'l gov_lib"
  sl_decode :: "bytes \<Rightarrow> message option"

text \<open>The ingress reads the runtime state of the moment; \<open>ig_inflight\<close> counts the permits that are left.\<close>

record ('l, 'a, 'f, 'v) ingress =
  ig_acl :: acl
  ig_limiter :: "'l inbound_limiter"
  ig_resolver :: "('a, 'f, 'v) resolver"
  ig_inflight :: nat

definition UDP_READ_BUFFER :: nat where "UDP_READ_BUFFER = 4096"

definition ingress_admit ::
  "('l, 'a, 'f, 'v) server_lib \<Rightarrow> ipaddr \<Rightarrow> instant \<Rightarrow> ('l, 'a, 'f, 'v) ingress \<Rightarrow>
     (string + unit) \<times> ('l, 'a, 'f, 'v) ingress" where
  "ingress_admit X client now self =
     (case acl_evaluate (vl_net (sl_resolver X)) (ig_acl self) client of
        AclDenied \<Rightarrow> (Inl ''acl_denied'', self)
      | AclNotAllowed \<Rightarrow> (Inl ''acl_not_allowed'', self)
      | AclAllow \<Rightarrow>
          (let (d, limiter) = limiter_check (sl_gov X) client now (ig_limiter self)
           in (case d of
                 RateAllow \<Rightarrow> Inr ()
               | RateClientLimited \<Rightarrow> Inl ''rate_limited_client''
               | RateGlobalLimited \<Rightarrow> Inl ''rate_limited_global'', self\<lparr>ig_limiter := limiter\<rparr>)))"

definition add_keepalive :: "proto_lib \<Rightarrow> tcp_config \<Rightarrow> client_transport \<Rightarrow> message \<Rightarrow> message" where
  "add_keepalive P cfg transport msg =
     (if transport = ClientTcp \<and> tcp_advertise_edns_keepalive cfg
      then msg\<lparr>m_edns := map_option (\<lambda>e. e\<lparr>ed_options := opt_insert P (encode_tcp_keepalive (tcp_idle_timeout cfg)) (ed_options e)\<rparr>)
                            (m_edns msg)\<rparr>
      else msg)"

definition encode_answer :: "proto_lib \<Rightarrow> message \<Rightarrow> message \<Rightarrow> nat \<Rightarrow> serialized option" where
  "encode_answer P request msg max_size =
     (case serialize_limited P msg max_size of
        Inr out \<Rightarrow> Some out
      | Inl _ \<Rightarrow>
          (case serialize_limited P (error_response P request ServFail True) max_size of
             Inr out \<Rightarrow> Some out | Inl _ \<Rightarrow> None))"

text \<open>The outer option is empty when the resolver does not answer.\<close>

definition respond ::
  "('l, 'a, 'f, 'v) server_lib \<Rightarrow> query_env \<Rightarrow> bytes \<Rightarrow> client_transport \<Rightarrow> ('l, 'a, 'f, 'v) ingress \<Rightarrow>
     (serialized option \<times> ('l, 'a, 'f, 'v) ingress) option" where
  "respond X env bytes transport self =
     (case sl_decode X bytes of
        None \<Rightarrow> Some (None, self)
      | Some request \<Rightarrow>
          (if md_type (m_meta request) \<noteq> MtQuery then Some (None, self)
           else
             map_option (\<lambda>(a, r).
                 (encode_answer (vl_proto (sl_resolver X)) request
                    (add_keepalive (vl_proto (sl_resolver X)) (sv_tcp (cfg_server (rv_config (ig_resolver self)))) transport
                       (an_message a)) (an_max_size a),
                  self\<lparr>ig_resolver := r\<rparr>))
               (handle (sl_resolver X) env request transport (ig_resolver self))))"

definition refuse :: "('l, 'a, 'f, 'v) server_lib \<Rightarrow> bytes \<Rightarrow> string \<Rightarrow> nat \<Rightarrow> bytes option" where
  "refuse X bytes reason max_size =
     (if take 12 reason = ''rate_limited'' then None
      else case sl_decode X bytes of
             None \<Rightarrow> None
           | Some request \<Rightarrow>
               (if md_type (m_meta request) \<noteq> MtQuery \<or> md_op (m_meta request) \<noteq> OpQuery then None
                else case serialize_limited (vl_proto (sl_resolver X))
                            (error_response (vl_proto (sl_resolver X)) request rcode.Refused False) max_size of
                       Inl _ \<Rightarrow> None
                     | Inr out \<Rightarrow> Some (ser_bytes out)))"

text \<open>Whether a query is logged; the line itself is output only.\<close>

definition log_query :: "logging_config \<Rightarrow> message \<Rightarrow> bool" where
  "log_query cfg request =
     (if \<not> lg_query_log cfg then False
      else if lg_query_log_sample cfg \<le> 0 then False
      else if lg_query_log_sample cfg < 1
      then unit_from_seed (ucast (md_id (m_meta request))) < lg_query_log_sample cfg else True)"

fun rcode_label :: "rcode \<Rightarrow> string" where
  "rcode_label NoError = ''noerror''"
| "rcode_label FormErr = ''formerr''"
| "rcode_label ServFail = ''servfail''"
| "rcode_label NXDomain = ''nxdomain''"
| "rcode_label NotImp = ''notimp''"
| "rcode_label rcode.Refused = ''refused''"
| "rcode_label BADVERS = ''badvers''"
| "rcode_label _ = ''other''"

text \<open>A datagram's task: admission, then a refusal or the response.\<close>

definition udp_task ::
  "('l, 'a, 'f, 'v) server_lib \<Rightarrow> query_env \<Rightarrow> instant \<Rightarrow> bytes \<Rightarrow> ipaddr \<Rightarrow> ('l, 'a, 'f, 'v) ingress \<Rightarrow>
     (bytes option \<times> ('l, 'a, 'f, 'v) ingress) option" where
  "udp_task X env now bytes peer self =
     (case ingress_admit X peer now self of
        (Inl reason, self1) \<Rightarrow> Some (refuse X bytes reason 512, self1)
      | (Inr _, self1) \<Rightarrow>
          map_option (\<lambda>(out, self2). (map_option ser_bytes out, self2)) (respond X env bytes ClientUdp self1))"

section \<open>Frames\<close>

text \<open>A message on a connection is preceded by its length; the writer cuts what does not fit the length field.\<close>

definition write_frame :: "bytes \<Rightarrow> bytes" where
  "write_frame payload =
     (let len = min (length payload) 65535 in u16_to_be_bytes (of_nat len) @ take len payload)"

text \<open>One turn of the read loop on the bytes that arrive in time.\<close>

definition read_frame :: "nat \<Rightarrow> bytes \<Rightarrow> (bytes \<times> bytes) option" where
  "read_frame max_message bs =
     (if length bs < 2 then None
      else (let len = unat (u16_from_be_bytes (bs ! 0) (bs ! 1)); rest = drop 2 bs
            in if len = 0 \<or> max_message < len then None
               else if length rest < len then None else Some (take len rest, drop len rest)))"

lemma read_frame_shrinks: "read_frame n bs = Some (payload, rest) \<Longrightarrow> length rest < length bs"
  by (auto simp: read_frame_def Let_def split: if_splits)

function read_frames :: "nat \<Rightarrow> bytes \<Rightarrow> bytes list" where
  "read_frames max_message bs =
     (case read_frame max_message bs of
        None \<Rightarrow> []
      | Some (payload, rest) \<Rightarrow> payload # read_frames max_message rest)"
  by pat_completeness auto
termination by (relation "measure (\<lambda>(_, bs). length bs)") (auto dest: read_frame_shrinks)

declare read_frames.simps [simp del]

section \<open>Listeners\<close>

text \<open>
  A query under way: a datagram before and after admission, and a message of a connection before and
  after it got one of the permits shared by all listeners. A connection has an identity and a client.
\<close>

datatype query_task =
  UdpWaiting bytes ipaddr
| UdpAdmitted bytes ipaddr
| TcpWaiting nat bytes
| TcpRunning nat bytes

fun holds_permit :: "query_task \<Rightarrow> bool" where
  "holds_permit (TcpWaiting _ _) = False"
| "holds_permit _ = True"

fun task_conn :: "query_task \<Rightarrow> nat option" where
  "task_conn (TcpWaiting c _) = Some c"
| "task_conn (TcpRunning c _) = Some c"
| "task_conn _ = None"

record ('l, 'a, 'f, 'v) server =
  srv_ingress :: "('l, 'a, 'f, 'v) ingress"
  srv_tcp_cfg :: tcp_config
  srv_tasks :: "query_task list"
  srv_permits :: nat
  srv_conns :: "(nat \<times> ipaddr) list"
  srv_counts :: "(ipaddr \<times> nat) list"
  srv_next :: nat

definition server_new :: "('l, 'a, 'f, 'v) ingress \<Rightarrow> tcp_config \<Rightarrow> ('l, 'a, 'f, 'v) server" where
  "server_new ingress cfg =
     \<lparr>srv_ingress = ingress, srv_tcp_cfg = cfg, srv_tasks = [], srv_permits = tcp_max_connections cfg,
      srv_conns = [], srv_counts = [], srv_next = 0\<rparr>"

definition take_permit :: "query_task \<Rightarrow> ('l, 'a, 'f, 'v) server \<Rightarrow> ('l, 'a, 'f, 'v) server" where
  "take_permit task s =
     s\<lparr>srv_ingress := (srv_ingress s)\<lparr>ig_inflight := ig_inflight (srv_ingress s) - 1\<rparr>, srv_tasks := task # srv_tasks s\<rparr>"

definition end_task :: "query_task \<Rightarrow> ('l, 'a, 'f, 'v) server \<Rightarrow> ('l, 'a, 'f, 'v) server" where
  "end_task task s =
     s\<lparr>srv_ingress := (srv_ingress s)\<lparr>ig_inflight := ig_inflight (srv_ingress s) + 1\<rparr>, srv_tasks := remove1 task (srv_tasks s)\<rparr>"

text \<open>A datagram arrives; without a permit it is dropped.\<close>

definition udp_receive :: "bytes \<Rightarrow> ipaddr \<Rightarrow> ('l, 'a, 'f, 'v) server \<Rightarrow> ('l, 'a, 'f, 'v) server" where
  "udp_receive datagram peer s =
     (if ig_inflight (srv_ingress s) = 0 then s
      else take_permit (UdpWaiting (take UDP_READ_BUFFER datagram) peer) s)"

text \<open>A connection arrives. The map of counters is cleaned of idle clients when it is large.\<close>

definition client_count :: "(ipaddr \<times> nat) list \<Rightarrow> ipaddr \<Rightarrow> nat" where
  "client_count counts peer = (case map_of counts peer of Some n \<Rightarrow> n | None \<Rightarrow> 0)"

definition tcp_accept ::
  "('l, 'a, 'f, 'v) server_lib \<Rightarrow> ipaddr \<Rightarrow> instant \<Rightarrow> ('l, 'a, 'f, 'v) server \<Rightarrow> ('l, 'a, 'f, 'v) server" where
  "tcp_accept X peer now s =
     (if srv_permits s = 0 then s
      else
        (let (d, ingress) = ingress_admit X peer now (srv_ingress s); s1 = s\<lparr>srv_ingress := ingress\<rparr>
         in case d of
              Inl _ \<Rightarrow> s1
            | Inr _ \<Rightarrow>
                (let kept = (if 65536 < length (srv_counts s) then filter (\<lambda>(_, n). 0 < n) (srv_counts s) else srv_counts s);
                     n = client_count kept peer
                 in if tcp_max_connections_per_client (srv_tcp_cfg s) \<le> n
                    then s1\<lparr>srv_counts := hm_insert peer n kept\<rparr>
                    else s1\<lparr>srv_counts := hm_insert peer (n + 1) kept, srv_permits := srv_permits s - 1,
                            srv_conns := (srv_next s, peer) # srv_conns s, srv_next := srv_next s + 1\<rparr>)))"

definition tcp_close :: "nat \<Rightarrow> ipaddr \<Rightarrow> ('l, 'a, 'f, 'v) server \<Rightarrow> ('l, 'a, 'f, 'v) server" where
  "tcp_close conn peer s =
     s\<lparr>srv_conns := remove1 (conn, peer) (srv_conns s), srv_permits := srv_permits s + 1,
       srv_counts := hm_insert peer (client_count (srv_counts s) peer - 1) (srv_counts s)\<rparr>"

text \<open>The queries of a connection under way hold the permits of its pipeline.\<close>

definition pipelined :: "nat \<Rightarrow> ('l, 'a, 'f, 'v) server \<Rightarrow> nat" where
  "pipelined conn s = length (filter (\<lambda>t. task_conn t = Some conn) (srv_tasks s))"

definition tcp_read :: "nat \<Rightarrow> bytes \<Rightarrow> ('l, 'a, 'f, 'v) server \<Rightarrow> ('l, 'a, 'f, 'v) server" where
  "tcp_read conn payload s = s\<lparr>srv_tasks := TcpWaiting conn payload # srv_tasks s\<rparr>"

text \<open>A query of a connection takes a shared permit or is given up.\<close>

definition spawn_tcp_query :: "nat \<Rightarrow> bytes \<Rightarrow> ('l, 'a, 'f, 'v) server \<Rightarrow> ('l, 'a, 'f, 'v) server" where
  "spawn_tcp_query conn payload s =
     (let s1 = s\<lparr>srv_tasks := remove1 (TcpWaiting conn payload) (srv_tasks s)\<rparr>
      in if ig_inflight (srv_ingress s) = 0 then s1 else take_permit (TcpRunning conn payload) s1)"

text \<open>
  The listeners' steps. Between two steps of one query any other may happen; \<open>SrvElse\<close> stands for the
  resolver's own progress, for a reload and for the limiter's clock.
\<close>

inductive server_step ::
  "('l, 'a, 'f, 'v) server_lib \<Rightarrow> ('l, 'a, 'f, 'v) server \<Rightarrow> ('l, 'a, 'f, 'v) server \<Rightarrow> bool" for X where
  SrvDatagram: "server_step X s (udp_receive datagram peer s)"
| SrvRefused: "UdpWaiting bs peer \<in> set (srv_tasks s) \<Longrightarrow> ingress_admit X peer now (srv_ingress s) = (Inl reason, ingress) \<Longrightarrow>
    server_step X s (end_task (UdpWaiting bs peer) (s\<lparr>srv_ingress := ingress\<rparr>))"
| SrvAdmitted: "UdpWaiting bs peer \<in> set (srv_tasks s) \<Longrightarrow> ingress_admit X peer now (srv_ingress s) = (Inr u, ingress) \<Longrightarrow>
    server_step X s (s\<lparr>srv_ingress := ingress, srv_tasks := UdpAdmitted bs peer # remove1 (UdpWaiting bs peer) (srv_tasks s)\<rparr>)"
| SrvAnswered: "task \<in> set (srv_tasks s) \<Longrightarrow> task = UdpAdmitted bs peer \<and> transport = ClientUdp \<or> task = TcpRunning conn bs \<and> transport = ClientTcp \<Longrightarrow>
    respond X env bs transport (srv_ingress s) = Some (out, ingress) \<Longrightarrow>
    server_step X s (end_task task (s\<lparr>srv_ingress := ingress\<rparr>))"
| SrvAccept: "server_step X s (tcp_accept X peer now s)"
| SrvRead: "(conn, peer) \<in> set (srv_conns s) \<Longrightarrow> pipelined conn s < tcp_max_pipelined_queries (srv_tcp_cfg s) \<Longrightarrow>
    server_step X s (tcp_read conn payload s)"
| SrvQuery: "TcpWaiting conn payload \<in> set (srv_tasks s) \<Longrightarrow> server_step X s (spawn_tcp_query conn payload s)"
| SrvClose: "(conn, peer) \<in> set (srv_conns s) \<Longrightarrow> server_step X s (tcp_close conn peer s)"
| SrvElse: "server_step X s (s\<lparr>srv_ingress := (srv_ingress s)\<lparr>ig_acl := acl, ig_limiter := limiter, ig_resolver := r\<rparr>\<rparr>)"

section \<open>Limits\<close>

definition running :: "('l, 'a, 'f, 'v) server \<Rightarrow> nat" where
  "running s = length (filter holds_permit (srv_tasks s))"

definition conns_of :: "ipaddr \<Rightarrow> ('l, 'a, 'f, 'v) server \<Rightarrow> nat" where
  "conns_of peer s = length (filter (\<lambda>c. snd c = peer) (srv_conns s))"

definition permits_ok :: "nat \<Rightarrow> ('l, 'a, 'f, 'v) server \<Rightarrow> bool" where
  "permits_ok cap s \<longleftrightarrow> ig_inflight (srv_ingress s) + running s = cap"

definition conns_ok :: "('l, 'a, 'f, 'v) server \<Rightarrow> bool" where
  "conns_ok s \<longleftrightarrow>
     srv_permits s + length (srv_conns s) = tcp_max_connections (srv_tcp_cfg s) \<and>
     distinct (map fst (srv_counts s)) \<and>
     (\<forall>peer. client_count (srv_counts s) peer = conns_of peer s \<and>
        conns_of peer s \<le> tcp_max_connections_per_client (srv_tcp_cfg s))"

definition pipelines_ok :: "('l, 'a, 'f, 'v) server \<Rightarrow> bool" where
  "pipelines_ok s \<longleftrightarrow> (\<forall>conn. pipelined conn s \<le> tcp_max_pipelined_queries (srv_tcp_cfg s))"

lemma admit_fields:
  assumes "ingress_admit X peer now self = (d, self')"
  shows "ig_inflight self' = ig_inflight self" "ig_resolver self' = ig_resolver self" "ig_acl self' = ig_acl self"
  using assms by (auto simp: ingress_admit_def split_def Let_def split: acl_decision.splits)

lemma respond_fields:
  assumes "respond X env bs transport self = Some (out, self')"
  shows "ig_inflight self' = ig_inflight self"
  using assms by (auto simp: respond_def split_def split: option.splits if_splits)

lemma filter_remove1_length:
  "x \<in> set xs \<Longrightarrow> length (filter P xs) = length (filter P (remove1 x xs)) + (if P x then 1 else 0)"
  by (induction xs) auto

lemma filter_pos: "x \<in> set xs \<Longrightarrow> P x \<Longrightarrow> 0 < length (filter P xs)"
  by (induction xs) auto

lemma permits_ok_step:
  assumes "server_step X s s'" "permits_ok cap s"
  shows "permits_ok cap s'"
  using assms
proof (cases rule: server_step.cases)
  case (SrvDatagram datagram peer)
  then show ?thesis using assms(2)
    by (cases "ig_inflight (srv_ingress s) = 0") (simp_all add: udp_receive_def take_permit_def permits_ok_def running_def)
next
  case (SrvRefused bs peer now reason ingress)
  then show ?thesis using assms(2) filter_remove1_length [OF SrvRefused(2), of holds_permit] admit_fields(1) [OF SrvRefused(3)]
    by (simp add: permits_ok_def running_def end_task_def)
next
  case (SrvAdmitted bs peer now u ingress)
  then show ?thesis using assms(2) filter_remove1_length [OF SrvAdmitted(2), of holds_permit] admit_fields(1) [OF SrvAdmitted(3)]
    by (simp add: permits_ok_def running_def)
next
  case (SrvAnswered task bs peer transport conn env out ingress)
  then have "holds_permit task" by auto
  then show ?thesis using assms(2) SrvAnswered filter_remove1_length [OF SrvAnswered(2), of holds_permit] respond_fields [OF SrvAnswered(4)]
    by (simp add: permits_ok_def running_def end_task_def)
next
  case (SrvAccept peer now)
  obtain d ingress where a: "ingress_admit X peer now (srv_ingress s) = (d, ingress)" by (cases "ingress_admit X peer now (srv_ingress s)")
  show ?thesis using assms(2) SrvAccept admit_fields(1) [OF a]
    by (cases d) (simp_all add: permits_ok_def running_def tcp_accept_def a Let_def)
next
  case (SrvQuery conn payload)
  then show ?thesis using assms(2) filter_remove1_length [OF SrvQuery(2), of holds_permit]
    by (cases "ig_inflight (srv_ingress s) = 0")
      (simp_all add: permits_ok_def running_def spawn_tcp_query_def take_permit_def Let_def)
qed (simp_all add: permits_ok_def running_def tcp_read_def tcp_close_def)

lemma client_count_hm_insert: "client_count (hm_insert k v m) peer = (if peer = k then v else client_count m peer)"
  by (simp add: client_count_def map_of_hm_insert)

lemma client_count_filter:
  assumes "distinct (map fst m)"
  shows "client_count (filter (\<lambda>(_, n). 0 < n) m) peer = client_count m peer"
  by (simp add: client_count_def map_of_retain [OF assms] split: option.split)

lemma distinct_keys_filter: "distinct (map fst m) \<Longrightarrow> distinct (map fst (filter P m))"
  by (induction m) auto

lemma conns_ok_same:
  assumes "conns_ok s" "srv_permits s' = srv_permits s" "srv_conns s' = srv_conns s" "srv_counts s' = srv_counts s"
    "srv_tcp_cfg s' = srv_tcp_cfg s"
  shows "conns_ok s'"
  using assms by (simp add: conns_ok_def conns_of_def)

lemma conns_ok_accept:
  assumes "conns_ok s"
  shows "conns_ok (tcp_accept X peer now s)"
proof -
  obtain d ingress where a: "ingress_admit X peer now (srv_ingress s) = (d, ingress)" by (cases "ingress_admit X peer now (srv_ingress s)")
  define kept where "kept = (if 65536 < length (srv_counts s) then filter (\<lambda>(_, n). 0 < n) (srv_counts s) else srv_counts s)"
  have k: "distinct (map fst kept)" "client_count kept p = client_count (srv_counts s) p" for p
    using assms by (simp_all add: kept_def conns_ok_def distinct_keys_filter client_count_filter)
  show ?thesis
  proof (cases "srv_permits s = 0 \<or> (\<exists>r. d = Inl r)")
    case True
    then have "tcp_accept X peer now s = s \<or> tcp_accept X peer now s = s\<lparr>srv_ingress := ingress\<rparr>"
      by (auto simp: tcp_accept_def a)
    then show ?thesis using assms by (auto intro: conns_ok_same [OF assms])
  next
    case False
    then obtain u where u: "d = Inr u" by (cases d) auto
    show ?thesis
    proof (cases "tcp_max_connections_per_client (srv_tcp_cfg s) \<le> client_count kept peer")
      case True
      have "tcp_accept X peer now s = s\<lparr>srv_ingress := ingress, srv_counts := hm_insert peer (client_count kept peer) kept\<rparr>"
        using False True by (simp add: tcp_accept_def a u Let_def flip: kept_def)
      then show ?thesis using assms k
        by (simp add: conns_ok_def conns_of_def distinct_hm_insert client_count_hm_insert)
    next
      case room: False
      have "tcp_accept X peer now s = s\<lparr>srv_ingress := ingress, srv_counts := hm_insert peer (client_count kept peer + 1) kept,
          srv_permits := srv_permits s - 1, srv_conns := (srv_next s, peer) # srv_conns s, srv_next := srv_next s + 1\<rparr>"
        using False room by (simp add: tcp_accept_def a u Let_def flip: kept_def)
      then show ?thesis using assms k room False
        by (auto simp: conns_ok_def conns_of_def distinct_hm_insert client_count_hm_insert)
    qed
  qed
qed

lemma conns_ok_close:
  assumes "conns_ok s" "(conn, peer) \<in> set (srv_conns s)"
  shows "conns_ok (tcp_close conn peer s)"
proof -
  have l: "length (remove1 (conn, peer) (srv_conns s)) + 1 = length (srv_conns s)"
    using filter_remove1_length [OF assms(2), of "\<lambda>_. True"] by simp
  have p: "0 < conns_of peer s" unfolding conns_of_def by (rule filter_pos [OF assms(2)]) simp
  have f: "conns_of p (tcp_close conn peer s) = (if p = peer then conns_of p s - 1 else conns_of p s)" for p
    using filter_remove1_length [OF assms(2), of "\<lambda>c. snd c = p"] by (auto simp: conns_of_def tcp_close_def)
  show ?thesis
    using assms(1) l p unfolding conns_ok_def f
    by (auto simp: tcp_close_def distinct_hm_insert client_count_hm_insert intro: le_trans [OF diff_le_self])
qed

lemma conns_ok_step: "server_step X s s' \<Longrightarrow> conns_ok s \<Longrightarrow> conns_ok s'"
proof (induction rule: server_step.induct)
  case (SrvAccept s peer now)
  then show ?case by (rule conns_ok_accept)
next
  case (SrvClose conn peer s)
  then show ?case by (intro conns_ok_close)
qed (auto elim: conns_ok_same simp: udp_receive_def take_permit_def end_task_def tcp_read_def spawn_tcp_query_def Let_def)

lemma pipelined_cons: "srv_tasks s' = t # srv_tasks s \<Longrightarrow>
    pipelined conn s' = pipelined conn s + (if task_conn t = Some conn then 1 else 0)"
  by (simp add: pipelined_def)

lemma pipelines_ok_le:
  assumes "pipelines_ok s" "srv_tcp_cfg s' = srv_tcp_cfg s" "\<And>conn. pipelined conn s' \<le> pipelined conn s"
  shows "pipelines_ok s'"
  using assms unfolding pipelines_ok_def by (metis le_trans)

lemma length_filter_remove1: "length (filter P (remove1 x xs)) \<le> length (filter P xs)"
  by (induction xs) auto

lemma pipelines_ok_step:
  assumes "server_step X s s'" "pipelines_ok s"
  shows "pipelines_ok s'"
  using assms(1)
proof (cases rule: server_step.cases)
  case (SrvAdmitted bs peer now u ingress)
  then show ?thesis
    by (intro pipelines_ok_le [OF assms(2)]) (simp_all add: pipelined_def length_filter_remove1)
next
  case (SrvAccept peer now)
  obtain d ingress where a: "ingress_admit X peer now (srv_ingress s) = (d, ingress)" by (cases "ingress_admit X peer now (srv_ingress s)")
  show ?thesis
    by (intro pipelines_ok_le [OF assms(2)]) (cases d; simp add: SrvAccept tcp_accept_def a Let_def pipelined_def)+
next
  case (SrvRead conn peer payload)
  have "pipelined c s' \<le> tcp_max_pipelined_queries (srv_tcp_cfg s)" for c
    using SrvRead(3) assms(2) pipelined_cons [of s' "TcpWaiting conn payload" s c] SrvRead(1)
    by (auto simp: tcp_read_def pipelines_ok_def)
  then show ?thesis by (simp add: pipelines_ok_def SrvRead(1) tcp_read_def)
next
  case (SrvQuery conn payload)
  have "pipelined c s' \<le> pipelined c s" for c
    using filter_remove1_length [OF SrvQuery(2), of "\<lambda>t. task_conn t = Some c"]
    by (simp add: SrvQuery(1) spawn_tcp_query_def take_permit_def pipelined_def Let_def)
  then show ?thesis
    by (intro pipelines_ok_le [OF assms(2)]) (simp_all add: SrvQuery(1) spawn_tcp_query_def take_permit_def Let_def)
qed (intro pipelines_ok_le [OF assms(2)];
    simp add: udp_receive_def take_permit_def end_task_def tcp_close_def pipelined_def length_filter_remove1)+

interpretation server_sys: invariant_system
  "\<lambda>s. \<exists>ingress cfg. s = server_new ingress cfg \<and> ig_inflight ingress = cap" "server_step X"
  "\<lambda>s. permits_ok cap s \<and> conns_ok s \<and> pipelines_ok s" for cap X
proof unfold_locales
  fix s :: "('a, 'b, 'c, 'd) server" assume "\<exists>ingress cfg. s = server_new ingress cfg \<and> ig_inflight ingress = cap"
  then show "permits_ok cap s \<and> conns_ok s \<and> pipelines_ok s"
    by (auto simp: permits_ok_def running_def conns_ok_def conns_of_def pipelines_ok_def pipelined_def server_new_def client_count_def)
next
  fix s s' assume "permits_ok cap s \<and> conns_ok s \<and> pipelines_ok s" "server_step X s s'"
  then show "permits_ok cap s' \<and> conns_ok s' \<and> pipelines_ok s'"
    using permits_ok_step conns_ok_step pipelines_ok_step by blast
qed

lemma server_step_cfg: "(server_step X)\<^sup>*\<^sup>* s s' \<Longrightarrow> srv_tcp_cfg s' = srv_tcp_cfg s"
proof (induction rule: rtranclp_induct)
  case (step t u)
  have "srv_tcp_cfg u = srv_tcp_cfg t" using step(2)
    by (cases rule: server_step.cases)
      (auto simp: udp_receive_def take_permit_def end_task_def tcp_close_def tcp_read_def spawn_tcp_query_def tcp_accept_def
        split_def Let_def split: sum.splits)
  then show ?case using step by simp
qed simp


section \<open>One datagram\<close>

lemma encode_answer_bounded:
  assumes "emit_law P" "encode_answer P request msg n = Some out"
  shows "length (ser_bytes out) \<le> max n 512"
  using assms(2) serialize_limited_bounded [OF assms(1)]
  by (fastforce simp: encode_answer_def split: sum.splits)

text \<open>
  C30. What a datagram is answered with. A client the access list does not admit gets nothing or a
  REFUSED response of at most 512 bytes without any answer, one over its rate gets nothing, and neither
  reaches the resolver. An admitted client gets at most one datagram, for a message that decodes as a
  query, of at most 512 bytes or the size its query allows.
\<close>

theorem datagram_outcome:
  assumes "emit_law (vl_proto (sl_resolver X))" "udp_task X env now bs peer self = Some (out, self')"
  shows "case fst (ingress_admit X peer now self) of
      Inl reason \<Rightarrow> ig_resolver self' = ig_resolver self \<and>
        (out = None \<or>
         \<not> acl_permits (vl_net (sl_resolver X)) (ig_acl self) peer \<and>
         (\<exists>request s. sl_decode X bs = Some request \<and> md_type (m_meta request) = MtQuery \<and>
            serialize_limited (vl_proto (sl_resolver X)) (error_response (vl_proto (sl_resolver X)) request rcode.Refused False) 512 = Inr s \<and>
            out = Some (ser_bytes s) \<and> length (ser_bytes s) \<le> 512))
    | Inr _ \<Rightarrow> acl_permits (vl_net (sl_resolver X)) (ig_acl self) peer \<and>
        (out = None \<or>
         (\<exists>request bytes. sl_decode X bs = Some request \<and> md_type (m_meta request) = MtQuery \<and> out = Some bytes \<and>
            length bytes \<le> max 512 (max_response_size (cfg_server (rv_config (ig_resolver self))) request ClientUdp)))"
proof -
  obtain d self1 where a: "ingress_admit X peer now self = (d, self1)" by (cases "ingress_admit X peer now self")
  show ?thesis
  proof (cases d)
    case (Inl reason)
    then have o: "out = refuse X bs reason 512" "self' = self1" using assms(2) by (simp_all add: udp_task_def a)
    have "\<not> acl_permits (vl_net (sl_resolver X)) (ig_acl self) peer" if "out \<noteq> None"
      using a Inl that unfolding o(1)
      by (auto simp: ingress_admit_def acl_permits_def refuse_def split_def Let_def split: acl_decision.splits rate_decision.splits if_splits)
    moreover have "out = None \<or> (\<exists>request s. sl_decode X bs = Some request \<and> md_type (m_meta request) = MtQuery \<and>
        serialize_limited (vl_proto (sl_resolver X)) (error_response (vl_proto (sl_resolver X)) request rcode.Refused False) 512 = Inr s \<and>
        out = Some (ser_bytes s) \<and> length (ser_bytes s) \<le> 512)"
      using serialize_limited_bounded [OF assms(1)]
      by (fastforce simp: o(1) refuse_def split: option.splits sum.splits if_splits)
    ultimately show ?thesis using admit_fields(2) [OF a] by (auto simp: a Inl o(2))
  next
    case (Inr u)
    then have p: "acl_permits (vl_net (sl_resolver X)) (ig_acl self) peer"
      using a by (auto simp: ingress_admit_def acl_permits_def split: acl_decision.splits)
    obtain ser where r: "respond X env bs ClientUdp self1 = Some (ser, self')" "out = map_option ser_bytes ser"
      using assms(2) Inr by (auto simp: udp_task_def a split_def)
    have "out = None \<or> (\<exists>request bytes. sl_decode X bs = Some request \<and> md_type (m_meta request) = MtQuery \<and> out = Some bytes \<and>
        length bytes \<le> max 512 (max_response_size (cfg_server (rv_config (ig_resolver self))) request ClientUdp))"
    proof (cases ser)
      case (Some s)
      then obtain request a r' where q: "sl_decode X bs = Some request" "md_type (m_meta request) = MtQuery"
        "handle (sl_resolver X) env request ClientUdp (ig_resolver self1) = Some (a, r')"
        "encode_answer (vl_proto (sl_resolver X)) request (add_keepalive (vl_proto (sl_resolver X))
           (sv_tcp (cfg_server (rv_config (ig_resolver self1)))) ClientUdp (an_message a)) (an_max_size a) = Some s"
        using r(1) by (auto simp: respond_def split_def split: option.splits if_splits)
      have "length (ser_bytes s) \<le> max (an_max_size a) 512" by (rule encode_answer_bounded [OF assms(1) q(4)])
      then show ?thesis using q(1,2) r(2) Some handle_response [OF q(3)] admit_fields(2) [OF a] by (simp add: max.commute)
    qed (simp add: r(2))
    then show ?thesis using p by (simp add: a Inr)
  qed
qed

section \<open>Framing\<close>

lemma read_write_frame:
  assumes "payload \<noteq> []" "length payload \<le> max_message" "max_message \<le> 65535"
  shows "read_frame max_message (write_frame payload @ rest) = Some (payload, rest)"
proof -
  have n: "unat (of_nat (length payload) :: u16) = length payload"
    using assms by (simp add: unat_of_nat take_bit_eq_mod)
  have m: "min (length payload) 65535 = length payload" using assms by simp
  obtain a b where ab: "u16_to_be_bytes (of_nat (length payload)) = [a, b]" by (simp add: u16_to_be_bytes_def)
  have "u16_from_be_bytes a b = of_nat (length payload)"
    using u16_be_round [of "of_nat (length payload)"] by (simp add: ab)
  then show ?thesis using assms by (simp add: read_frame_def write_frame_def m ab n Let_def)
qed

text \<open>
  The messages of a connection survive the framing: what one side writes, one message after the
  other, the other side reads back as the same messages in the same order, for all messages that are
  not empty and within the configured size.
\<close>

theorem frames_round_trip:
  assumes "list_all (\<lambda>p. p \<noteq> [] \<and> length p \<le> max_message) payloads" "max_message \<le> 65535"
  shows "read_frames max_message (concat (map write_frame payloads)) = payloads"
  using assms(1)
proof (induction payloads)
  case Nil
  then show ?case by (simp add: read_frames.simps [of max_message "[]"] read_frame_def)
next
  case (Cons p ps)
  then show ?case using read_write_frame [of p max_message "concat (map write_frame ps)"] assms(2)
    by (simp add: read_frames.simps [of max_message "write_frame p @ concat (map write_frame ps)"])
qed

section \<open>A server with a closed access list\<close>

definition sample_server_lib ::
  "(nat, cache_key \<rightharpoonup> cache_entry, cache_key \<rightharpoonup> failure_entry, cache_key \<rightharpoonup> variant_set) server_lib" where
  "sample_server_lib = \<lparr>sl_resolver = sample_lib, sl_gov = counter_gov, sl_decode = (\<lambda>_. Some example_query)\<rparr>"

definition closed_ingress ::
  "(nat, cache_key \<rightharpoonup> cache_entry, cache_key \<rightharpoonup> failure_entry, cache_key \<rightharpoonup> variant_set) ingress" where
  "closed_ingress =
     \<lparr>ig_acl = \<lparr>acl_allow = [], acl_deny = []\<rparr>, ig_limiter = limiter_new counter_gov sample_rate_limit,
      ig_resolver = sample_resolver, ig_inflight = 8\<rparr>"


theorem datagram_outcome_witness:
  "\<exists>out self'. udp_task sample_server_lib (sample_query no_reply) 0 [1, 2] (V4 9) closed_ingress = Some (out, self') \<and>
     ig_resolver self' = sample_resolver"
proof -
  have a: "ingress_admit sample_server_lib (V4 9) 0 closed_ingress = (Inl ''acl_not_allowed'', closed_ingress)"
    by (simp add: ingress_admit_def acl_evaluate_def closed_ingress_def Let_def)
  then obtain out where u: "udp_task sample_server_lib (sample_query no_reply) 0 [1, 2] (V4 9) closed_ingress = Some (out, closed_ingress)"
    by (simp add: udp_task_def)
  have e: "emit_law (vl_proto (sl_resolver sample_server_lib))"
    by (simp add: sample_server_lib_def sample_lib_def emit_law_list_proto)
  show ?thesis
    by (rule exI [of _ out], rule exI [of _ closed_ingress])
      (use datagram_outcome [OF e u] u in \<open>simp add: a closed_ingress_def\<close>)
qed

theorem frames_round_trip_witness:
  "read_frames 512 (concat (map write_frame [[1], [2, 3]])) = [[1], [2, 3]]"
  by (rule frames_round_trip) simp_all

end
