(* ===== verification/Bootstrap.thy ===== *)
theory Bootstrap
  imports ConfigTree Network
begin

text \<open>
  Addresses for upstreams that are only named (\<^verbatim>\<open>upstream/bootstrap.rs\<close>), and the small DNS client it asks
  with (\<^verbatim>\<open>dns/query.rs\<close>): which names are pending, which resolvers need no name, the check for an upstream
  that is this host itself, the lookups under the time limits, and what is written into the configuration.

  The wire codec and the parsers of names and record types are arguments (\<open>query_lib\<close>), as are the
  exchange with a server, the system resolver and the addresses of the interfaces. Record types are ASCII.
\<close>

section \<open>The client (\<^verbatim>\<open>dns/query.rs\<close>)\<close>

record query_request =
  qr_name :: string
  qr_rtype :: string
  qr_server :: string
  qr_port :: u16
  qr_tcp :: bool
  qr_dnssec :: bool

datatype query_outcome =
  Answered (qo_rcode: string) (qo_addresses: "string list") (qo_records: nat) (qo_authenticated: bool) (qo_truncated: bool) u64
| QueryFailed string

fun is_usable_outcome :: "bool \<Rightarrow> query_outcome \<Rightarrow> bool" where
  "is_usable_outcome require_answer (Answered rc _ n _ _ _) \<longleftrightarrow> rc = ''NOERROR'' \<and> (\<not> require_answer \<or> 0 < n)"
| "is_usable_outcome require_answer (QueryFailed _) \<longleftrightarrow> False"

text \<open>A code the message model does not name is identified by its number.\<close>

definition other_rcode_name :: "nat \<Rightarrow> string" where
  "other_rcode_name n =
     (case map_of
        [(6, ''YXDOMAIN''), (7, ''YXRRSET''), (8, ''NXRRSET''), (9, ''NOTAUTH''), (10, ''NOTZONE''), (17, ''BADKEY''),
         (18, ''BADTIME''), (19, ''BADMODE''), (20, ''BADNAME''), (21, ''BADALG''), (22, ''BADTRUNC''), (23, ''BADCOOKIE'')] n of
        Some name \<Rightarrow> name | None \<Rightarrow> ''RCODE'' @ dec n)"

fun rcode_name :: "rcode \<Rightarrow> string" where
  "rcode_name NoError = ''NOERROR''"
| "rcode_name FormErr = ''FORMERR''"
| "rcode_name ServFail = ''SERVFAIL''"
| "rcode_name NXDomain = ''NXDOMAIN''"
| "rcode_name NotImp = ''NOTIMP''"
| "rcode_name rcode.Refused = ''REFUSED''"
| "rcode_name BADVERS = ''BADVERS''"
| "rcode_name (OtherRcode n) = other_rcode_name (unat n)"

definition normalise_query_name :: "string \<Rightarrow> string" where
  "normalise_query_name name = to_ascii_lowercase (trim_end_matches CHR ''.'' name)"

record query_lib =
  ql_name :: "string \<Rightarrow> string option"
  ql_rtype :: "string \<Rightarrow> rtype option"
  ql_encode :: "message \<Rightarrow> bytes option"
  ql_decode :: "bytes \<Rightarrow> message option"

definition query_message :: "proto_lib \<Rightarrow> u16 \<Rightarrow> string \<Rightarrow> rtype \<Rightarrow> bool \<Rightarrow> message" where
  "query_message P ident name rtype dnssec =
     \<lparr>m_meta = \<lparr>md_id = ident, md_type = MtQuery, md_op = OpQuery, md_authoritative = False, md_truncation = False,
        md_recursion_desired = True, md_recursion_available = False, md_authentic_data = False,
        md_checking_disabled = False, md_rcode = NoError\<rparr>,
      m_queries = [\<lparr>q_name = name, q_type = rtype, q_class = CLASS_IN\<rparr>],
      m_answers = [], m_authorities = [], m_additionals = [],
      m_edns = (if dnssec then Some ((set_max_payload P 1232 (edns_new P))\<lparr>ed_version := 0, ed_dnssec_ok := True\<rparr>) else None)\<rparr>"

text \<open>How a response is judged.\<close>

definition judge_response :: "query_lib \<Rightarrow> string \<Rightarrow> u16 \<Rightarrow> u64 \<Rightarrow> bytes \<Rightarrow> query_outcome" where
  "judge_response Q name ident elapsed response =
     (case ql_decode Q response of
        None \<Rightarrow> QueryFailed ''the response could not be parsed''
      | Some parsed \<Rightarrow>
          (if md_id (m_meta parsed) \<noteq> ident then QueryFailed ''the response transaction id did not match the query''
           else if (case m_queries parsed of [] \<Rightarrow> None | q # _ \<Rightarrow> Some (normalise_query_name (q_name q))) \<noteq> Some (normalise_query_name name)
           then QueryFailed ''the response question did not match the query''
           else Answered (rcode_name (md_rcode (m_meta parsed)))
                  (List.map_filter (\<lambda>r. map_option ip_text (record_address r)) (m_answers parsed))
                  (length (m_answers parsed)) (md_authentic_data (m_meta parsed)) (md_truncation (m_meta parsed)) elapsed))"

text \<open>\<open>exchange\<close> is what the socket gave: an error, or the bytes of a response.\<close>

definition query_run ::
  "proto_lib \<Rightarrow> query_lib \<Rightarrow> u16 \<Rightarrow> u64 \<Rightarrow> (socket_addr \<Rightarrow> bytes \<Rightarrow> string + bytes) \<Rightarrow> query_request \<Rightarrow> query_outcome" where
  "query_run P Q ident elapsed exchange request =
     (case ql_name Q (qr_name request) of
        None \<Rightarrow> QueryFailed (''`'' @ qr_name request @ ''` is not a valid DNS name'')
      | Some name \<Rightarrow>
          (case ql_rtype Q (to_ascii_uppercase (qr_rtype request)) of
             None \<Rightarrow> QueryFailed (''`'' @ qr_rtype request @ ''` is not a record type'')
           | Some rtype \<Rightarrow>
               (case ip_parse (qr_server request) of
                  None \<Rightarrow> QueryFailed (''`'' @ qr_server request @ ''` is not an IP address'')
                | Some ip \<Rightarrow>
                    (case ql_encode Q (query_message P ident name rtype (qr_dnssec request)) of
                       None \<Rightarrow> QueryFailed ''could not encode the query''
                     | Some bytes \<Rightarrow>
                         (case exchange \<lparr>sa_ip = ip, sa_port = qr_port request\<rparr> bytes of
                            Inl e \<Rightarrow> QueryFailed e
                          | Inr response \<Rightarrow> judge_response Q name ident elapsed response)))))"

section \<open>Names without addresses\<close>

definition BOOTSTRAP_TOTAL_TIMEOUT :: duration where "BOOTSTRAP_TOTAL_TIMEOUT = from_secs 10"

record pending_name =
  pd_group :: string
  pd_server :: string
  pd_host :: string

record bootstrap_report =
  bp_resolved :: "(string \<times> ipaddr list) list"
  bp_failed :: "(string \<times> string) list"

definition group_pending :: "upstream_group_config \<Rightarrow> pending_name list" where
  "group_pending g =
     List.map_filter (\<lambda>s.
         if us_addresses s = []
         then map_option (\<lambda>host. \<lparr>pd_group = ug_name g, pd_server = us_name s, pd_host = host\<rparr>) (us_server_name s)
         else None)
       (filter us_enabled (ug_servers g))"

definition pending :: "config_tree \<Rightarrow> pending_name list" where
  "pending cfg = concat (map group_pending (uc_groups (ct_upstream cfg)))"

text \<open>The order of \<^verbatim>\<open>SocketAddr\<close>: IPv4 first, then by address and port.\<close>

fun ip_rank :: "ipaddr \<Rightarrow> nat" where
  "ip_rank (V4 a) = unat a"
| "ip_rank (V6 a) = 2 ^ 32 + unat a"

definition socket_rank :: "socket_addr \<Rightarrow> nat" where
  "socket_rank a = ip_rank (sa_ip a) * 2 ^ 16 + unat (sa_port a)"

definition server_sockets :: "upstream_server_config \<Rightarrow> socket_addr list" where
  "server_sockets s = map (\<lambda>a. \<lparr>sa_ip = a, sa_port = effective_port s\<rparr>) (us_addresses s)"

definition enabled_servers :: "config_tree \<Rightarrow> upstream_server_config list" where
  "enabled_servers cfg = concat (map (\<lambda>g. filter us_enabled (ug_servers g)) (uc_groups (ct_upstream cfg)))"

definition seed_resolvers :: "config_tree \<Rightarrow> socket_addr list" where
  "seed_resolvers cfg =
     remdups_adj (sort_key socket_rank
       (concat (map server_sockets (filter (\<lambda>s. us_server_name s = None) (enabled_servers cfg)))))"

definition is_known_stub :: "ipaddr \<Rightarrow> bool" where
  "is_known_stub addr = (addr = V4 (ipv4_new 127 0 0 53) \<or> addr = V4 (ipv4_new 127 0 0 54))"

text \<open>\<open>local\<close> are the addresses of the interfaces. A cycle is its path.\<close>

definition address_cycle ::
  "socket_addr list \<Rightarrow> ipaddr list \<Rightarrow> string \<Rightarrow> socket_addr \<Rightarrow> string list option" where
  "address_cycle listeners local name sock =
     (let via_wildcard = list_ex (\<lambda>l. ip_is_unspecified (sa_ip l) \<and> sa_port l = sa_port sock) listeners \<and>
            (addr_is_loopback (sa_ip sock) \<or> sa_ip sock \<in> set local);
          shown = ''upstream `'' @ name @ ''` at '' @ socket_text (sa_ip sock) (sa_port sock)
      in if sock \<in> set listeners \<or> via_wildcard then Some [''egressdns'', shown, ''egressdns'']
         else if is_known_stub (sa_ip sock) \<and> list_ex (\<lambda>l. sa_port l = 53) listeners
         then Some [''egressdns'', shown @ '' (local stub resolver)'', ''egressdns'']
         else None)"

definition detect_cycles :: "ipaddr list \<Rightarrow> config_tree \<Rightarrow> string list list" where
  "detect_cycles local cfg =
     (let listeners = sv_udp_listen (cfg_server cfg) @ sv_tcp_listen (cfg_server cfg)
      in concat (map (\<lambda>s. List.map_filter (address_cycle listeners local (us_name s)) (server_sockets s)) (enabled_servers cfg)))"

section \<open>Lookups\<close>

text \<open>The resolvers are asked one after the other, for both families; \<open>ask\<close> is the client's answer.\<close>

definition family_addresses :: "query_outcome \<Rightarrow> ipaddr list" where
  "family_addresses outcome =
     (case outcome of Answered _ addresses _ _ _ _ \<Rightarrow> List.map_filter ip_parse addresses | QueryFailed _ \<Rightarrow> [])"

definition failure_reason :: "string \<Rightarrow> query_outcome \<Rightarrow> string" where
  "failure_reason reason outcome = (case outcome of Answered _ _ _ _ _ _ \<Rightarrow> reason | QueryFailed r \<Rightarrow> r)"

fun lookup_via :: "(socket_addr \<Rightarrow> string \<Rightarrow> query_outcome) \<Rightarrow> socket_addr list \<Rightarrow> string \<Rightarrow> string + ipaddr list" where
  "lookup_via ask [] reason = Inl reason"
| "lookup_via ask (seed # seeds) reason =
     (let a = ask seed ''A''; aaaa = ask seed ''AAAA'';
          addrs = family_addresses a @ family_addresses aaaa
      in if addrs \<noteq> [] then Inr addrs
         else lookup_via ask seeds (failure_reason (failure_reason reason a) aaaa))"

text \<open>The system resolver's addresses come in any order and may repeat.\<close>

definition lookup_via_system :: "string + ipaddr list \<Rightarrow> string + ipaddr list" where
  "lookup_via_system found =
     (case found of
        Inl e \<Rightarrow> Inl (''the system resolver could not resolve it: '' @ e)
      | Inr addrs \<Rightarrow> Inr (remdups_adj (sort_key ip_rank addrs)))"

text \<open>One name; a lookup that ran into its time limit is \<open>None\<close>.\<close>

definition bootstrap_lookup ::
  "socket_addr list \<Rightarrow> (string + ipaddr list) option \<Rightarrow> (string + ipaddr list) option \<Rightarrow> string + ipaddr list" where
  "bootstrap_lookup seeds via sys =
     (let from_system = (case sys of Some r \<Rightarrow> r | None \<Rightarrow> Inl ''timed out'')
      in if seeds \<noteq> []
         then (case via of
                 Some (Inr addrs) \<Rightarrow> if addrs \<noteq> [] then Inr addrs else from_system
               | _ \<Rightarrow> from_system)
         else from_system)"

section \<open>The bootstrap phase\<close>

text \<open>What the phase meets for each name: the time when its turn comes, and the two lookups.\<close>

record bootstrap_env =
  bt_start :: instant
  bt_now :: "string \<Rightarrow> nat \<Rightarrow> instant"
  bt_ask :: "string \<Rightarrow> socket_addr \<Rightarrow> string \<Rightarrow> query_outcome"
  bt_in_time :: "string \<Rightarrow> bool"
  bt_system :: "string \<Rightarrow> (string + ipaddr list) option"

fun resolve_names ::
  "bootstrap_env \<Rightarrow> socket_addr list \<Rightarrow> pending_name list \<Rightarrow> nat \<Rightarrow> bootstrap_report" where
  "resolve_names env seeds [] i = \<lparr>bp_resolved = [], bp_failed = []\<rparr>"
| "resolve_names env seeds (name # names) i =
     (let host = pd_host name; rest = resolve_names env seeds names (i + 1);
          via = (if bt_in_time env host
                 then Some (lookup_via (bt_ask env host) seeds ''no seed resolver answered'') else None)
      in if bt_start env + BOOTSTRAP_TOTAL_TIMEOUT \<le> bt_now env host i
         then rest\<lparr>bp_failed := (host, ''the bootstrap phase ran out of time'') # bp_failed rest\<rparr>
         else case bootstrap_lookup seeds via (map_option lookup_via_system (bt_system env host)) of
                Inl e \<Rightarrow> rest\<lparr>bp_failed := (host, e) # bp_failed rest\<rparr>
              | Inr addrs \<Rightarrow>
                  (if addrs \<noteq> [] then rest\<lparr>bp_resolved := (host, addrs) # bp_resolved rest\<rparr>
                   else rest\<lparr>bp_failed := (host, ''no addresses were returned'') # bp_failed rest\<rparr>))"

definition apply_server :: "string \<Rightarrow> ipaddr list \<Rightarrow> upstream_server_config \<Rightarrow> upstream_server_config" where
  "apply_server host addrs s =
     (if us_addresses s = [] \<and> us_server_name s = Some host then s\<lparr>us_addresses := addrs\<rparr> else s)"

definition apply_addresses :: "string \<Rightarrow> ipaddr list \<Rightarrow> config_tree \<Rightarrow> config_tree" where
  "apply_addresses host addrs cfg =
     cfg\<lparr>ct_upstream := (ct_upstream cfg)
           \<lparr>uc_groups := map (\<lambda>g. g\<lparr>ug_servers := map (apply_server host addrs) (ug_servers g)\<rparr>) (uc_groups (ct_upstream cfg))\<rparr>\<rparr>"

definition resolve_pending :: "bootstrap_env \<Rightarrow> config_tree \<Rightarrow> bootstrap_report \<times> config_tree" where
  "resolve_pending env cfg =
     (let names = pending cfg
      in if names = [] then (\<lparr>bp_resolved = [], bp_failed = []\<rparr>, cfg)
         else (let report = resolve_names env (seed_resolvers cfg) names 0
               in (report, fold (\<lambda>(host, addrs) c. apply_addresses host addrs c) (bp_resolved report) cfg)))"

section \<open>What bootstrapping changes\<close>

lemma resolve_names_hosts:
  "mset (map fst (bp_resolved (resolve_names env seeds names i))) + mset (map fst (bp_failed (resolve_names env seeds names i))) =
     mset (map pd_host names)"
  by (induction env seeds names i rule: resolve_names.induct) (auto simp: Let_def split: sum.split)

lemma resolve_names_addresses:
  "(host, addrs) \<in> set (bp_resolved (resolve_names env seeds names i)) \<Longrightarrow> addrs \<noteq> []"
  by (induction env seeds names i rule: resolve_names.induct) (auto simp: Let_def split: sum.splits if_splits)

text \<open>A server before and after: the same, or given the addresses found for its name.\<close>

definition bootstrapped :: "(string \<times> ipaddr list) list \<Rightarrow> upstream_server_config \<Rightarrow> upstream_server_config \<Rightarrow> bool" where
  "bootstrapped found s s' \<longleftrightarrow>
     s' = s \<or> (\<exists>host addrs. (host, addrs) \<in> set found \<and> us_addresses s = [] \<and> us_server_name s = Some host \<and>
                 s' = s\<lparr>us_addresses := addrs\<rparr>)"

definition group_servers :: "config_tree \<Rightarrow> upstream_server_config list list" where
  "group_servers cfg = map ug_servers (uc_groups (ct_upstream cfg))"

lemma group_servers_apply: "group_servers (apply_addresses host addrs cfg) = map (map (apply_server host addrs)) (group_servers cfg)"
  by (simp add: group_servers_def apply_addresses_def)

definition apply_found :: "(string \<times> ipaddr list) list \<Rightarrow> upstream_server_config \<Rightarrow> upstream_server_config" where
  "apply_found found s = fold (\<lambda>(host, addrs) s. apply_server host addrs s) found s"

lemma group_servers_fold:
  "group_servers (fold (\<lambda>(host, addrs) c. apply_addresses host addrs c) found cfg) = map (map (apply_found found)) (group_servers cfg)"
proof (induction found arbitrary: cfg)
  case (Cons p found)
  have "apply_found (p # found) = apply_found found \<circ> apply_server (fst p) (snd p)" by (auto simp: apply_found_def split_def)
  then show ?case by (cases p) (simp add: Cons group_servers_apply)
qed (simp add: apply_found_def [abs_def])

lemma apply_found_id: "us_addresses s \<noteq> [] \<Longrightarrow> apply_found found s = s"
  by (induction found) (auto simp: apply_found_def apply_server_def)

lemma apply_found_first:
  assumes "us_addresses s = []" "us_server_name s = Some host" "list_all (\<lambda>p. snd p \<noteq> []) found"
  shows "apply_found found s = (case map_of found host of None \<Rightarrow> s | Some addrs \<Rightarrow> s\<lparr>us_addresses := addrs\<rparr>)"
  using assms(3)
proof (induction found)
  case (Cons p found)
  have step: "apply_found (p # found) s = apply_found found (apply_server (fst p) (snd p) s)"
    by (simp add: apply_found_def split_def)
  show ?case
  proof (cases "fst p = host")
    case True
    then have "apply_server (fst p) (snd p) s = s\<lparr>us_addresses := snd p\<rparr>" using assms by (simp add: apply_server_def)
    then show ?thesis using Cons.prems True step apply_found_id [of "s\<lparr>us_addresses := snd p\<rparr>" found] by (cases p) simp
  next
    case False
    then have "apply_server (fst p) (snd p) s = s" using assms by (simp add: apply_server_def)
    then show ?thesis using Cons False step by (cases p) auto
  qed
qed (simp add: apply_found_def)

lemma apply_found_unnamed: "us_server_name s = None \<Longrightarrow> apply_found found s = s"
  by (induction found) (auto simp: apply_found_def apply_server_def)

lemma apply_found_bootstrapped:
  assumes "list_all (\<lambda>p. snd p \<noteq> []) found"
  shows "bootstrapped found s (apply_found found s)"
proof (cases "us_addresses s = [] \<and> us_server_name s \<noteq> None")
  case True
  then obtain host where h: "us_server_name s = Some host" by blast
  show ?thesis
  proof (cases "map_of found host")
    case None
    then show ?thesis using apply_found_first [OF _ h assms] True by (simp add: bootstrapped_def)
  next
    case (Some addrs)
    then show ?thesis using apply_found_first [OF _ h assms] True map_of_SomeD [OF Some] h by (auto simp: bootstrapped_def)
  qed
next
  case False
  then show ?thesis using apply_found_id [of s found] apply_found_unnamed [of s found] by (auto simp: bootstrapped_def)
qed

lemma resolve_pending_found:
  "list_all (\<lambda>p. snd p \<noteq> []) (bp_resolved (fst (resolve_pending env cfg)))"
  "group_servers (snd (resolve_pending env cfg)) =
     map (map (apply_found (bp_resolved (fst (resolve_pending env cfg))))) (group_servers cfg)"
proof -
  show "list_all (\<lambda>p. snd p \<noteq> []) (bp_resolved (fst (resolve_pending env cfg)))"
    by (auto simp: resolve_pending_def Let_def list_all_iff dest: resolve_names_addresses)
  have "apply_found [] = id" by (auto simp: apply_found_def)
  then show "group_servers (snd (resolve_pending env cfg)) =
     map (map (apply_found (bp_resolved (fst (resolve_pending env cfg))))) (group_servers cfg)"
    by (simp add: resolve_pending_def Let_def group_servers_fold)
qed

lemma resolve_pending_hosts:
  "mset (map fst (bp_resolved (fst (resolve_pending env cfg)))) + mset (map fst (bp_failed (fst (resolve_pending env cfg)))) =
     mset (map pd_host (pending cfg))"
  using resolve_names_hosts [of env "seed_resolvers cfg" "pending cfg" 0] by (simp add: resolve_pending_def Let_def)

text \<open>
  Bootstrapping writes addresses and nothing else. Every server keeps its name, its transport and the
  identity its certificate must show; a server that had addresses, or is not named, is as before; one
  that gets addresses gets those found for its own name, at least one. Every pending name is reported
  once, as resolved or as failed.
\<close>

theorem bootstrap_writes_addresses:
  "list_all2 (list_all2 (bootstrapped (bp_resolved (fst (resolve_pending env cfg))))) (group_servers cfg)
     (group_servers (snd (resolve_pending env cfg))) \<and>
   list_all (\<lambda>p. snd p \<noteq> []) (bp_resolved (fst (resolve_pending env cfg))) \<and>
   mset (map fst (bp_resolved (fst (resolve_pending env cfg)))) + mset (map fst (bp_failed (fst (resolve_pending env cfg)))) =
     mset (map pd_host (pending cfg))"
proof -
  note f = resolve_pending_found [where env = env and cfg = cfg]
  have "list_all2 (list_all2 (bootstrapped (bp_resolved (fst (resolve_pending env cfg))))) xs
      (map (map (apply_found (bp_resolved (fst (resolve_pending env cfg))))) xs)" for xs
    using apply_found_bootstrapped [OF f(1)] by (simp add: list_all2_conv_all_nth)
  then show ?thesis using f resolve_pending_hosts [of env cfg] by simp
qed

text \<open>
  A name that was resolved is no longer pending: what is left without an address after the phase
  are names it reported as failed.
\<close>

theorem bootstrap_resolves_names:
  assumes "pd \<in> set (pending (snd (resolve_pending env cfg)))"
  shows "pd_host pd \<in> fst ` set (bp_failed (fst (resolve_pending env cfg))) \<and>
    pd_host pd \<notin> fst ` set (bp_resolved (fst (resolve_pending env cfg)))"
proof -
  let ?found = "bp_resolved (fst (resolve_pending env cfg))"
  note f = resolve_pending_found [where env = env and cfg = cfg]
  have hosts: "pd_host ` set (pending c) =
      {h. \<exists>ss s. ss \<in> set (group_servers c) \<and> s \<in> set ss \<and> us_enabled s \<and> us_addresses s = [] \<and> us_server_name s = Some h}" for c
    by (force simp: pending_def group_pending_def group_servers_def map_filter_def split: if_splits)
  obtain ss s where s: "ss \<in> set (group_servers cfg)" "s \<in> set ss" "us_enabled (apply_found ?found s)"
    "us_addresses (apply_found ?found s) = []" "us_server_name (apply_found ?found s) = Some (pd_host pd)"
    using imageI [OF assms, of pd_host] unfolding hosts f(2) by auto
  have b: "bootstrapped ?found s (apply_found ?found s)" by (rule apply_found_bootstrapped [OF f(1)])
  then have same: "apply_found ?found s = s" using s(4) f(1) by (auto simp: bootstrapped_def list_all_iff)
  then have n: "us_addresses s = []" "us_server_name s = Some (pd_host pd)" "us_enabled s" using s by simp_all
  have "map_of ?found (pd_host pd) = None"
  proof (cases "map_of ?found (pd_host pd)")
    case (Some addrs)
    have "snd (pd_host pd, addrs) \<noteq> []" using map_of_SomeD [OF Some] f(1) by (auto simp: list_all_iff)
    moreover have "us_addresses (apply_found ?found s) = addrs" using apply_found_first [OF n(1,2) f(1)] Some by simp
    ultimately show ?thesis using same n(1) by simp
  qed
  then have nf: "pd_host pd \<notin> fst ` set ?found" by (simp add: map_of_eq_None_iff)
  have "pd_host pd \<in> pd_host ` set (pending cfg)" using hosts [of cfg] s(1,2) n by auto
  then have "pd_host pd \<in># mset (map pd_host (pending cfg))" by auto
  then show ?thesis using nf resolve_pending_hosts [of env cfg] by (metis in_multiset_in_set set_map union_iff)
qed

text \<open>
  Start-up is refused for every upstream address that is this host: an enabled server on one of the
  listening addresses, or on a loopback or interface address at the port of a listener on the
  unspecified address.
\<close>

theorem cycles_detected:
  assumes "s \<in> set (enabled_servers cfg)" "sock \<in> set (server_sockets s)"
    "l \<in> set (sv_udp_listen (cfg_server cfg) @ sv_tcp_listen (cfg_server cfg))"
    "l = sock \<or> ip_is_unspecified (sa_ip l) \<and> sa_port l = sa_port sock \<and> (addr_is_loopback (sa_ip sock) \<or> sa_ip sock \<in> set local)"
  shows "detect_cycles local cfg \<noteq> []"
proof -
  let ?ls = "sv_udp_listen (cfg_server cfg) @ sv_tcp_listen (cfg_server cfg)"
  have "sock \<in> set ?ls \<or> list_ex (\<lambda>l. ip_is_unspecified (sa_ip l) \<and> sa_port l = sa_port sock) ?ls \<and>
      (addr_is_loopback (sa_ip sock) \<or> sa_ip sock \<in> set local)"
    using assms(3,4) unfolding list_ex_iff by blast
  then obtain p where "address_cycle ?ls local (us_name s) sock = Some p" by (simp add: address_cycle_def Let_def)
  then have "List.map_filter (address_cycle ?ls local (us_name s)) (server_sockets s) \<noteq> []"
    using assms(2) by (force simp: map_filter_def filter_empty_conv)
  then show ?thesis using assms(1) by (auto simp: detect_cycles_def Let_def)
qed

end
