(* ===== verification/Tasks.thy ===== *)
theory Tasks
  imports Resolver
begin

text \<open>
  Two background loops that decide: hot-name prefetching (\<^verbatim>\<open>tasks/prefetch.rs\<close>) and the monitor of the
  egress path (\<^verbatim>\<open>tasks/network.rs\<close>). A turn of a loop is a function of its state; the refreshes a turn
  starts are put on a list, with the semaphore whose permit they hold.
\<close>

section \<open>Prefetching\<close>

text \<open>
  A changed query rate replaces the semaphore: it is identified by a number, its permits that are
  left are the configured rate less the refreshes that hold one.
\<close>

record prefetcher =
  pr_enabled :: bool
  pr_issued :: u64
  pr_skipped :: u64
  pr_budget :: "(u32 \<times> nat) option"
  pr_next_sem :: nat
  pr_warmed :: bool
  pr_tasks :: "(nat \<times> cache_key) list"

definition prefetcher_new :: "bool \<Rightarrow> prefetcher" where
  "prefetcher_new enabled =
     \<lparr>pr_enabled = enabled, pr_issued = 0, pr_skipped = 0, pr_budget = None, pr_next_sem = 0, pr_warmed = False, pr_tasks = []\<rparr>"

definition prefetch_set_enabled :: "bool \<Rightarrow> prefetcher \<Rightarrow> prefetcher" where
  "prefetch_set_enabled enabled p = p\<lparr>pr_enabled := enabled\<rparr>"

definition near_expiry :: "prefetch_config \<Rightarrow> lookup \<Rightarrow> bool" where
  "near_expiry cfg found =
     (case found of
        Fresh cached ttl_left \<Rightarrow>
          if ce_ttl cached = 0 then False
          else real (unat ttl_left) / real (unat (ce_ttl cached)) \<le> pf_trigger_fraction cfg
      | _ \<Rightarrow> False)"

definition worth_refreshing ::
  "('a, 'f, 'v) cache_lib \<Rightarrow> prefetch_config \<Rightarrow> ('a, 'f, 'v) dns_cache \<Rightarrow> instant \<Rightarrow> cache_key \<times> hot_entry \<Rightarrow> bool" where
  "worth_refreshing C cfg cache now entry =
     (if he_hits (snd entry) < ucast (pf_min_hits cfg) then False
      else if (case he_last_prefetch (snd entry) of Some t \<Rightarrow> now - t < pf_per_key_min_interval cfg | None \<Rightarrow> False) then False
      else near_expiry cfg (cache_get C cache (fst entry) now))"

definition prefetch_candidates ::
  "('a, 'f, 'v) cache_lib \<Rightarrow> prefetch_config \<Rightarrow> ('a, 'f, 'v) dns_cache \<Rightarrow> cache_key hot_set \<Rightarrow> instant \<Rightarrow> cache_key list" where
  "prefetch_candidates C cfg cache hotset now =
     map fst (filter (worth_refreshing C cfg cache now) (hot_top (min (pf_hot_set_size cfg) 4096) hotset))"

definition prefetch_budget :: "u32 \<Rightarrow> prefetcher \<Rightarrow> nat \<times> prefetcher" where
  "prefetch_budget qps p =
     (case pr_budget p of
        Some (n, sem) \<Rightarrow>
          if n = qps then (sem, p)
          else (pr_next_sem p, p\<lparr>pr_budget := Some (qps, pr_next_sem p), pr_next_sem := pr_next_sem p + 1\<rparr>)
      | None \<Rightarrow> (pr_next_sem p, p\<lparr>pr_budget := Some (qps, pr_next_sem p), pr_next_sem := pr_next_sem p + 1\<rparr>))"

definition holding :: "nat \<Rightarrow> prefetcher \<Rightarrow> nat" where
  "holding sem p = length (filter (\<lambda>t. fst t = sem) (pr_tasks p))"

fun issue_prefetches ::
  "instant \<Rightarrow> nat \<Rightarrow> nat \<Rightarrow> cache_key list \<Rightarrow> prefetcher \<times> cache_key hot_set \<Rightarrow> prefetcher \<times> cache_key hot_set" where
  "issue_prefetches now sem qps [] (p, h) = (p, h)"
| "issue_prefetches now sem qps (key # keys) (p, h) =
     (if qps \<le> holding sem p then (p\<lparr>pr_skipped := pr_skipped p + 1\<rparr>, h)
      else issue_prefetches now sem qps keys
             (p\<lparr>pr_issued := pr_issued p + 1, pr_tasks := (sem, key) # pr_tasks p\<rparr>, mark_prefetch key now h))"

text \<open>The names warmed once after the start; their refreshes end, or are aborted, before the turn goes on.\<close>

definition warm_start :: "prefetch_config \<Rightarrow> instant \<Rightarrow> prefetcher \<times> cache_key hot_set \<Rightarrow> prefetcher \<times> cache_key hot_set" where
  "warm_start cfg now ph =
     (let want = min (min (pf_warm_on_start cfg) (pf_hot_set_size cfg)) 1024;
          keys = map fst (hot_top want (snd ph))
      in (fold (\<lambda>_ p. p\<lparr>pr_issued := pr_issued p + 1\<rparr>) keys (fst ph), fold (\<lambda>k h. mark_prefetch k now h) keys (snd ph)))"

definition prefetch_round ::
  "('a, 'f, 'v) cache_lib \<Rightarrow> prefetch_config \<Rightarrow> ('a, 'f, 'v) dns_cache \<Rightarrow> instant \<Rightarrow> prefetcher \<times> cache_key hot_set \<Rightarrow>
     prefetcher \<times> cache_key hot_set" where
  "prefetch_round C cfg cache now ph =
     (if \<not> pf_enabled cfg \<or> \<not> pr_enabled (fst ph) then ph
      else
        (let qps = max (pf_global_qps cfg) 1;
             (sem, p1) = prefetch_budget qps (fst ph);
             (p2, h2) = (if \<not> pr_warmed p1 \<and> 0 < pf_warm_on_start cfg
                         then warm_start cfg now (p1\<lparr>pr_warmed := True\<rparr>, snd ph) else (p1, snd ph))
         in issue_prefetches now sem (unat qps) (take (unat qps) (prefetch_candidates C cfg cache h2 now)) (p2, h2)))"

definition prefetch_done :: "nat \<times> cache_key \<Rightarrow> prefetcher \<Rightarrow> prefetcher" where
  "prefetch_done task p = p\<lparr>pr_tasks := remove1 task (pr_tasks p)\<rparr>"

section \<open>The network monitor\<close>

text \<open>The state the monitor publishes to: the network snapshot, the quality store and the Cloudflare state.\<close>

record monitor =
  mo_pending :: "(u64 \<times> instant) option"
  mo_network :: network_snapshot
  mo_quality :: quality_store
  mo_cloudflare :: cf_state

definition apply_change :: "network_config \<Rightarrow> raw_network_state \<Rightarrow> u64 \<Rightarrow> monitor \<Rightarrow> monitor" where
  "apply_change cfg sample now_unix m =
     (let (changed, net) = publish_network sample now_unix (mo_network m)
      in if \<not> changed then m\<lparr>mo_network := net\<rparr>
         else m\<lparr>mo_network := net,
                mo_quality := quality_on_generation_change (ns_generation net) (nw_confidence_decay_on_change cfg) (mo_quality m),
                mo_cloudflare := cf_generation_change (ns_generation net) (mo_cloudflare m)\<rparr>)"

text \<open>One poll: the configuration of the moment, the sample (none when the probe failed) and the clocks.\<close>

record poll =
  po_cfg :: network_config
  po_sample :: "raw_network_state option"
  po_now :: instant
  po_unix :: u64

definition monitor_poll :: "poll \<Rightarrow> monitor \<Rightarrow> monitor" where
  "monitor_poll po m =
     (if \<not> nw_enabled (po_cfg po) then m\<lparr>mo_pending := None\<rparr>
      else case po_sample po of
             None \<Rightarrow> m
           | Some sample \<Rightarrow>
               (let fp = raw_fingerprint sample in
                if raw_fingerprint (ns_raw (mo_network m)) = fp then m\<lparr>mo_pending := None\<rparr>
                else case mo_pending m of
                       None \<Rightarrow> m\<lparr>mo_pending := Some (fp, po_now po)\<rparr>
                     | Some (fp', first_seen) \<Rightarrow>
                         if fp' = fp
                         then (if nw_debounce (po_cfg po) \<le> po_now po - first_seen
                               then (apply_change (po_cfg po) sample (po_unix po) m)\<lparr>mo_pending := None\<rparr> else m)
                         else m\<lparr>mo_pending := Some (fp, po_now po)\<rparr>))"

section \<open>What a round of prefetching does\<close>

lemma mark_prefetch_get:
  "hot_get k (mark_prefetch key now h) =
     (if k = key then map_option (\<lambda>e. e\<lparr>he_last_prefetch := Some now\<rparr>) (hot_get k h) else hot_get k h)"
  by (auto simp: mark_prefetch_def hot_get_def update_conv split: option.split)

lemma mark_prefetch_keys: "map fst (hs_map (mark_prefetch key now h)) = map fst (hs_map h)"
proof (cases "map_of (hs_map h) key")
  case (Some e)
  then have "key \<in> fst ` set (hs_map h)" by (metis map_of_eq_None_iff option.distinct(1))
  then show ?thesis by (simp add: mark_prefetch_def Some update_keys)
qed (simp add: mark_prefetch_def)

text \<open>The keys a turn really issued, in order: as many as there were permits.\<close>

lemma issue_prefetches_tasks:
  fixes keys p h now sem qps
  defines "n \<equiv> min (length keys) (qps - holding sem p)"
  shows "pr_tasks (fst (issue_prefetches now sem qps keys (p, h))) = map (Pair sem) (rev (take n keys)) @ pr_tasks p"
    "snd (issue_prefetches now sem qps keys (p, h)) = fold (\<lambda>k h. mark_prefetch k now h) (take n keys) h"
  unfolding n_def
proof (induction keys arbitrary: p h)
  case (Cons key keys)
  {
    case 1
    show ?case using Cons(1) [of "p\<lparr>pr_issued := pr_issued p + 1, pr_tasks := (sem, key) # pr_tasks p\<rparr>" "mark_prefetch key now h"]
      by (cases "qps \<le> holding sem p") (simp_all add: holding_def take_Cons' min_def)
  next
    case 2
    show ?case using Cons(2) [of "p\<lparr>pr_issued := pr_issued p + 1, pr_tasks := (sem, key) # pr_tasks p\<rparr>" "mark_prefetch key now h"]
      by (cases "qps \<le> holding sem p") (simp_all add: holding_def take_Cons' min_def)
  }
qed simp_all

lemma fold_mark_get:
  "hot_get k (fold (\<lambda>k h. mark_prefetch k now h) keys h) =
     (if k \<in> set keys then map_option (\<lambda>e. e\<lparr>he_last_prefetch := Some now\<rparr>) (hot_get k h) else hot_get k h)"
  by (induction keys arbitrary: h) (auto simp: mark_prefetch_get option.map_comp comp_def)

lemma fold_mark_keys: "map fst (hs_map (fold (\<lambda>k h. mark_prefetch k now h) keys h)) = map fst (hs_map h)"
  by (induction keys arbitrary: h) (simp_all add: mark_prefetch_keys)

lemma hot_top_get:
  assumes "distinct (map fst (hs_map h))" "(k, e) \<in> set (hot_top n h)"
  shows "hot_get k h = Some e"
  using assms by (auto simp: hot_top_def hot_get_def dest!: in_set_takeD)

lemma prefetch_candidates_hot:
  assumes "distinct (map fst (hs_map h))" "k \<in> set (prefetch_candidates C cfg cache h now)"
  obtains e where "hot_get k h = Some e" "worth_refreshing C cfg cache now (k, e)"
  using assms hot_top_get [OF assms(1)] by (auto simp: prefetch_candidates_def)

text \<open>
  A turn of the prefetcher starts only refreshes of keys that are hot, cached, still fresh and near
  their expiry, at most as many as the query rate permits together with those under way on the same
  budget; and a key it started is not a candidate again, whatever the cache says, until the per-key
  interval has passed.
\<close>

theorem prefetch_round_sound:
  fixes h :: "cache_key hot_set"
  assumes "distinct (map fst (hs_map h))" "pr_warmed p" "pf_enabled cfg" "pr_enabled p"
    "prefetch_round C cfg cache now (p, h) = (p', h')" "prefetch_budget (max (pf_global_qps cfg) 1) p = (sem, q)"
    "holding sem p \<le> unat (max (pf_global_qps cfg) 1)"
  shows "\<exists>keys. pr_tasks p' = map (Pair sem) (rev keys) @ pr_tasks p \<and>
     holding sem p' \<le> unat (max (pf_global_qps cfg) 1) \<and>
     list_all (\<lambda>k. \<exists>e cached ttl_left. hot_get k h = Some e \<and> ucast (pf_min_hits cfg) \<le> he_hits e \<and>
         cache_get C cache k now = Fresh cached ttl_left \<and>
         real (unat ttl_left) \<le> pf_trigger_fraction cfg * real (unat (ce_ttl cached)) \<and>
         (later - now < pf_per_key_min_interval cfg \<longrightarrow> k \<notin> set (prefetch_candidates C' cfg cache' h' later))) keys"
proof -
  define qps where "qps = unat (max (pf_global_qps cfg) 1)"
  define cs where "cs = take qps (prefetch_candidates C cfg cache h now)"
  define keys where "keys = take (min (length cs) (qps - holding sem q)) cs"
  have q: "pr_tasks q = pr_tasks p" "pr_warmed q = pr_warmed p"
    using assms(6) by (auto simp: prefetch_budget_def split: option.splits if_splits prod.splits)
  then have hq: "holding sem q = holding sem p" by (simp add: holding_def)
  have r: "issue_prefetches now sem qps cs (q, h) = (p', h')"
    using assms(2-6) q(2) by (simp add: prefetch_round_def Let_def qps_def cs_def)
  then have t: "pr_tasks p' = map (Pair sem) (rev keys) @ pr_tasks p" and h': "h' = fold (\<lambda>k h. mark_prefetch k now h) keys h"
    using issue_prefetches_tasks [of now sem qps cs q h] q(1) by (simp_all add: keys_def)
  have "length keys \<le> qps - holding sem q" by (simp add: keys_def)
  then have "holding sem p' \<le> qps" using assms(7) by (simp add: holding_def [of sem p'] t hq flip: qps_def holding_def)
  moreover have "\<exists>e cached ttl_left. hot_get k h = Some e \<and> ucast (pf_min_hits cfg) \<le> he_hits e \<and>
         cache_get C cache k now = Fresh cached ttl_left \<and>
         real (unat ttl_left) \<le> pf_trigger_fraction cfg * real (unat (ce_ttl cached)) \<and>
         (later - now < pf_per_key_min_interval cfg \<longrightarrow> k \<notin> set (prefetch_candidates C' cfg cache' h' later))" if k: "k \<in> set keys" for k
  proof -
    have "k \<in> set (prefetch_candidates C cfg cache h now)" using k by (auto simp: keys_def cs_def dest!: in_set_takeD)
    from prefetch_candidates_hot [OF assms(1) this] obtain e where e: "hot_get k h = Some e" "worth_refreshing C cfg cache now (k, e)" .
    then obtain cached ttl_left where c: "cache_get C cache k now = Fresh cached ttl_left" "ce_ttl cached \<noteq> 0"
      "real (unat ttl_left) / real (unat (ce_ttl cached)) \<le> pf_trigger_fraction cfg" "ucast (pf_min_hits cfg) \<le> he_hits e"
      by (auto simp: worth_refreshing_def near_expiry_def not_less split: if_splits lookup.splits)
    have "unat (ce_ttl cached) \<noteq> 0" using c(2) by (simp add: unat_eq_zero)
    then have "0 < real (unat (ce_ttl cached))" by (simp only: of_nat_0_less_iff neq0_conv)
    then have f: "real (unat ttl_left) \<le> pf_trigger_fraction cfg * real (unat (ce_ttl cached))" using c(3) by (simp add: divide_le_eq)
    have "k \<notin> set (prefetch_candidates C' cfg cache' h' later)" if "later - now < pf_per_key_min_interval cfg"
    proof
      assume a: "k \<in> set (prefetch_candidates C' cfg cache' h' later)"
      have d: "distinct (map fst (hs_map h'))" using assms(1) by (simp add: h' fold_mark_keys)
      obtain e' where e': "hot_get k h' = Some e'" "worth_refreshing C' cfg cache' later (k, e')"
        by (rule prefetch_candidates_hot [OF d a])
      have "he_last_prefetch e' = Some now" using e'(1) k e(1) by (auto simp: h' fold_mark_get)
      then show False using e'(2) that by (simp add: worth_refreshing_def split: if_splits)
    qed
    then show ?thesis using e(1) c f by blast
  qed
  ultimately show ?thesis using t by (intro exI [of _ keys]) (simp add: list_all_iff qps_def)
qed

section \<open>Debouncing\<close>

text \<open>What is pending was first seen at a poll since which every sample had its fingerprint.\<close>

definition steady :: "u64 \<Rightarrow> instant \<Rightarrow> poll list \<Rightarrow> bool" where
  "steady fp t polls \<longleftrightarrow>
     (\<exists>before first after. polls = before @ first # after \<and> po_now first = t \<and>
        map_option raw_fingerprint (po_sample first) = Some fp \<and>
        list_all (\<lambda>po. nw_enabled (po_cfg po) \<and> map_option raw_fingerprint (po_sample po) \<in> {None, Some fp}) (first # after))"

definition monitor_run :: "monitor \<Rightarrow> poll list \<Rightarrow> monitor" where
  "monitor_run m polls = fold monitor_poll polls m"

lemma monitor_run_snoc: "monitor_run m (polls @ [po]) = monitor_poll po (monitor_run m polls)"
  by (simp add: monitor_run_def)

lemma steady_snoc:
  assumes "steady fp t polls" "nw_enabled (po_cfg po)" "map_option raw_fingerprint (po_sample po) \<in> {None, Some fp}"
  shows "steady fp t (polls @ [po])"
proof -
  obtain before first after where s: "polls = before @ first # after" "po_now first = t"
    "map_option raw_fingerprint (po_sample first) = Some fp"
    "list_all (\<lambda>po. nw_enabled (po_cfg po) \<and> map_option raw_fingerprint (po_sample po) \<in> {None, Some fp}) (first # after)"
    using assms(1) unfolding steady_def by blast
  show ?thesis unfolding steady_def
    by (rule exI [of _ before], rule exI [of _ first], rule exI [of _ "after @ [po]"]) (use s assms(2,3) in simp)
qed

lemma steady_first:
  assumes "nw_enabled (po_cfg po)" "po_sample po = Some sample"
  shows "steady (raw_fingerprint sample) (po_now po) (polls @ [po])"
  unfolding steady_def by (rule exI [of _ polls], rule exI [of _ po], rule exI [of _ "[]"]) (use assms in simp)

text \<open>What one poll does.\<close>

lemma monitor_poll_cases:
  obtains (cleared) "mo_pending (monitor_poll po m) = None" "mo_network (monitor_poll po m) = mo_network m"
  | (kept) "monitor_poll po m = m" "nw_enabled (po_cfg po)"
      "po_sample po = None \<or> (\<exists>sample t. po_sample po = Some sample \<and> mo_pending m = Some (raw_fingerprint sample, t))"
  | (seen) sample where "nw_enabled (po_cfg po)" "po_sample po = Some sample"
      "monitor_poll po m = m\<lparr>mo_pending := Some (raw_fingerprint sample, po_now po)\<rparr>"
  | (changed) sample t where "nw_enabled (po_cfg po)" "po_sample po = Some sample" "mo_pending m = Some (raw_fingerprint sample, t)"
      "nw_debounce (po_cfg po) \<le> po_now po - t" "raw_fingerprint (ns_raw (mo_network m)) \<noteq> raw_fingerprint sample"
      "monitor_poll po m = (apply_change (po_cfg po) sample (po_unix po) m)\<lparr>mo_pending := None\<rparr>"
proof (cases "nw_enabled (po_cfg po)")
  case False
  then show thesis by (intro cleared) (simp_all add: monitor_poll_def)
next
  case en: True
  show thesis
  proof (cases "po_sample po")
    case None
    then show thesis using en by (intro kept) (simp_all add: monitor_poll_def)
  next
    case (Some sample)
    note d = monitor_poll_def [of po m]
    show thesis
    proof (cases "raw_fingerprint (ns_raw (mo_network m)) = raw_fingerprint sample")
      case True
      then show thesis using en Some by (intro cleared) (simp_all add: d Let_def)
    next
      case new: False
      show thesis
      proof (cases "mo_pending m")
        case None
        then show thesis using en Some new by (intro seen) (simp_all add: d Let_def)
      next
        case pend: (Some p)
        obtain fp t where p: "p = (fp, t)" by (cases p)
        show thesis
        proof (cases "fp = raw_fingerprint sample")
          case False
          then show thesis using en Some new pend p by (intro seen) (simp_all add: d Let_def)
        next
          case same: True
          show thesis
          proof (cases "nw_debounce (po_cfg po) \<le> po_now po - t")
            case True
            then show thesis using en Some new pend p same by (intro changed [of sample t]) (simp_all add: d Let_def)
          next
            case False
            then show thesis using en Some new pend p same by (intro kept) (simp_all add: d Let_def)
          qed
        qed
      qed
    qed
  qed
qed

lemma pending_steady:
  assumes "mo_pending m = None"
  shows "mo_pending (monitor_run m polls) = Some (fp, t) \<Longrightarrow> steady fp t polls"
proof (induction polls arbitrary: fp t rule: rev_induct)
  case Nil
  then show ?case using assms by (simp add: monitor_run_def)
next
  case (snoc po polls)
  let ?m = "monitor_run m polls"
  show ?case
  proof (cases po ?m rule: monitor_poll_cases)
    case cleared
    then show ?thesis using snoc.prems by (simp add: monitor_run_snoc)
  next
    case kept
    then have p: "mo_pending ?m = Some (fp, t)" using snoc.prems by (simp add: monitor_run_snoc)
    have "map_option raw_fingerprint (po_sample po) \<in> {None, Some fp}" using kept(3) p by auto
    then show ?thesis using steady_snoc [OF snoc.IH [OF p] kept(2)] by simp
  next
    case (seen sample)
    then show ?thesis using snoc.prems steady_first [OF seen(1,2), of polls] by (simp add: monitor_run_snoc)
  next
    case (changed sample t')
    then show ?thesis using snoc.prems by (simp add: monitor_run_snoc)
  qed
qed

text \<open>
  The monitor publishes a new egress path only after it was steady: when a poll changes the network
  snapshot, an earlier poll at least the debounce time before saw the same path, and so did every poll
  in between that saw one. The generation then advances by one, and what was learned about addresses on
  the old path is demoted and forgotten.
\<close>

theorem monitor_debounces:
  assumes "mo_pending m = None" "mo_network (monitor_run m (polls @ [po])) \<noteq> mo_network (monitor_run m polls)"
  shows "\<exists>sample t. po_sample po = Some sample \<and> steady (raw_fingerprint sample) t polls \<and>
    nw_debounce (po_cfg po) \<le> po_now po - t \<and>
    ns_raw (mo_network (monitor_run m (polls @ [po]))) = sample \<and>
    ns_generation (mo_network (monitor_run m (polls @ [po]))) = sat_add (ns_generation (mo_network (monitor_run m polls))) 1 \<and>
    fs_validations (mo_cloudflare (monitor_run m (polls @ [po]))) = [] \<and>
    mo_quality (monitor_run m (polls @ [po])) =
      quality_on_generation_change (ns_generation (mo_network (monitor_run m (polls @ [po]))))
        (nw_confidence_decay_on_change (po_cfg po)) (mo_quality (monitor_run m polls))"
proof (cases po "monitor_run m polls" rule: monitor_poll_cases)
  case (changed sample t)
  have "steady (raw_fingerprint sample) t polls" by (rule pending_steady [OF assms(1) changed(3)])
  then show ?thesis
    using changed by (intro exI [of _ sample] exI [of _ t])
      (simp add: monitor_run_snoc apply_change_def publish_network_def Let_def cf_generation_change_def)
qed (use assms(2) in \<open>simp_all add: monitor_run_snoc\<close>)

end
