(* ===== verification/Spec2Isabelle.thy ===== *)
theory Spec2Isabelle
  imports Der ClientTtl Cache SingleFlight HotSet RateLimit SpecialUse Validation Quality Prefixes AnswerPolicy Health Scheduler
    Datasets ConfigTree Cloudflare Probe Server Bootstrap Tasks
begin

text \<open>
  Verification of EgressDNS, a forwarding DNS resolver in Rust (\<^verbatim>\<open>src/src\<close>). The program is translated
  into executable functions; the theorems are about these functions.

  \<^bold>\<open>The program.\<close> A listener (\<^verbatim>\<open>dns/server.rs\<close>) admits a client by access list and rate limit and hands
  the decoded message to the resolver (\<^verbatim>\<open>dns/resolver.rs\<close>). The resolver answers from local data, from the
  cache or, through a registry that lets one query per key lead, from upstream: the scheduler
  (\<^verbatim>\<open>upstream/scheduler.rs\<close>) ranks the routes of a group by their health, hedges, retries over a stream and
  asks second opinions; a validator judges the answer before or after the client is answered. The stored
  entry is turned into a response by the answer policy, which orders addresses by measured quality, may add
  verified ones and limits the TTL. Background work refreshes hot names, probes addresses, keeps the
  candidates of a content network and watches the egress path.

  \<^bold>\<open>Theories.\<close>

  \<^item> \<open>Egress_Prelude\<close>: words with Rust's saturating operations, instants and durations as nanoseconds,
    ASCII text, list lemmas, and the locale \<open>invariant_system\<close> (an initial predicate, a step relation and an
    invariant the steps keep), interpreted in the component theories as \<open>cache_sys\<close>, \<open>sf_sys\<close>, \<open>hot_sys\<close>,
    \<open>quality_sys\<close>, \<open>health_sys\<close>, \<open>slots_sys\<close>, \<open>resolution_sys\<close>, \<open>cf_sys\<close>, \<open>resolver_sys\<close> and \<open>server_sys\<close>.
  \<^item> \<open>Addresses\<close>, \<open>AddrText\<close>: addresses, networks, the access list (\<^verbatim>\<open>dns/acl.rs\<close>), the special-use classes
    (\<^verbatim>\<open>util/ipclass.rs\<close>) and the text forms of addresses.
  \<^item> \<open>Bytes\<close>, \<open>Der\<close>, \<open>Message\<close>: hashing and byte orders (\<^verbatim>\<open>util/mod.rs\<close>), the certificate walker
    (\<^verbatim>\<open>util/der.rs\<close>) with its bounds and its round trip, DNS messages (\<^verbatim>\<open>dns/message.rs\<close>).
  \<^item> \<open>Config\<close>, \<open>Endpoints\<close>, \<open>ConfigTree\<close>: the configuration, upstream entries, providers and proxies, validation,
    loading and redaction (\<^verbatim>\<open>config/\<close>): a validated configuration is not an open resolver, routes every name
    to a usable group, and is printed without credentials.
  \<^item> \<open>Cache\<close>, \<open>SingleFlight\<close>, \<open>HotSet\<close> (\<^verbatim>\<open>cache/\<close>): lifetimes, late verdicts, variants, failures; one leader per
    key and no follower left waiting; bounded popularity tracking.
  \<^item> \<open>RateLimit\<close>, \<open>SpecialUse\<close>, \<open>Datasets\<close>: inbound limits, special-use names, hosts, zones and suffix rules.
  \<^item> \<open>Validation\<close>, \<open>ClientTtl\<close>, \<open>AnswerPolicy\<close>, \<open>Quality\<close>, \<open>Prefixes\<close>, \<open>Cloudflare\<close>: validation outcomes, the TTL
    given to clients, ordering and augmentation of answers, quality evidence, official prefixes and the
    candidate state (\<^verbatim>\<open>policy/\<close>, \<^verbatim>\<open>ranking/\<close>, \<^verbatim>\<open>cloudflare/\<close>).
  \<^item> \<open>Network\<close>, \<open>Egress\<close>, \<open>Pool\<close>, \<open>Health\<close>, \<open>Scheduler\<close>, \<open>Bootstrap\<close>: generations of the egress path, proxy
    handshakes, the registry of routes, circuit breakers, the scheduler and the addresses of named upstreams
    (\<^verbatim>\<open>network/mod.rs\<close>, \<^verbatim>\<open>upstream/\<close>, \<^verbatim>\<open>dns/query.rs\<close>).
  \<^item> \<open>Probe\<close>: the offer gate, the job queue, the safety guard and the engine (\<^verbatim>\<open>probe/\<close>).
  \<^item> \<open>Resolver\<close>: the operations of \<^verbatim>\<open>dns/resolver.rs\<close>. \<open>Resolution\<close>: the shape of responses, the precedence of local
    data, the resolver's step relation and its invariant. \<open>Fetching\<close>: what a fetch may store, the evidence
    behind denials and unproved answers, late verdicts, the AD bit, failures, and that queries are answered.
  \<^item> \<open>Server\<close>: the listeners, their limits under every interleaving, and the framing of messages on a
    connection. \<open>Tasks\<close>: a round of prefetching and a poll of the network monitor.

  \<^bold>\<open>How state and effects are modelled.\<close> A struct is a record and an operation under a lock is a function of
  it; a \<^verbatim>\<open>HashMap\<close> is an association list with distinct keys. Machine integers are words, \<^verbatim>\<open>usize\<close> is \<open>nat\<close>, \<^verbatim>\<open>f64\<close> is
  \<open>real\<close>. Errors are values. An asynchronous call is a function of what it waits for (\<open>attempt_env\<close>,
  \<open>fetch_env\<close>, \<open>query_env\<close>, \<open>opinion_env\<close>): instants, permits, replies; a call that is still waiting is \<open>None\<close>.
  Where tasks interleave, their parts between two waits are the steps of an inductive relation
  (\<open>cache_step\<close>, \<open>sf_step\<close>, \<open>hot_step\<close>, \<open>cf_step\<close>, \<open>resolution_step\<close>, \<open>resolver_step\<close>, \<open>server_step\<close>), and invariants hold
  for every sequence of them.

  \<^bold>\<open>Code outside the repository\<close> is an argument: hickory's messages and codec (\<open>proto_lib\<close>, with the laws
  \<open>opt_law\<close> and \<open>emit_law\<close>) and its validator (\<open>validator_run\<close>), moka's caches (\<open>cache_lib\<close>, \<open>cache_law\<close>: an entry read
  was inserted last and not invalidated; entries may vanish at any time), ipnet and cidr arithmetic
  (\<open>ipnet_lib\<close>, \<open>cidr_lib\<close>), governor's buckets, ring's digests, the url and toml parsers. Witnesses use concrete
  instances: \<open>list_proto\<close>, \<open>map_lib\<close>, \<open>prefix_lib\<close>, \<open>sample_cidr\<close>, \<open>counter_gov\<close>, \<open>sample_lib\<close>.

  \<^bold>\<open>Bounds and termination.\<close> Loops are structural recursion or have a measure. The loop of a resolution takes the
  list of its wake-ups; two more than the group has routes are enough for every course of the attempts
  (\<open>scheduler_resolve_returns\<close>), which \<open>fetch_ready\<close> asks for in the theorem that every query is answered. The
  validation loop runs at most twice. The read loop of a connection ends with the bytes.

  \<^bold>\<open>Not modelled.\<close> Sockets, TLS and QUIC (\<^verbatim>\<open>tls.rs\<close>, \<^verbatim>\<open>probe/fetch.rs\<close>, \<^verbatim>\<open>probe/quic.rs\<close>, the binding of listeners,
  the connections of \<^verbatim>\<open>upstream/pool.rs\<close> and \<^verbatim>\<open>upstream/egress.rs\<close>) and operating-system queries
  (\<^verbatim>\<open>network/detect.rs\<close>, \<^verbatim>\<open>platform.rs\<close>) are input and output: their results are arguments. The database
  (\<^verbatim>\<open>storage/\<close>) is SQL; the rows written and read back are modelled with the quality store. The assembly and
  reload of the process (\<^verbatim>\<open>runtime/\<close>, \<^verbatim>\<open>config/reload.rs\<close>), the remaining timed loops (\<^verbatim>\<open>tasks/cloudflare.rs\<close>,
  \<^verbatim>\<open>tasks/maintenance.rs\<close>) and the administration socket (\<^verbatim>\<open>admin/\<close>) call the operations modelled here.
  \<^verbatim>\<open>config/autoprobe.rs\<close>, \<^verbatim>\<open>doctor/\<close>, \<^verbatim>\<open>bench/\<close>, \<^verbatim>\<open>metrics/\<close> and \<^verbatim>\<open>bin/\<close> measure, print or parse arguments. Rounding
  of floating-point numbers, logging and counters are left out.
\<close>

end
